(* ===== verification/Prelude.thy ===== *)
theory Prelude
  imports Main "HOL-Library.Word"
begin

text \<open>
  What every component of the development shares: the result type of Python code that may
  raise (\<open>Inl\<close> the exception, \<open>Inr\<close> the value), the monadic plumbing for it with and
  without a world that is threaded through the calls, the Python string operations that
  \<^verbatim>\<open>kazoo\<close> uses, and the generic list lemmas the component theories rest on.

  A Python \<^verbatim>\<open>str\<close> is represented by its UTF-8 encoding as a \<^typ>\<open>string\<close>; a
  Python \<^verbatim>\<open>bytes\<close> is a list of 8-bit words. Python integers are \<^typ>\<open>int\<close>.
\<close>

named_theorems py_simps \<open>evaluation rules for the Python operations of the prelude\<close>
named_theorems wire_simps \<open>evaluation rules for the wire format\<close>

section \<open>Exceptions as values\<close>

definition ebind :: "'e + 'a \<Rightarrow> ('a \<Rightarrow> 'e + 'b) \<Rightarrow> 'e + 'b" where
  "ebind m f = (case m of Inl e \<Rightarrow> Inl e | Inr x \<Rightarrow> f x)"

lemma ebind_simps [simp]:
  "ebind (Inl e) f = Inl e"
  "ebind (Inr x) f = f x"
  by (simp_all add: ebind_def)

lemma ebind_eq_Inr:
  "ebind m f = Inr y \<longleftrightarrow> (\<exists>x. m = Inr x \<and> f x = Inr y)"
  by (cases m) simp_all

lemma ebind_eq_Inl:
  "ebind m f = Inl e \<longleftrightarrow> m = Inl e \<or> (\<exists>x. m = Inr x \<and> f x = Inl e)"
  by (cases m) simp_all

lemma ebind_assoc [simp]: "ebind (ebind m f) g = ebind m (\<lambda>x. ebind (f x) g)"
  by (cases m) simp_all

lemma ebind_cong [fundef_cong]:
  "m = m' \<Longrightarrow> (\<And>x. m' = Inr x \<Longrightarrow> f x = f' x) \<Longrightarrow> ebind m f = ebind m' f'"
  by (cases m') simp_all

primrec emap :: "('a \<Rightarrow> 'e + 'b) \<Rightarrow> 'a list \<Rightarrow> 'e + 'b list" where
  "emap f [] = Inr []"
| "emap f (x # xs) = ebind (f x) (\<lambda>y. ebind (emap f xs) (\<lambda>ys. Inr (y # ys)))"

lemma emap_cong [fundef_cong]:
  "xs = ys \<Longrightarrow> (\<And>x. x \<in> set ys \<Longrightarrow> f x = g x) \<Longrightarrow> emap f xs = emap g ys"
  by (induction ys arbitrary: xs) (auto intro: ebind_cong)

lemma emap_Inr: "(\<And>x. x \<in> set xs \<Longrightarrow> f x = Inr (g x)) \<Longrightarrow> emap f xs = Inr (map g xs)"
  by (induction xs) simp_all

lemma emap_map: "emap f (map g xs) = emap (\<lambda>x. f (g x)) xs"
  by (induction xs) simp_all

lemma emap_Inr_length: "emap f xs = Inr ys \<Longrightarrow> length ys = length xs"
  by (induction xs arbitrary: ys) (auto simp: ebind_eq_Inr)

section \<open>Python string operations\<close>

text \<open>\<open>s.startswith(p)\<close>, \<open>s.endswith(p)\<close>, and \<open>s.split(c)\<close> / \<open>c.join(xs)\<close> for one character.\<close>

definition starts_with :: "'a list \<Rightarrow> 'a list \<Rightarrow> bool" where
  "starts_with s p \<longleftrightarrow> take (length p) s = p"

definition ends_with :: "'a list \<Rightarrow> 'a list \<Rightarrow> bool" where
  "ends_with s p \<longleftrightarrow> length p \<le> length s \<and> drop (length s - length p) s = p"

fun split_on :: "'a \<Rightarrow> 'a list \<Rightarrow> 'a list list" where
  "split_on c [] = [[]]"
| "split_on c (x # xs) =
     (if x = c then [] # split_on c xs
      else (case split_on c xs of [] \<Rightarrow> [[x]] | y # ys \<Rightarrow> (x # y) # ys))"

fun join_with :: "'a list \<Rightarrow> 'a list list \<Rightarrow> 'a list" where
  "join_with sep [] = []"
| "join_with sep [x] = x"
| "join_with sep (x # y # ys) = x @ sep @ join_with sep (y # ys)"

definition lstrip :: "'a \<Rightarrow> 'a list \<Rightarrow> 'a list" where
  "lstrip c s = dropWhile (\<lambda>x. x = c) s"

definition rstrip :: "'a \<Rightarrow> 'a list \<Rightarrow> 'a list" where
  "rstrip c s = rev (lstrip c (rev s))"

lemma starts_with_append [simp]: "starts_with (p @ s) p"
  by (simp add: starts_with_def)

lemma starts_with_Nil [simp]: "starts_with s []"
  by (simp add: starts_with_def)

lemma starts_with_iff: "starts_with s p \<longleftrightarrow> (\<exists>t. s = p @ t)"
  unfolding starts_with_def by (metis append_eq_conv_conj append_take_drop_id)

lemma starts_with_Cons [simp]:
  "starts_with (x # s) (c # p) \<longleftrightarrow> x = c \<and> starts_with s p"
  "\<not> starts_with [] (c # p)"
  by (auto simp: starts_with_def)

lemma starts_with_code [code]:
  "starts_with s [] = True" "starts_with [] (c # p) = False"
  "starts_with (x # s) (c # p) = (x = c \<and> starts_with s p)"
  by simp_all

lemma starts_with_self [simp]: "starts_with s s"
  by (simp add: starts_with_def)

lemma starts_with_hd: "starts_with s [c] \<longleftrightarrow> s \<noteq> [] \<and> hd s = c"
  by (cases s) simp_all

lemma ends_with_append [simp]: "ends_with (s @ p) p"
  by (simp add: ends_with_def)

lemma ends_with_singleton: "ends_with s [c] \<longleftrightarrow> s \<noteq> [] \<and> last s = c"
  by (cases s rule: rev_cases) (auto simp: ends_with_def)

lemma split_on_not_Nil [simp]: "split_on c s \<noteq> []"
  by (cases s) (auto split: list.splits)

lemma split_on_no_sep: "c \<notin> set s \<Longrightarrow> split_on c s = [s]"
  by (induction s) auto

lemma split_on_append_sep:
  "split_on c (s @ c # t) = split_on c s @ split_on c t"
proof (induction s)
  case Nil
  then show ?case by simp
next
  case (Cons x s)
  show ?case
    by (cases "split_on c s") (use Cons.IH in \<open>simp_all\<close>)
qed

lemma split_on_elem_no_sep: "x \<in> set (split_on c s) \<Longrightarrow> c \<notin> set x"
proof (induction s arbitrary: x)
  case Nil
  then show ?case by simp
next
  case (Cons a s)
  show ?case
  proof (cases "split_on c s")
    case Nil
    then show ?thesis by simp
  next
    case (Cons y ys)
    then have "\<And>z. z = y \<or> z \<in> set ys \<Longrightarrow> c \<notin> set z"
      using Cons.IH by auto
    with Cons Cons.prems show ?thesis by (auto split: if_splits)
  qed
qed

lemma join_with_Cons:
  "xs \<noteq> [] \<Longrightarrow> join_with sep (x # xs) = x @ sep @ join_with sep xs"
  by (cases xs) simp_all

lemma split_on_join_with:
  assumes "xs \<noteq> []" and "\<And>x. x \<in> set xs \<Longrightarrow> c \<notin> set x"
  shows "split_on c (join_with [c] xs) = xs"
  using assms
proof (induction xs rule: list_nonempty_induct)
  case (single x)
  then show ?case by (simp add: split_on_no_sep)
next
  case (cons x xs)
  then have "split_on c (join_with [c] (x # xs)) = split_on c (x @ c # join_with [c] xs)"
    by (simp add: join_with_Cons)
  also have "\<dots> = x # xs"
    using cons by (simp add: split_on_append_sep split_on_no_sep)
  finally show ?case .
qed

lemma join_with_split_on [simp]: "join_with [c] (split_on c s) = s"
proof (induction s)
  case Nil
  then show ?case by simp
next
  case (Cons x s)
  show ?case
  proof (cases "split_on c s")
    case Nil
    then show ?thesis by simp
  next
    case (Cons y ys)
    with Cons.IH show ?thesis
      by (cases ys) auto
  qed
qed

lemma join_with_eq_Nil:
  "join_with [c] xs = [] \<longleftrightarrow> xs = [] \<or> xs = [[]]"
proof (cases xs)
  case (Cons y ys)
  then show ?thesis by (cases ys) simp_all
qed simp

lemma hd_join_with: "xs \<noteq> [] \<Longrightarrow> hd xs \<noteq> [] \<Longrightarrow> hd (join_with sep xs) = hd (hd xs)"
  by (cases xs rule: list.exhaust; cases "tl xs") auto

lemma join_with_ne: "x \<in> set xs \<Longrightarrow> x \<noteq> [] \<Longrightarrow> join_with sep xs \<noteq> []"
  by (induction sep xs rule: join_with.induct) auto

lemma last_join_with:
  "xs \<noteq> [] \<Longrightarrow> last xs \<noteq> [] \<Longrightarrow> last (join_with sep xs) = last (last xs)"
proof (induction xs rule: list_nonempty_induct)
  case (cons x xs)
  then have "last (join_with sep xs) = last (last xs)" by simp
  moreover have "join_with sep xs \<noteq> []"
    using join_with_ne [of "last xs" xs sep] cons by simp
  ultimately show ?case using cons by (simp add: join_with_Cons)
qed simp

end
