(* ===== verification/Errors.thy ===== *)
theory Errors
  imports Prelude
begin

text \<open>
  The exception classes of \<^verbatim>\<open>kazoo/exceptions.py\<close> and \<^verbatim>\<open>kazoo/retry.py\<close>: the
  ZooKeeper errors with their codes, the table \<^verbatim>\<open>EXCEPTIONS\<close> that turns a reply's error
  code into a class, and the subclass relation that the \<^verbatim>\<open>except\<close> clauses test.
\<close>

section \<open>The classes\<close>

datatype zk_error =
    RolledBackError | SystemZookeeperError | RuntimeInconsistency | DataInconsistency
  | ConnectionLoss | MarshallingError | UnimplementedError | OperationTimeoutError
  | BadArgumentsError | UnknownSessionError | NewConfigNoQuorumError
  | ReconfigInProcessError | APIError | NoNodeError | NoAuthError | BadVersionError
  | NoChildrenForEphemeralsError | NodeExistsError | NotEmptyError | SessionExpiredError
  | InvalidCallbackError | InvalidACLError | AuthFailedError | SessionMovedError
  | NotReadOnlyCallError | EphemeralOnLocalSessionError | NoWatcherError
  | RequestTimeoutError | ReconfigDisabledError | SessionClosedRequireSaslError
  | QuotaExceededError | ThrottledOpError

text \<open>
  \<open>ZkErr\<close> is an instance of a class registered in the table; \<open>ConnectionClosedError\<close>
  derives from \<open>SessionExpiredError\<close> and is not registered. The last group are the Python
  exceptions the modelled code raises or catches.
\<close>

datatype exc =
    ZkErr zk_error | ConnectionClosedError
  | KazooException | CancelledError | ConfigurationError | ZookeeperStoppedError
  | ConnectionDropped | LockTimeout | WriterNotClosedException | SASLException
  | RetryFailedError | RetryInterruptedError
  | ForceRetryError | RWServerAvailable | HandlerTimeout
  | PyOSError | PyTypeError | PyValueError | PyRuntimeError | PyIndexError | PyKeyError
  | PyAssertionError | PyAttributeError | PyOverflowError | PyZeroDivisionError | PyException
  | StructError | UnicodeDecodeError

section \<open>The table of error codes\<close>

fun zk_code :: "zk_error \<Rightarrow> int" where
  "zk_code RolledBackError = 0"
| "zk_code SystemZookeeperError = -1"
| "zk_code RuntimeInconsistency = -2"
| "zk_code DataInconsistency = -3"
| "zk_code ConnectionLoss = -4"
| "zk_code MarshallingError = -5"
| "zk_code UnimplementedError = -6"
| "zk_code OperationTimeoutError = -7"
| "zk_code BadArgumentsError = -8"
| "zk_code UnknownSessionError = -12"
| "zk_code NewConfigNoQuorumError = -13"
| "zk_code ReconfigInProcessError = -14"
| "zk_code APIError = -100"
| "zk_code NoNodeError = -101"
| "zk_code NoAuthError = -102"
| "zk_code BadVersionError = -103"
| "zk_code NoChildrenForEphemeralsError = -108"
| "zk_code NodeExistsError = -110"
| "zk_code NotEmptyError = -111"
| "zk_code SessionExpiredError = -112"
| "zk_code InvalidCallbackError = -113"
| "zk_code InvalidACLError = -114"
| "zk_code AuthFailedError = -115"
| "zk_code SessionMovedError = -118"
| "zk_code NotReadOnlyCallError = -119"
| "zk_code EphemeralOnLocalSessionError = -120"
| "zk_code NoWatcherError = -121"
| "zk_code RequestTimeoutError = -122"
| "zk_code ReconfigDisabledError = -123"
| "zk_code SessionClosedRequireSaslError = -124"
| "zk_code QuotaExceededError = -125"
| "zk_code ThrottledOpError = -127"

text \<open>
  The decorator runs once per class, in the order of the file, and each run stores the
  class under its code: \<open>register\<close> is one run, \<open>EXCEPTIONS\<close> the table after all of them.
  A code that is not registered reaches the default factory, which raises.
\<close>

definition zk_classes :: "zk_error list" where
  "zk_classes =
     [RolledBackError, SystemZookeeperError, RuntimeInconsistency, DataInconsistency,
      ConnectionLoss, MarshallingError, UnimplementedError, OperationTimeoutError,
      BadArgumentsError, UnknownSessionError, NewConfigNoQuorumError,
      ReconfigInProcessError, APIError, NoNodeError, NoAuthError, BadVersionError,
      NoChildrenForEphemeralsError, NodeExistsError, NotEmptyError, SessionExpiredError,
      InvalidCallbackError, InvalidACLError, AuthFailedError, SessionMovedError,
      NotReadOnlyCallError, EphemeralOnLocalSessionError, NoWatcherError,
      RequestTimeoutError, ReconfigDisabledError, SessionClosedRequireSaslError,
      QuotaExceededError, ThrottledOpError]"

definition register :: "(int \<rightharpoonup> zk_error) \<Rightarrow> zk_error \<Rightarrow> (int \<rightharpoonup> zk_error)" where
  "register table klass = table(zk_code klass \<mapsto> klass)"

definition exceptions_table :: "int \<rightharpoonup> zk_error" where
  "exceptions_table = foldl register Map.empty zk_classes"

definition EXCEPTIONS :: "int \<Rightarrow> exc + zk_error" where
  "EXCEPTIONS code =
     (case exceptions_table code of None \<Rightarrow> Inl PyRuntimeError | Some klass \<Rightarrow> Inr klass)"

section \<open>The subclass relation\<close>

text \<open>\<open>isinstance(e, KazooException)\<close>, \<open>\<dots> ZookeeperError\<close>, \<open>\<dots> SessionExpiredError\<close>, \<open>\<dots> RetryFailedError\<close>.\<close>

fun is_kazoo_exception :: "exc \<Rightarrow> bool" where
  "is_kazoo_exception e \<longleftrightarrow>
     (case e of
        ZkErr _ \<Rightarrow> True | ConnectionClosedError \<Rightarrow> True
      | KazooException \<Rightarrow> True | CancelledError \<Rightarrow> True | ConfigurationError \<Rightarrow> True
      | ZookeeperStoppedError \<Rightarrow> True | ConnectionDropped \<Rightarrow> True | LockTimeout \<Rightarrow> True
      | WriterNotClosedException \<Rightarrow> True | SASLException \<Rightarrow> True
      | RetryFailedError \<Rightarrow> True | RetryInterruptedError \<Rightarrow> True
      | _ \<Rightarrow> False)"

fun is_zookeeper_error :: "exc \<Rightarrow> bool" where
  "is_zookeeper_error (ZkErr _) \<longleftrightarrow> True"
| "is_zookeeper_error ConnectionClosedError \<longleftrightarrow> True"
| "is_zookeeper_error _ \<longleftrightarrow> False"

fun is_session_expired :: "exc \<Rightarrow> bool" where
  "is_session_expired (ZkErr SessionExpiredError) \<longleftrightarrow> True"
| "is_session_expired ConnectionClosedError \<longleftrightarrow> True"
| "is_session_expired _ \<longleftrightarrow> False"

fun is_retry_failed :: "exc \<Rightarrow> bool" where
  "is_retry_failed RetryFailedError \<longleftrightarrow> True"
| "is_retry_failed RetryInterruptedError \<longleftrightarrow> True"
| "is_retry_failed _ \<longleftrightarrow> False"

section \<open>Lemmas\<close>

lemma zk_classes_complete: "klass \<in> set zk_classes"
  by (cases klass) (simp_all add: zk_classes_def)

lemma zk_code_distinct: "distinct (map zk_code zk_classes)"
  by (simp add: zk_classes_def)

lemma register_foldl:
  "distinct (map zk_code ks) \<Longrightarrow>
   foldl register t ks c =
     (case find (\<lambda>k. zk_code k = c) ks of None \<Rightarrow> t c | Some k \<Rightarrow> Some k)"
proof (induction ks arbitrary: t)
  case Nil
  then show ?case by simp
next
  case (Cons k ks)
  have "find (\<lambda>k. zk_code k = c) ks = None" if "zk_code k = c"
    using Cons.prems that by (auto simp: find_None_iff image_iff)
  with Cons show ?case
    by (auto simp: register_def split: option.splits)
qed

lemma exceptions_table_iff:
  "exceptions_table c = Some k \<longleftrightarrow> zk_code k = c"
proof -
  have "exceptions_table c = find (\<lambda>k. zk_code k = c) zk_classes"
    unfolding exceptions_table_def
    by (subst register_foldl [OF zk_code_distinct]) (simp split: option.splits)
  also have "\<dots> = Some k \<longleftrightarrow> zk_code k = c"
  proof
    assume "find (\<lambda>k. zk_code k = c) zk_classes = Some k"
    then show "zk_code k = c" by (auto simp: find_Some_iff)
  next
    assume c: "zk_code k = c"
    then have "find (\<lambda>k. zk_code k = c) zk_classes \<noteq> None"
      using zk_classes_complete by (auto simp: find_None_iff)
    then obtain k' where k': "find (\<lambda>k. zk_code k = c) zk_classes = Some k'"
      by blast
    then have "zk_code k' = zk_code k" by (auto simp: find_Some_iff c)
    moreover have "inj_on zk_code (set zk_classes)"
      using zk_code_distinct by (simp add: distinct_map)
    ultimately have "k' = k"
      using zk_classes_complete by (metis inj_onD)
    with k' show "find (\<lambda>k. zk_code k = c) zk_classes = Some k" by simp
  qed
  finally show ?thesis .
qed

lemma EXCEPTIONS_Inr [simp]: "EXCEPTIONS c = Inr k \<longleftrightarrow> zk_code k = c"
  by (auto simp: EXCEPTIONS_def exceptions_table_iff [symmetric] split: option.splits)

lemma EXCEPTIONS_zk_code [simp]: "EXCEPTIONS (zk_code k) = Inr k"
  by simp

lemma subclass_chain:
  "is_session_expired e \<Longrightarrow> is_zookeeper_error e"
  "is_zookeeper_error e \<Longrightarrow> is_kazoo_exception e"
  "is_retry_failed e \<Longrightarrow> is_kazoo_exception e"
  by (cases e rule: is_session_expired.cases; simp)
     (cases e; simp)+

end
