(* ===== verification/States.thy ===== *)
theory States
  imports Errors
begin

text \<open>
  \<^verbatim>\<open>kazoo/protocol/states.py\<close>: the simplified and the detailed connection states, the event
  types and the events and callbacks that are handed to a handler. A watch function and a
  state listener are known by their identity, a number.
\<close>

datatype kazoo_state = SUSPENDED | KAZOO_CONNECTED | LOST

datatype keeper_state =
    AUTH_FAILED | CONNECTED | CONNECTED_RO | CONNECTING | CLOSED | EXPIRED_SESSION

datatype event_type = CREATED | DELETED | CHANGED | CHILD | NONE

text \<open>A lookup in the dictionary \<^verbatim>\<open>EVENT_TYPE_MAP\<close>; a number it does not hold raises.\<close>

definition EVENT_TYPE_MAP :: "int \<Rightarrow> exc + event_type" where
  "EVENT_TYPE_MAP n =
     (if n = -1 then Inr NONE
      else if n = 1 then Inr CREATED
      else if n = 2 then Inr DELETED
      else if n = 3 then Inr CHANGED
      else if n = 4 then Inr CHILD
      else Inl PyKeyError)"

record watched_event =
  ev_type :: event_type
  ev_state :: keeper_state
  ev_path :: "string option"

text \<open>\<^verbatim>\<open>Callback\<close>: the type is always \<^verbatim>\<open>watch\<close> and the one argument is the event.\<close>

record watch_callback =
  cb_func :: nat
  cb_event :: watched_event

section \<open>Transition systems\<close>

text \<open>
  Every stateful component is run by a sequence of events. The locale is the interface
  between a component's step function and the proofs about its runs: a property that one
  step keeps holds after any sequence of steps.
\<close>

locale transition_invariant =
  fixes step :: "'s \<Rightarrow> 'e \<Rightarrow> 's"
    and inv :: "'s \<Rightarrow> bool"
  assumes step_inv: "inv s \<Longrightarrow> inv (step s e)"
begin

lemma run_inv: "inv s \<Longrightarrow> inv (foldl step s es)"
  by (induction es arbitrary: s) (simp_all add: step_inv)

lemma prefix_inv: "inv s \<Longrightarrow> inv (foldl step s (take n es))"
  by (rule run_inv)

end

text \<open>
  A machine that also keeps a log of what it was given: \<open>given\<close> collects from the events what
  they submit, \<open>seen\<close> reads from the state what was submitted so far.
\<close>

fun run_given :: "('s \<Rightarrow> 'e \<Rightarrow> 's) \<Rightarrow> ('s \<Rightarrow> 'e \<Rightarrow> 'x list) \<Rightarrow> 's \<Rightarrow> 'e list \<Rightarrow> 'x list" where
  "run_given step given s [] = []"
| "run_given step given s (e # es) = given s e @ run_given step given (step s e) es"

lemma run_given_all: "run_given step (\<lambda>_. given) s es = concat (map given es)"
  by (induction es arbitrary: s) simp_all

locale logged_machine = transition_invariant step inv
  for step :: "'s \<Rightarrow> 'e \<Rightarrow> 's" and inv :: "'s \<Rightarrow> bool" +
  fixes given :: "'s \<Rightarrow> 'e \<Rightarrow> 'x list"
    and seen :: "'s \<Rightarrow> 'x list"
  assumes step_seen: "inv s \<Longrightarrow> seen (step s e) = seen s @ given s e"
begin

lemma run_seen: "inv s \<Longrightarrow> seen (foldl step s es) = seen s @ run_given step given s es"
  by (induction es arbitrary: s) (simp_all add: step_seen step_inv)

end

section \<open>Step relations\<close>

text \<open>
  A system of several clients and a server is a relation between states. The locale turns a
  predicate that every step keeps into one that holds in every reachable state.
\<close>

locale relation_invariant =
  fixes step :: "'s \<Rightarrow> 's \<Rightarrow> bool" and inv :: "'s \<Rightarrow> bool"
  assumes step_keeps: "step s s' \<Longrightarrow> inv s \<Longrightarrow> inv s'"
begin

lemma reachable_inv:
  assumes "step\<^sup>*\<^sup>* s s'" and "inv s"
  shows "inv s'"
  using assms by (induction rule: rtranclp_induct) (auto intro: step_keeps)

end

end
