(* ===== verification/Handlers.thy ===== *)
theory Handlers
  imports States
begin

text \<open>
  \<^verbatim>\<open>kazoo/handlers/utils.py\<close> and \<^verbatim>\<open>kazoo/handlers/threading.py\<close>: the asynchronous result a
  caller waits on, the wrappers that fill it, the handler with its two work queues and their
  workers, and the selector-based replacement of \<^verbatim>\<open>select\<close>.

  Callbacks are known by their identity and do not re-enter the handler: running one is
  recorded in a log, in the order in which the code runs them.
\<close>

section \<open>The handler\<close>

text \<open>
  What is put on a work queue: \<open>RunCompletion c i\<close> is \<open>partial(c, result i)\<close>, \<open>RunWatch\<close> the
  callback of \<^verbatim>\<open>dispatch_callback\<close>, \<open>STOP\<close> the sentinel.
\<close>

datatype work = RunCompletion nat nat | RunWatch watch_callback | STOP

record handler =
  h_running :: bool
  completion_queue :: "work list"
  callback_queue :: "work list"
  h_workers :: nat
  ran_completion :: "work list"
  ran_watch :: "work list"
  ran_directly :: "work list"

definition handler_init :: handler where
  "handler_init = \<lparr>h_running = False, completion_queue = [], callback_queue = [], h_workers = 0,
     ran_completion = [], ran_watch = [], ran_directly = []\<rparr>"

text \<open>
  \<^verbatim>\<open>start\<close> and \<^verbatim>\<open>stop\<close> when no other thread uses the handler meanwhile; the statements one by one,
  with the other threads in between, follow below. \<^verbatim>\<open>stop\<close> puts the sentinel on both queues, joins
  both workers, each of which runs what was queued before it, and replaces the queues.
\<close>

fun thread_worker :: "work list \<Rightarrow> work list" where
  "thread_worker [] = []"
| "thread_worker (func # work_queue) =
     (if func = STOP then [] else func # thread_worker work_queue)"

definition handler_start :: "handler \<Rightarrow> handler" where
  "handler_start h = (if h_running h then h else h\<lparr>h_running := True, h_workers := h_workers h + 2\<rparr>)"

definition handler_stop :: "handler \<Rightarrow> handler" where
  "handler_stop h =
     (if \<not> h_running h then h
      else let completion = completion_queue h @ [STOP]; callback = callback_queue h @ [STOP]
        in h\<lparr>h_running := False,
             ran_completion := ran_completion h @ thread_worker completion,
             ran_watch := ran_watch h @ thread_worker callback,
             h_workers := 0, completion_queue := [], callback_queue := []\<rparr>)"

definition dispatch_callback :: "watch_callback \<Rightarrow> 'a handler_scheme \<Rightarrow> 'a handler_scheme" where
  "dispatch_callback callback h = h\<lparr>callback_queue := callback_queue h @ [RunWatch callback]\<rparr>"

section \<open>Starting and stopping beside other threads\<close>

text \<open>
  The lock \<^verbatim>\<open>_state_change\<close> is held from the first statement of \<^verbatim>\<open>start\<close> or \<^verbatim>\<open>stop\<close> to the last;
  \<open>lh_next\<close> names what its holder does next. Dispatching a callback takes no lock; reading the queue
  and putting the callback on it are one step.
\<close>

datatype lock_holder =
    NoHolder | SpawnCallbackWorker | SetRunning
  | PutCompletionStop | PutCallbackStop | JoinWorkers | ClearCompletions

record live_handler = handler +
  lh_next :: lock_holder
  lh_completion_worker :: bool
  lh_callback_worker :: bool

definition live_init :: live_handler where
  "live_init = \<lparr>h_running = False, completion_queue = [], callback_queue = [], h_workers = 0,
     ran_completion = [], ran_watch = [], ran_directly = [], lh_next = NoHolder,
     lh_completion_worker = False, lh_callback_worker = False\<rparr>"

definition begin_start :: "live_handler \<Rightarrow> live_handler" where
  "begin_start h =
     (if lh_next h = NoHolder \<and> \<not> h_running h
      then h\<lparr>lh_completion_worker := True, h_workers := h_workers h + 1, lh_next := SpawnCallbackWorker\<rparr> else h)"

definition begin_stop :: "live_handler \<Rightarrow> live_handler" where
  "begin_stop h =
     (if lh_next h = NoHolder \<and> h_running h then h\<lparr>h_running := False, lh_next := PutCompletionStop\<rparr> else h)"

text \<open>The next statement of the lock's holder; the join waits for both workers.\<close>

definition holder_step :: "live_handler \<Rightarrow> live_handler" where
  "holder_step h =
     (case lh_next h of
        NoHolder \<Rightarrow> h
      | SpawnCallbackWorker \<Rightarrow> h\<lparr>lh_callback_worker := True, h_workers := h_workers h + 1, lh_next := SetRunning\<rparr>
      | SetRunning \<Rightarrow> h\<lparr>h_running := True, lh_next := NoHolder\<rparr>
      | PutCompletionStop \<Rightarrow> h\<lparr>completion_queue := completion_queue h @ [STOP], lh_next := PutCallbackStop\<rparr>
      | PutCallbackStop \<Rightarrow> h\<lparr>callback_queue := callback_queue h @ [STOP], lh_next := JoinWorkers\<rparr>
      | JoinWorkers \<Rightarrow>
          if lh_completion_worker h \<or> lh_callback_worker h then h
          else h\<lparr>h_workers := 0, callback_queue := [], lh_next := ClearCompletions\<rparr>
      | ClearCompletions \<Rightarrow> h\<lparr>completion_queue := [], lh_next := NoHolder\<rparr>)"

text \<open>One turn of a worker's loop; a worker that waits for an item does nothing.\<close>

definition worker_turn_completion :: "live_handler \<Rightarrow> live_handler" where
  "worker_turn_completion h =
     (if \<not> lh_completion_worker h then h
      else case completion_queue h of
          [] \<Rightarrow> h
        | func # rest \<Rightarrow>
            if func = STOP then h\<lparr>completion_queue := rest, lh_completion_worker := False\<rparr>
            else h\<lparr>completion_queue := rest, ran_completion := ran_completion h @ [func]\<rparr>)"

definition worker_turn_callback :: "live_handler \<Rightarrow> live_handler" where
  "worker_turn_callback h =
     (if \<not> lh_callback_worker h then h
      else case callback_queue h of
          [] \<Rightarrow> h
        | func # rest \<Rightarrow>
            if func = STOP then h\<lparr>callback_queue := rest, lh_callback_worker := False\<rparr>
            else h\<lparr>callback_queue := rest, ran_watch := ran_watch h @ [func]\<rparr>)"

section \<open>AsyncResult\<close>

text \<open>
  \<open>ar_exception\<close> is \<^term>\<open>None\<close> for the sentinel \<^verbatim>\<open>_NONE\<close>, \<^term>\<open>Some None\<close> for a
  successful result.
\<close>

record 'v async_result =
  ar_exception :: "exc option option"
  ar_value :: "'v option"
  ar_callbacks :: "nat list"

definition async_init :: "'v async_result" where
  "async_init = \<lparr>ar_exception = None, ar_value = None, ar_callbacks = []\<rparr>"

definition ar_ready :: "'v async_result \<Rightarrow> bool" where
  "ar_ready a \<longleftrightarrow> ar_exception a \<noteq> None"

definition ar_successful :: "'v async_result \<Rightarrow> bool" where
  "ar_successful a \<longleftrightarrow> ar_exception a = Some None"

text \<open>\<^verbatim>\<open>_do_callbacks\<close> of the result \<open>i\<close>: queued on a running handler, called right away otherwise.\<close>

definition do_callback :: "nat \<Rightarrow> 'a handler_scheme \<Rightarrow> nat \<Rightarrow> 'a handler_scheme" where
  "do_callback i h callback =
     (if h_running h then h\<lparr>completion_queue := completion_queue h @ [RunCompletion callback i]\<rparr>
      else h\<lparr>ran_directly := ran_directly h @ [RunCompletion callback i]\<rparr>)"

definition do_callbacks :: "nat \<Rightarrow> 'v async_result \<Rightarrow> handler \<Rightarrow> handler" where
  "do_callbacks i a h = foldl (do_callback i) h (ar_callbacks a)"

definition ar_set :: "nat \<Rightarrow> 'v option \<Rightarrow> 'v async_result \<Rightarrow> handler \<Rightarrow> 'v async_result \<times> handler" where
  "ar_set i v a h =
     (let a = a\<lparr>ar_value := v, ar_exception := Some None\<rparr> in (a, do_callbacks i a h))"

definition ar_set_exception :: "nat \<Rightarrow> exc \<Rightarrow> 'v async_result \<Rightarrow> handler \<Rightarrow> 'v async_result \<times> handler" where
  "ar_set_exception i e a h =
     (let a = a\<lparr>ar_exception := Some (Some e)\<rparr> in (a, do_callbacks i a h))"

text \<open>
  \<^verbatim>\<open>get\<close>: \<open>later\<close> is the result as it is when the wait on the condition returns, after a
  notification or the time-out.
\<close>

definition ar_outcome :: "'v async_result \<Rightarrow> exc + 'v option" where
  "ar_outcome a =
     (case ar_exception a of
        None \<Rightarrow> Inl HandlerTimeout
      | Some None \<Rightarrow> Inr (ar_value a)
      | Some (Some e) \<Rightarrow> Inl e)"

definition ar_get :: "bool \<Rightarrow> 'v async_result \<Rightarrow> 'v async_result \<Rightarrow> exc + 'v option" where
  "ar_get block a later =
     (if ar_ready a then ar_outcome a
      else if block then ar_outcome later
      else Inl HandlerTimeout)"

definition ar_wait :: "'v async_result \<Rightarrow> 'v async_result \<Rightarrow> bool" where
  "ar_wait a later = (if ar_ready a then True else ar_ready later)"

definition ar_rawlink :: "nat \<Rightarrow> nat \<Rightarrow> 'v async_result \<Rightarrow> handler \<Rightarrow> 'v async_result \<times> handler" where
  "ar_rawlink i callback a h =
     (let a = (if callback \<in> set (ar_callbacks a) then a
               else a\<lparr>ar_callbacks := ar_callbacks a @ [callback]\<rparr>)
      in (a, if ar_ready a then do_callbacks i a h else h))"

definition ar_unlink :: "nat \<Rightarrow> 'v async_result \<Rightarrow> 'v async_result" where
  "ar_unlink callback a =
     (if ar_ready a then a else a\<lparr>ar_callbacks := remove1 callback (ar_callbacks a)\<rparr>)"

text \<open>\<^verbatim>\<open>capture_exceptions\<close> and \<^verbatim>\<open>wrap\<close> around a function whose outcome is known.\<close>

definition capture_exceptions :: "nat \<Rightarrow> exc + 'b option \<Rightarrow> 'v async_result \<Rightarrow> handler
    \<Rightarrow> 'b option \<times> 'v async_result \<times> handler" where
  "capture_exceptions i outcome a h =
     (case outcome of
        Inr r \<Rightarrow> (r, a, h)
      | Inl e \<Rightarrow> (None, ar_set_exception i e a h))"

definition async_wrap :: "nat \<Rightarrow> exc + 'v option \<Rightarrow> 'v async_result \<Rightarrow> handler
    \<Rightarrow> 'v option \<times> 'v async_result \<times> handler" where
  "async_wrap i outcome a h =
     (case outcome of
        Inr (Some v) \<Rightarrow> (Some v, ar_set i (Some v) a h)
      | Inr None \<Rightarrow> (None, a, h)
      | Inl e \<Rightarrow> capture_exceptions i (Inl e) a h)"

section \<open>select on top of a selector\<close>

text \<open>
  A file object is a descriptor or an object whose \<^verbatim>\<open>fileno()\<close> gives one (or fails). An event
  mask is a set of \<open>EVENT_READ = 1\<close> and \<open>EVENT_WRITE = 2\<close>, as a number with bitwise or.
\<close>

datatype fileobj = Fd int | FileObj nat "int option"

definition fileobj_to_fd :: "fileobj \<Rightarrow> exc + int" where
  "fileobj_to_fd f =
     ebind (case f of Fd fd \<Rightarrow> Inr fd | FileObj _ (Some fd) \<Rightarrow> Inr fd | FileObj _ None \<Rightarrow> Inl PyTypeError)
       (\<lambda>fd. if fd < 0 then Inl PyTypeError else Inr fd)"

text \<open>
  The two dictionaries that are filled for every object of the read list, then of the write
  list: the events of a descriptor and the objects that were given for it.
\<close>

type_synonym fd_table = "(int \<Rightarrow> int) \<times> (int \<Rightarrow> fileobj list)"

definition add_fileobj :: "int \<Rightarrow> fd_table \<Rightarrow> fileobj \<Rightarrow> exc + fd_table" where
  "add_fileobj event t f =
     ebind (fileobj_to_fd f) (\<lambda>fd.
       Inr ((fst t)(fd := or (fst t fd) event), (snd t)(fd := snd t fd @ [f])))"

fun add_fileobjs :: "int \<Rightarrow> fd_table \<Rightarrow> fileobj list \<Rightarrow> exc + fd_table" where
  "add_fileobjs event t [] = Inr t"
| "add_fileobjs event t (f # fs) = ebind (add_fileobj event t f) (\<lambda>t. add_fileobjs event t fs)"

definition selector_table :: "fileobj list \<Rightarrow> fileobj list \<Rightarrow> exc + fd_table" where
  "selector_table rlist wlist =
     ebind (add_fileobjs 1 (\<lambda>_. 0, \<lambda>_. []) rlist) (\<lambda>t. add_fileobjs 2 t wlist)"

text \<open>The loop over what the selector reports as ready.\<close>

definition sort_ready :: "(int \<Rightarrow> fileobj list) \<Rightarrow> fileobj list \<times> fileobj list \<Rightarrow> int \<times> int
    \<Rightarrow> fileobj list \<times> fileobj list" where
  "sort_ready fd_fileobjs rw info =
     (if and (snd info) 1 \<noteq> 0 then (fst rw @ fd_fileobjs (fst info), snd rw)
      else if and (snd info) 2 \<noteq> 0 then (fst rw, snd rw @ fd_fileobjs (fst info))
      else rw)"

text \<open>
  \<^verbatim>\<open>selector_select\<close>: the selector is the operating system's, an argument that maps the
  registered events to the ready descriptors and their events, or fails.
\<close>

definition selector_select :: "fileobj list \<Rightarrow> fileobj list \<Rightarrow> int option
    \<Rightarrow> ((int \<Rightarrow> int) \<Rightarrow> exc + (int \<times> int) list)
    \<Rightarrow> exc + (fileobj list \<times> fileobj list \<times> fileobj list)" where
  "selector_select rlist wlist timeout selector =
     (if (case timeout of Some t \<Rightarrow> t < 0 | None \<Rightarrow> False) then Inl PyValueError
      else ebind (selector_table rlist wlist) (\<lambda>t.
           ebind (selector (fst t)) (\<lambda>ready.
             let rw = foldl (sort_ready (snd t)) ([], []) ready
             in Inr (fst rw, snd rw, []))))"

section \<open>Properties of the handler\<close>

text \<open>
  \<open>LCompletion\<close> is a callback of a result, \<open>LLateCompletion\<close> one whose thread has seen a running
  handler and puts it on the queue later.
\<close>

datatype live_event =
    LStart | LStop | LHolder | LCompletion nat nat | LLateCompletion nat nat | LDispatch watch_callback
  | LTurnCompletion | LTurnCallback

fun live_step :: "live_handler \<Rightarrow> live_event \<Rightarrow> live_handler" where
  "live_step h LStart = begin_start h"
| "live_step h LStop = begin_stop h"
| "live_step h LHolder = holder_step h"
| "live_step h (LCompletion i callback) = do_callback i h callback"
| "live_step h (LLateCompletion i callback) = h\<lparr>completion_queue := completion_queue h @ [RunCompletion callback i]\<rparr>"
| "live_step h (LDispatch callback) = dispatch_callback callback h"
| "live_step h LTurnCompletion = worker_turn_completion h"
| "live_step h LTurnCallback = worker_turn_callback h"

text \<open>
  Only one window loses callbacks: between the sentinel on the callback queue and the replacement
  of that queue. \<open>due\<close> is what is queued and will still be run.
\<close>

fun on_time :: "live_handler \<Rightarrow> live_event \<Rightarrow> work list" where
  "on_time h (LDispatch callback) = (if lh_next h = JoinWorkers then [] else [RunWatch callback])"
| "on_time h _ = []"

definition before_stop :: "work list \<Rightarrow> work list" where
  "before_stop q = takeWhile (\<lambda>x. x \<noteq> STOP) q"

definition due :: "live_handler \<Rightarrow> work list" where
  "due h = (if lh_next h \<noteq> JoinWorkers then callback_queue h
     else if lh_callback_worker h then before_stop (callback_queue h) else [])"

text \<open>The workers and the sentinels at each statement of the lock's holder.\<close>

definition live_ok :: "live_handler \<Rightarrow> bool" where
  "live_ok h \<longleftrightarrow>
     (h_running h \<longrightarrow> lh_next h = NoHolder \<and> lh_completion_worker h \<and> lh_callback_worker h)
   \<and> (lh_next h = SpawnCallbackWorker \<longrightarrow> lh_completion_worker h)
   \<and> (lh_next h = SetRunning \<longrightarrow> lh_completion_worker h \<and> lh_callback_worker h)
   \<and> (lh_next h = PutCompletionStop \<longrightarrow> lh_completion_worker h)
   \<and> (lh_next h \<in> {PutCompletionStop, PutCallbackStop} \<longrightarrow> lh_callback_worker h)
   \<and> (lh_next h \<in> {PutCallbackStop, JoinWorkers} \<and> lh_completion_worker h \<longrightarrow> STOP \<in> set (completion_queue h))
   \<and> (lh_next h = JoinWorkers \<and> lh_callback_worker h \<longrightarrow> STOP \<in> set (callback_queue h))
   \<and> (lh_next h \<notin> {PutCallbackStop, JoinWorkers, ClearCompletions} \<longrightarrow> STOP \<notin> set (completion_queue h))
   \<and> (lh_next h \<noteq> JoinWorkers \<longrightarrow> STOP \<notin> set (callback_queue h))"

lemmas live_defs = begin_start_def begin_stop_def holder_step_def dispatch_callback_def do_callback_def
  worker_turn_completion_def worker_turn_callback_def

lemma before_stop_simps [simp]:
  "STOP \<notin> set q \<Longrightarrow> before_stop q = q" "STOP \<notin> set q \<Longrightarrow> before_stop (q @ STOP # r) = q"
  "STOP \<in> set q \<Longrightarrow> before_stop (q @ r) = before_stop q"
  "before_stop (x # q) = (if x = STOP then [] else x # before_stop q)"
  by (auto simp: before_stop_def takeWhile_append)

lemma live_step_ok:
  assumes "live_ok h"
  shows "live_ok (live_step h e)"
proof (cases e)
  case LHolder
  then show ?thesis using assms by (cases "lh_next h") (auto simp: live_ok_def holder_step_def)
next
  case LTurnCompletion
  then show ?thesis using assms
    by (cases "lh_next h"; cases "completion_queue h"; cases "lh_completion_worker h")
      (auto simp: live_ok_def worker_turn_completion_def)
next
  case LTurnCallback
  then show ?thesis using assms
    by (cases "lh_next h"; cases "callback_queue h"; cases "lh_callback_worker h")
      (auto simp: live_ok_def worker_turn_callback_def)
qed (use assms in \<open>auto simp: live_ok_def begin_start_def begin_stop_def dispatch_callback_def do_callback_def\<close>)

lemma live_step_seen:
  assumes "live_ok h"
  shows "ran_watch (live_step h e) @ due (live_step h e) = (ran_watch h @ due h) @ on_time h e"
proof (cases e)
  case LHolder
  then show ?thesis using assms by (cases "lh_next h") (auto simp: live_ok_def due_def holder_step_def)
next
  case LTurnCompletion
  then show ?thesis by (cases "completion_queue h") (auto simp: due_def worker_turn_completion_def)
next
  case LTurnCallback
  then show ?thesis using assms
    by (cases "lh_next h"; cases "callback_queue h"; cases "lh_callback_worker h")
      (auto simp: live_ok_def due_def worker_turn_callback_def)
qed (use assms in \<open>auto simp: live_ok_def due_def begin_start_def begin_stop_def dispatch_callback_def do_callback_def\<close>)

interpretation live_handler: logged_machine live_step live_ok on_time "\<lambda>h. ran_watch h @ due h"
  by unfold_locales (rule live_step_ok live_step_seen; assumption)+

lemma live_init_ok: "live_ok live_init" "ran_watch live_init @ due live_init = []"
  by (simp_all add: live_init_def live_ok_def due_def)

text \<open>The workers reach their sentinels, so the join ends when the callbacks return.\<close>

lemma turns_idle:
  "\<not> lh_completion_worker h \<Longrightarrow> foldl live_step h (replicate n LTurnCompletion) = h"
  "\<not> lh_callback_worker h \<Longrightarrow> foldl live_step h (replicate n LTurnCallback) = h"
  by (induction n) (simp_all add: worker_turn_completion_def worker_turn_callback_def)

lemma turns_completion:
  "lh_completion_worker h \<longrightarrow> STOP \<in> set (completion_queue h) \<Longrightarrow>
   \<exists>q r. foldl live_step h (replicate (length (completion_queue h)) LTurnCompletion) =
     h\<lparr>completion_queue := q, ran_completion := r, lh_completion_worker := False\<rparr>"
proof (induction "completion_queue h" arbitrary: h)
  case Nil
  then show ?case by (intro exI [of _ "completion_queue h"] exI [of _ "ran_completion h"]) simp
next
  case (Cons x xs)
  show ?case
  proof (cases "lh_completion_worker h")
    case False
    then show ?thesis by (intro exI [of _ "completion_queue h"] exI [of _ "ran_completion h"]) (simp add: turns_idle)
  next
    case True
    let ?h = "worker_turn_completion h"
    have turn: "?h = (if x = STOP then h\<lparr>completion_queue := xs, lh_completion_worker := False\<rparr>
        else h\<lparr>completion_queue := xs, ran_completion := ran_completion h @ [x]\<rparr>)"
      using True Cons.hyps(2) [symmetric] by (simp add: worker_turn_completion_def)
    have "lh_completion_worker ?h \<longrightarrow> STOP \<in> set (completion_queue ?h)"
      using Cons.prems True Cons.hyps(2) [symmetric] by (auto simp: turn)
    then obtain q r where "foldl live_step ?h (replicate (length xs) LTurnCompletion) =
        ?h\<lparr>completion_queue := q, ran_completion := r, lh_completion_worker := False\<rparr>"
      using Cons.hyps(1) [of ?h] by (auto simp: turn split: if_splits)
    moreover have "?h\<lparr>completion_queue := q, ran_completion := r, lh_completion_worker := False\<rparr> =
        h\<lparr>completion_queue := q, ran_completion := r, lh_completion_worker := False\<rparr>" by (simp add: turn)
    ultimately show ?thesis using Cons.hyps(2) [symmetric] by auto
  qed
qed

lemma turns_callback:
  "lh_callback_worker h \<longrightarrow> STOP \<in> set (callback_queue h) \<Longrightarrow>
   \<exists>q r. foldl live_step h (replicate (length (callback_queue h)) LTurnCallback) =
     h\<lparr>callback_queue := q, ran_watch := r, lh_callback_worker := False\<rparr>"
proof (induction "callback_queue h" arbitrary: h)
  case Nil
  then show ?case by (intro exI [of _ "callback_queue h"] exI [of _ "ran_watch h"]) simp
next
  case (Cons x xs)
  show ?case
  proof (cases "lh_callback_worker h")
    case False
    then show ?thesis by (intro exI [of _ "callback_queue h"] exI [of _ "ran_watch h"]) (simp add: turns_idle)
  next
    case True
    let ?h = "worker_turn_callback h"
    have turn: "?h = (if x = STOP then h\<lparr>callback_queue := xs, lh_callback_worker := False\<rparr>
        else h\<lparr>callback_queue := xs, ran_watch := ran_watch h @ [x]\<rparr>)"
      using True Cons.hyps(2) [symmetric] by (simp add: worker_turn_callback_def)
    have "lh_callback_worker ?h \<longrightarrow> STOP \<in> set (callback_queue ?h)"
      using Cons.prems True Cons.hyps(2) [symmetric] by (auto simp: turn)
    then obtain q r where "foldl live_step ?h (replicate (length xs) LTurnCallback) =
        ?h\<lparr>callback_queue := q, ran_watch := r, lh_callback_worker := False\<rparr>"
      using Cons.hyps(1) [of ?h] by (auto simp: turn split: if_splits)
    moreover have "?h\<lparr>callback_queue := q, ran_watch := r, lh_callback_worker := False\<rparr> =
        h\<lparr>callback_queue := q, ran_watch := r, lh_callback_worker := False\<rparr>" by (simp add: turn)
    ultimately show ?thesis using Cons.hyps(2) [symmetric] by auto
  qed
qed

definition join_turns :: "live_handler \<Rightarrow> live_event list" where
  "join_turns h = replicate (length (completion_queue h)) LTurnCompletion
     @ replicate (length (callback_queue h)) LTurnCallback @ [LHolder]"

lemma join_ends:
  assumes "live_ok h" and "lh_next h = JoinWorkers"
  shows "lh_next (foldl live_step h (join_turns h)) = ClearCompletions"
proof -
  have c: "lh_completion_worker h \<longrightarrow> STOP \<in> set (completion_queue h)"
    and w: "lh_callback_worker h \<longrightarrow> STOP \<in> set (callback_queue h)"
    using assms by (simp_all add: live_ok_def)
  obtain q r where q: "foldl live_step h (replicate (length (completion_queue h)) LTurnCompletion) =
      h\<lparr>completion_queue := q, ran_completion := r, lh_completion_worker := False\<rparr>" (is "_ = ?h")
    using turns_completion [OF c] by blast
  obtain q' r' where "foldl live_step ?h (replicate (length (callback_queue ?h)) LTurnCallback) =
      ?h\<lparr>callback_queue := q', ran_watch := r', lh_callback_worker := False\<rparr>"
    using turns_callback [of ?h] w by auto
  then show ?thesis using assms(2) q by (simp add: join_turns_def holder_step_def)
qed

text \<open>
  C39. Watch callbacks run in the order in which they were dispatched, each once, whatever other
  threads do between the statements of \<^verbatim>\<open>start\<close> and \<^verbatim>\<open>stop\<close>: what the callback worker has run,
  followed by what is queued and will be run, is what was dispatched, without the callbacks that
  were dispatched after \<^verbatim>\<open>stop\<close>'s sentinel and before the queue was replaced. When the worker has
  ended, all of the former has run; and the join ends after as many turns as there are items, when
  the callbacks return.
\<close>

theorem handler_runs_in_order:
  assumes "h = foldl live_step live_init es"
  shows "ran_watch h @ due h = run_given live_step on_time live_init es
    \<and> (lh_next h = JoinWorkers \<and> \<not> lh_callback_worker h \<longrightarrow> ran_watch h = run_given live_step on_time live_init es)
    \<and> (lh_next h = JoinWorkers \<longrightarrow> lh_next (foldl live_step h (join_turns h)) = ClearCompletions)"
proof -
  have log: "ran_watch h @ due h = run_given live_step on_time live_init es"
    using live_handler.run_seen [OF live_init_ok(1), of es] live_init_ok(2) by (simp add: assms)
  have "live_ok h" using live_handler.run_inv [OF live_init_ok(1)] by (simp add: assms)
  then show ?thesis using log join_ends by (auto simp: due_def)
qed

text \<open>
  Three callbacks before the sentinel run; a fourth, dispatched while \<^verbatim>\<open>stop\<close> waits for the workers,
  is thrown away with the queue.
\<close>

definition demo_callback :: "nat \<Rightarrow> watch_callback" where
  "demo_callback n = \<lparr>cb_func = n, cb_event = \<lparr>ev_type = CREATED, ev_state = CONNECTED, ev_path = None\<rparr>\<rparr>"

definition demo_stopping :: "live_event list" where
  "demo_stopping = [LDispatch (demo_callback 1), LStart, LHolder, LHolder, LDispatch (demo_callback 2), LTurnCallback,
     LStop, LDispatch (demo_callback 3), LHolder, LHolder, LDispatch (demo_callback 4)]"

theorem handler_runs_in_order_witness:
  "ran_watch (foldl live_step live_init (demo_stopping @ replicate 3 LTurnCallback)) =
     map (RunWatch \<circ> demo_callback) [1, 2, 3]
   \<and> lh_next (foldl live_step (foldl live_step live_init demo_stopping) (join_turns (foldl live_step live_init demo_stopping)))
     = ClearCompletions"
proof -
  let ?h = "foldl live_step live_init (demo_stopping @ replicate 3 LTurnCallback)"
  have "lh_next ?h = JoinWorkers" "\<not> lh_callback_worker ?h" "lh_next (foldl live_step live_init demo_stopping) = JoinWorkers"
    by code_simp+
  moreover have "run_given live_step on_time live_init (demo_stopping @ replicate 3 LTurnCallback) =
     map (RunWatch \<circ> demo_callback) [1, 2, 3]" by code_simp
  ultimately show ?thesis
    using handler_runs_in_order [of ?h "demo_stopping @ replicate 3 LTurnCallback"]
      handler_runs_in_order [of "foldl live_step live_init demo_stopping" demo_stopping] by simp
qed

text \<open>Without other threads the statements of \<^verbatim>\<open>start\<close> and \<^verbatim>\<open>stop\<close> come to \<open>handler_start\<close> and \<open>handler_stop\<close>.\<close>

definition live_of :: "handler \<Rightarrow> live_handler" where
  "live_of h = \<lparr>h_running = h_running h, completion_queue = completion_queue h, callback_queue = callback_queue h,
     h_workers = h_workers h, ran_completion = ran_completion h, ran_watch = ran_watch h, ran_directly = ran_directly h,
     lh_next = NoHolder, lh_completion_worker = h_running h, lh_callback_worker = h_running h\<rparr>"

lemma handler_start_alone:
  "\<not> h_running h \<Longrightarrow> foldl live_step (live_of h) [LStart, LHolder, LHolder] = live_of (handler_start h)"
  by (simp add: live_of_def live_defs handler_start_def)

lemma turns_run_completion:
  "lh_completion_worker h \<Longrightarrow> completion_queue h = q @ [STOP] \<Longrightarrow> STOP \<notin> set q \<Longrightarrow>
   foldl live_step h (replicate (Suc (length q)) LTurnCompletion) =
     h\<lparr>completion_queue := [], ran_completion := ran_completion h @ q, lh_completion_worker := False\<rparr>"
proof (induction q arbitrary: h)
  case (Cons x q)
  have "worker_turn_completion h = h\<lparr>completion_queue := q @ [STOP], ran_completion := ran_completion h @ [x]\<rparr>"
    using Cons.prems by (auto simp: worker_turn_completion_def)
  then show ?case using Cons.IH [of "worker_turn_completion h"] Cons.prems by simp
qed (simp add: worker_turn_completion_def)

lemma turns_run_callback:
  "lh_callback_worker h \<Longrightarrow> callback_queue h = q @ [STOP] \<Longrightarrow> STOP \<notin> set q \<Longrightarrow>
   foldl live_step h (replicate (Suc (length q)) LTurnCallback) =
     h\<lparr>callback_queue := [], ran_watch := ran_watch h @ q, lh_callback_worker := False\<rparr>"
proof (induction q arbitrary: h)
  case (Cons x q)
  have "worker_turn_callback h = h\<lparr>callback_queue := q @ [STOP], ran_watch := ran_watch h @ [x]\<rparr>"
    using Cons.prems by (auto simp: worker_turn_callback_def)
  then show ?case using Cons.IH [of "worker_turn_callback h"] Cons.prems by simp
qed (simp add: worker_turn_callback_def)

lemma thread_worker_stop [simp]: "STOP \<notin> set q \<Longrightarrow> thread_worker (q @ [STOP]) = q"
  by (induction q) auto

lemma handler_stop_alone:
  assumes "h_running h" and "STOP \<notin> set (completion_queue h)" and "STOP \<notin> set (callback_queue h)"
  shows "foldl live_step (live_of h) ([LStop, LHolder, LHolder] @ replicate (Suc (length (completion_queue h))) LTurnCompletion
      @ replicate (Suc (length (callback_queue h))) LTurnCallback @ [LHolder, LHolder]) = live_of (handler_stop h)"
proof -
  let ?s = "(live_of h)\<lparr>h_running := False, completion_queue := completion_queue h @ [STOP],
      callback_queue := callback_queue h @ [STOP], lh_next := JoinWorkers\<rparr>"
  let ?s1 = "?s\<lparr>completion_queue := [], ran_completion := ran_completion h @ completion_queue h, lh_completion_worker := False\<rparr>"
  let ?s2 = "?s1\<lparr>callback_queue := [], ran_watch := ran_watch h @ callback_queue h, lh_callback_worker := False\<rparr>"
  have start: "foldl live_step (live_of h) [LStop, LHolder, LHolder] = ?s"
    using assms(1) by (simp add: live_of_def begin_stop_def holder_step_def)
  have c: "foldl live_step ?s (replicate (Suc (length (completion_queue h))) LTurnCompletion) = ?s1"
    by (rule trans [OF turns_run_completion]) (simp_all add: live_of_def assms)
  have w: "foldl live_step ?s1 (replicate (Suc (length (callback_queue h))) LTurnCallback) = ?s2"
    by (rule trans [OF turns_run_callback]) (simp_all add: live_of_def assms)
  have "foldl live_step ?s2 [LHolder, LHolder] = live_of (handler_stop h)"
    using assms by (simp add: live_of_def holder_step_def handler_stop_def Let_def)
  then show ?thesis by (simp only: foldl_append start c w)
qed

section \<open>Properties of AsyncResult\<close>

lemma do_callbacks_running:
  "h_running h \<Longrightarrow> foldl (do_callback i) h cbs =
     h\<lparr>completion_queue := completion_queue h @ map (\<lambda>c. RunCompletion c i) cbs\<rparr>"
  by (induction cbs arbitrary: h) (simp_all add: do_callback_def)

definition rawlinks :: "nat \<Rightarrow> nat list \<Rightarrow> 'v async_result \<Rightarrow> handler \<Rightarrow> 'v async_result \<times> handler" where
  "rawlinks i cbs a h = foldl (\<lambda>(a, h) c. ar_rawlink i c a h) (a, h) cbs"

definition first_occurrences :: "'a list \<Rightarrow> 'a list" where
  "first_occurrences xs = rev (remdups (rev xs))"

lemma first_occurrences_append1:
  "first_occurrences (xs @ [x]) = (if x \<in> set xs then first_occurrences xs else first_occurrences xs @ [x])"
  by (simp add: first_occurrences_def)

lemma rawlinks_fresh:
  "\<not> ar_ready a \<Longrightarrow> ar_callbacks a = [] \<Longrightarrow>
   rawlinks i cbs a h = (a\<lparr>ar_callbacks := first_occurrences cbs\<rparr>, h)"
proof (induction cbs rule: rev_induct)
  case Nil
  then show ?case by (simp add: rawlinks_def first_occurrences_def)
next
  case (snoc c cbs)
  have "rawlinks i (cbs @ [c]) a h = (case rawlinks i cbs a h of (a, h) \<Rightarrow> ar_rawlink i c a h)"
    by (simp add: rawlinks_def split: prod.split)
  also have "\<dots> = ar_rawlink i c (a\<lparr>ar_callbacks := first_occurrences cbs\<rparr>) h"
    using snoc by simp
  also have "\<dots> = (a\<lparr>ar_callbacks := first_occurrences (cbs @ [c])\<rparr>, h)"
    using snoc.prems unfolding first_occurrences_append1
    by (auto simp: ar_rawlink_def ar_ready_def first_occurrences_def)
  finally show ?case .
qed

text \<open>
  A result that is resolved, with a value or with an exception, hands every callback that
  was linked before to the completion queue of a running handler exactly once, in the order
  of their first registration, and a waiter then sees that outcome.
\<close>

theorem async_callbacks_once:
  assumes "h_running h"
  shows "(\<exists>a'. (case rawlinks i cbs async_init h of (a, h) \<Rightarrow> ar_set i v a h) =
      (a', h\<lparr>completion_queue := completion_queue h @ map (\<lambda>c. RunCompletion c i) (first_occurrences cbs)\<rparr>)
      \<and> ar_get b a' later = Inr v)
    \<and> (\<exists>a'. (case rawlinks i cbs async_init h of (a, h) \<Rightarrow> ar_set_exception i e a h) =
      (a', h\<lparr>completion_queue := completion_queue h @ map (\<lambda>c. RunCompletion c i) (first_occurrences cbs)\<rparr>)
      \<and> ar_get b a' later = Inl e)
    \<and> distinct (first_occurrences cbs) \<and> set (first_occurrences cbs) = set cbs"
  using assms
  by (simp add: rawlinks_fresh async_init_def ar_ready_def ar_set_def ar_set_exception_def
      do_callbacks_def do_callbacks_running ar_get_def ar_outcome_def)
    (simp add: first_occurrences_def)

theorem async_callbacks_once_witness:
  "\<exists>a'. (case rawlinks 5 [1, 2, 1] async_init (handler_start handler_init) of (a, h) \<Rightarrow> ar_set 5 (Some True) a h) =
      (a', (handler_start handler_init)\<lparr>completion_queue := [RunCompletion 1 5, RunCompletion 2 5]\<rparr>)"
proof -
  have "h_running (handler_start handler_init)" by (simp add: handler_start_def handler_init_def)
  from async_callbacks_once [OF this, where i = 5 and cbs = "[1, 2, 1]" and v = "Some True"
      and b = True and later = async_init and e = PyTypeError]
  obtain a' :: "bool async_result"
    where "(case rawlinks 5 [1, 2, 1] async_init (handler_start handler_init) of (a, h) \<Rightarrow> ar_set 5 (Some True) a h) =
      (a', (handler_start handler_init)\<lparr>completion_queue := completion_queue (handler_start handler_init)
         @ map (\<lambda>c. RunCompletion c 5) (first_occurrences [1, 2, 1])\<rparr>)" by blast
  then show ?thesis by (simp add: handler_start_def handler_init_def first_occurrences_def)
qed

text \<open>
  Linking a callback to a result that is already resolved dispatches every callback of the
  result again, not only the new one: a callback that was linked and has run runs once more.
\<close>

theorem rawlink_on_ready_result:
  assumes "h_running h" and "ar_ready a" and "c \<notin> set (ar_callbacks a)"
  shows "completion_queue (snd (ar_rawlink i c a h)) =
    completion_queue h @ map (\<lambda>c. RunCompletion c i) (ar_callbacks a) @ [RunCompletion c i]"
  using assms by (simp add: ar_rawlink_def ar_ready_def do_callbacks_def do_callbacks_running do_callback_def)

theorem rawlink_on_ready_result_witness:
  "completion_queue (snd (ar_rawlink 5 2 \<lparr>ar_exception = Some None, ar_value = Some True, ar_callbacks = [1]\<rparr>
     (handler_start handler_init))) = [RunCompletion 1 5, RunCompletion 2 5]"
  using rawlink_on_ready_result [of "handler_start handler_init"
      "\<lparr>ar_exception = Some None, ar_value = Some True, ar_callbacks = [1]\<rparr>" 2 5]
  by (simp add: handler_start_def handler_init_def ar_ready_def)

section \<open>Properties of selector_select\<close>

text \<open>\<open>fd_of\<close> is the descriptor of an object that has one.\<close>

definition fd_of :: "fileobj \<Rightarrow> int" where
  "fd_of f = (case f of Fd fd \<Rightarrow> fd | FileObj _ (Some fd) \<Rightarrow> fd | FileObj _ None \<Rightarrow> -1)"

lemma fileobj_to_fd_iff: "fileobj_to_fd f = Inr fd \<longleftrightarrow> fd_of f = fd \<and> 0 \<le> fd"
  by (cases f; cases "case f of Fd fd \<Rightarrow> Some fd | FileObj _ x \<Rightarrow> x")
    (auto simp: fileobj_to_fd_def fd_of_def)

lemma add_fileobjs_table:
  assumes "\<And>f. f \<in> set fs \<Longrightarrow> 0 \<le> fd_of f"
  shows "\<exists>ev. add_fileobjs event t fs =
      Inr (ev, \<lambda>fd. snd t fd @ List.filter (\<lambda>f. fd_of f = fd) fs)
    \<and> (\<forall>fd. ev fd = (if fd \<in> fd_of ` set fs then or (fst t fd) event else fst t fd))"
  using assms
proof (induction fs arbitrary: t)
  case Nil
  show ?case by (rule exI [of _ "fst t"]) simp
next
  case (Cons f fs)
  let ?t = "((fst t)(fd_of f := or (fst t (fd_of f)) event), (snd t)(fd_of f := snd t (fd_of f) @ [f]))"
  have add: "add_fileobj event t f = Inr ?t"
    using Cons.prems [of f] fileobj_to_fd_iff [of f "fd_of f"] by (simp add: add_fileobj_def)
  obtain ev where ev: "add_fileobjs event ?t fs = Inr (ev, \<lambda>fd. snd ?t fd @ List.filter (\<lambda>f. fd_of f = fd) fs)"
    "\<And>fd. ev fd = (if fd \<in> fd_of ` set fs then or (fst ?t fd) event else fst ?t fd)"
    using Cons.IH [of ?t] Cons.prems by auto
  have "(\<lambda>fd. snd ?t fd @ List.filter (\<lambda>f. fd_of f = fd) fs) =
        (\<lambda>fd. snd t fd @ List.filter (\<lambda>f. fd_of f = fd) (f # fs))"
    by (rule ext) simp
  then show ?case using add ev by (auto simp: or.assoc)
qed

lemma selector_table_disjoint:
  assumes "\<And>f. f \<in> set rlist \<union> set wlist \<Longrightarrow> 0 \<le> fd_of f"
  shows "\<exists>ev. selector_table rlist wlist =
      Inr (ev, \<lambda>fd. List.filter (\<lambda>f. fd_of f = fd) rlist @ List.filter (\<lambda>f. fd_of f = fd) wlist)
    \<and> (\<forall>fd. ev fd = or (if fd \<in> fd_of ` set rlist then 1 else 0) (if fd \<in> fd_of ` set wlist then 2 else 0))"
proof -
  obtain ev1 where "add_fileobjs 1 (\<lambda>_. 0, \<lambda>_. []) rlist =
      Inr (ev1, \<lambda>fd. List.filter (\<lambda>f. fd_of f = fd) rlist)"
    "\<And>fd. ev1 fd = (if fd \<in> fd_of ` set rlist then 1 else 0)"
    using add_fileobjs_table [of rlist 1 "(\<lambda>_. 0, \<lambda>_. [])"] assms by auto
  then show ?thesis
    using add_fileobjs_table [of wlist 2 "(ev1, \<lambda>fd. List.filter (\<lambda>f. fd_of f = fd) rlist)"] assms
    by (auto simp: selector_table_def)
qed

lemma sort_ready_fold:
  "set (fst (foldl (sort_ready tab) rw ready)) =
     set (fst rw) \<union> \<Union> ((\<lambda>i. set (tab (fst i))) ` {i \<in> set ready. and (snd i) 1 \<noteq> 0})"
  "set (snd (foldl (sort_ready tab) rw ready)) =
     set (snd rw) \<union> \<Union> ((\<lambda>i. set (tab (fst i))) ` {i \<in> set ready. and (snd i) 1 = 0 \<and> and (snd i) 2 \<noteq> 0})"
  by (induction ready arbitrary: rw) (auto simp: sort_ready_def)

text \<open>
  For disjoint lists \<^verbatim>\<open>selector_select\<close> is \<^verbatim>\<open>select\<close>: when no descriptor is both in the
  read and in the write list, and the selector reports descriptors with the event they were
  registered for, the objects returned as readable are those of the read list whose descriptor
  is ready, and those returned as writable the ones of the write list.
\<close>

theorem selector_select_disjoint:
  assumes "\<And>f. f \<in> set rlist \<union> set wlist \<Longrightarrow> 0 \<le> fd_of f"
    and "fd_of ` set rlist \<inter> fd_of ` set wlist = {}"
    and "\<And>ev. selector ev = Inr ready"
    and "\<And>fd e. (fd, e) \<in> set ready \<Longrightarrow>
           fd \<in> fd_of ` set rlist \<and> e = 1 \<or> fd \<in> fd_of ` set wlist \<and> e = 2"
  shows "\<exists>r w. selector_select rlist wlist None selector = Inr (r, w, [])
    \<and> set r = {f \<in> set rlist. fd_of f \<in> fst ` set ready}
    \<and> set w = {f \<in> set wlist. fd_of f \<in> fst ` set ready}"
proof -
  let ?tab = "\<lambda>fd. List.filter (\<lambda>f. fd_of f = fd) rlist @ List.filter (\<lambda>f. fd_of f = fd) wlist"
  obtain ev where t: "selector_table rlist wlist = Inr (ev, ?tab)"
    using selector_table_disjoint [of rlist wlist] assms(1) by auto
  let ?rw = "foldl (sort_ready ?tab) ([], []) ready"
  have bits: "and (1 :: int) 1 = 1" "and (2 :: int) 1 = 0" "and (2 :: int) 2 = 2" by simp_all
  have r: "and (snd i) 1 \<noteq> 0 \<longleftrightarrow> fst i \<in> fd_of ` set rlist"
    and w: "and (snd i) 1 = 0 \<and> and (snd i) 2 \<noteq> 0 \<longleftrightarrow> fst i \<in> fd_of ` set wlist"
    if "i \<in> set ready" for i
    using that assms(2) assms(4) [of "fst i" "snd i"] bits by (metis (no_types) disjoint_iff prod.collapse zero_neq_numeral zero_neq_one)+
  have disj: "f \<in> set rlist \<Longrightarrow> g \<in> set wlist \<Longrightarrow> fd_of f = fd_of g \<Longrightarrow> False" for f g
    using assms(2) by auto
  have ready: "{i \<in> set ready. and (snd i) 1 \<noteq> 0} = {i \<in> set ready. fst i \<in> fd_of ` set rlist}"
    "{i \<in> set ready. and (snd i) 1 = 0 \<and> and (snd i) 2 \<noteq> 0} = {i \<in> set ready. fst i \<in> fd_of ` set wlist}"
    using r w by blast+
  have "set (fst ?rw) = {f \<in> set rlist. fd_of f \<in> fst ` set ready}"
    unfolding sort_ready_fold ready by (auto 0 3 dest: disj)
  moreover have "set (snd ?rw) = {f \<in> set wlist. fd_of f \<in> fst ` set ready}"
    unfolding sort_ready_fold ready by (auto 0 3 dest: disj)
  ultimately show ?thesis by (simp add: selector_select_def t assms(3) Let_def)
qed

theorem selector_select_disjoint_witness:
  "\<exists>r w. selector_select [Fd 3] [FileObj 0 (Some 4)] None (\<lambda>_. Inr [(4, 2)]) = Inr (r, w, [])
    \<and> set r = {} \<and> set w = {FileObj 0 (Some 4)}"
proof -
  have "0 \<le> fd_of f" if "f \<in> set [Fd 3] \<union> set [FileObj 0 (Some 4)]" for f
    using that by (auto simp: fd_of_def)
  moreover have "fd_of ` set [Fd 3] \<inter> fd_of ` set [FileObj 0 (Some 4)] = {}"
    by (simp add: fd_of_def)
  moreover have "fd \<in> fd_of ` set [Fd 3] \<and> e = 1 \<or> fd \<in> fd_of ` set [FileObj 0 (Some 4)] \<and> e = 2"
    if "(fd, e) \<in> set [(4, 2)]" for fd e :: int
    using that by (simp add: fd_of_def)
  ultimately have res: "\<exists>r w. selector_select [Fd 3] [FileObj 0 (Some 4)] None (\<lambda>_. Inr [(4, 2)]) = Inr (r, w, [])
    \<and> set r = {f \<in> set [Fd 3]. fd_of f \<in> fst ` set [(4, 2 :: int)]}
    \<and> set w = {f \<in> set [FileObj 0 (Some 4)]. fd_of f \<in> fst ` set [(4, 2 :: int)]}"
    by (intro selector_select_disjoint) (assumption | rule refl)+
  have eqs: "{f \<in> set [Fd 3]. fd_of f \<in> fst ` set [(4, 2 :: int)]} = {}"
    "{f \<in> set [FileObj 0 (Some 4)]. fd_of f \<in> fst ` set [(4, 2 :: int)]} = {FileObj 0 (Some 4)}"
    by (auto simp: fd_of_def)
  show ?thesis using res unfolding eqs .
qed

text \<open>
  A descriptor that is in both lists is not handled the way \<^verbatim>\<open>select\<close> does: when it is
  ready for reading and writing it is reported twice as readable and never as writable, and
  when it is ready for writing only it is reported twice as writable.
\<close>

theorem selector_select_both:
  "selector_select [Fd (int n)] [Fd (int n)] None (\<lambda>ev. Inr [(int n, ev (int n))]) =
     Inr ([Fd (int n), Fd (int n)], [], [])
   \<and> selector_select [Fd (int n)] [Fd (int n)] None (\<lambda>ev. Inr [(int n, 2)]) =
     Inr ([], [Fd (int n), Fd (int n)], [])"
  by (simp add: selector_select_def selector_table_def add_fileobj_def fileobj_to_fd_def sort_ready_def)

end
