(* ===== verification/Wire.thy ===== *)
theory Wire
  imports Errors
begin

text \<open>
  The primitives of \<^verbatim>\<open>kazoo/protocol/serialization.py\<close>: the compiled \<^verbatim>\<open>struct\<close>
  formats, strings and buffers with a length in front, and the reading of a counted
  sequence. \<open>struct\<close> and the UTF-8 codec are modelled as the standard library has them:
  packing an integer that does not fit raises, unpacking past the end of the buffer raises,
  slicing past the end is silently short. The locale \<open>codec\<close> is the contract between a
  writer and its reader; what it proves about counted sequences serves ACL lists and
  children lists alike.
\<close>

type_synonym byte = "8 word"
type_synonym bytes = "byte list"

section \<open>Integers in network order\<close>

fun be_encode :: "nat \<Rightarrow> int \<Rightarrow> bytes" where
  "be_encode 0 x = []"
| "be_encode (Suc n) x = be_encode n (x div 256) @ [word_of_int x]"

definition be_decode :: "bytes \<Rightarrow> int" where
  "be_decode bs = foldl (\<lambda>acc b. acc * 256 + uint b) 0 bs"

definition to_signed :: "nat \<Rightarrow> int \<Rightarrow> int" where
  "to_signed n u = (if u < 2 ^ (8 * n - 1) then u else u - 2 ^ (8 * n))"

lemma length_be_encode [simp]: "length (be_encode n x) = n"
  by (induction n arbitrary: x) simp_all

lemma be_decode_snoc [simp]: "be_decode (bs @ [b]) = be_decode bs * 256 + uint b"
  by (simp add: be_decode_def)

lemma be_decode_encode: "be_decode (be_encode n x) = x mod 256 ^ n"
proof (induction n arbitrary: x)
  case 0
  then show ?case by (simp add: be_decode_def)
next
  case (Suc n)
  have "uint (word_of_int x :: byte) = x mod 256"
    by (simp add: uint_word_of_int)
  moreover have "x mod (256 * 256 ^ n) = 256 * (x div 256 mod 256 ^ n) + x mod 256"
    by (rule zmod_zmult2_eq) simp
  ultimately show ?case using Suc.IH [of "x div 256"] by simp
qed

lemma to_signed_decode:
  assumes "0 < n" and "- (2 ^ (8 * n - 1)) \<le> x" and "x < 2 ^ (8 * n - 1)"
  shows "to_signed n (be_decode (be_encode n x)) = x"
proof -
  have p: "(256 :: int) ^ n = 2 * 2 ^ (8 * n - 1)"
  proof -
    have "(256 :: int) ^ n = 2 ^ (8 * n)" by (simp add: power_mult)
    also have "8 * n = Suc (8 * n - 1)" using assms(1) by simp
    finally show ?thesis by simp
  qed
  then have p': "(2 :: int) ^ (8 * n) = 2 * 2 ^ (8 * n - 1)"
    by (simp add: power_mult)
  show ?thesis
  proof (cases "0 \<le> x")
    case True
    then have "x mod 256 ^ n = x" using assms p by simp
    with assms show ?thesis by (simp add: be_decode_encode to_signed_def)
  next
    case False
    have "x mod 256 ^ n = (x + 256 ^ n) mod 256 ^ n" by simp
    also have "\<dots> = x + 256 ^ n" using assms False p by (intro mod_pos_pos_trivial) auto
    finally show ?thesis using assms False p p' by (simp add: be_decode_encode to_signed_def)
  qed
qed

section \<open>The struct formats\<close>

text \<open>\<open>B\<close>: unsigned byte; \<open>i\<close> and \<open>q\<close>: signed 32 and 64 bits; \<open>!\<close> is network order without padding.\<close>

datatype fmt = FmtB | FmtI | FmtQ

fun fmt_size :: "fmt \<Rightarrow> nat" where
  "fmt_size FmtB = 1"
| "fmt_size FmtI = 4"
| "fmt_size FmtQ = 8"

fun fmt_range :: "fmt \<Rightarrow> int \<Rightarrow> bool" where
  "fmt_range FmtB x \<longleftrightarrow> 0 \<le> x \<and> x < 2 ^ 8"
| "fmt_range FmtI x \<longleftrightarrow> - (2 ^ 31) \<le> x \<and> x < 2 ^ 31"
| "fmt_range FmtQ x \<longleftrightarrow> - (2 ^ 63) \<le> x \<and> x < 2 ^ 63"

fun fmt_decode :: "fmt \<Rightarrow> bytes \<Rightarrow> int" where
  "fmt_decode FmtB bs = be_decode bs"
| "fmt_decode FmtI bs = to_signed 4 (be_decode bs)"
| "fmt_decode FmtQ bs = to_signed 8 (be_decode bs)"

definition struct_size :: "fmt list \<Rightarrow> nat" where
  "struct_size fs = sum_list (map fmt_size fs)"

fun struct_pack :: "fmt list \<Rightarrow> int list \<Rightarrow> exc + bytes" where
  "struct_pack [] [] = Inr []"
| "struct_pack (f # fs) (x # xs) =
     (if fmt_range f x
      then ebind (struct_pack fs xs) (\<lambda>bs. Inr (be_encode (fmt_size f) x @ bs))
      else Inl StructError)"
| "struct_pack _ _ = Inl StructError"

fun struct_fields :: "fmt list \<Rightarrow> bytes \<Rightarrow> int list" where
  "struct_fields [] bs = []"
| "struct_fields (f # fs) bs =
     fmt_decode f (take (fmt_size f) bs) # struct_fields fs (drop (fmt_size f) bs)"

definition unpack_from :: "fmt list \<Rightarrow> bytes \<Rightarrow> nat \<Rightarrow> exc + int list" where
  "unpack_from fs buffer offset =
     (if offset + struct_size fs \<le> length buffer
      then Inr (struct_fields fs (drop offset buffer))
      else Inl StructError)"

definition bool_struct :: "fmt list" where "bool_struct = [FmtB]"
definition int_struct :: "fmt list" where "int_struct = [FmtI]"
definition int_int_struct :: "fmt list" where "int_int_struct = [FmtI, FmtI]"
definition int_int_long_struct :: "fmt list" where "int_int_long_struct = [FmtI, FmtI, FmtQ]"
definition int_long_int_long_struct :: "fmt list" where
  "int_long_int_long_struct = [FmtI, FmtQ, FmtI, FmtQ]"
definition long_struct :: "fmt list" where "long_struct = [FmtQ]"
definition multiheader_struct :: "fmt list" where "multiheader_struct = [FmtI, FmtB, FmtI]"
definition reply_header_struct :: "fmt list" where "reply_header_struct = [FmtI, FmtQ, FmtI]"
definition stat_struct :: "fmt list" where
  "stat_struct = [FmtQ, FmtQ, FmtQ, FmtQ, FmtI, FmtI, FmtI, FmtQ, FmtI, FmtI, FmtQ]"

lemmas struct_defs = bool_struct_def int_struct_def int_int_struct_def int_int_long_struct_def
  int_long_int_long_struct_def long_struct_def multiheader_struct_def reply_header_struct_def
  stat_struct_def

lemma struct_sizes [simp]:
  "struct_size bool_struct = 1" "struct_size int_struct = 4" "struct_size int_int_struct = 8"
  "struct_size int_int_long_struct = 16" "struct_size int_long_int_long_struct = 24"
  "struct_size long_struct = 8" "struct_size multiheader_struct = 9"
  "struct_size reply_header_struct = 16" "struct_size stat_struct = 68"
  by (simp_all add: struct_size_def struct_defs)

lemma fmt_decode_encode: "fmt_range f x \<Longrightarrow> fmt_decode f (be_encode (fmt_size f) x) = x"
  using be_decode_encode [of 1 x] to_signed_decode [of 4 x] to_signed_decode [of 8 x]
  by (cases f) simp_all

lemma length_struct_pack: "struct_pack fs xs = Inr bs \<Longrightarrow> length bs = struct_size fs"
  by (induction fs xs arbitrary: bs rule: struct_pack.induct)
     (auto simp: struct_size_def ebind_eq_Inr split: if_splits)

lemma struct_fields_pack: "struct_pack fs xs = Inr bs \<Longrightarrow> struct_fields fs (bs @ post) = xs"
  by (induction fs xs arbitrary: bs rule: struct_pack.induct)
     (auto simp: ebind_eq_Inr fmt_decode_encode split: if_splits)

lemma length_struct_fields [simp]: "length (struct_fields fs bs) = length fs"
  by (induction fs arbitrary: bs) simp_all

text \<open>What a format packs, the same format unpacks, wherever it stands in the buffer.\<close>

lemma unpack_from_pack:
  assumes "struct_pack fs xs = Inr bs"
  shows "unpack_from fs (pre @ bs @ post) (length pre) = Inr xs"
  using struct_fields_pack [OF assms, of post] length_struct_pack [OF assms]
  by (simp add: unpack_from_def)

lemma unpack_from_length:
  "unpack_from fs buffer offset = Inr xs \<Longrightarrow>
   length xs = length fs \<and> offset + struct_size fs \<le> length buffer"
  by (auto simp: unpack_from_def split: if_splits)


section \<open>Text\<close>

text \<open>
  UTF-8 as RFC 3629 has it: \<open>utf8_char bs\<close> is the length of the well-formed character that
  \<open>bs\<close> starts with. Overlong forms, surrogates and values past U+10FFFF are not well-formed.
\<close>

definition utf8_cont :: "byte \<Rightarrow> bool" where
  "utf8_cont b \<longleftrightarrow> 0x80 \<le> b \<and> b \<le> 0xBF"

definition utf8_char :: "bytes \<Rightarrow> nat option" where
  "utf8_char bs =
     (case bs of
        [] \<Rightarrow> None
      | b # r \<Rightarrow>
          if b \<le> 0x7F then Some 1
          else if 0xC2 \<le> b \<and> b \<le> 0xDF then
            (case r of c # _ \<Rightarrow> if utf8_cont c then Some 2 else None | _ \<Rightarrow> None)
          else if 0xE0 \<le> b \<and> b \<le> 0xEF then
            (case r of c # d # _ \<Rightarrow>
               if utf8_cont c \<and> utf8_cont d \<and> (b = 0xE0 \<longrightarrow> 0xA0 \<le> c) \<and> (b = 0xED \<longrightarrow> c \<le> 0x9F)
               then Some 3 else None
             | _ \<Rightarrow> None)
          else if 0xF0 \<le> b \<and> b \<le> 0xF4 then
            (case r of c # d # e # _ \<Rightarrow>
               if utf8_cont c \<and> utf8_cont d \<and> utf8_cont e
                  \<and> (b = 0xF0 \<longrightarrow> 0x90 \<le> c) \<and> (b = 0xF4 \<longrightarrow> c \<le> 0x8F)
               then Some 4 else None
             | _ \<Rightarrow> None)
          else None)"

lemma utf8_char_pos: "utf8_char bs = Some n \<Longrightarrow> bs \<noteq> [] \<and> 0 < n"
  by (auto simp: utf8_char_def split: list.splits if_splits)

function utf8_ok :: "bytes \<Rightarrow> bool" where
  "utf8_ok bs =
     (bs = [] \<or> (case utf8_char bs of None \<Rightarrow> False | Some n \<Rightarrow> utf8_ok (drop n bs)))"
  by pat_completeness auto
termination
  by (relation "measure length") (auto dest: utf8_char_pos)

declare utf8_ok.simps [simp del]

definition char_byte :: "char \<Rightarrow> byte" where "char_byte c = word_of_nat (of_char c)"
definition byte_char :: "byte \<Rightarrow> char" where "byte_char b = char_of (unat b)"

definition encode_utf8 :: "string \<Rightarrow> bytes" where
  "encode_utf8 s = map char_byte s"

definition decode_utf8 :: "bytes \<Rightarrow> exc + string" where
  "decode_utf8 bs = (if utf8_ok bs then Inr (map byte_char bs) else Inl UnicodeDecodeError)"

text \<open>The strings of the model that stand for a Python \<^verbatim>\<open>str\<close>: those that are valid UTF-8.\<close>

definition pystr :: "string \<Rightarrow> bool" where
  "pystr s \<longleftrightarrow> utf8_ok (encode_utf8 s)"

lemma byte_char_inverse [simp]: "byte_char (char_byte c) = c"
  by (simp add: byte_char_def char_byte_def unat_of_nat)

lemma char_byte_inverse [simp]: "char_byte (byte_char b) = b"
proof -
  have "unat b < 2 ^ LENGTH(8)" by (rule unsigned_less)
  then have "unat b mod 256 = unat b" by simp
  then show ?thesis by (simp add: byte_char_def char_byte_def)
qed

lemma decode_encode_utf8 [simp]: "pystr s \<Longrightarrow> decode_utf8 (encode_utf8 s) = Inr s"
  by (simp add: pystr_def decode_utf8_def encode_utf8_def comp_def)

lemma decode_utf8_pystr: "decode_utf8 bs = Inr s \<Longrightarrow> pystr s \<and> encode_utf8 s = bs"
  by (auto simp: decode_utf8_def pystr_def encode_utf8_def comp_def split: if_splits)

lemma length_encode_utf8 [simp]: "length (encode_utf8 s) = length s"
  by (simp add: encode_utf8_def)

lemma pystr_ascii: "(\<And>c. c \<in> set s \<Longrightarrow> of_char c < (128 :: nat)) \<Longrightarrow> pystr s"
proof (induction s)
  case Nil
  then show ?case by (simp add: pystr_def encode_utf8_def utf8_ok.simps)
next
  case (Cons c s)
  have "char_byte c \<le> 0x7F"
    using Cons.prems [of c] by (simp add: char_byte_def word_le_nat_alt unat_of_nat)
  moreover have "utf8_ok (map char_byte s)"
    using Cons by (simp add: pystr_def encode_utf8_def)
  ultimately show ?case
    by (subst pystr_def) (simp add: encode_utf8_def utf8_ok.simps [of "_ # _"] utf8_char_def)
qed

section \<open>Strings and buffers on the wire\<close>

definition unpack_int :: "bytes \<Rightarrow> nat \<Rightarrow> exc + int" where
  "unpack_int buffer offset =
     ebind (unpack_from int_struct buffer offset) (\<lambda>vs. Inr (hd vs))"

definition read_string :: "bytes \<Rightarrow> nat \<Rightarrow> exc + string option \<times> nat" where
  "read_string buffer offset =
     ebind (unpack_int buffer offset) (\<lambda>length.
       let offset = offset + struct_size int_struct in
       if length < 0 then Inr (None, offset)
       else ebind (decode_utf8 (take (nat length) (drop offset buffer)))
              (\<lambda>s. Inr (Some s, offset + nat length)))"

definition write_string :: "string option \<Rightarrow> exc + bytes" where
  "write_string s =
     (case s of
        None \<Rightarrow> struct_pack int_struct [-1]
      | Some str \<Rightarrow>
          if str = '''' then struct_pack int_struct [-1]
          else let utf8_str = encode_utf8 str in
               ebind (struct_pack int_struct [int (length utf8_str)])
                 (\<lambda>b. Inr (b @ utf8_str)))"

definition write_buffer :: "bytes option \<Rightarrow> exc + bytes" where
  "write_buffer data =
     (case data of
        None \<Rightarrow> struct_pack int_struct [-1]
      | Some bs \<Rightarrow> ebind (struct_pack int_struct [int (length bs)]) (\<lambda>b. Inr (b @ bs)))"

definition read_buffer :: "bytes \<Rightarrow> nat \<Rightarrow> exc + bytes option \<times> nat" where
  "read_buffer buffer offset =
     ebind (unpack_int buffer offset) (\<lambda>length.
       let offset = offset + struct_size int_struct in
       if length < 0 then Inr (None, offset)
       else Inr (Some (take (nat length) (drop offset buffer)), offset + nat length))"

text \<open>\<^verbatim>\<open>for c in range(count): x, offset = read(bytes, offset); xs.append(x)\<close>\<close>

primrec read_times :: "(bytes \<Rightarrow> nat \<Rightarrow> exc + 'b \<times> nat) \<Rightarrow> nat \<Rightarrow> bytes \<Rightarrow> nat
    \<Rightarrow> exc + 'b list \<times> nat" where
  "read_times rd 0 buffer offset = Inr ([], offset)"
| "read_times rd (Suc count) buffer offset =
     ebind (rd buffer offset) (\<lambda>(x, offset).
       ebind (read_times rd count buffer offset) (\<lambda>(xs, offset). Inr (x # xs, offset)))"

section \<open>The contract of a writer and its reader\<close>

locale codec =
  fixes enc :: "'a \<Rightarrow> exc + bytes"
    and dec :: "bytes \<Rightarrow> nat \<Rightarrow> exc + 'b \<times> nat"
    and seen :: "'a \<Rightarrow> 'b"
    and ok :: "'a \<Rightarrow> bool"
  assumes dec_enc: "ok x \<Longrightarrow> enc x = Inr b \<Longrightarrow>
    dec (pre @ b @ post) (length pre) = Inr (seen x, length pre + length b)"
begin

text \<open>A counted sequence of what the writer wrote is read back element by element.\<close>

lemma read_times_enc:
  assumes "\<And>x. x \<in> set xs \<Longrightarrow> ok x" and "emap enc xs = Inr bs"
  shows "read_times dec (length xs) (pre @ concat bs @ post) (length pre) =
    Inr (map seen xs, length pre + length (concat bs))"
  using assms
proof (induction xs arbitrary: bs pre)
  case Nil
  then show ?case by simp
next
  case (Cons x xs)
  then obtain b bs' where b: "enc x = Inr b" and bs': "emap enc xs = Inr bs'"
    and bs: "bs = b # bs'" by (auto simp: ebind_eq_Inr)
  have "dec (pre @ b @ (concat bs' @ post)) (length pre) = Inr (seen x, length pre + length b)"
    using Cons.prems(1) b by (intro dec_enc) simp_all
  moreover have "read_times dec (length xs) ((pre @ b) @ concat bs' @ post) (length (pre @ b)) =
      Inr (map seen xs, length (pre @ b) + length (concat bs'))"
    using Cons.prems(1) bs' by (intro Cons.IH) simp_all
  ultimately show ?case by (simp add: bs add.assoc)
qed

end

lemma unpack_int_pack:
  "struct_pack int_struct [x] = Inr b \<Longrightarrow>
   unpack_int (pre @ b @ post) (length pre) = Inr x \<and> length b = 4"
  using unpack_from_pack [of int_struct "[x]" b] length_struct_pack [of int_struct "[x]" b]
  by (simp add: unpack_int_def)

text \<open>
  What a reader of the module sees of a string: \<^verbatim>\<open>write_string\<close> writes the empty string
  as \<^verbatim>\<open>None\<close>, so the empty string comes back as \<^verbatim>\<open>None\<close>.
\<close>

definition string_seen :: "string option \<Rightarrow> string option" where
  "string_seen s = (if s = Some '''' then None else s)"

interpretation wire_string: codec write_string read_string string_seen
  "\<lambda>s. case s of None \<Rightarrow> True | Some str \<Rightarrow> pystr str"
proof unfold_locales
  fix x b pre post
  assume ok: "case x of None \<Rightarrow> True | Some str \<Rightarrow> pystr str" and w: "write_string x = Inr b"
  show "read_string (pre @ b @ post) (length pre) = Inr (string_seen x, length pre + length b)"
  proof (cases "x = None \<or> x = Some ''''")
    case True
    then have "struct_pack int_struct [-1] = Inr b"
      using w by (auto simp: write_string_def)
    from unpack_int_pack [OF this, of pre post] True show ?thesis
      by (auto simp: read_string_def string_seen_def)
  next
    case False
    then obtain str where x: "x = Some str" "str \<noteq> ''''" by auto
    then obtain p where p: "struct_pack int_struct [int (length str)] = Inr p"
      and b: "b = p @ encode_utf8 str"
      using w by (auto simp: write_string_def Let_def ebind_eq_Inr)
    have "pystr str" using ok x by simp
    moreover have "take (length str) (drop (length pre + 4) (pre @ b @ post)) = encode_utf8 str"
      using unpack_int_pack [OF p] b by simp
    ultimately show ?thesis
      using unpack_int_pack [OF p, of pre "encode_utf8 str @ post"] b x
      by (simp add: read_string_def string_seen_def)
  qed
qed

interpretation wire_buffer: codec write_buffer read_buffer "\<lambda>x. x" "\<lambda>x. True"
proof unfold_locales
  fix x b pre post
  assume w: "write_buffer x = Inr b"
  show "read_buffer (pre @ b @ post) (length pre) = Inr (x, length pre + length b)"
  proof (cases x)
    case None
    then have "struct_pack int_struct [-1] = Inr b"
      using w by (auto simp: write_buffer_def)
    from unpack_int_pack [OF this, of pre post] None show ?thesis
      by (auto simp: read_buffer_def)
  next
    case (Some bs)
    then obtain p where p: "struct_pack int_struct [int (length bs)] = Inr p" and b: "b = p @ bs"
      using w by (auto simp: write_buffer_def ebind_eq_Inr)
    then show ?thesis
      using unpack_int_pack [OF p, of pre "bs @ post"] Some by (simp add: read_buffer_def)
  qed
qed

end
