(* ===== verification/Security.thy ===== *)
theory Security
  imports Errors
begin

text \<open>
  \<^verbatim>\<open>kazoo/security.py\<close>: identifiers, access control entries and their permission bits. The
  permission word is a Python integer, so \<open>&\<close> and \<open>|\<close> are the bit operations of
  \<^typ>\<open>int\<close>. SHA-1 and base64 (\<^verbatim>\<open>hashlib\<close>, \<^verbatim>\<open>base64\<close>) enter
  \<open>make_digest_acl_credential\<close> as one argument, the digest of a credential in base64.
\<close>

unbundle bit_operations_syntax

record zk_id =
  id_scheme :: string
  id_id :: string

record acl =
  acl_perms :: int
  acl_id :: zk_id

definition PERM_READ :: int where "PERM_READ = 1"
definition PERM_WRITE :: int where "PERM_WRITE = 2"
definition PERM_CREATE :: int where "PERM_CREATE = 4"
definition PERM_DELETE :: int where "PERM_DELETE = 8"
definition PERM_ADMIN :: int where "PERM_ADMIN = 16"
definition PERM_ALL :: int where "PERM_ALL = 31"

lemmas perm_defs = PERM_READ_def PERM_WRITE_def PERM_CREATE_def PERM_DELETE_def PERM_ADMIN_def PERM_ALL_def

definition acl_list :: "acl \<Rightarrow> string list" where
  "acl_list a =
     (if acl_perms a AND PERM_ALL = PERM_ALL then [''ALL'']
      else (if acl_perms a AND PERM_READ = PERM_READ then [''READ''] else [])
         @ (if acl_perms a AND PERM_WRITE = PERM_WRITE then [''WRITE''] else [])
         @ (if acl_perms a AND PERM_CREATE = PERM_CREATE then [''CREATE''] else [])
         @ (if acl_perms a AND PERM_DELETE = PERM_DELETE then [''DELETE''] else [])
         @ (if acl_perms a AND PERM_ADMIN = PERM_ADMIN then [''ADMIN''] else []))"

definition ANYONE_ID_UNSAFE :: zk_id where
  "ANYONE_ID_UNSAFE = \<lparr>id_scheme = ''world'', id_id = ''anyone''\<rparr>"

definition AUTH_IDS :: zk_id where
  "AUTH_IDS = \<lparr>id_scheme = ''auth'', id_id = ''''\<rparr>"

definition OPEN_ACL_UNSAFE :: "acl list" where
  "OPEN_ACL_UNSAFE = [\<lparr>acl_perms = PERM_ALL, acl_id = ANYONE_ID_UNSAFE\<rparr>]"

definition CREATOR_ALL_ACL :: "acl list" where
  "CREATOR_ALL_ACL = [\<lparr>acl_perms = PERM_ALL, acl_id = AUTH_IDS\<rparr>]"

definition READ_ACL_UNSAFE :: "acl list" where
  "READ_ACL_UNSAFE = [\<lparr>acl_perms = PERM_READ, acl_id = ANYONE_ID_UNSAFE\<rparr>]"

definition make_acl :: "string \<Rightarrow> string \<Rightarrow> bool \<Rightarrow> bool \<Rightarrow> bool \<Rightarrow> bool \<Rightarrow> bool \<Rightarrow> bool \<Rightarrow> acl" where
  "make_acl scheme credential read write create delete admin all =
     (let permissions =
        (if all then PERM_ALL
         else let p = 0;
                  p = (if read then p OR PERM_READ else p);
                  p = (if write then p OR PERM_WRITE else p);
                  p = (if create then p OR PERM_CREATE else p);
                  p = (if delete then p OR PERM_DELETE else p);
                  p = (if admin then p OR PERM_ADMIN else p)
              in p)
      in \<lparr>acl_perms = permissions, acl_id = \<lparr>id_scheme = scheme, id_id = credential\<rparr>\<rparr>)"

definition make_digest_acl_credential :: "(string \<Rightarrow> string) \<Rightarrow> string \<Rightarrow> string \<Rightarrow> string" where
  "make_digest_acl_credential b64_sha1 username password =
     username @ '':'' @ b64_sha1 (username @ '':'' @ password)"

definition make_digest_acl :: "(string \<Rightarrow> string) \<Rightarrow> string \<Rightarrow> string
    \<Rightarrow> bool \<Rightarrow> bool \<Rightarrow> bool \<Rightarrow> bool \<Rightarrow> bool \<Rightarrow> bool \<Rightarrow> acl" where
  "make_digest_acl b64_sha1 username password read write create delete admin all =
     make_acl ''digest'' (make_digest_acl_credential b64_sha1 username password)
       read write create delete admin all"

section \<open>Properties\<close>

text \<open>
  The names that \<^verbatim>\<open>acl_list\<close> shows are exactly the permissions that \<^verbatim>\<open>make_acl\<close>
  was asked for, in the order of the bits; all five together, or \<^verbatim>\<open>all\<close>, show as
  \<^verbatim>\<open>ALL\<close> alone.
\<close>

theorem acl_list_make_acl:
  "acl_list (make_acl scheme credential r w c d a all) =
     (if all \<or> (r \<and> w \<and> c \<and> d \<and> a) then [''ALL'']
      else (if r then [''READ''] else []) @ (if w then [''WRITE''] else [])
         @ (if c then [''CREATE''] else []) @ (if d then [''DELETE''] else [])
         @ (if a then [''ADMIN''] else []))"
  by (cases all; cases r; cases w; cases c; cases d; cases a)
     (simp_all add: acl_list_def make_acl_def perm_defs Let_def)

end
