(* ===== verification/Serialization.thy ===== *)
theory Serialization
  imports Wire Security
begin

text \<open>
  The request and response records of \<^verbatim>\<open>kazoo/protocol/serialization.py\<close>. One constructor
  per request class, \<open>serialize\<close> and \<open>deserialize\<close> with one branch per class, and the loop
  of \<^verbatim>\<open>Transaction.deserialize\<close> with its termination. A watch function is known by its
  identity, a number.
\<close>

type_synonym watcher = nat

section \<open>The records\<close>

record znode_stat =
  czxid :: int
  mzxid :: int
  ctime :: int
  mtime :: int
  version :: int
  cversion :: int
  aversion :: int
  ephemeralOwner :: int
  dataLength :: int
  numChildren :: int
  pzxid :: int

text \<open>\<open>ephemeralOwner or None\<close>: zero means that the node is not ephemeral.\<close>

definition owner_session_id :: "znode_stat \<Rightarrow> int option" where
  "owner_session_id stat = (if ephemeralOwner stat = 0 then None else Some (ephemeralOwner stat))"

record connect_rec =
  protocol_version :: int
  last_zxid_seen :: int
  time_out :: int
  session_id :: int
  passwd :: "bytes option"
  read_only :: bool

datatype request =
    Close
  | Ping
  | Connect connect_rec
  | Create string "bytes option" "acl list" int
  | Delete string int
  | Exists string "watcher option"
  | GetData string "watcher option"
  | SetData string "bytes option" int
  | GetACL string
  | SetACL string "acl list" int
  | GetChildren string "watcher option"
  | Sync string
  | GetChildren2 string "watcher option"
  | CheckVersion string int
  | Transaction "request list"
  | Create2 string "bytes option" "acl list" int
  | Reconfig "string option" "string option" "string option" int
  | Auth int string string
  | SASL "bytes option"

fun req_type :: "request \<Rightarrow> int option" where
  "req_type Close = Some (-11)"
| "req_type Ping = Some 11"
| "req_type (Connect _) = None"
| "req_type (Create _ _ _ _) = Some 1"
| "req_type (Delete _ _) = Some 2"
| "req_type (Exists _ _) = Some 3"
| "req_type (GetData _ _) = Some 4"
| "req_type (SetData _ _ _) = Some 5"
| "req_type (GetACL _) = Some 6"
| "req_type (SetACL _ _ _) = Some 7"
| "req_type (GetChildren _ _) = Some 8"
| "req_type (Sync _) = Some 9"
| "req_type (GetChildren2 _ _) = Some 12"
| "req_type (CheckVersion _ _) = Some 13"
| "req_type (Transaction _) = Some 14"
| "req_type (Create2 _ _ _ _) = Some 15"
| "req_type (Reconfig _ _ _ _) = Some 16"
| "req_type (Auth _ _ _) = Some 100"
| "req_type (SASL _) = Some 102"

record reply_header =
  rh_xid :: int
  rh_zxid :: int
  rh_err :: int

record multi_header =
  mh_type :: "int option"
  mh_done :: bool
  mh_err :: "int option"

record watch_event =
  we_type :: int
  we_state :: int
  we_path :: "string option"

section \<open>Writing requests\<close>

definition concat_bytes :: "(exc + bytes) list \<Rightarrow> exc + bytes" where
  "concat_bytes parts = ebind (emap (\<lambda>p. p) parts) (\<lambda>bs. Inr (concat bs))"

definition write_flag :: "bool \<Rightarrow> exc + bytes" where
  "write_flag b = Inr [if b then 1 else 0]"

definition write_int :: "int \<Rightarrow> exc + bytes" where
  "write_int x = struct_pack int_struct [x]"

definition write_acl :: "acl \<Rightarrow> exc + bytes" where
  "write_acl a = concat_bytes
     [write_int (acl_perms a), write_string (Some (id_scheme (acl_id a))),
      write_string (Some (id_id (acl_id a)))]"

definition write_acls :: "acl list \<Rightarrow> exc + bytes" where
  "write_acls acls = ebind (write_int (int (length acls))) (\<lambda>n.
     ebind (emap write_acl acls) (\<lambda>bs. Inr (n @ concat bs)))"

definition serialize_create :: "string \<Rightarrow> bytes option \<Rightarrow> acl list \<Rightarrow> int \<Rightarrow> exc + bytes" where
  "serialize_create path data acls flags = concat_bytes
     [write_string (Some path), write_buffer data, write_acls acls, write_int flags]"

definition multiheader_serialize :: "multi_header \<Rightarrow> exc + bytes" where
  "multiheader_serialize h =
     (case (mh_type h, mh_err h) of
        (Some t, Some e) \<Rightarrow> concat_bytes [write_int t, write_flag (mh_done h), write_int e]
      | _ \<Rightarrow> Inl StructError)"

definition connect_serialize :: "connect_rec \<Rightarrow> exc + bytes" where
  "connect_serialize c = concat_bytes
     [struct_pack int_long_int_long_struct
        [protocol_version c, last_zxid_seen c, time_out c, session_id c],
      write_buffer (passwd c), write_flag (read_only c)]"

fun serialize :: "request \<Rightarrow> exc + bytes" where
  "serialize Close = Inr []"
| "serialize Ping = Inr []"
| "serialize (Connect c) = connect_serialize c"
| "serialize (Create path data acls flags) = serialize_create path data acls flags"
| "serialize (Delete path ver) = concat_bytes [write_string (Some path), write_int ver]"
| "serialize (Exists path w) = concat_bytes [write_string (Some path), write_flag (w \<noteq> None)]"
| "serialize (GetData path w) = concat_bytes [write_string (Some path), write_flag (w \<noteq> None)]"
| "serialize (SetData path data ver) =
     concat_bytes [write_string (Some path), write_buffer data, write_int ver]"
| "serialize (GetACL path) = write_string (Some path)"
| "serialize (SetACL path acls ver) =
     concat_bytes [write_string (Some path), write_acls acls, write_int ver]"
| "serialize (GetChildren path w) =
     concat_bytes [write_string (Some path), write_flag (w \<noteq> None)]"
| "serialize (Sync path) = write_string (Some path)"
| "serialize (GetChildren2 path w) =
     concat_bytes [write_string (Some path), write_flag (w \<noteq> None)]"
| "serialize (CheckVersion path ver) = concat_bytes [write_string (Some path), write_int ver]"
| "serialize (Transaction operations) =
     ebind (emap (\<lambda>op.
         concat_bytes
           [multiheader_serialize \<lparr>mh_type = req_type op, mh_done = False, mh_err = Some (-1)\<rparr>,
            serialize op]) operations) (\<lambda>bs.
       ebind (struct_pack multiheader_struct [-1, 1, -1]) (\<lambda>last. Inr (concat bs @ last)))"
| "serialize (Create2 path data acls flags) = serialize_create path data acls flags"
| "serialize (Reconfig joining leaving new_members config_id) =
     concat_bytes [write_string joining, write_string leaving, write_string new_members,
       struct_pack long_struct [config_id]]"
| "serialize (Auth auth_type scheme auth) =
     concat_bytes [write_int auth_type, write_string (Some scheme), write_string (Some auth)]"
| "serialize (SASL challenge) = write_buffer challenge"

section \<open>Reading replies\<close>

definition read_acl :: "bytes \<Rightarrow> nat \<Rightarrow> exc + (int \<times> string option \<times> string option) \<times> nat" where
  "read_acl buffer offset =
     ebind (unpack_int buffer offset) (\<lambda>perms.
     ebind (read_string buffer (offset + struct_size int_struct)) (\<lambda>(scheme, offset).
     ebind (read_string buffer offset) (\<lambda>(id, offset).
       Inr ((perms, scheme, id), offset))))"

definition read_stat :: "bytes \<Rightarrow> nat \<Rightarrow> exc + znode_stat" where
  "read_stat buffer offset =
     ebind (unpack_from stat_struct buffer offset) (\<lambda>v.
       Inr \<lparr>czxid = v ! 0, mzxid = v ! 1, ctime = v ! 2, mtime = v ! 3, version = v ! 4,
            cversion = v ! 5, aversion = v ! 6, ephemeralOwner = v ! 7, dataLength = v ! 8,
            numChildren = v ! 9, pzxid = v ! 10\<rparr>)"

definition connect_deserialize :: "bytes \<Rightarrow> nat \<Rightarrow> exc + connect_rec \<times> nat" where
  "connect_deserialize buffer offset =
     ebind (unpack_from int_int_long_struct buffer offset) (\<lambda>v.
     ebind (read_buffer buffer (offset + struct_size int_int_long_struct)) (\<lambda>(password, offset).
       let (ro, offset) =
         (case unpack_from bool_struct buffer offset of
            Inr b \<Rightarrow> (hd b = 1, offset + struct_size bool_struct)
          | Inl _ \<Rightarrow> (False, offset))
       in Inr (\<lparr>protocol_version = v ! 0, last_zxid_seen = 0, time_out = v ! 1,
               session_id = v ! 2, passwd = password, read_only = ro\<rparr>, offset)))"

definition watch_deserialize :: "bytes \<Rightarrow> nat \<Rightarrow> exc + watch_event \<times> nat" where
  "watch_deserialize buffer offset =
     ebind (unpack_from int_int_struct buffer offset) (\<lambda>v.
     ebind (read_string buffer (offset + struct_size int_int_struct)) (\<lambda>(path, offset).
       Inr (\<lparr>we_type = v ! 0, we_state = v ! 1, we_path = path\<rparr>, offset)))"

definition reply_header_deserialize :: "bytes \<Rightarrow> nat \<Rightarrow> exc + reply_header \<times> nat" where
  "reply_header_deserialize buffer offset =
     ebind (unpack_from reply_header_struct buffer offset) (\<lambda>v.
       Inr (\<lparr>rh_xid = v ! 0, rh_zxid = v ! 1, rh_err = v ! 2\<rparr>,
            offset + struct_size reply_header_struct))"

definition multiheader_deserialize :: "bytes \<Rightarrow> nat \<Rightarrow> exc + multi_header \<times> nat" where
  "multiheader_deserialize buffer offset =
     ebind (unpack_from multiheader_struct buffer offset) (\<lambda>v.
       Inr (\<lparr>mh_type = Some (v ! 0), mh_done = (v ! 1 = 1), mh_err = Some (v ! 2)\<rparr>,
            offset + struct_size multiheader_struct))"

section \<open>The loop of Transaction.deserialize\<close>

text \<open>
  A result is appended when it is truthy: \<^verbatim>\<open>None\<close> and the empty string are not. The state of
  the loop is the last header (its type and whether it ends the reply), the response of the
  last turn, the results and the offset; the body for a header type that no branch names
  leaves the response and the offset as they are.
\<close>

datatype txn_result = TxStr string | TxTrue | TxStat znode_stat | TxErr zk_error

definition txn_truthy :: "txn_result option \<Rightarrow> bool" where
  "txn_truthy r = (case r of None \<Rightarrow> False | Some (TxStr s) \<Rightarrow> s \<noteq> '''' | Some _ \<Rightarrow> True)"

definition txn_body :: "int option \<Rightarrow> txn_result option \<Rightarrow> bytes \<Rightarrow> nat
    \<Rightarrow> exc + txn_result option \<times> nat" where
  "txn_body ty response buffer offset =
     (if ty = Some 1 then
        ebind (read_string buffer offset) (\<lambda>(s, offset). Inr (map_option TxStr s, offset))
      else if ty = Some 2 then Inr (Some TxTrue, offset)
      else if ty = Some 5 then
        ebind (read_stat buffer offset) (\<lambda>st.
          Inr (Some (TxStat st), offset + struct_size stat_struct))
      else if ty = Some 13 then Inr (Some TxTrue, offset)
      else if ty = Some (-1) then
        ebind (unpack_int buffer offset) (\<lambda>err.
        ebind (EXCEPTIONS err) (\<lambda>klass.
          Inr (Some (TxErr klass), offset + struct_size int_struct)))
      else Inr (response, offset))"

lemma txn_body_offset: "txn_body ty r buffer offset = Inr (r', offset') \<Longrightarrow> offset \<le> offset'"
  by (auto simp: txn_body_def read_string_def Let_def ebind_eq_Inr split: if_splits)

lemma multiheader_offset:
  "multiheader_deserialize buffer offset = Inr (h, offset') \<Longrightarrow>
   offset' = offset + 9 \<and> offset' \<le> length buffer"
  by (auto simp: multiheader_deserialize_def ebind_eq_Inr dest: unpack_from_length)

function txn_loop :: "int option \<Rightarrow> bool \<Rightarrow> txn_result option \<Rightarrow> txn_result list \<Rightarrow> bytes \<Rightarrow> nat
    \<Rightarrow> exc + txn_result list" where
  "txn_loop ty fin response results buffer offset =
     (if fin then Inr results
      else ebind (txn_body ty response buffer offset) (\<lambda>body.
        let response = fst body; offset = snd body;
            results = (if txn_truthy response then results @ [the response] else results)
        in ebind (multiheader_deserialize buffer offset) (\<lambda>hd.
             txn_loop (mh_type (fst hd)) (mh_done (fst hd)) response results buffer (snd hd))))"
  by pat_completeness auto
termination
proof (relation "measure (\<lambda>(ty, fin, response, results, buffer, offset). length buffer - offset)")
qed (auto dest!: txn_body_offset multiheader_offset)

declare txn_loop.simps [simp del]

definition transaction_deserialize :: "bytes \<Rightarrow> nat \<Rightarrow> exc + txn_result list" where
  "transaction_deserialize buffer offset = txn_loop None False None [] buffer offset"

text \<open>\<^verbatim>\<open>Transaction.unchroot\<close> strips the chroot from the results that are strings.\<close>

definition transaction_unchroot :: "(string \<Rightarrow> string) \<Rightarrow> txn_result list \<Rightarrow> txn_result list" where
  "transaction_unchroot client_unchroot response =
     map (\<lambda>r. case r of TxStr s \<Rightarrow> TxStr (client_unchroot s) | _ \<Rightarrow> r) response"

section \<open>Reading the reply of each request\<close>

datatype response =
    RespPath "string option"
  | RespTrue
  | RespExists "znode_stat option"
  | RespStat znode_stat
  | RespData "bytes option" znode_stat
  | RespAcls "(int \<times> string option \<times> string option) list" znode_stat
  | RespNil
  | RespChildren "string option list"
  | RespChildren2 "string option list" znode_stat
  | RespResults "txn_result list"
  | RespPathStat "string option" znode_stat
  | RespConnect connect_rec nat
  | RespChallenge "bytes option" nat

definition read_data_stat :: "bytes \<Rightarrow> nat \<Rightarrow> exc + response" where
  "read_data_stat buffer offset =
     ebind (read_buffer buffer offset) (\<lambda>(data, offset).
     ebind (read_stat buffer offset) (\<lambda>stat. Inr (RespData data stat)))"

definition read_children :: "bytes \<Rightarrow> nat \<Rightarrow> exc + (string option list \<times> nat) option" where
  "read_children buffer offset =
     ebind (unpack_int buffer offset) (\<lambda>count.
       if count = -1 then Inr None
       else ebind (read_times read_string (nat count) buffer (offset + struct_size int_struct))
              (\<lambda>r. Inr (Some r)))"

text \<open>The classes without a \<^verbatim>\<open>deserialize\<close> method raise \<^verbatim>\<open>AttributeError\<close> when it is looked up.\<close>

fun deserialize :: "request \<Rightarrow> bytes \<Rightarrow> nat \<Rightarrow> exc + response" where
  "deserialize (Create _ _ _ _) buffer offset =
     ebind (read_string buffer offset) (\<lambda>(path, _). Inr (RespPath path))"
| "deserialize (Delete _ _) buffer offset = Inr RespTrue"
| "deserialize (Exists _ _) buffer offset =
     ebind (read_stat buffer offset) (\<lambda>stat.
       Inr (RespExists (if czxid stat \<noteq> -1 then Some stat else None)))"
| "deserialize (GetData _ _) buffer offset = read_data_stat buffer offset"
| "deserialize (SetData _ _ _) buffer offset =
     ebind (read_stat buffer offset) (\<lambda>stat. Inr (RespStat stat))"
| "deserialize (GetACL _) buffer offset =
     ebind (unpack_int buffer offset) (\<lambda>count.
       if count = -1 then Inr RespNil
       else ebind (read_times read_acl (nat count) buffer (offset + struct_size int_struct))
         (\<lambda>(acls, offset).
            ebind (read_stat buffer offset) (\<lambda>stat. Inr (RespAcls acls stat))))"
| "deserialize (SetACL _ _ _) buffer offset =
     ebind (read_stat buffer offset) (\<lambda>stat. Inr (RespStat stat))"
| "deserialize (GetChildren _ _) buffer offset =
     ebind (read_children buffer offset) (\<lambda>r.
       case r of None \<Rightarrow> Inr RespNil | Some (children, _) \<Rightarrow> Inr (RespChildren children))"
| "deserialize (Sync _) buffer offset =
     ebind (read_string buffer offset) (\<lambda>(path, _). Inr (RespPath path))"
| "deserialize (GetChildren2 _ _) buffer offset =
     ebind (read_children buffer offset) (\<lambda>r.
       case r of None \<Rightarrow> Inr RespNil
       | Some (children, offset) \<Rightarrow>
           ebind (read_stat buffer offset) (\<lambda>stat. Inr (RespChildren2 children stat)))"
| "deserialize (Transaction _) buffer offset =
     ebind (transaction_deserialize buffer offset) (\<lambda>rs. Inr (RespResults rs))"
| "deserialize (Create2 _ _ _ _) buffer offset =
     ebind (read_string buffer offset) (\<lambda>(path, offset).
     ebind (read_stat buffer offset) (\<lambda>stat. Inr (RespPathStat path stat)))"
| "deserialize (Reconfig _ _ _ _) buffer offset = read_data_stat buffer offset"
| "deserialize (SASL _) buffer offset =
     ebind (read_buffer buffer offset) (\<lambda>(challenge, offset). Inr (RespChallenge challenge offset))"
| "deserialize (Connect _) buffer offset =
     ebind (connect_deserialize buffer offset) (\<lambda>(c, offset). Inr (RespConnect c offset))"
| "deserialize Close buffer offset = Inl PyAttributeError"
| "deserialize Ping buffer offset = Inl PyAttributeError"
| "deserialize (CheckVersion _ _) buffer offset = Inl PyAttributeError"
| "deserialize (Auth _ _ _) buffer offset = Inl PyAttributeError"

end
