(* ===== verification/Paths.thy ===== *)
theory Paths
  imports Errors
begin

text \<open>
  \<^verbatim>\<open>kazoo/protocol/paths.py\<close>, and the client's use of it: \<^verbatim>\<open>_prefix_root\<close> puts the chroot
  in front of every path that goes to the server, \<^verbatim>\<open>KazooClient.unchroot\<close> takes it off every
  path that comes back. The abstract view of a path is its list of non-empty components
  (\<open>path_comps\<close>); the lemmas relate each operation to it.
\<close>

abbreviation slash :: char where "slash \<equiv> CHR ''/''"

section \<open>The operations\<close>

fun normpath_comps :: "string list \<Rightarrow> exc + string list" where
  "normpath_comps [] = Inr []"
| "normpath_comps (c # comps) =
     (if c = '''' then normpath_comps comps
      else if c = ''.'' \<or> c = ''..'' then Inl PyValueError
      else ebind (normpath_comps comps) (\<lambda>new_comps. Inr (c # new_comps)))"

definition normpath :: "string \<Rightarrow> bool \<Rightarrow> exc + string" where
  "normpath path trailing =
     ebind (normpath_comps (split_on slash path)) (\<lambda>new_comps.
       let new_path = join_with ''/'' new_comps;
           new_path = (if trailing \<and> ends_with path ''/'' then new_path @ ''/'' else new_path)
       in Inr (if starts_with path ''/'' \<and> new_path \<noteq> ''/'' then ''/'' @ new_path
               else new_path))"

fun path_join :: "string \<Rightarrow> string list \<Rightarrow> string" where
  "path_join path [] = path"
| "path_join path (b # p) =
     path_join
       (if starts_with b ''/'' then b
        else if path = '''' \<or> ends_with path ''/'' then path @ b
        else path @ ''/'' @ b) p"

definition isabs :: "string \<Rightarrow> bool" where
  "isabs s = starts_with s ''/''"

text \<open>\<open>p.rfind('/') + 1\<close> is the length of the prefix up to and including the last slash.\<close>

definition basename :: "string \<Rightarrow> string" where
  "basename p = rev (takeWhile (\<lambda>c. c \<noteq> slash) (rev p))"

definition norm_root :: "string \<Rightarrow> exc + string" where
  "norm_root root = normpath (path_join ''/'' [root]) False"

definition prefix_root :: "string \<Rightarrow> string \<Rightarrow> bool \<Rightarrow> exc + string" where
  "prefix_root root path trailing =
     ebind (norm_root root) (\<lambda>r. normpath (path_join r [lstrip slash path]) trailing)"

definition unchroot :: "string \<Rightarrow> string \<Rightarrow> string" where
  "unchroot chroot path =
     (if chroot = '''' then path
      else if chroot = path then ''/''
      else if starts_with path chroot then drop (length chroot) path
      else path)"

section \<open>Paths as lists of components\<close>

definition path_comps :: "string \<Rightarrow> string list" where
  "path_comps p = filter (\<lambda>x. x \<noteq> '''') (split_on slash p)"

definition dotted :: "string list \<Rightarrow> bool" where
  "dotted xs \<longleftrightarrow> ''.'' \<in> set xs \<or> ''..'' \<in> set xs"

definition clean_comps :: "string list \<Rightarrow> bool" where
  "clean_comps xs \<longleftrightarrow> (\<forall>x \<in> set xs. x \<noteq> '''' \<and> slash \<notin> set x) \<and> \<not> dotted xs"

lemma dotted_simps [simp]:
  "dotted (xs @ ys) \<longleftrightarrow> dotted xs \<or> dotted ys"
  "\<not> dotted []"
  by (auto simp: dotted_def)

lemma path_comps_sep [simp]: "path_comps (s @ slash # t) = path_comps s @ path_comps t"
  by (simp add: path_comps_def split_on_append_sep)

lemma path_comps_slash [simp]: "path_comps (slash # t) = path_comps t"
  using path_comps_sep [of "[]" t] by (simp add: path_comps_def)

lemma path_comps_Nil [simp]: "path_comps [] = []"
  by (simp add: path_comps_def)

lemma path_comps_snoc_slash [simp]: "path_comps (s @ [slash]) = path_comps s"
  using path_comps_sep [of s "[]"] by simp

lemma path_comps_lstrip [simp]: "path_comps (lstrip slash p) = path_comps p"
  by (induction p) (simp_all add: lstrip_def)

lemma path_comps_rstrip [simp]: "path_comps (rstrip slash p) = path_comps p"
proof (induction p rule: rev_induct)
  case (snoc c p)
  then show ?case by (cases "c = slash") (simp_all add: rstrip_def lstrip_def)
qed (simp add: rstrip_def lstrip_def)

lemma path_comps_elem: "x \<in> set (path_comps p) \<Longrightarrow> x \<noteq> '''' \<and> slash \<notin> set x"
  by (auto simp: path_comps_def dest: split_on_elem_no_sep)

lemma path_comps_join_with:
  assumes "\<And>x. x \<in> set xs \<Longrightarrow> x \<noteq> '''' \<and> slash \<notin> set x"
  shows "path_comps (join_with ''/'' xs) = xs"
proof (cases "xs = []")
  case False
  with assms have "split_on slash (join_with [slash] xs) = xs"
    by (intro split_on_join_with) auto
  then show ?thesis
    using assms by (auto simp: path_comps_def filter_id_conv)
qed simp

lemma path_comps_rejoin [simp]: "path_comps (join_with ''/'' (path_comps p)) = path_comps p"
  by (rule path_comps_join_with) (rule path_comps_elem)

lemma path_comps_eq_Nil: "path_comps p = [] \<Longrightarrow> p = [] \<or> starts_with p ''/''"
  by (cases p) (auto simp: path_comps_def split: list.splits if_splits)

lemma lstrip_eq_Nil: "lstrip slash p = [] \<longleftrightarrow> path_comps p = []"
proof (induction p)
  case (Cons c p)
  show ?case
  proof (cases "c = slash")
    case True
    with Cons show ?thesis by (simp add: lstrip_def)
  next
    case False
    then show ?thesis using path_comps_eq_Nil [of "c # p"] by (auto simp: lstrip_def)
  qed
qed (simp add: lstrip_def)

lemma lstrip_not_slash: "\<not> starts_with (lstrip slash p) ''/''"
  by (induction p) (simp_all add: lstrip_def)

lemma ends_with_lstrip:
  "ends_with (slash # lstrip slash p) ''/'' \<longleftrightarrow> ends_with (slash # p) ''/''"
  by (induction p) (auto simp: lstrip_def ends_with_singleton split: if_splits)

lemma join_with_clean_not_slash:
  assumes "\<And>x. x \<in> set xs \<Longrightarrow> x \<noteq> '''' \<and> slash \<notin> set x"
  shows "\<not> starts_with (join_with ''/'' xs) ''/''"
proof (cases xs)
  case (Cons y ys)
  with assms have "y \<noteq> []" and "slash \<notin> set y" by auto
  with Cons show ?thesis
    using hd_join_with [of xs "''/''"] by (cases y) (auto simp: starts_with_hd)
qed (simp add: starts_with_def)

lemma join_with_append_ne:
  "xs \<noteq> [] \<Longrightarrow> ys \<noteq> [] \<Longrightarrow> join_with sep (xs @ ys) = join_with sep xs @ sep @ join_with sep ys"
  by (induction xs rule: list_nonempty_induct) (simp_all add: join_with_Cons)

section \<open>What normpath computes\<close>

lemma normpath_comps_eq:
  "normpath_comps xs =
     (if dotted xs then Inl PyValueError else Inr (filter (\<lambda>x. x \<noteq> '''') xs))"
  by (induction xs rule: normpath_comps.induct) (auto simp: dotted_def)

lemma dotted_path_comps: "dotted (split_on slash p) \<longleftrightarrow> dotted (path_comps p)"
  by (auto simp: dotted_def path_comps_def)

lemma normpath_eq:
  "normpath p t =
     (if dotted (path_comps p) then Inl PyValueError
      else let np = join_with ''/'' (path_comps p)
                    @ (if t \<and> ends_with p ''/'' then ''/'' else '''')
           in Inr (if starts_with p ''/'' \<and> np \<noteq> ''/'' then slash # np else np))"
proof (cases "dotted (path_comps p)")
  case True
  then show ?thesis by (simp add: normpath_def normpath_comps_eq dotted_path_comps)
next
  case False
  then have "normpath_comps (split_on slash p) = Inr (path_comps p)"
    by (simp add: normpath_comps_eq dotted_path_comps) (simp add: path_comps_def)
  with False show ?thesis by (simp add: normpath_def Let_def)
qed

lemma join_comps_head:
  assumes "path_comps p \<noteq> []"
  obtains c w where "join_with ''/'' (path_comps p) = c # w" and "c \<noteq> slash"
proof -
  have "hd (path_comps p) \<in> set (path_comps p)" using assms by simp
  then have "join_with ''/'' (path_comps p) \<noteq> []"
    using path_comps_elem join_with_ne by blast
  moreover have "\<not> starts_with (join_with ''/'' (path_comps p)) ''/''"
    by (rule join_with_clean_not_slash) (rule path_comps_elem)
  ultimately show ?thesis
    using that by (cases "join_with ''/'' (path_comps p)") simp_all
qed

lemma join_comps_eq_Nil [simp]: "join_with ''/'' (path_comps p) = [] \<longleftrightarrow> path_comps p = []"
proof
  assume n: "join_with ''/'' (path_comps p) = []"
  show "path_comps p = []"
  proof (rule ccontr)
    assume "path_comps p \<noteq> []"
    then obtain c w where "join_with ''/'' (path_comps p) = c # w" by (rule join_comps_head)
    with n show False by simp
  qed
qed simp

text \<open>For an absolute path the result is a slash, the components, and a trailing slash at most.\<close>

lemma normpath_abs:
  assumes "starts_with p ''/''"
  shows "normpath p t =
     (if dotted (path_comps p) then Inl PyValueError
      else Inr (slash # join_with ''/'' (path_comps p)
             @ (if t \<and> ends_with p ''/'' \<and> path_comps p \<noteq> [] then ''/'' else '''')))"
proof (cases "path_comps p = []")
  case True
  with assms show ?thesis by (simp add: normpath_eq)
next
  case False
  then obtain c w where j: "join_with ''/'' (path_comps p) = c # w" and "c \<noteq> slash"
    by (rule join_comps_head)
  then show ?thesis using assms False by (simp add: normpath_eq Let_def)
qed

lemma normpath_rel:
  assumes "\<not> starts_with p ''/''"
  shows "normpath p t =
     (if dotted (path_comps p) then Inl PyValueError
      else Inr (join_with ''/'' (path_comps p)
             @ (if t \<and> ends_with p ''/'' then ''/'' else '''')))"
  using assms by (simp add: normpath_eq Let_def)

lemma normpath_comps_result:
  assumes "normpath p t = Inr q"
  shows "path_comps q = path_comps p" and "\<not> dotted (path_comps p)"
proof -
  show nd: "\<not> dotted (path_comps p)"
    using assms by (auto simp: normpath_eq split: if_splits)
  have "path_comps (w @ (if b then ''/'' else '''')) = path_comps w" for w b
    by simp
  then show "path_comps q = path_comps p"
    using assms nd by (cases "starts_with p ''/''") (auto simp: normpath_abs normpath_rel)
qed

lemma normpath_starts_with:
  assumes "normpath p t = Inr q"
  shows "starts_with q ''/'' \<longleftrightarrow> starts_with p ''/''"
proof (cases "starts_with p ''/''")
  case True
  with assms show ?thesis by (auto simp: normpath_abs split: if_splits)
next
  case False
  note rel = this
  show ?thesis
  proof (cases "path_comps p = []")
    case True
    then have "p = []" using rel path_comps_eq_Nil by blast
    with assms show ?thesis by (auto simp: normpath_eq ends_with_def)
  next
    case False
    then obtain c w where j: "join_with ''/'' (path_comps p) = c # w" and "c \<noteq> slash"
      by (rule join_comps_head)
    then have "\<not> starts_with (join_with ''/'' (path_comps p) @ s) ''/''" for s by simp
    from this [of "[]"] this [of "''/''"] assms rel show ?thesis
      by (auto simp: normpath_rel split: if_splits)
  qed
qed

lemma ends_with_rejoin: "\<not> ends_with (join_with ''/'' (path_comps p)) ''/''"
proof (cases "path_comps p = []")
  case True
  then show ?thesis by (simp add: ends_with_def)
next
  case False
  then have "last (path_comps p) \<in> set (path_comps p)" by simp
  then have l: "last (path_comps p) \<noteq> []" and "slash \<notin> set (last (path_comps p))"
    using path_comps_elem by blast+
  then have "last (last (path_comps p)) \<noteq> slash"
    using last_in_set [OF l] by metis
  with l show ?thesis
    using False last_join_with [of "path_comps p" "''/''"] by (auto simp: ends_with_singleton)
qed

text \<open>
  Path normalisation is idempotent: a path that \<^verbatim>\<open>normpath\<close> returned is returned
  unchanged when it is normalised again with the same \<^verbatim>\<open>trailing\<close> flag.
\<close>

theorem normpath_idempotent:
  assumes "normpath p t = Inr q"
  shows "normpath q t = Inr q"
proof -
  note comps = normpath_comps_result [OF assms]
  note start = normpath_starts_with [OF assms]
  define j where "j = join_with ''/'' (path_comps p)"
  have j: "\<not> ends_with j ''/''" "path_comps p = [] \<longleftrightarrow> j = []"
    by (simp_all add: j_def ends_with_rejoin)
  show ?thesis
  proof (cases "starts_with p ''/''")
    case True
    then have q: "q = slash # j @ (if t \<and> ends_with p ''/'' \<and> path_comps p \<noteq> [] then ''/'' else '''')"
      using assms comps by (simp add: normpath_abs j_def)
    then have "t \<and> ends_with q ''/'' \<and> path_comps p \<noteq> [] \<longleftrightarrow>
        t \<and> ends_with p ''/'' \<and> path_comps p \<noteq> []"
      using j by (auto simp: ends_with_singleton)
    then show ?thesis
      using True start comps q by (simp add: normpath_abs j_def)
  next
    case False
    then have q: "q = j @ (if t \<and> ends_with p ''/'' then ''/'' else '''')"
      using assms comps by (simp add: normpath_rel j_def)
    then have "t \<and> ends_with q ''/'' \<longleftrightarrow> t \<and> ends_with p ''/''"
      using j(1) by (auto simp: ends_with_singleton)
    then show ?thesis
      using False start comps q by (simp add: normpath_rel j_def)
  qed
qed

theorem normpath_idempotent_witness:
  "normpath ''/a//b/'' True = Inr ''/a/b/'' \<and> normpath ''/a/b/'' True = Inr ''/a/b/''"
proof -
  have h: "normpath ''/a//b/'' True = Inr ''/a/b/''"
    by (simp add: normpath_def ends_with_def Let_def)
  show ?thesis using h normpath_idempotent [OF h] by simp
qed

section \<open>The chroot\<close>

text \<open>
  A chroot as \<^verbatim>\<open>set_hosts\<close> stores it: empty, or what \<^verbatim>\<open>normpath\<close> returns for an absolute
  path. The bare slash is such a chroot too; it is the case in which \<^verbatim>\<open>unchroot\<close> fails.
\<close>

definition chroot_form :: "string \<Rightarrow> bool" where
  "chroot_form c \<longleftrightarrow> c = '''' \<or> (starts_with c ''/'' \<and> normpath c False = Inr c)"

lemma chroot_form_cases:
  assumes "chroot_form c"
  obtains (empty) "c = ''''" | (root) "c = ''/''"
  | (path) cs where "path_comps c = cs" and "cs \<noteq> []" and "\<not> dotted cs"
      and "c = slash # join_with ''/'' cs"
proof (cases "c = ''''")
  case False
  then have c: "starts_with c ''/''" "normpath c False = Inr c"
    using assms by (auto simp: chroot_form_def)
  then have "\<not> dotted (path_comps c)" and "c = slash # join_with ''/'' (path_comps c)"
    by (auto simp: normpath_abs split: if_splits)
  then show ?thesis
    using path [OF refl] root by (cases "path_comps c = []") simp_all
qed (use empty in simp)

lemma chroot_form_root: "chroot_form c \<Longrightarrow> norm_root c = Inr (if c = '''' then ''/'' else c)"
  by (auto simp: chroot_form_def norm_root_def ends_with_def normpath_abs)

text \<open>What \<^verbatim>\<open>_prefix_root\<close> sends: the components of the chroot, then those of the path.\<close>

lemma prefix_root_eq:
  assumes "chroot_form c"
  shows "prefix_root c p t =
     (if dotted (path_comps p) then Inl PyValueError
      else Inr (slash # join_with ''/'' (path_comps c @ path_comps p)
             @ (if t \<and> ends_with (slash # p) ''/'' \<and> path_comps c @ path_comps p \<noteq> []
                then ''/'' else '''')))"
proof -
  define b where "b = lstrip slash p"
  have b: "\<not> starts_with b ''/''" "path_comps b = path_comps p"
    "ends_with (slash # b) ''/'' = ends_with (slash # p) ''/''"
    by (simp_all add: b_def lstrip_not_slash ends_with_lstrip)
  have root: "path_join ''/'' [b] = slash # b"
    using b(1) by (simp add: ends_with_def)
  show ?thesis
    using assms
  proof (cases rule: chroot_form_cases)
    case empty
    with assms have "prefix_root c p t = normpath (slash # b) t"
      by (simp add: prefix_root_def chroot_form_root b_def [symmetric] root del: path_join.simps)
    then show ?thesis using b empty by (simp add: normpath_abs)
  next
    case root
    with assms have "prefix_root c p t = normpath (slash # b) t"
      by (simp add: prefix_root_def chroot_form_root b_def [symmetric] \<open>path_join ''/'' [b] = _\<close>
          del: path_join.simps)
    then show ?thesis using b root by (simp add: normpath_abs)
  next
    case (path cs)
    have c: "c \<noteq> []" "starts_with (c @ slash # b) ''/''" using path(4) by simp_all
    have "ends_with c ''/'' \<longleftrightarrow> ends_with (join_with ''/'' cs) ''/''"
      using path(1,2,4) by (simp add: ends_with_singleton) (metis join_comps_eq_Nil)
    then have "\<not> ends_with c ''/''"
      using ends_with_rejoin [of c] path(1) by simp
    then have "path_join c [b] = c @ slash # b"
      using b(1) c(1) by simp
    then have "prefix_root c p t = normpath (c @ slash # b) t"
      using assms c(1) by (simp add: prefix_root_def chroot_form_root b_def [symmetric]
          del: path_join.simps)
    moreover have "ends_with (c @ slash # b) ''/'' = ends_with (slash # p) ''/''"
      using b(3) by (simp add: ends_with_singleton)
    ultimately show ?thesis
      using c(2) b(2) path(1-3) by (simp add: normpath_abs)
  qed
qed

text \<open>
  C38. What the client strips is what it added: for every chroot but the bare slash,
  \<^verbatim>\<open>unchroot\<close> of the path that \<^verbatim>\<open>_prefix_root\<close> sent is the normalised path of the caller.
\<close>

theorem unchroot_prefix_root:
  assumes "chroot_form c" and "c \<noteq> ''/''" and "prefix_root c p t = Inr q"
  shows "normpath (slash # p) t = Inr (unchroot c q)"
  using assms(1)
proof (cases rule: chroot_form_cases)
  case empty
  then show ?thesis
    using assms by (auto simp: prefix_root_eq normpath_abs unchroot_def split: if_splits)
next
  case root
  with assms(2) show ?thesis by simp
next
  case (path cs)
  define tr where "tr = (if t \<and> ends_with (slash # p) ''/'' then ''/'' else '''')"
  have nd: "\<not> dotted (path_comps p)"
    and q: "q = slash # join_with ''/'' (cs @ path_comps p) @ tr"
    using assms(3) path(1,2) by (auto simp: prefix_root_eq [OF assms(1)] tr_def split: if_splits)
  have n: "normpath (slash # p) t =
      Inr (slash # join_with ''/'' (path_comps p) @ (if path_comps p \<noteq> [] then tr else ''''))"
    using nd by (simp add: normpath_abs tr_def)
  show ?thesis
  proof (cases "path_comps p = []")
    case True
    with q path(4) have "q = c @ tr" by simp
    then show ?thesis
      using n True path(4) by (auto simp: unchroot_def tr_def)
  next
    case False
    with q path(2,4) have "q = c @ slash # join_with ''/'' (path_comps p) @ tr"
      by (simp add: join_with_append_ne)
    then show ?thesis
      using n False path(4) by (simp add: unchroot_def)
  qed
qed

theorem unchroot_prefix_root_witness:
  "prefix_root ''/app'' ''x//y'' False = Inr ''/app/x/y'' \<and>
   normpath ''/x//y'' False = Inr (unchroot ''/app'' ''/app/x/y'')"
proof -
  have c: "chroot_form ''/app''"
    by (simp add: chroot_form_def normpath_def ends_with_def)
  have q: "prefix_root ''/app'' ''x//y'' False = Inr ''/app/x/y''"
    by (simp add: prefix_root_def norm_root_def normpath_def ends_with_def lstrip_def)
  show ?thesis
    using q unchroot_prefix_root [OF c _ q] by simp
qed

lemma prefix_root_below:
  assumes "chroot_form c" and "c \<noteq> ''/''" and "c \<noteq> ''''" and "prefix_root c p t = Inr q"
  shows "q = c \<or> starts_with q (c @ ''/'')"
  using assms(1)
proof (cases rule: chroot_form_cases)
  case (path cs)
  define tr where "tr = (if t \<and> ends_with (slash # p) ''/'' then ''/'' else '''')"
  have q: "q = slash # join_with ''/'' (cs @ path_comps p) @ tr"
    using assms(4) path(1,2) by (auto simp: prefix_root_eq [OF assms(1)] tr_def split: if_splits)
  show ?thesis
  proof (cases "path_comps p = []")
    case True
    with q path(4) have "q = c @ tr" by simp
    then show ?thesis by (simp add: tr_def)
  next
    case False
    with q path(2,4) have "q = (c @ ''/'') @ join_with ''/'' (path_comps p) @ tr"
      by (simp add: join_with_append_ne)
    then show ?thesis by (metis starts_with_append)
  qed
qed (use assms in simp_all)

text \<open>
  The chroot is a jail: every path that \<^verbatim>\<open>_prefix_root\<close> lets through is the chroot
  itself or lies below it; no relative component of the caller's path leads out of it.
\<close>

theorem prefix_root_confined:
  assumes "chroot_form c" and "c \<noteq> ''/''" and "c \<noteq> ''''" and "prefix_root c p t = Inr q"
  shows "q = c \<or> starts_with q (c @ ''/'')"
  using assms by (rule prefix_root_below)

theorem prefix_root_confined_witness:
  "prefix_root ''/app'' ''/a'' False = Inr ''/app/a'' \<and>
   (''/app/a'' = ''/app'' \<or> starts_with ''/app/a'' ''/app/'')"
proof -
  have c: "chroot_form ''/app''"
    by (simp add: chroot_form_def normpath_def ends_with_def)
  have q: "prefix_root ''/app'' ''/a'' False = Inr ''/app/a''"
    by (simp add: prefix_root_def norm_root_def normpath_def ends_with_def lstrip_def)
  show ?thesis
    using q prefix_root_confined [OF c _ _ q] by simp
qed

text \<open>
  With the bare slash as the chroot (a host list whose last element is a slash gives it)
  \<^verbatim>\<open>unchroot\<close> strips the leading slash of every absolute path other than the root, so
  the client hands out relative paths.
\<close>

theorem unchroot_bare_slash:
  "chroot_form ''/'' \<and> unchroot ''/'' (slash # x) = (if x = '''' then ''/'' else x)"
  by (simp add: chroot_form_def normpath_def ends_with_def unchroot_def)

end
