(* ===== verification/Session.thy ===== *)
theory Session
  imports Handlers Serialization Paths
begin

text \<open>
  The session state of \<^verbatim>\<open>kazoo/client.py\<close>: the record of what \<^verbatim>\<open>KazooClient\<close> keeps between
  calls, and the operations that change it (\<^verbatim>\<open>_session_callback\<close>, \<^verbatim>\<open>_make_state_change\<close>,
  \<^verbatim>\<open>_notify_pending\<close>, \<^verbatim>\<open>_reset\<close>, \<^verbatim>\<open>_call\<close>, \<^verbatim>\<open>start_async\<close>, \<^verbatim>\<open>stop\<close>, listeners, hosts).

  The asynchronous results are shared between the caller, the queues and the connection
  thread; they live in a store \<open>c_results\<close> and are named by their address, a number. The sets
  and default dictionaries of the code are lists in insertion order. A state listener is a
  function of the state alone (\<open>lst\<close>), its calls are recorded in \<open>c_notified\<close>.
\<close>

section \<open>The client's state\<close>

text \<open>
  An entry of the request queue is a request or one of the two objects the connection's test
  hooks put there.
\<close>

datatype queue_item = Req request | SESSION_EXPIRED_HOOK | CONNECTION_DROP_HOOK

type_synonym watch_table = "(string \<times> nat list) list"

record client =
  c_hosts :: "(string \<times> int) list"
  c_randomize :: bool
  c_chroot :: "string option"
  c_state :: keeper_state
  c_kstate :: kazoo_state
  c_listeners :: "nat list"
  c_child_watchers :: watch_table
  c_data_watchers :: watch_table
  c_queue :: "(queue_item \<times> nat option) list"
  c_pending :: "(request \<times> nat option \<times> int) list"
  c_session_id :: "int option"
  c_session_passwd :: "bytes option"
  c_session_timeout :: int
  c_last_zxid :: int
  c_protocol_version :: "int option"
  c_read_only :: bool
  c_live :: bool
  c_stopped :: bool
  c_writer_stopped :: bool
  c_results :: "nat \<Rightarrow> response async_result"
  c_handler :: handler
  c_notified :: "(nat \<times> kazoo_state) list"

definition CLOSED_STATES :: "keeper_state list" where
  "CLOSED_STATES = [EXPIRED_SESSION, AUTH_FAILED, CLOSED]"

definition set_result_exception :: "nat \<Rightarrow> exc \<Rightarrow> client \<Rightarrow> client" where
  "set_result_exception i e c =
     (let r = ar_set_exception i e (c_results c i) (c_handler c)
      in c\<lparr>c_results := (c_results c)(i := fst r), c_handler := snd r\<rparr>)"

definition set_result :: "nat \<Rightarrow> response option \<Rightarrow> client \<Rightarrow> client" where
  "set_result i v c =
     (let r = ar_set i v (c_results c i) (c_handler c)
      in c\<lparr>c_results := (c_results c)(i := fst r), c_handler := snd r\<rparr>)"

definition client_dispatch :: "watched_event \<Rightarrow> client \<Rightarrow> nat \<Rightarrow> client" where
  "client_dispatch ev c watch =
     c\<lparr>c_handler := dispatch_callback \<lparr>cb_func = watch, cb_event = ev\<rparr> (c_handler c)\<rparr>"

section \<open>Resetting\<close>

definition reset_watchers :: "client \<Rightarrow> client" where
  "reset_watchers c =
     (let watchers = concat (map snd (c_child_watchers c)) @ concat (map snd (c_data_watchers c));
          c = c\<lparr>c_child_watchers := [], c_data_watchers := []\<rparr>;
          ev = \<lparr>ev_type = NONE, ev_state = c_state c, ev_path = None\<rparr>
      in foldl (client_dispatch ev) c watchers)"

definition reset_session :: "client \<Rightarrow> client" where
  "reset_session c = c\<lparr>c_session_id := None, c_session_passwd := Some (replicate 16 0)\<rparr>"

definition client_reset :: "client \<Rightarrow> client" where
  "client_reset c =
     (let c = c\<lparr>c_queue := [], c_pending := []\<rparr>;
          c = reset_session (reset_watchers c)
      in c\<lparr>c_last_zxid := 0, c_protocol_version := None\<rparr>)"

text \<open>\<^verbatim>\<open>__init__\<close>, as far as the session is concerned, with the arguments it stores.\<close>

definition client_init :: "(string \<times> int) list \<Rightarrow> string \<Rightarrow> int \<Rightarrow> bool \<Rightarrow> (int \<times> bytes) option \<Rightarrow> client" where
  "client_init hosts chroot session_timeout ro client_id =
     (let c = client_reset
        \<lparr>c_hosts = hosts, c_randomize = True, c_chroot = Some chroot, c_state = CLOSED, c_kstate = LOST,
         c_listeners = [], c_child_watchers = [], c_data_watchers = [], c_queue = [], c_pending = [],
         c_session_id = None, c_session_passwd = None, c_session_timeout = session_timeout,
         c_last_zxid = 0, c_protocol_version = None, c_read_only = ro, c_live = False,
         c_stopped = True, c_writer_stopped = True, c_results = (\<lambda>_. async_init),
         c_handler = handler_init, c_notified = []\<rparr>
      in (case client_id of
            Some (sid, pw) \<Rightarrow> c\<lparr>c_session_id := Some sid, c_session_passwd := Some pw\<rparr>
          | None \<Rightarrow> reset_session c))"

section \<open>Reading the state\<close>

definition client_state :: "client \<Rightarrow> keeper_state" where
  "client_state c = c_state c"

definition client_id :: "client \<Rightarrow> (int option \<times> bytes option) option" where
  "client_id c = (if c_live c then Some (c_session_id c, c_session_passwd c) else None)"

definition connected :: "client \<Rightarrow> bool" where
  "connected c \<longleftrightarrow> c_live c"

text \<open>
  \<^verbatim>\<open>set_hosts\<close>, given what \<^verbatim>\<open>collect_hosts\<close> returned. \<open>c_chroot\<close> is \<^term>\<open>None\<close> only
  before the first call.
\<close>

definition set_hosts :: "(string \<times> int) list \<times> string option \<Rightarrow> bool option \<Rightarrow> client
    \<Rightarrow> (exc + unit) \<times> client" where
  "set_hosts collected randomize_hosts c =
     (let c = (case randomize_hosts of Some r \<Rightarrow> c\<lparr>c_randomize := r\<rparr> | None \<Rightarrow> c);
          c = c\<lparr>c_hosts := fst collected\<rparr>;
          chroot = (case snd collected of Some s \<Rightarrow> s | None \<Rightarrow> [])
      in case (if chroot = [] then Inr [] else normpath chroot False) of
           Inl e \<Rightarrow> (Inl e, c)
         | Inr new_chroot \<Rightarrow>
             if c_chroot c \<noteq> None \<and> Some new_chroot \<noteq> c_chroot c then (Inl ConfigurationError, c)
             else (Inr (), c\<lparr>c_chroot := Some new_chroot\<rparr>))"

section \<open>Listeners\<close>

definition add_listener :: "nat \<Rightarrow> client \<Rightarrow> client" where
  "add_listener l c = (if l \<in> set (c_listeners c) then c else c\<lparr>c_listeners := c_listeners c @ [l]\<rparr>)"

definition remove_listener :: "nat \<Rightarrow> client \<Rightarrow> client" where
  "remove_listener l c = c\<lparr>c_listeners := removeAll l (c_listeners c)\<rparr>"

definition notify_listener :: "(nat \<Rightarrow> kazoo_state \<Rightarrow> exc + bool) \<Rightarrow> kazoo_state \<Rightarrow> client \<Rightarrow> nat \<Rightarrow> client" where
  "notify_listener lst state c l =
     (let c = c\<lparr>c_notified := c_notified c @ [(l, state)]\<rparr>
      in case lst l state of
           Inr remove \<Rightarrow> if remove then remove_listener l c else c
         | Inl _ \<Rightarrow> c)"

definition make_state_change :: "(nat \<Rightarrow> kazoo_state \<Rightarrow> exc + bool) \<Rightarrow> kazoo_state \<Rightarrow> client \<Rightarrow> client" where
  "make_state_change lst state c =
     (if c_kstate c = state then c
      else let c = c\<lparr>c_kstate := state\<rparr>
        in foldl (notify_listener lst state) c (c_listeners c))"

section \<open>The session callback\<close>

definition pending_exception :: "keeper_state \<Rightarrow> exc" where
  "pending_exception state =
     (if state = AUTH_FAILED then ZkErr AuthFailedError
      else if state = EXPIRED_SESSION then ZkErr SessionExpiredError
      else ZkErr ConnectionLoss)"

definition fail_result :: "exc \<Rightarrow> client \<Rightarrow> nat option \<Rightarrow> client" where
  "fail_result e c async_object =
     (case async_object of None \<Rightarrow> c | Some i \<Rightarrow> set_result_exception i e c)"

text \<open>
  \<^verbatim>\<open>_notify_pending\<close>: each loop pops the left end until the deque is empty, so the entries are
  failed in order, those that were sent before those that were not.
\<close>

definition notify_pending :: "keeper_state \<Rightarrow> client \<Rightarrow> client" where
  "notify_pending state c =
     (let e = pending_exception state;
          c = (foldl (fail_result e) c (map (fst \<circ> snd) (c_pending c)))\<lparr>c_pending := []\<rparr>
      in (foldl (fail_result e) c (map snd (c_queue c)))\<lparr>c_queue := []\<rparr>)"

definition session_callback :: "(nat \<Rightarrow> kazoo_state \<Rightarrow> exc + bool) \<Rightarrow> keeper_state \<Rightarrow> client \<Rightarrow> client" where
  "session_callback lst state c =
     (if state = c_state c then c
      else let closed_state = c_state c \<in> set CLOSED_STATES;
               c = c\<lparr>c_state := state\<rparr>
        in if closed_state \<and> state = CONNECTING then c
           else if state = CONNECTED \<or> state = CONNECTED_RO then
             make_state_change lst KAZOO_CONNECTED (c\<lparr>c_live := True\<rparr>)
           else if state \<in> set CLOSED_STATES then
             client_reset (notify_pending state (make_state_change lst LOST (c\<lparr>c_live := False\<rparr>)))
           else
             reset_watchers (make_state_change lst SUSPENDED (notify_pending state (c\<lparr>c_live := False\<rparr>))))"

section \<open>Submitting a request\<close>

text \<open>
  \<^verbatim>\<open>_call\<close> in the two parts between which another thread may run: the test of the state, and
  the entry in the queue with the wake-up of the connection. \<open>write_sock\<close> is \<^term>\<open>None\<close> for a
  closed connection and otherwise tells whether sending the byte succeeds.
\<close>

definition call_check :: "nat \<Rightarrow> client \<Rightarrow> bool option \<times> client" where
  "call_check i c =
     (if c_state c = AUTH_FAILED then (Some False, set_result_exception i (ZkErr AuthFailedError) c)
      else if c_state c = CLOSED then (Some False, set_result_exception i ConnectionClosedError c)
      else if c_state c = EXPIRED_SESSION then
        (Some False, set_result_exception i (ZkErr SessionExpiredError) c)
      else (None, c))"

definition call_enqueue :: "bool option \<Rightarrow> queue_item \<Rightarrow> nat \<Rightarrow> client \<Rightarrow> client" where
  "call_enqueue write_sock request i c =
     (let c = c\<lparr>c_queue := c_queue c @ [(request, Some i)]\<rparr>
      in case write_sock of
           None \<Rightarrow> set_result_exception i ConnectionClosedError c
         | Some sent \<Rightarrow> if sent then c else set_result_exception i ConnectionClosedError c)"

definition call :: "bool option \<Rightarrow> queue_item \<Rightarrow> nat \<Rightarrow> client \<Rightarrow> bool option \<times> client" where
  "call write_sock request i c =
     (case call_check i c of
        (Some r, c) \<Rightarrow> (Some r, c)
      | (None, c) \<Rightarrow> (None, call_enqueue write_sock request i c))"

section \<open>Starting and stopping\<close>

text \<open>
  The connection thread runs beside these calls; what it does to the client until it has
  stopped, and whether it has when the time-out ends, is the argument \<open>conn_stop\<close>.
\<close>

definition stop_timeout :: "client \<Rightarrow> int" where
  "stop_timeout c = (let timeout = c_session_timeout c div 1000 in if timeout < 10 then 10 else timeout)"

definition safe_close :: "(int \<Rightarrow> client \<Rightarrow> bool \<times> client) \<Rightarrow> client \<Rightarrow> (exc + unit) \<times> client" where
  "safe_close conn_stop c =
     (let c = c\<lparr>c_handler := handler_stop (c_handler c)\<rparr>
      in case conn_stop (stop_timeout c) c of
           (stopped, c) \<Rightarrow> (if stopped then Inr () else Inl WriterNotClosedException, c))"

definition stop_request :: "client \<Rightarrow> client" where
  "stop_request c =
     (if c_stopped c then c
      else c\<lparr>c_stopped := True, c_queue := c_queue c @ [(Req Close, None)]\<rparr>)"

definition client_stop :: "(int \<Rightarrow> client \<Rightarrow> bool \<times> client) \<Rightarrow> exc + unit \<Rightarrow> client \<Rightarrow> (exc + unit) \<times> client" where
  "client_stop conn_stop sent c =
     (if c_stopped c then (Inr (), c)
      else case safe_close conn_stop (stop_request c) of
             (Inl e, c) \<Rightarrow> (Inl e, c)
           | (Inr _, c) \<Rightarrow> (sent, c))"

definition start_events :: "client \<Rightarrow> client" where
  "start_events c = c\<lparr>c_stopped := False, c_writer_stopped := False, c_handler := handler_start (c_handler c)\<rparr>"

definition start_async :: "(int \<Rightarrow> client \<Rightarrow> bool \<times> client) \<Rightarrow> (client \<Rightarrow> (exc + unit) \<times> client)
    \<Rightarrow> client \<Rightarrow> (exc + unit) \<times> client" where
  "start_async conn_stop conn_start c =
     (if c_live c then (Inr (), c)
      else case safe_close conn_stop c of
          (Inl e, c) \<Rightarrow> (Inl e, c)
        | (Inr _, c) \<Rightarrow> conn_start (start_events c))"

text \<open>
  \<^verbatim>\<open>start\<close>: \<open>wait\<close> is what happens until the event is set or the time-out ends; \<open>conn_close\<close>
  releases the sockets; \<open>exists_root\<close> is the call \<^verbatim>\<open>exists("/")\<close>, whose answer only leads to
  a warning.
\<close>

definition client_start :: "(int \<Rightarrow> client \<Rightarrow> bool \<times> client) \<Rightarrow> (client \<Rightarrow> (exc + unit) \<times> client)
    \<Rightarrow> (client \<Rightarrow> client) \<Rightarrow> exc + unit \<Rightarrow> (client \<Rightarrow> (exc + unit) \<times> client)
    \<Rightarrow> (client \<Rightarrow> (exc + bool) \<times> client) \<Rightarrow> client \<Rightarrow> (exc + unit) \<times> client" where
  "client_start conn_stop conn_start wait sent conn_close exists_root c =
     (case start_async conn_stop conn_start c of
        (Inl e, c) \<Rightarrow> (Inl e, c)
      | (Inr _, c) \<Rightarrow>
          let c = wait c
          in if connected c then
               (if c_chroot c \<noteq> None \<and> c_chroot c \<noteq> Some [] then
                  (case exists_root c of (Inl e, c) \<Rightarrow> (Inl e, c) | (Inr _, c) \<Rightarrow> (Inr (), c))
                else (Inr (), c))
             else (case client_stop conn_stop sent c of
                 (Inl e, c) \<Rightarrow> (Inl e, c)
               | (Inr _, c) \<Rightarrow>
                   (case conn_close c of
                      (Inl e, c) \<Rightarrow> (Inl e, c)
                    | (Inr _, c) \<Rightarrow> (Inl HandlerTimeout, c))))"

section \<open>What each operation leaves alone\<close>

lemma set_result_exception_simps [simp]:
  "c_state (set_result_exception i e c) = c_state c"
  "c_kstate (set_result_exception i e c) = c_kstate c"
  "c_live (set_result_exception i e c) = c_live c"
  "c_stopped (set_result_exception i e c) = c_stopped c"
  "c_queue (set_result_exception i e c) = c_queue c"
  "c_pending (set_result_exception i e c) = c_pending c"
  "c_last_zxid (set_result_exception i e c) = c_last_zxid c"
  "c_chroot (set_result_exception i e c) = c_chroot c"
  "c_child_watchers (set_result_exception i e c) = c_child_watchers c"
  "c_data_watchers (set_result_exception i e c) = c_data_watchers c"
  "c_results (set_result_exception i e c) j =
     (if j = i then (c_results c i)\<lparr>ar_exception := Some (Some e)\<rparr> else c_results c j)"
  by (simp_all add: set_result_exception_def ar_set_exception_def Let_def)

lemma set_result_simps [simp]:
  "c_state (set_result i v c) = c_state c"
  "c_kstate (set_result i v c) = c_kstate c"
  "c_live (set_result i v c) = c_live c"
  "c_stopped (set_result i v c) = c_stopped c"
  "c_queue (set_result i v c) = c_queue c"
  "c_pending (set_result i v c) = c_pending c"
  "c_last_zxid (set_result i v c) = c_last_zxid c"
  "c_chroot (set_result i v c) = c_chroot c"
  "c_child_watchers (set_result i v c) = c_child_watchers c"
  "c_data_watchers (set_result i v c) = c_data_watchers c"
  "c_results (set_result i v c) j =
     (if j = i then (c_results c i)\<lparr>ar_value := v, ar_exception := Some None\<rparr> else c_results c j)"
  by (simp_all add: set_result_def ar_set_def Let_def)

definition failed :: "exc \<Rightarrow> nat option list \<Rightarrow> (nat \<Rightarrow> response async_result) \<Rightarrow> nat \<Rightarrow> response async_result" where
  "failed e asyncs results =
     (\<lambda>i. if Some i \<in> set asyncs then (results i)\<lparr>ar_exception := Some (Some e)\<rparr> else results i)"

lemma fail_result_simps:
  "fail_result e c None = c" "fail_result e c (Some i) = set_result_exception i e c"
  by (simp_all add: fail_result_def)

lemma fail_results:
  "\<exists>h. foldl (fail_result e) c asyncs = c\<lparr>c_results := failed e asyncs (c_results c), c_handler := h\<rparr>"
proof (induction asyncs arbitrary: c)
  case Nil
  show ?case by (rule exI [of _ "c_handler c"]) (simp add: failed_def)
next
  case (Cons a asyncs)
  obtain h where h: "foldl (fail_result e) (fail_result e c a) asyncs =
      (fail_result e c a)\<lparr>c_results := failed e asyncs (c_results (fail_result e c a)), c_handler := h\<rparr>"
    using Cons.IH by blast
  show ?case
  proof (cases a)
    case None
    with h have "foldl (fail_result e) c (a # asyncs) =
        c\<lparr>c_results := failed e asyncs (c_results c), c_handler := h\<rparr>"
      by (simp only: foldl.simps fail_result_simps)
    moreover have "failed e asyncs (c_results c) = failed e (a # asyncs) (c_results c)"
      by (simp add: failed_def None)
    ultimately show ?thesis by (intro exI) simp
  next
    case (Some i)
    have "failed e asyncs (c_results (set_result_exception i e c)) = failed e (Some i # asyncs) (c_results c)"
      by (rule ext) (simp add: failed_def)
    moreover have "(set_result_exception i e c)\<lparr>c_results := r, c_handler := h\<rparr>
        = c\<lparr>c_results := r, c_handler := h\<rparr>" for r h
      by (simp add: set_result_exception_def Let_def)
    ultimately have "foldl (fail_result e) c (a # asyncs) =
        c\<lparr>c_results := failed e (a # asyncs) (c_results c), c_handler := h\<rparr>"
      using h Some by (simp only: foldl.simps fail_result_simps)
    then show ?thesis by (rule exI)
  qed
qed

lemma notify_pending_eq:
  "\<exists>h. notify_pending state c =
     c\<lparr>c_pending := [], c_queue := [], c_handler := h,
       c_results := failed (pending_exception state)
         (map (fst \<circ> snd) (c_pending c) @ map snd (c_queue c)) (c_results c)\<rparr>"
proof -
  let ?e = "pending_exception state"
  obtain h where h: "foldl (fail_result ?e) c (map (fst \<circ> snd) (c_pending c)) =
      c\<lparr>c_results := failed ?e (map (fst \<circ> snd) (c_pending c)) (c_results c), c_handler := h\<rparr>"
    using fail_results by blast
  let ?c = "c\<lparr>c_results := failed ?e (map (fst \<circ> snd) (c_pending c)) (c_results c), c_handler := h, c_pending := []\<rparr>"
  obtain h' where h': "foldl (fail_result ?e) ?c (map snd (c_queue ?c)) =
      ?c\<lparr>c_results := failed ?e (map snd (c_queue ?c)) (c_results ?c), c_handler := h'\<rparr>"
    using fail_results by blast
  have "failed ?e ys (failed ?e xs r) = failed ?e (xs @ ys) r" for xs ys r
    by (rule ext) (simp add: failed_def)
  then show ?thesis
    by (intro exI [of _ h']) (use h h' in \<open>simp add: notify_pending_def Let_def\<close>)
qed

lemma client_dispatch_fold:
  "foldl (client_dispatch ev) c ws =
     c\<lparr>c_handler := (c_handler c)\<lparr>callback_queue := callback_queue (c_handler c) @
        map (\<lambda>w. RunWatch \<lparr>cb_func = w, cb_event = ev\<rparr>) ws\<rparr>\<rparr>"
  by (induction ws arbitrary: c) (simp_all add: client_dispatch_def dispatch_callback_def)

lemma reset_watchers_eq:
  "reset_watchers c = c\<lparr>c_child_watchers := [], c_data_watchers := [],
     c_handler := (c_handler c)\<lparr>callback_queue := callback_queue (c_handler c) @
       map (\<lambda>w. RunWatch \<lparr>cb_func = w, cb_event = \<lparr>ev_type = NONE, ev_state = c_state c, ev_path = None\<rparr>\<rparr>)
         (concat (map snd (c_child_watchers c)) @ concat (map snd (c_data_watchers c)))\<rparr>\<rparr>"
  by (simp add: reset_watchers_def client_dispatch_fold Let_def)

lemma reset_watchers_obtain:
  obtains h where "reset_watchers c = c\<lparr>c_child_watchers := [], c_data_watchers := [], c_handler := h\<rparr>"
  by (rule that [OF reset_watchers_eq])

lemma client_reset_obtain:
  obtains h where "client_reset c =
    c\<lparr>c_queue := [], c_pending := [], c_child_watchers := [], c_data_watchers := [],
      c_session_id := None, c_session_passwd := Some (replicate 16 0), c_last_zxid := 0,
      c_protocol_version := None, c_handler := h\<rparr>"
proof -
  obtain h where "reset_watchers (c\<lparr>c_queue := [], c_pending := []\<rparr>) =
      c\<lparr>c_queue := [], c_pending := [], c_child_watchers := [], c_data_watchers := [], c_handler := h\<rparr>"
    by (rule reset_watchers_obtain)
  then show thesis
    by (intro that [of h]) (simp add: client_reset_def reset_session_def Let_def)
qed

lemma notify_listener_eq:
  "notify_listener lst st c l =
     c\<lparr>c_notified := c_notified c @ [(l, st)],
       c_listeners := (if lst l st = Inr True then removeAll l (c_listeners c) else c_listeners c)\<rparr>"
  by (auto simp: notify_listener_def remove_listener_def Let_def split: sum.splits)

lemma notify_listeners_fold:
  "foldl (notify_listener lst st) c ls =
     c\<lparr>c_notified := c_notified c @ map (\<lambda>l. (l, st)) ls,
       c_listeners := List.filter (\<lambda>l. \<not> (l \<in> set ls \<and> lst l st = Inr True)) (c_listeners c)\<rparr>"
proof (induction ls arbitrary: c)
  case Nil
  then show ?case by simp
next
  case (Cons l ls)
  have drop: "List.filter (\<lambda>k. \<not> (k \<in> set ls \<and> lst k st = Inr True))
      (if lst l st = Inr True then removeAll l xs else xs) =
    List.filter (\<lambda>k. \<not> (k \<in> set (l # ls) \<and> lst k st = Inr True)) xs" for xs
    by (induction xs) auto
  show ?case
    unfolding foldl.simps Cons.IH using drop [of "c_listeners c"]
    by (simp add: notify_listener_eq split: if_split_asm)
qed

lemma make_state_change_eq:
  "c_kstate c \<noteq> st \<Longrightarrow> make_state_change lst st c =
     c\<lparr>c_kstate := st, c_notified := c_notified c @ map (\<lambda>l. (l, st)) (c_listeners c),
       c_listeners := List.filter (\<lambda>l. lst l st \<noteq> Inr True) (c_listeners c)\<rparr>"
  by (simp add: make_state_change_def notify_listeners_fold Let_def cong: filter_cong)

lemma make_state_change_obtain:
  obtains ls ns where "make_state_change lst st c = c\<lparr>c_kstate := st, c_notified := ns, c_listeners := ls\<rparr>"
proof (cases "c_kstate c = st")
  case True
  then have "make_state_change lst st c = c\<lparr>c_kstate := st, c_notified := c_notified c, c_listeners := c_listeners c\<rparr>"
    by (simp add: make_state_change_def)
  then show thesis by (rule that)
next
  case False
  then show thesis by (intro that) (rule make_state_change_eq)
qed

lemma make_state_change_simps [simp]:
  "c_kstate (make_state_change lst st c) = st"
  "c_state (make_state_change lst st c) = c_state c"
  "c_live (make_state_change lst st c) = c_live c"
  "c_stopped (make_state_change lst st c) = c_stopped c"
  "c_queue (make_state_change lst st c) = c_queue c"
  "c_pending (make_state_change lst st c) = c_pending c"
  "c_results (make_state_change lst st c) = c_results c"
  "c_handler (make_state_change lst st c) = c_handler c"
  "c_session_id (make_state_change lst st c) = c_session_id c"
  "c_session_passwd (make_state_change lst st c) = c_session_passwd c"
  "c_last_zxid (make_state_change lst st c) = c_last_zxid c"
  "c_child_watchers (make_state_change lst st c) = c_child_watchers c"
  "c_data_watchers (make_state_change lst st c) = c_data_watchers c"
proof -
  obtain ls ns where "make_state_change lst st c = c\<lparr>c_kstate := st, c_notified := ns, c_listeners := ls\<rparr>"
    by (rule make_state_change_obtain)
  then show
    "c_kstate (make_state_change lst st c) = st"
    "c_state (make_state_change lst st c) = c_state c"
    "c_live (make_state_change lst st c) = c_live c"
    "c_stopped (make_state_change lst st c) = c_stopped c"
    "c_queue (make_state_change lst st c) = c_queue c"
    "c_pending (make_state_change lst st c) = c_pending c"
    "c_results (make_state_change lst st c) = c_results c"
    "c_handler (make_state_change lst st c) = c_handler c"
    "c_session_id (make_state_change lst st c) = c_session_id c"
    "c_session_passwd (make_state_change lst st c) = c_session_passwd c"
    "c_last_zxid (make_state_change lst st c) = c_last_zxid c"
    "c_child_watchers (make_state_change lst st c) = c_child_watchers c"
    "c_data_watchers (make_state_change lst st c) = c_data_watchers c"
    by simp_all
qed

section \<open>The session machine\<close>

text \<open>
  What can happen to a client, one step at a time. A call is two steps, the test and the entry in
  the queue, since no lock is held in between; an entry follows a test that let it pass, but any
  other step may come between them.
\<close>

datatype session_event =
    SState keeper_state
  | SCheck nat
  | SEnqueue "bool option" queue_item nat
  | SAddListener nat
  | SRemoveListener nat
  | SStart
  | SStop
  | SHandlerStop

fun session_step :: "(nat \<Rightarrow> kazoo_state \<Rightarrow> exc + bool) \<Rightarrow> client \<Rightarrow> session_event \<Rightarrow> client" where
  "session_step lst c (SState state) = session_callback lst state c"
| "session_step lst c (SCheck i) = snd (call_check i c)"
| "session_step lst c (SEnqueue ws request i) = call_enqueue ws request i c"
| "session_step lst c (SAddListener l) = add_listener l c"
| "session_step lst c (SRemoveListener l) = remove_listener l c"
| "session_step lst c SStart = start_events c"
| "session_step lst c SStop = stop_request c"
| "session_step lst c SHandlerStop = c\<lparr>c_handler := handler_stop (c_handler c)\<rparr>"

text \<open>\<open>waiting c\<close> are the results of the callers whose request has not been answered.\<close>

definition waiting :: "client \<Rightarrow> nat set" where
  "waiting c = {i. Some i \<in> set (map (fst \<circ> snd) (c_pending c) @ map snd (c_queue c))}"

definition in_closed_state :: "client \<Rightarrow> bool" where
  "in_closed_state c \<longleftrightarrow> c_state c \<in> set CLOSED_STATES"

definition session_ok :: "client \<Rightarrow> bool" where
  "session_ok c \<longleftrightarrow>
     (c_live c \<longleftrightarrow> c_state c = CONNECTED \<or> c_state c = CONNECTED_RO)
   \<and> (c_kstate c = KAZOO_CONNECTED \<longleftrightarrow> c_live c)
   \<and> (in_closed_state c \<longrightarrow> c_kstate c = LOST)"

lemma closed_simps [simp]:
  "CONNECTED \<notin> set CLOSED_STATES" "CONNECTED_RO \<notin> set CLOSED_STATES" "CONNECTING \<notin> set CLOSED_STATES"
  "CLOSED \<in> set CLOSED_STATES" "AUTH_FAILED \<in> set CLOSED_STATES" "EXPIRED_SESSION \<in> set CLOSED_STATES"
  by (simp_all add: CLOSED_STATES_def)

lemma closed_cases: "s \<in> set CLOSED_STATES \<longleftrightarrow> s = EXPIRED_SESSION \<or> s = AUTH_FAILED \<or> s = CLOSED"
  by (simp add: CLOSED_STATES_def)

text \<open>The effect of a transition into a closed state and of a lost connection.\<close>

lemma session_callback_closed:
  assumes "state \<in> set CLOSED_STATES" and "state \<noteq> c_state c"
  obtains h ls ns where "session_callback lst state c =
    c\<lparr>c_state := state, c_live := False, c_kstate := LOST, c_listeners := ls, c_notified := ns,
      c_queue := [], c_pending := [], c_child_watchers := [], c_data_watchers := [],
      c_session_id := None, c_session_passwd := Some (replicate 16 0), c_last_zxid := 0,
      c_protocol_version := None, c_handler := h,
      c_results := failed (pending_exception state)
        (map (fst \<circ> snd) (c_pending c) @ map snd (c_queue c)) (c_results c)\<rparr>"
proof -
  let ?c = "c\<lparr>c_state := state, c_live := False\<rparr>"
  obtain ls ns where m: "make_state_change lst LOST ?c = ?c\<lparr>c_kstate := LOST, c_notified := ns, c_listeners := ls\<rparr>"
  by (rule make_state_change_obtain)
  let ?m = "?c\<lparr>c_kstate := LOST, c_notified := ns, c_listeners := ls\<rparr>"
  obtain h where n: "notify_pending state ?m =
     ?m\<lparr>c_pending := [], c_queue := [], c_handler := h,
       c_results := failed (pending_exception state)
         (map (fst \<circ> snd) (c_pending c) @ map snd (c_queue c)) (c_results c)\<rparr>"
    using notify_pending_eq [of state ?m] by auto
  obtain h' where r: "client_reset (notify_pending state ?m) =
      (notify_pending state ?m)\<lparr>c_queue := [], c_pending := [], c_child_watchers := [], c_data_watchers := [],
        c_session_id := None, c_session_passwd := Some (replicate 16 0), c_last_zxid := 0,
        c_protocol_version := None, c_handler := h'\<rparr>"
    by (rule client_reset_obtain)
  have "session_callback lst state c = client_reset (notify_pending state ?m)"
    using assms by (auto simp: session_callback_def Let_def m)
  also have "\<dots> = c\<lparr>c_state := state, c_live := False, c_kstate := LOST, c_listeners := ls, c_notified := ns,
      c_queue := [], c_pending := [], c_child_watchers := [], c_data_watchers := [],
      c_session_id := None, c_session_passwd := Some (replicate 16 0), c_last_zxid := 0,
      c_protocol_version := None, c_handler := h',
      c_results := failed (pending_exception state)
        (map (fst \<circ> snd) (c_pending c) @ map snd (c_queue c)) (c_results c)\<rparr>"
    unfolding r unfolding n by simp
  finally show thesis by (rule that)
qed

lemma session_callback_lost:
  assumes "c_state c \<notin> set CLOSED_STATES" and "c_state c \<noteq> CONNECTING"
  obtains h ls ns where "session_callback lst CONNECTING c =
    c\<lparr>c_state := CONNECTING, c_live := False, c_kstate := SUSPENDED, c_listeners := ls, c_notified := ns,
      c_queue := [], c_pending := [], c_child_watchers := [], c_data_watchers := [], c_handler := h,
      c_results := failed (ZkErr ConnectionLoss)
        (map (fst \<circ> snd) (c_pending c) @ map snd (c_queue c)) (c_results c)\<rparr>"
proof -
  let ?c = "c\<lparr>c_state := CONNECTING, c_live := False\<rparr>"
  let ?n = "notify_pending CONNECTING ?c"
  obtain h where n: "?n =
     ?c\<lparr>c_pending := [], c_queue := [], c_handler := h,
       c_results := failed (ZkErr ConnectionLoss)
         (map (fst \<circ> snd) (c_pending c) @ map snd (c_queue c)) (c_results c)\<rparr>"
    using notify_pending_eq [of CONNECTING ?c] by (auto simp: pending_exception_def)
  obtain ls ns where m: "make_state_change lst SUSPENDED ?n =
      ?n\<lparr>c_kstate := SUSPENDED, c_notified := ns, c_listeners := ls\<rparr>"
  by (rule make_state_change_obtain)
  let ?m = "?n\<lparr>c_kstate := SUSPENDED, c_notified := ns, c_listeners := ls\<rparr>"
  obtain h' where r: "reset_watchers ?m = ?m\<lparr>c_child_watchers := [], c_data_watchers := [], c_handler := h'\<rparr>"
    by (rule reset_watchers_obtain)
  have "session_callback lst CONNECTING c = reset_watchers ?m"
    using assms by (auto simp: session_callback_def Let_def m)
  also have "\<dots> = c\<lparr>c_state := CONNECTING, c_live := False, c_kstate := SUSPENDED, c_listeners := ls,
      c_notified := ns, c_queue := [], c_pending := [], c_child_watchers := [], c_data_watchers := [],
      c_handler := h',
      c_results := failed (ZkErr ConnectionLoss)
        (map (fst \<circ> snd) (c_pending c) @ map snd (c_queue c)) (c_results c)\<rparr>"
    unfolding r unfolding n by simp
  finally show thesis by (rule that)
qed

lemma session_callback_skip:
  "state = c_state c \<Longrightarrow> session_callback lst state c = c"
  "c_state c \<in> set CLOSED_STATES \<Longrightarrow> session_callback lst CONNECTING c = c\<lparr>c_state := CONNECTING\<rparr>"
  by (auto simp: session_callback_def Let_def)
lemma session_callback_connected:
  "state = CONNECTED \<or> state = CONNECTED_RO \<Longrightarrow> state \<noteq> c_state c \<Longrightarrow>
   session_callback lst state c = make_state_change lst KAZOO_CONNECTED (c\<lparr>c_state := state, c_live := True\<rparr>)"
  by (auto simp: session_callback_def Let_def)

lemma session_callback_state: "c_state (session_callback lst state c) = state"
proof -
  consider "state = c_state c" | "state \<in> set CLOSED_STATES" "state \<noteq> c_state c"
    | "state \<noteq> c_state c" "state = CONNECTED \<or> state = CONNECTED_RO"
    | "state = CONNECTING" "c_state c \<in> set CLOSED_STATES"
    | "state = CONNECTING" "c_state c \<notin> set CLOSED_STATES" "c_state c \<noteq> CONNECTING"
    by (cases state; cases "c_state c"; simp add: closed_cases)
  then show ?thesis
  proof cases
    case 2
    then show ?thesis by (rule session_callback_closed [of state c lst]) simp
  next
    case 3
    then show ?thesis by (simp add: session_callback_connected)
  next
    case 5
    then obtain h ls ns where "session_callback lst state c =
      c\<lparr>c_state := CONNECTING, c_live := False, c_kstate := SUSPENDED, c_listeners := ls, c_notified := ns,
        c_queue := [], c_pending := [], c_child_watchers := [], c_data_watchers := [], c_handler := h,
        c_results := failed (ZkErr ConnectionLoss)
          (map (fst \<circ> snd) (c_pending c) @ map snd (c_queue c)) (c_results c)\<rparr>"
      by (metis session_callback_lost)
    with 5 show ?thesis by simp
  qed (simp_all add: session_callback_skip)
qed

lemma session_callback_ok: "session_ok c \<Longrightarrow> session_ok (session_callback lst state c)"
proof -
  assume ok: "session_ok c"
  consider "state = c_state c" | "state \<in> set CLOSED_STATES" "state \<noteq> c_state c"
    | "state \<noteq> c_state c" "state = CONNECTED \<or> state = CONNECTED_RO"
    | "state = CONNECTING" "c_state c \<in> set CLOSED_STATES"
    | "state = CONNECTING" "c_state c \<notin> set CLOSED_STATES" "c_state c \<noteq> CONNECTING"
    by (cases state; cases "c_state c"; simp add: closed_cases)
  then show ?thesis
  proof cases
    case 2
    then obtain h ls ns where "session_callback lst state c =
      c\<lparr>c_state := state, c_live := False, c_kstate := LOST, c_listeners := ls, c_notified := ns,
        c_queue := [], c_pending := [], c_child_watchers := [], c_data_watchers := [],
        c_session_id := None, c_session_passwd := Some (replicate 16 0), c_last_zxid := 0,
        c_protocol_version := None, c_handler := h,
        c_results := failed (pending_exception state)
          (map (fst \<circ> snd) (c_pending c) @ map snd (c_queue c)) (c_results c)\<rparr>"
      by (rule session_callback_closed)
    with 2 show ?thesis by (auto simp: session_ok_def closed_cases waiting_def)
  next
    case 3
    with ok show ?thesis
      by (auto simp: session_callback_connected session_ok_def in_closed_state_def waiting_def)
  next
    case 4
    with ok show ?thesis
      by (auto simp: session_callback_skip session_ok_def in_closed_state_def closed_cases)
  next
    case 5
    then obtain h ls ns where "session_callback lst state c =
      c\<lparr>c_state := CONNECTING, c_live := False, c_kstate := SUSPENDED, c_listeners := ls, c_notified := ns,
        c_queue := [], c_pending := [], c_child_watchers := [], c_data_watchers := [], c_handler := h,
        c_results := failed (ZkErr ConnectionLoss)
          (map (fst \<circ> snd) (c_pending c) @ map snd (c_queue c)) (c_results c)\<rparr>"
      by (metis session_callback_lost)
    then show ?thesis by (simp add: session_ok_def in_closed_state_def)
  qed (use ok in \<open>simp add: session_callback_skip\<close>)
qed

lemma call_cases:
  obtains (closed) e where "in_closed_state c" "call ws request i c = (Some False, set_result_exception i e c)"
  | (queued) "\<not> in_closed_state c" "call ws request i c = (None, call_enqueue ws request i c)"
  by (cases "c_state c") (auto simp: call_def call_check_def in_closed_state_def closed_cases)

lemma call_enqueue_simps [simp]:
  "c_state (call_enqueue ws request i c) = c_state c"
  "c_kstate (call_enqueue ws request i c) = c_kstate c"
  "c_live (call_enqueue ws request i c) = c_live c"
  "c_pending (call_enqueue ws request i c) = c_pending c"
  "c_queue (call_enqueue ws request i c) = c_queue c @ [(request, Some i)]"
  by (auto simp: call_enqueue_def Let_def split: option.splits)

lemma call_is_steps: "snd (call ws request i c) =
    (if in_closed_state c then session_step lst c (SCheck i)
     else session_step lst (session_step lst c (SCheck i)) (SEnqueue ws request i))"
  by (auto simp: call_def call_check_def in_closed_state_def closed_cases)

lemma call_check_cases:
  obtains (closed) e where "in_closed_state c" "call_check i c = (Some False, set_result_exception i e c)"
  | (passed) "\<not> in_closed_state c" "call_check i c = (None, c)"
  by (cases "c_state c") (auto simp: call_check_def in_closed_state_def closed_cases)

lemma session_step_ok:
  assumes "session_ok c"
  shows "session_ok (session_step lst c e)"
proof (cases e)
  case (SState state)
  then show ?thesis using assms by (simp add: session_callback_ok)
next
  case (SCheck i)
  then show ?thesis using assms
    by (cases rule: call_check_cases [of c i]) (auto simp: session_ok_def in_closed_state_def)
qed (use assms in \<open>auto simp: session_ok_def in_closed_state_def add_listener_def remove_listener_def
    start_events_def stop_request_def\<close>)

interpretation session: transition_invariant "session_step lst" session_ok for lst
  by unfold_locales (rule session_step_ok)

lemma client_init_ok: "session_ok (client_init hosts chroot timeout ro cid)"
  by (auto simp: client_init_def Let_def client_reset_def reset_watchers_def reset_session_def
      session_ok_def waiting_def split: option.splits)

section \<open>Properties of the session\<close>

text \<open>A caller that waits in a closed client was waiting there before, or has just entered the queue.\<close>

lemma waiting_closed_step:
  assumes "in_closed_state (session_step lst c e)" and "i \<in> waiting (session_step lst c e)"
  shows "in_closed_state c \<and> (i \<in> waiting c \<or> (\<exists>ws request. e = SEnqueue ws request i))"
proof (cases e)
  case (SState state)
  consider "state = c_state c" | "state \<in> set CLOSED_STATES" "state \<noteq> c_state c" | "state \<notin> set CLOSED_STATES"
    by blast
  then show ?thesis
  proof cases
    case 1
    then show ?thesis using assms SState by (simp add: session_callback_skip)
  next
    case 2
    then obtain h ls ns where "session_callback lst state c =
      c\<lparr>c_state := state, c_live := False, c_kstate := LOST, c_listeners := ls, c_notified := ns,
        c_queue := [], c_pending := [], c_child_watchers := [], c_data_watchers := [],
        c_session_id := None, c_session_passwd := Some (replicate 16 0), c_last_zxid := 0,
        c_protocol_version := None, c_handler := h,
        c_results := failed (pending_exception state)
          (map (fst \<circ> snd) (c_pending c) @ map snd (c_queue c)) (c_results c)\<rparr>"
      by (rule session_callback_closed)
    then have "waiting (session_callback lst state c) = {}" by (simp add: waiting_def)
    then show ?thesis using assms SState by simp
  next
    case 3
    then have "state \<notin> set CLOSED_STATES" "c_state (session_callback lst state c) = state"
      by (simp_all add: session_callback_state)
    then show ?thesis using assms SState by (simp add: in_closed_state_def)
  qed
next
  case (SCheck i)
  then show ?thesis using assms
    by (cases rule: call_check_cases [of c i]) (auto simp: in_closed_state_def waiting_def)
qed (use assms in \<open>auto simp: in_closed_state_def waiting_def add_listener_def remove_listener_def start_events_def stop_request_def split: if_splits\<close>)

lemma client_init_waiting: "waiting (client_init hosts chroot timeout ro cid) = {}"
  by (auto simp: client_init_def Let_def client_reset_def reset_watchers_def reset_session_def
      waiting_def split: option.splits)

text \<open>A caller of a closed client entered its queue when the client was closed already.\<close>

lemma closed_waiting_entered:
  assumes "in_closed_state (foldl (session_step lst) c es)" and "i \<in> waiting (foldl (session_step lst) c es)"
    and "waiting c = {}"
  shows "\<exists>es1 ws request es2. es = es1 @ SEnqueue ws request i # es2
      \<and> in_closed_state (foldl (session_step lst) c es1)"
  using assms(1,2)
proof (induction es rule: rev_induct)
  case Nil
  then show ?case using assms(3) by simp
next
  case (snoc e es)
  let ?c = "foldl (session_step lst) c es"
  have closed: "in_closed_state ?c" "i \<in> waiting ?c \<or> (\<exists>ws request. e = SEnqueue ws request i)"
    using waiting_closed_step [of lst ?c e i] snoc.prems by auto
  from closed(2) show ?case
  proof
    assume "i \<in> waiting ?c"
    then obtain es1 ws request es2 where "es = es1 @ SEnqueue ws request i # es2"
        "in_closed_state (foldl (session_step lst) c es1)"
      using snoc.IH closed(1) by blast
    moreover from this(1) have "es @ [e] = es1 @ SEnqueue ws request i # (es2 @ [e])" by simp
    ultimately show ?thesis by blast
  next
    assume "\<exists>ws request. e = SEnqueue ws request i"
    then obtain ws request where "es @ [e] = es @ SEnqueue ws request i # []" by blast
    with closed(1) show ?thesis by blast
  qed
qed

text \<open>
  C3. In every state that a sequence of session callbacks, calls, listener changes, starts and
  stops reaches, the connected flag, the detailed state and the simplified state agree: the
  client is live exactly when the detailed state is connected or connected read-only, exactly
  then the simplified state is connected, and in a closed state the simplified state is lost.
  A caller waits in a closed client only if it entered the queue while the client was closed
  already, that is when the session ended between its test of the state and its entry.
\<close>

theorem session_state_invariant:
  "let run = foldl (session_step lst) (client_init hosts chroot timeout ro cid); c = run es
    in (connected c = (client_state c = CONNECTED \<or> client_state c = CONNECTED_RO))
    \<and> (c_kstate c = KAZOO_CONNECTED) = connected c
    \<and> (client_id c = None) = (\<not> connected c)
    \<and> (client_state c \<in> set CLOSED_STATES \<longrightarrow> c_kstate c = LOST
        \<and> (\<forall>i \<in> waiting c. \<exists>es1 ws request es2. es = es1 @ SEnqueue ws request i # es2
              \<and> client_state (run es1) \<in> set CLOSED_STATES))"
proof -
  let ?init = "client_init hosts chroot timeout ro cid"
  have ok: "session_ok (foldl (session_step lst) ?init es)"
    by (rule session.run_inv [OF client_init_ok])
  show ?thesis
    unfolding Let_def
    using ok closed_waiting_entered [of lst ?init es, OF _ _ client_init_waiting]
    by (auto simp: session_ok_def connected_def client_state_def client_id_def in_closed_state_def)
qed

text \<open>A request that waits when the session expires, and one that enters the queue after that.\<close>

theorem session_state_invariant_witness:
  "let c = foldl (session_step (\<lambda>_ _. Inr False)) (client_init [(''h'', 2181)] [] 10000 False None)
         [SStart, SState CONNECTING, SState CONNECTED, SCheck 0, SEnqueue (Some True) (Req Ping) 0, SCheck 1,
          SState EXPIRED_SESSION, SEnqueue (Some True) (Req Ping) 1]
    in client_state c = EXPIRED_SESSION \<and> c_kstate c = LOST \<and> waiting c = {1} \<and> \<not> connected c"
proof -
  let ?es = "[SStart, SState CONNECTING, SState CONNECTED, SCheck 0, SEnqueue (Some True) (Req Ping) 0, SCheck 1,
          SState EXPIRED_SESSION, SEnqueue (Some True) (Req Ping) 1]"
  let ?c = "foldl (session_step (\<lambda>_ _. Inr False)) (client_init [(''h'', 2181)] [] 10000 False None) ?es"
  have st: "client_state ?c = EXPIRED_SESSION" by code_simp
  have q: "c_pending ?c = []" "map snd (c_queue ?c) = [Some 1]" by code_simp+
  have "waiting ?c = {1}" unfolding waiting_def q by auto
  moreover have "connected ?c = (client_state ?c = CONNECTED \<or> client_state ?c = CONNECTED_RO)
      \<and> (client_state ?c \<in> set CLOSED_STATES \<longrightarrow> c_kstate ?c = LOST)"
    using session_state_invariant [where lst = "\<lambda>_ _. Inr False" and hosts = "[(''h'', 2181)]" and chroot = "[]" and timeout = 10000
        and ro = False and cid = None and es = ?es]
    unfolding Let_def by blast
  ultimately show ?thesis unfolding Let_def using st by simp
qed

lemma failed_waiting: "failed e (map (fst \<circ> snd) (c_pending c) @ map snd (c_queue c)) r =
    (\<lambda>i. if i \<in> waiting c then (r i)\<lparr>ar_exception := Some (Some e)\<rparr> else r i)"
  by (rule ext) (simp add: failed_def waiting_def)

lemma session_closed_effect:
  fixes lst and c :: client
  assumes "state \<in> set CLOSED_STATES" and "state \<noteq> c_state c"
  defines "c' \<equiv> session_callback lst state c"
  shows "c_results c' i = (if i \<in> waiting c
      then (c_results c i)\<lparr>ar_exception := Some (Some (pending_exception state))\<rparr> else c_results c i)"
    and "c_queue c' = []" "c_pending c' = []" "c_state c' = state" "c_live c' = False" "c_kstate c' = LOST"
    and "c_child_watchers c' = []" "c_data_watchers c' = []" "c_session_id c' = None" "c_last_zxid c' = 0"
proof -
  obtain h ls ns where eq: "c' =
      c\<lparr>c_state := state, c_live := False, c_kstate := LOST, c_listeners := ls, c_notified := ns,
        c_queue := [], c_pending := [], c_child_watchers := [], c_data_watchers := [],
        c_session_id := None, c_session_passwd := Some (replicate 16 0), c_last_zxid := 0,
        c_protocol_version := None, c_handler := h,
        c_results := failed (pending_exception state)
          (map (fst \<circ> snd) (c_pending c) @ map snd (c_queue c)) (c_results c)\<rparr>"
    unfolding c'_def by (rule session_callback_closed [OF assms(1,2)])
  show "c_results c' i = (if i \<in> waiting c
      then (c_results c i)\<lparr>ar_exception := Some (Some (pending_exception state))\<rparr> else c_results c i)"
    "c_queue c' = []" "c_pending c' = []" "c_state c' = state" "c_live c' = False" "c_kstate c' = LOST"
    "c_child_watchers c' = []" "c_data_watchers c' = []" "c_session_id c' = None" "c_last_zxid c' = 0"
    unfolding eq failed_waiting by simp_all
qed

text \<open>
  C7. When the session ends every waiting caller gets the exception of that end, whatever the
  request was and whether it was sent: \<^verbatim>\<open>AuthFailedError\<close>, \<^verbatim>\<open>SessionExpiredError\<close> or
  \<^verbatim>\<open>ConnectionLoss\<close>; both queues and both watcher tables are empty, the session id and the
  last seen transaction are forgotten, and the results of other callers are not touched.
\<close>

theorem session_end_fails_waiting:
  fixes lst and c :: client
  assumes "state \<in> set CLOSED_STATES" and "state \<noteq> c_state c"
  defines "c' \<equiv> session_callback lst state c"
  shows "(\<forall>i b later. i \<in> waiting c \<longrightarrow> ar_get b (c_results c' i) later = Inl (pending_exception state))
    \<and> (\<forall>i. i \<notin> waiting c \<longrightarrow> c_results c' i = c_results c i)
    \<and> waiting c' = {} \<and> c_queue c' = [] \<and> c_pending c' = []
    \<and> c_child_watchers c' = [] \<and> c_data_watchers c' = []
    \<and> c_session_id c' = None \<and> c_last_zxid c' = 0 \<and> \<not> connected c' \<and> c_kstate c' = LOST"
  using session_closed_effect [OF assms(1,2), of lst]
  by (simp add: c'_def ar_get_def ar_ready_def ar_outcome_def connected_def) (simp add: waiting_def)

text \<open>
  C8. A lost connection fails every waiting caller with \<^verbatim>\<open>ConnectionLoss\<close>, leaves the client
  suspended and drops all watchers after telling each of them with a \<^verbatim>\<open>NONE\<close> event, but keeps
  the session id, its password and the last transaction for the next connection.
\<close>

theorem connection_loss_keeps_session:
  fixes lst and c :: client
  assumes "c_state c = CONNECTED \<or> c_state c = CONNECTED_RO"
  defines "c' \<equiv> session_callback lst CONNECTING c"
  shows "(\<forall>i b later. i \<in> waiting c \<longrightarrow> ar_get b (c_results c' i) later = Inl (ZkErr ConnectionLoss))
    \<and> waiting c' = {} \<and> c_kstate c' = SUSPENDED \<and> \<not> connected c'
    \<and> c_child_watchers c' = [] \<and> c_data_watchers c' = []
    \<and> c_session_id c' = c_session_id c \<and> c_session_passwd c' = c_session_passwd c
    \<and> c_last_zxid c' = c_last_zxid c"
proof -
  have "c_state c \<notin> set CLOSED_STATES" "c_state c \<noteq> CONNECTING"
    using assms(1) by (auto simp: closed_cases)
  then obtain h ls ns where eq: "c' =
      c\<lparr>c_state := CONNECTING, c_live := False, c_kstate := SUSPENDED, c_listeners := ls, c_notified := ns,
        c_queue := [], c_pending := [], c_child_watchers := [], c_data_watchers := [], c_handler := h,
        c_results := failed (ZkErr ConnectionLoss)
          (map (fst \<circ> snd) (c_pending c) @ map snd (c_queue c)) (c_results c)\<rparr>"
    unfolding c'_def by (rule session_callback_lost)
  show ?thesis unfolding eq failed_waiting
    by (simp add: ar_get_def ar_ready_def ar_outcome_def connected_def) (simp add: waiting_def)
qed

text \<open>
  A state change calls every listener once with the new state, in the order in which they
  were added, goes on when one raises, and removes exactly those that return true.
\<close>

theorem make_state_change_listeners:
  assumes "c_kstate c \<noteq> state"
  shows "c_notified (make_state_change lst state c) = c_notified c @ map (\<lambda>l. (l, state)) (c_listeners c)
    \<and> c_listeners (make_state_change lst state c) = List.filter (\<lambda>l. lst l state \<noteq> Inr True) (c_listeners c)
    \<and> make_state_change lst state (make_state_change lst state c) = make_state_change lst state c"
  using assms by (simp add: make_state_change_eq) (simp add: make_state_change_def)

text \<open>
  A call is not atomic with the end of the session. When another thread closes the session
  between the state test of \<^verbatim>\<open>_call\<close> and its entry in the queue, the request stays in the
  queue of the closed client and its result is never resolved, although waking the connection
  succeeds.
\<close>

theorem call_races_with_close:
  fixes lst and request and c1 :: client
  assumes "call_check i c = (None, c1)" and "state \<in> set CLOSED_STATES"
    and "i \<notin> waiting c" and "\<not> ar_ready (c_results c i)"
  defines "c2 \<equiv> call_enqueue (Some True) request i (session_callback lst state c1)"
  shows "client_state c2 = state \<and> c_queue c2 = [(request, Some i)] \<and> \<not> ar_ready (c_results c2 i)"
proof -
  have c1: "c1 = c" "c_state c \<notin> set CLOSED_STATES"
    using assms(1) by (auto simp: call_check_def closed_cases split: if_splits)
  then have "state \<noteq> c_state c" using assms(2) by auto
  from session_closed_effect [OF assms(2) this, of lst] c1 assms(3,4) show ?thesis
    by (simp add: c2_def call_enqueue_def client_state_def)
qed

section \<open>The properties at a concrete client\<close>

text \<open>A connected client with one listener and one request in its queue, whose result is number 7.\<close>

definition demo_client :: client where
  "demo_client = foldl (session_step (\<lambda>_ _. Inr False)) (client_init [] [] 10000 False None)
     [SAddListener 1, SStart, SState CONNECTING, SState CONNECTED, SCheck 7, SEnqueue (Some True) (Req (Exists ''/a'' None)) 7]"

lemma demo_client_simps:
  "c_state demo_client = CONNECTED" "c_kstate demo_client = KAZOO_CONNECTED" "c_live demo_client"
  "c_queue demo_client = [(Req (Exists ''/a'' None), Some 7)]" "c_pending demo_client = []"
  "c_results demo_client = (\<lambda>_. async_init)" "c_listeners demo_client = [1]"
  "c_notified demo_client = [(1, KAZOO_CONNECTED)]" "c_session_passwd demo_client = Some (replicate 16 0)"
  by (simp_all add: demo_client_def client_init_def client_reset_def reset_watchers_eq reset_session_def
      session_callback_def make_state_change_def notify_listener_def add_listener_def start_events_def
      call_def call_check_def call_enqueue_def Let_def)

lemma demo_client_waiting: "waiting demo_client = {7}"
  by (simp add: waiting_def demo_client_simps)

theorem session_end_fails_waiting_witness:
  "ar_get True (c_results (session_callback (\<lambda>_ _. Inr False) EXPIRED_SESSION demo_client) 7) async_init
     = Inl (ZkErr SessionExpiredError)
   \<and> c_queue (session_callback (\<lambda>_ _. Inr False) EXPIRED_SESSION demo_client) = []"
  using session_end_fails_waiting [of EXPIRED_SESSION demo_client "\<lambda>_ _. Inr False"]
  by (simp add: demo_client_simps demo_client_waiting pending_exception_def)

theorem connection_loss_keeps_session_witness:
  "ar_get True (c_results (session_callback (\<lambda>_ _. Inr False) CONNECTING demo_client) 7) async_init
     = Inl (ZkErr ConnectionLoss)
   \<and> c_kstate (session_callback (\<lambda>_ _. Inr False) CONNECTING demo_client) = SUSPENDED"
  using connection_loss_keeps_session [of demo_client "\<lambda>_ _. Inr False"]
  by (simp add: demo_client_simps demo_client_waiting)

theorem make_state_change_listeners_witness:
  "c_notified (make_state_change (\<lambda>_ _. Inr True) LOST demo_client) = [(1, KAZOO_CONNECTED), (1, LOST)]
   \<and> c_listeners (make_state_change (\<lambda>_ _. Inr True) LOST demo_client) = []"
  using make_state_change_listeners [of demo_client LOST "\<lambda>_ _. Inr True"]
  by (simp add: demo_client_simps)

theorem call_races_with_close_witness:
  "client_state (call_enqueue (Some True) (Req (Sync ''/'')) 8
      (session_callback (\<lambda>_ _. Inr False) CLOSED demo_client)) = CLOSED
   \<and> \<not> ar_ready (c_results (call_enqueue (Some True) (Req (Sync ''/'')) 8
      (session_callback (\<lambda>_ _. Inr False) CLOSED demo_client)) 8)"
proof -
  have "call_check 8 demo_client = (None, demo_client)"
    by (simp add: call_check_def demo_client_simps)
  from call_races_with_close [OF this, of CLOSED "Req (Sync ''/'')" "\<lambda>_ _. Inr False"] show ?thesis
    by (simp add: demo_client_simps demo_client_waiting async_init_def ar_ready_def)
qed

end
