(* ===== verification/Retry.thy ===== *)
theory Retry
  imports Complex_Main Errors
begin

text \<open>
  \<^verbatim>\<open>kazoo/retry.py\<close>: \<^verbatim>\<open>KazooRetry\<close>. Delays and times are rationals (the code's floats without
  rounding). The function that is retried, the clock, the random jitter, the sleep function and
  the interrupt act on a world that is threaded through every call; they are arguments of the
  model, \<open>retry_env\<close>. A retry without a bound may run for ever, so the loop is a
  \<^theory_text>\<open>partial_function\<close> whose value \<^term>\<open>None\<close> is not returning.
\<close>

section \<open>The retry object\<close>

record retry =
  max_tries :: "int option"
  delay :: rat
  backoff :: rat
  max_jitter :: rat
  max_delay :: rat
  ignore_expire :: bool
  deadline :: "rat option"
  attempts :: int
  cur_delay :: rat
  cur_stoptime :: "rat option"

record 'w retry_env =
  env_monotonic :: "'w \<Rightarrow> rat \<times> 'w"
  env_uniform :: "rat \<Rightarrow> rat \<Rightarrow> 'w \<Rightarrow> rat \<times> 'w"
  env_sleep :: "rat \<Rightarrow> 'w \<Rightarrow> 'w"
  env_interrupt :: "('w \<Rightarrow> bool \<times> 'w) option"

definition retry_init :: "int option \<Rightarrow> rat \<Rightarrow> rat \<Rightarrow> rat \<Rightarrow> rat \<Rightarrow> bool \<Rightarrow> rat option \<Rightarrow> retry" where
  "retry_init tries dl bk jit mx ign dead =
     \<lparr>max_tries = tries, delay = dl, backoff = bk, max_jitter = max (min jit 1) 0,
      max_delay = mx, ignore_expire = ign, deadline = dead, attempts = 0, cur_delay = dl,
      cur_stoptime = None\<rparr>"

text \<open>\<^verbatim>\<open>retry_exceptions\<close>: the three retryable classes, and session expiry unless it counts.\<close>

definition retryable :: "retry \<Rightarrow> exc \<Rightarrow> bool" where
  "retryable r e \<longleftrightarrow>
     e = ZkErr ConnectionLoss \<or> e = ZkErr OperationTimeoutError \<or> e = ForceRetryError
     \<or> (ignore_expire r \<and> is_session_expired e)"

definition retry_reset :: "retry \<Rightarrow> retry" where
  "retry_reset r = r\<lparr>attempts := 0, cur_delay := delay r, cur_stoptime := None\<rparr>"

definition retry_copy :: "retry \<Rightarrow> retry" where
  "retry_copy r =
     (let obj = retry_init (max_tries r) (delay r) (backoff r) (max_jitter r) (max_delay r)
                  True (deadline r)
      in obj\<lparr>ignore_expire := ignore_expire r\<rparr>)"

section \<open>One failed attempt\<close>

text \<open>The wait in pieces of a tenth of a second, with the interrupt asked after each piece.\<close>

function interruptible_sleep :: "'w retry_env \<Rightarrow> ('w \<Rightarrow> bool \<times> 'w) \<Rightarrow> rat \<Rightarrow> 'w \<Rightarrow> bool \<times> 'w" where
  "interruptible_sleep env interrupt remain w =
     (if remain > 0 then
        (case interrupt (env_sleep env (min (1 / 10) remain) w) of
           (True, w) \<Rightarrow> (True, w)
         | (False, w) \<Rightarrow> interruptible_sleep env interrupt (remain - 1 / 10) w)
      else (False, w))"
  by pat_completeness auto
termination
proof (relation "measure (\<lambda>(env, interrupt, remain, w). nat \<lceil>10 * remain\<rceil>)", goal_cases)
  case (2 env interrupt remain w x w1)
  then have "0 < \<lceil>10 * remain\<rceil>" by simp
  moreover have "\<lceil>10 * (remain - 1 / 10)\<rceil> = \<lceil>10 * remain\<rceil> - 1"
    by (simp add: right_diff_distrib)
  ultimately show ?case by simp
qed simp

declare interruptible_sleep.simps [simp del]

definition next_sleep :: "'w retry_env \<Rightarrow> retry \<Rightarrow> 'w \<Rightarrow> rat \<times> 'w" where
  "next_sleep env r w =
     (case env_uniform env (1 - max_jitter r) (1 + max_jitter r) w of
        (jitter, w) \<Rightarrow> (cur_delay r * jitter, w))"

definition past_deadline :: "'w retry_env \<Rightarrow> retry \<Rightarrow> rat \<Rightarrow> 'w \<Rightarrow> bool \<times> 'w" where
  "past_deadline env r sleeptime w =
     (case cur_stoptime r of
        None \<Rightarrow> (False, w)
      | Some stop \<Rightarrow> (case env_monotonic env w of (now, w) \<Rightarrow> (stop \<le> now + sleeptime, w)))"

definition retry_wait :: "'w retry_env \<Rightarrow> rat \<Rightarrow> 'w \<Rightarrow> bool \<times> 'w" where
  "retry_wait env sleeptime w =
     (case env_interrupt env of
        Some interrupt \<Rightarrow> interruptible_sleep env interrupt sleeptime w
      | None \<Rightarrow> (False, env_sleep env sleeptime w))"

text \<open>The body of \<^verbatim>\<open>except self.retry_exceptions\<close>: \<open>Inl\<close> is the exception it raises.\<close>

definition retry_failure :: "'w retry_env \<Rightarrow> retry \<Rightarrow> 'w \<Rightarrow> (exc + unit) \<times> retry \<times> 'w" where
  "retry_failure env r w =
     (let r = r\<lparr>attempts := attempts r + 1\<rparr> in
      if max_tries r = Some (attempts r) then (Inl RetryFailedError, r, w)
      else (case next_sleep env r w of (sleeptime, w) \<Rightarrow>
        (case past_deadline env r sleeptime w of
           (True, w) \<Rightarrow> (Inl RetryFailedError, r, w)
         | (False, w) \<Rightarrow>
             (case retry_wait env sleeptime w of
                (True, w) \<Rightarrow> (Inl RetryInterruptedError, r, w)
              | (False, w) \<Rightarrow>
                  (Inr (), r\<lparr>cur_delay := min (sleeptime * backoff r) (max_delay r)\<rparr>, w)))))"

definition retry_arm :: "'w retry_env \<Rightarrow> retry \<Rightarrow> 'w \<Rightarrow> retry \<times> 'w" where
  "retry_arm env r w =
     (case (deadline r, cur_stoptime r) of
        (Some d, None) \<Rightarrow>
          (case env_monotonic env w of (now, w) \<Rightarrow> (r\<lparr>cur_stoptime := Some (now + d)\<rparr>, w))
      | _ \<Rightarrow> (r, w))"

section \<open>The loop\<close>

partial_function (option) retry_loop ::
    "'w retry_env \<Rightarrow> ('w \<Rightarrow> ((exc + 'a) \<times> 'w) option) \<Rightarrow> retry \<Rightarrow> 'w \<Rightarrow> ((exc + 'a) \<times> retry \<times> 'w) option" where
  "retry_loop env func r w =
     (case retry_arm env r w of (r, w) \<Rightarrow>
       (case func w of
          None \<Rightarrow> None
        | Some (Inr x, w) \<Rightarrow> Some (Inr x, r, w)
        | Some (Inl e, w) \<Rightarrow>
            if e = ConnectionClosedError then Some (Inl e, r, w)
            else if retryable r e then
              (case retry_failure env r w of
                 (Inl e', r, w) \<Rightarrow> Some (Inl e', r, w)
               | (Inr u, r, w) \<Rightarrow> retry_loop env func r w)
            else Some (Inl e, r, w)))"

definition retry_call ::
    "'w retry_env \<Rightarrow> retry \<Rightarrow> ('w \<Rightarrow> (exc + 'a) \<times> 'w) \<Rightarrow> 'w \<Rightarrow> ((exc + 'a) \<times> retry \<times> 'w) option" where
  "retry_call env r func w = retry_loop env (\<lambda>w. Some (func w)) (retry_reset r) w"

text \<open>The same for a function that may not return.\<close>

definition retry_call_partial ::
    "'w retry_env \<Rightarrow> retry \<Rightarrow> ('w \<Rightarrow> ((exc + 'a) \<times> 'w) option) \<Rightarrow> 'w \<Rightarrow> ((exc + 'a) \<times> retry \<times> 'w) option" where
  "retry_call_partial env r func w = retry_loop env func (retry_reset r) w"

section \<open>Frame lemmas\<close>

definition same_config :: "retry \<Rightarrow> retry \<Rightarrow> bool" where
  "same_config r r' \<longleftrightarrow> max_tries r' = max_tries r \<and> delay r' = delay r \<and> backoff r' = backoff r
     \<and> max_jitter r' = max_jitter r \<and> max_delay r' = max_delay r
     \<and> ignore_expire r' = ignore_expire r \<and> deadline r' = deadline r"

lemma same_config_retryable: "same_config r r' \<Longrightarrow> retryable r' = retryable r"
  by (simp add: same_config_def retryable_def fun_eq_iff)

lemma same_config_trans [trans]: "same_config r r' \<Longrightarrow> same_config r' r'' \<Longrightarrow> same_config r r''"
  by (simp add: same_config_def)

lemma retry_arm_frame:
  "retry_arm env r w = (r', w') \<Longrightarrow> same_config r r' \<and> attempts r' = attempts r \<and> cur_delay r' = cur_delay r"
  by (auto simp: retry_arm_def same_config_def split: option.splits prod.splits)

lemma retry_failure_frame:
  "retry_failure env r w = (res, r', w') \<Longrightarrow> same_config r r' \<and> attempts r' = attempts r + 1"
  by (auto simp: retry_failure_def Let_def same_config_def split: if_splits prod.splits bool.splits)

lemma retry_failure_error:
  "retry_failure env r w = (Inl e, r', w') \<Longrightarrow> e = RetryFailedError \<or> e = RetryInterruptedError"
  by (auto simp: retry_failure_def Let_def split: if_splits prod.splits bool.splits)

lemma retry_failure_last:
  "max_tries r = Some (attempts r + 1) \<Longrightarrow> \<exists>r'. retry_failure env r w = (Inl RetryFailedError, r', w)"
  by (simp add: retry_failure_def Let_def)

section \<open>Properties\<close>

lemma retry_loop_returns:
  assumes "max_tries r = Some n" and "attempts r < n"
  shows "\<exists>res r' w'. retry_loop env (\<lambda>w. Some (func w)) r w = Some (res, r', w') \<and> attempts r' \<le> n"
  using assms
proof (induction "nat (n - attempts r)" arbitrary: r w rule: less_induct)
  case less
  obtain r1 w1 where arm: "retry_arm env r w = (r1, w1)" by fastforce
  note r1 = retry_arm_frame [OF arm]
  obtain out w2 where func: "func w1 = (out, w2)" by fastforce
  obtain fail r2 w3 where fail: "retry_failure env r1 w2 = (fail, r2, w3)"
    by (metis prod_cases3)
  note r2 = retry_failure_frame [OF fail]
  have max: "max_tries r2 = Some n"
    using less.prems r1 r2 by (simp add: same_config_def)
  show ?case
  proof (cases "attempts r2 < n")
    case True
    with max r1 r2 have "\<exists>res r' w'. retry_loop env (\<lambda>w. Some (func w)) r2 w3 = Some (res, r', w') \<and> attempts r' \<le> n"
      by (intro less.hyps) auto
    then show ?thesis
      using less.prems r1 r2 arm func fail
      by (subst retry_loop.simps) (auto split: sum.splits)
  next
    case False
    with less.prems r1 r2 have "max_tries r1 = Some (attempts r1 + 1)"
      by (auto simp: same_config_def)
    from retry_failure_last [OF this, of env w2] fail have "fail = Inl RetryFailedError"
      by auto
    then show ?thesis
      using less.prems r1 r2 arm func fail
      by (subst retry_loop.simps) (auto split: sum.splits)
  qed
qed

text \<open>
  C37. With a positive bound on the tries the call returns, whatever the retried function,
  the clock, the jitter and the interrupt do, and it never counts more failures than the bound.
\<close>

theorem retry_call_returns:
  assumes "max_tries r = Some n" and "1 \<le> n"
  shows "\<exists>res r' w'. retry_call env r func w = Some (res, r', w') \<and> attempts r' \<le> n"
  unfolding retry_call_def
  by (rule retry_loop_returns) (use assms in \<open>simp_all add: retry_reset_def\<close>)

definition retry_env0 :: "nat retry_env" where
  "retry_env0 = \<lparr>env_monotonic = (\<lambda>w. (of_nat w, w)), env_uniform = (\<lambda>lo hi w. (hi, w)),
     env_sleep = (\<lambda>t w. Suc w), env_interrupt = None\<rparr>"

theorem retry_call_returns_witness:
  "\<exists>res r' w'. retry_call retry_env0 (retry_init (Some 3) 1 2 0 60 True None)
     (\<lambda>w. (Inl ForceRetryError :: exc + unit, w)) 0 = Some (res, r', w') \<and> attempts r' \<le> 3"
proof -
  have m: "max_tries (retry_init (Some 3) 1 2 0 60 True None) = Some 3"
    by (simp add: retry_init_def)
  show ?thesis by (rule retry_call_returns [OF m]) simp
qed

lemma retry_loop_exhausts:
  assumes "max_tries r = Some n" and "attempts r < n" and "deadline r = None"
    and "cur_stoptime r = None" and "env_interrupt env = None"
    and "\<And>w. \<exists>e w'. func w = (Inl e, w') \<and> retryable r e \<and> e \<noteq> ConnectionClosedError"
  shows "\<exists>r' w'. retry_loop env (\<lambda>w. Some (func w)) r w = Some (Inl RetryFailedError, r', w') \<and> attempts r' = n"
  using assms
proof (induction "nat (n - attempts r)" arbitrary: r w rule: less_induct)
  case less
  have arm: "retry_arm env r w = (r, w)" using less.prems by (simp add: retry_arm_def)
  from less.prems(6) obtain e w2 where func: "func w = (Inl e, w2)" "retryable r e"
    "e \<noteq> ConnectionClosedError" by blast
  obtain fail r2 w3 where fail: "retry_failure env r w2 = (fail, r2, w3)"
    by (metis prod_cases3)
  note r2 = retry_failure_frame [OF fail]
  have unfold: "retry_loop env (\<lambda>w. Some (func w)) r w =
      (case fail of Inl e' \<Rightarrow> Some (Inl e', r2, w3) | Inr u \<Rightarrow> retry_loop env (\<lambda>w. Some (func w)) r2 w3)"
    by (subst retry_loop.simps) (simp add: arm func fail split: sum.splits)
  show ?case
  proof (cases "attempts r2 < n")
    case True
    have "fail = Inr () \<and> cur_stoptime r2 = None"
      using fail less.prems True r2
      by (auto simp: retry_failure_def Let_def past_deadline_def retry_wait_def
          split: prod.splits if_splits)
    moreover have "\<exists>r' w'. retry_loop env (\<lambda>w. Some (func w)) r2 w3 = Some (Inl RetryFailedError, r', w')
        \<and> attempts r' = n"
      using True less.prems r2 same_config_retryable [of r r2] calculation
      by (intro less.hyps) (auto simp: same_config_def)
    ultimately show ?thesis using unfold by simp
  next
    case False
    with less.prems r2 have "max_tries r = Some (attempts r + 1)" by auto
    from retry_failure_last [OF this, of env w2] fail have "fail = Inl RetryFailedError" by auto
    then show ?thesis using unfold False less.prems r2 by auto
  qed
qed

text \<open>
  \<^verbatim>\<open>max_tries\<close> counts the tries, the first one included: a function that keeps failing
  with retryable exceptions is given up with \<^verbatim>\<open>RetryFailedError\<close> after exactly that many
  failures, when there is no deadline and no interrupt.
\<close>

theorem retry_call_exhausts:
  assumes "max_tries r = Some n" and "1 \<le> n" and "deadline r = None" and "env_interrupt env = None"
    and "\<And>w. \<exists>e w'. func w = (Inl e, w') \<and> retryable r e \<and> e \<noteq> ConnectionClosedError"
  shows "\<exists>r' w'. retry_call env r func w = Some (Inl RetryFailedError, r', w') \<and> attempts r' = n"
  unfolding retry_call_def
  by (rule retry_loop_exhausts)
     (use assms in \<open>simp_all add: retry_reset_def retryable_def\<close>)

theorem retry_call_exhausts_witness:
  "\<exists>r' w'. retry_call retry_env0 (retry_init (Some 3) 1 2 0 60 True None)
     (\<lambda>w. (Inl ForceRetryError :: exc + unit, w)) 0 = Some (Inl RetryFailedError, r', w')
     \<and> attempts r' = 3"
proof (rule retry_call_exhausts)
  show "\<exists>e w'. (Inl ForceRetryError :: exc + unit, w) = (Inl e, w') \<and>
      retryable (retry_init (Some 3) 1 2 0 60 True None) e \<and> e \<noteq> ConnectionClosedError" for w :: nat
    by (simp add: retryable_def)
qed (simp_all add: retry_init_def retry_env0_def)

text \<open>
  A retryable exception never leaves the retry: what is raised in the end is the
  failure of the retry itself, an exception outside the retryable classes that the function
  raised, or \<^verbatim>\<open>ConnectionClosedError\<close>, which is passed on although it is a subclass of a
  retryable class.
\<close>

theorem retry_call_error:
  fixes func :: "'w \<Rightarrow> (exc + 'a) \<times> 'w"
  assumes "retry_call env r func w = Some (Inl e, r', w')"
  shows "\<not> retryable r e \<or> e = ConnectionClosedError"
proof -
  let ?P = "\<lambda>(env :: 'w retry_env) (func :: 'w \<Rightarrow> ((exc + 'a) \<times> 'w) option) r (w :: 'w)
      (res :: (exc + 'a) \<times> retry \<times> 'w).
    \<forall>e. fst res = Inl e \<longrightarrow> \<not> retryable r e \<or> e = ConnectionClosedError"
  have "?P env (\<lambda>w. Some (func w)) (retry_reset r) w (Inl e, r', w')"
  proof (rule retry_loop.raw_induct [where P = ?P,
        OF _ assms [unfolded retry_call_def]], intro allI impI)
    fix loop :: "'w retry_env \<Rightarrow> ('w \<Rightarrow> ((exc + 'a) \<times> 'w) option) \<Rightarrow> retry \<Rightarrow> 'w \<Rightarrow> ((exc + 'a) \<times> retry \<times> 'w) option"
      and env and func :: "'w \<Rightarrow> ((exc + 'a) \<times> 'w) option" and r w res e
    assume IH: "\<And>env func r w res. loop env func r w = Some res \<Longrightarrow> ?P env func r w res"
      and eq: "(case retry_arm env r w of (r, w) \<Rightarrow>
       (case func w of
          None \<Rightarrow> None
        | Some (Inr x, w) \<Rightarrow> Some (Inr x, r, w)
        | Some (Inl e, w) \<Rightarrow>
            if e = ConnectionClosedError then Some (Inl e, r, w)
            else if retryable r e then
              (case retry_failure env r w of
                 (Inl e', r, w) \<Rightarrow> Some (Inl e', r, w)
               | (Inr u, r, w) \<Rightarrow> loop env func r w)
            else Some (Inl e, r, w))) = Some res" and e: "fst res = Inl e"
    obtain r1 w1 where arm: "retry_arm env r w = (r1, w1)" by fastforce
    have r1: "retryable r1 = retryable r"
      using retry_arm_frame [OF arm] same_config_retryable by blast
    obtain out w2 where out: "func w1 = Some (out, w2)"
      using eq arm by (auto split: option.splits)
    obtain fail r2 w3 where fail: "retry_failure env r1 w2 = (fail, r2, w3)"
      by (metis prod_cases3)
    have r2: "retryable r2 = retryable r"
      using retry_failure_frame [OF fail] same_config_retryable r1 by metis
    have f: "\<not> retryable r RetryFailedError" "\<not> retryable r RetryInterruptedError"
      by (simp_all add: retryable_def)
    show "\<not> retryable r e \<or> e = ConnectionClosedError"
    proof (cases out)
      case (Inr x)
      with eq e arm out show ?thesis by auto
    next
      case (Inl e1)
      note out = out [unfolded Inl]
      show ?thesis
      proof (cases fail)
        case (Inl e2)
        then show ?thesis
          using eq e arm out fail f r1 retry_failure_error [of env r1 w2 e2 r2 w3]
          by (auto split: if_splits)
      next
        case (Inr u)
        then show ?thesis
          using eq e arm out fail r1 r2 IH [of env func r2 w3 res]
          by (auto split: if_splits)
      qed
    qed
  qed
  then show ?thesis by (simp add: retryable_def retry_reset_def)
qed

theorem retry_call_error_witness:
  "\<exists>r' w'. retry_call retry_env0 (retry_init None 1 2 0 60 True None)
     (\<lambda>w. (Inl (if w < 2 then ZkErr ConnectionLoss else ConnectionClosedError) :: exc + unit, w)) 0 =
     Some (Inl ConnectionClosedError, r', w')
   \<and> (\<not> retryable (retry_init None 1 2 0 60 True None) ConnectionClosedError
      \<or> ConnectionClosedError = ConnectionClosedError)"
proof -
  let ?r = "retry_init None 1 2 0 60 True None"
  let ?f = "\<lambda>w :: nat. (Inl (if w < 2 then ZkErr ConnectionLoss else ConnectionClosedError) :: exc + unit, w)"
  have "\<exists>r' w'. retry_call retry_env0 ?r ?f 0 = Some (Inl ConnectionClosedError, r', w')"
    by (simp add: retry_call_def retry_loop.simps retry_arm_def retry_reset_def retry_init_def
        retryable_def retry_failure_def next_sleep_def past_deadline_def retry_wait_def
        retry_env0_def Let_def)
  then obtain r' w' where run: "retry_call retry_env0 ?r ?f 0 = Some (Inl ConnectionClosedError, r', w')"
    by blast
  show ?thesis using run retry_call_error [OF run] by blast
qed

text \<open>
  The back-off is bounded: after a failure that is retried the current delay is at most
  \<^verbatim>\<open>max_delay\<close>, so every later wait is at most \<^verbatim>\<open>max_delay * (1 + max_jitter)\<close>, the jitter
  being applied after the bound.
\<close>

theorem retry_wait_bounded:
  assumes "retry_failure env r w = (Inr (), r', w')"
    and "\<And>lo hi w. fst (env_uniform env lo hi w) \<le> hi"
    and "0 \<le> max_delay r" and "0 \<le> max_jitter r" and "0 \<le> cur_delay r'"
  shows "cur_delay r' \<le> max_delay r
    \<and> fst (next_sleep env r' w') \<le> max_delay r * (1 + max_jitter r)"
proof -
  have d: "cur_delay r' \<le> max_delay r"
    using assms(1) by (auto simp: retry_failure_def Let_def split: if_splits prod.splits bool.splits)
  have j: "max_jitter r' = max_jitter r"
    using retry_failure_frame [OF assms(1)] by (simp add: same_config_def)
  have "fst (next_sleep env r' w') = cur_delay r' * fst (env_uniform env (1 - max_jitter r) (1 + max_jitter r) w')"
    by (simp add: next_sleep_def j split: prod.splits)
  also have "\<dots> \<le> cur_delay r' * (1 + max_jitter r)"
    using assms(2,5) by (intro mult_left_mono) auto
  also have "\<dots> \<le> max_delay r * (1 + max_jitter r)"
    using d assms(4) by (intro mult_right_mono) auto
  finally show ?thesis using d by simp
qed

theorem retry_wait_bounded_witness:
  "\<exists>r' w'. retry_failure retry_env0 (retry_init (Some 5) 40 2 (2/5) 60 True None) 0 = (Inr (), r', w')
     \<and> cur_delay r' \<le> 60 \<and> fst (next_sleep retry_env0 r' w') \<le> 60 * (1 + 2/5)"
proof -
  let ?r = "retry_init (Some 5) 40 2 (2/5) 60 True None"
  let ?r' = "?r\<lparr>attempts := 1, cur_delay := 60\<rparr>"
  have f: "retry_failure retry_env0 ?r 0 = (Inr (), ?r', 1)"
    by (simp add: retry_failure_def next_sleep_def past_deadline_def retry_wait_def retry_init_def
        retry_env0_def Let_def)
  have u: "fst (env_uniform retry_env0 lo hi w) \<le> hi" for lo hi w
    by (simp add: retry_env0_def)
  show ?thesis
    using f retry_wait_bounded [OF f u] by (simp add: retry_init_def)
qed

end
