(* ===== verification/Connection.thy ===== *)
theory Connection
  imports Session Retry
begin

text \<open>
  \<^verbatim>\<open>kazoo/protocol/connection.py\<close>: the connection thread. It sends the requests of the
  client's queue, matches replies with the pending requests, dispatches watch events, sends
  heartbeats, and turns every way a connection can end into a session state.

  What comes from outside (what \<^verbatim>\<open>select\<close> reports, the frame that is read, whether a write
  succeeds, the clock, the random jitter) is an argument of each turn of the loop, the record
  \<open>turn\<close>; the theorems hold for all of them. An \<^verbatim>\<open>OSError\<close> is \<open>PyOSError\<close>.
\<close>

section \<open>The connection's state\<close>

definition WATCH_XID :: int where "WATCH_XID = -1"
definition PING_XID :: int where "PING_XID = -2"
definition AUTH_XID :: int where "AUTH_XID = -4"

text \<open>
  \<open>_ro_mode\<close> is \<^verbatim>\<open>False\<close>, \<^verbatim>\<open>None\<close>, or the iterator of an \<^verbatim>\<open>RWPinger\<close>, whose only state
  is the time of its last attempt.
\<close>

datatype ro_mode = RoFalse | RoNone | RoPinger "rat option"

record conn =
  n_xid :: int
  n_rw_server :: "(string \<times> int) option"
  n_ro_mode :: ro_mode
  n_ping_outstanding :: bool
  n_last_send :: rat
  n_written :: "bytes list"

text \<open>\<^verbatim>\<open>_socket_error_handling\<close>.\<close>

definition socket_error :: "exc \<Rightarrow> exc" where
  "socket_error e = (if e = PyOSError then ConnectionDropped else e)"

definition guard_socket :: "exc + 'a \<Rightarrow> exc + 'a" where
  "guard_socket r = (case r of Inl e \<Rightarrow> Inl (socket_error e) | Inr x \<Rightarrow> Inr x)"

section \<open>The r/w pinger\<close>

datatype ping_answer = PingFalse | PingNone | PingServer "string \<times> int"

text \<open>
  One \<^verbatim>\<open>next\<close> of the iterator: \<open>now\<close> the clock at the test, \<open>attempt\<close> the clock when a host is
  tried, \<open>probe\<close> what the four-letter word \<^verbatim>\<open>isro\<close> brings back. The generator's delay stays
  at 0.5. The loop over the hosts returns in its first iteration.
\<close>

definition next_server :: "(string \<times> int) list \<Rightarrow> rat \<Rightarrow> rat \<Rightarrow> rat \<Rightarrow> rat \<Rightarrow> rat
    \<Rightarrow> (string \<times> int \<Rightarrow> exc + string) \<Rightarrow> (exc + ping_answer) \<times> rat" where
  "next_server hosts wait jitter last_attempt now attempt probe =
     (if now < last_attempt + wait + jitter then (Inr PingFalse, last_attempt)
      else case hosts of
          [] \<Rightarrow> (Inr PingNone, last_attempt)
        | (host, port) # _ \<Rightarrow>
            (case probe (host, port) of
               Inr result \<Rightarrow>
                 (Inr (if result = ''rw'' then PingServer (host, port) else PingFalse), attempt)
             | Inl e \<Rightarrow>
                 (if socket_error e = ConnectionDropped then Inr PingFalse else Inl (socket_error e),
                  attempt)))"

definition pinger_next :: "(string \<times> int) list \<Rightarrow> rat \<Rightarrow> rat option \<Rightarrow> rat \<Rightarrow> rat \<Rightarrow> rat
    \<Rightarrow> (string \<times> int \<Rightarrow> exc + string) \<Rightarrow> (exc + ping_answer) \<times> rat" where
  "pinger_next hosts jitter last_attempt first now attempt probe =
     (let last = (case last_attempt of Some t \<Rightarrow> if t = 0 then first else t | None \<Rightarrow> first)
      in next_server hosts (1/2) jitter last now attempt probe)"

section \<open>Writing\<close>

text \<open>
  \<^verbatim>\<open>_submit\<close>: the frame of a request. An \<open>xid\<close> or a type that is false is not written.
\<close>

definition submit_bytes :: "request \<Rightarrow> int option \<Rightarrow> exc + bytes" where
  "submit_bytes request xid =
     ebind (case xid of Some x \<Rightarrow> if x = 0 then Inr [] else write_int x | None \<Rightarrow> Inr []) (\<lambda>b1.
     ebind (case req_type request of Some t \<Rightarrow> if t = 0 then Inr [] else write_int t | None \<Rightarrow> Inr []) (\<lambda>b2.
     ebind (serialize request) (\<lambda>b3.
       let b = b1 @ b2 @ b3 in
       ebind (write_int (int (length b))) (\<lambda>len. Inr (len @ b)))))"

definition submit :: "(bytes \<Rightarrow> exc + unit) \<Rightarrow> request \<Rightarrow> int option \<Rightarrow> conn \<Rightarrow> (exc + unit) \<times> conn" where
  "submit write request xid n =
     (case submit_bytes request xid of
        Inl e \<Rightarrow> (Inl e, n)
      | Inr frame \<Rightarrow>
          (case guard_socket (write frame) of
             Inl e \<Rightarrow> (Inl e, n)
           | Inr _ \<Rightarrow> (Inr (), n\<lparr>n_written := n_written n @ [frame]\<rparr>)))"

definition next_xid :: "int \<Rightarrow> int" where
  "next_xid xid = xid mod 2147483647 + 1"

definition send_request :: "(bytes \<Rightarrow> exc + unit) \<Rightarrow> exc + unit \<Rightarrow> conn \<Rightarrow> client
    \<Rightarrow> (exc + unit) \<times> conn \<times> client" where
  "send_request write recv n c =
     (case c_queue c of
        [] \<Rightarrow> (case recv of
                 Inl e \<Rightarrow> if e = PyOSError then (Inr (), n, c) else (Inl e, n, c)
               | Inr _ \<Rightarrow> (Inr (), n, c))
      | (SESSION_EXPIRED_HOOK, _) # _ \<Rightarrow> (Inl (ZkErr SessionExpiredError), n, c)
      | (CONNECTION_DROP_HOOK, _) # _ \<Rightarrow> (Inl ConnectionDropped, n, c)
      | (Req request, async_object) # rest \<Rightarrow>
          let auth = (req_type request = Some 100);
              n = (if auth then n else n\<lparr>n_xid := next_xid (n_xid n)\<rparr>);
              xid = (if auth then AUTH_XID else n_xid n)
          in case submit write request (Some xid) n of
               (Inl e, n) \<Rightarrow> (Inl e, n, c)
             | (Inr _, n) \<Rightarrow>
                 let c = c\<lparr>c_queue := rest\<rparr>
                 in case recv of
                      Inl e \<Rightarrow> (Inl e, n, c)
                    | Inr _ \<Rightarrow> (Inr (), n, c\<lparr>c_pending := c_pending c @ [(request, async_object, xid)]\<rparr>))"

section \<open>Watch events and replies\<close>

text \<open>\<open>table.pop(path, [])\<close> and \<open>table[path].add(watcher)\<close>.\<close>

definition pop_watchers :: "string option \<Rightarrow> watch_table \<Rightarrow> nat list \<times> watch_table" where
  "pop_watchers path table =
     (case path of
        None \<Rightarrow> ([], table)
      | Some p \<Rightarrow>
          ((case map_of table p of None \<Rightarrow> [] | Some ws \<Rightarrow> ws), List.filter (\<lambda>e. fst e \<noteq> p) table))"

fun add_watcher :: "string \<Rightarrow> nat \<Rightarrow> watch_table \<Rightarrow> watch_table" where
  "add_watcher path w [] = [(path, [w])]"
| "add_watcher path w ((p, ws) # table) =
     (if p = path then (p, if w \<in> set ws then ws else ws @ [w]) # table
      else (p, ws) # add_watcher path w table)"

definition client_unchroot :: "client \<Rightarrow> string \<Rightarrow> string" where
  "client_unchroot c = unchroot (case c_chroot c of None \<Rightarrow> [] | Some s \<Rightarrow> s)"

text \<open>\<^verbatim>\<open>unchroot\<close> of a missing path fails on \<^verbatim>\<open>startswith\<close> when there is a chroot.\<close>

definition unchroot_opt :: "client \<Rightarrow> string option \<Rightarrow> exc + string option" where
  "unchroot_opt c path =
     (case path of
        Some p \<Rightarrow> Inr (Some (client_unchroot c p))
      | None \<Rightarrow>
          if (case c_chroot c of None \<Rightarrow> [] | Some s \<Rightarrow> s) = [] then Inr None else Inl PyAttributeError)"

definition read_watch_event :: "bytes \<Rightarrow> nat \<Rightarrow> client \<Rightarrow> (exc + unit) \<times> client" where
  "read_watch_event buffer offset c =
     (case watch_deserialize buffer offset of
        Inl e \<Rightarrow> (Inl e, c)
      | Inr (watch, _) \<Rightarrow>
          let ty = we_type watch; path = we_path watch;
              (dws, dtable) = pop_watchers path (c_data_watchers c);
              (cws, ctable) = pop_watchers path (c_child_watchers c);
              popped =
                (if ty = 1 \<or> ty = 3 then Some (dws, c\<lparr>c_data_watchers := dtable\<rparr>)
                 else if ty = 2 then
                   Some (dws @ cws, c\<lparr>c_data_watchers := dtable, c_child_watchers := ctable\<rparr>)
                 else if ty = 4 then Some (cws, c\<lparr>c_child_watchers := ctable\<rparr>)
                 else None)
          in case popped of
               None \<Rightarrow> (Inr (), c)
             | Some (watchers, c) \<Rightarrow>
                 (case ebind (unchroot_opt c path) (\<lambda>p. ebind (EVENT_TYPE_MAP ty) (\<lambda>t. Inr (t, p))) of
                    Inl e \<Rightarrow> (Inl e, c)
                  | Inr (t, p) \<Rightarrow>
                      let ev = \<lparr>ev_type = t, ev_state = c_state c, ev_path = p\<rparr>
                      in if c_stopped c then (Inr (), c)
                         else (Inr (), foldl (client_dispatch ev) c watchers)))"

text \<open>\<open>getattr(request, "watcher", None)\<close>, the path it is stored under, and in which table.\<close>

fun request_watcher :: "request \<Rightarrow> (string \<times> nat \<times> bool) option" where
  "request_watcher (Exists path (Some w)) = Some (path, w, False)"
| "request_watcher (GetData path (Some w)) = Some (path, w, False)"
| "request_watcher (GetChildren path (Some w)) = Some (path, w, True)"
| "request_watcher (GetChildren2 path (Some w)) = Some (path, w, True)"
| "request_watcher _ = None"

definition register_watcher :: "request \<Rightarrow> client \<Rightarrow> client" where
  "register_watcher request c =
     (case request_watcher request of
        None \<Rightarrow> c
      | Some (path, w, child) \<Rightarrow>
          if c_stopped c then c
          else if child then c\<lparr>c_child_watchers := add_watcher path w (c_child_watchers c)\<rparr>
          else c\<lparr>c_data_watchers := add_watcher path w (c_data_watchers c)\<rparr>)"

definition unchroot_response :: "client \<Rightarrow> response \<Rightarrow> response" where
  "unchroot_response c r =
     (case r of RespResults rs \<Rightarrow> RespResults (transaction_unchroot (client_unchroot c) rs) | _ \<Rightarrow> r)"

text \<open>
  \<^verbatim>\<open>_read_response\<close>; the value \<^term>\<open>True\<close> is \<open>CLOSE_RESPONSE\<close>. The requests without fields,
  \<^verbatim>\<open>Close\<close> and \<^verbatim>\<open>Ping\<close>, are empty tuples and count as false. \<^verbatim>\<open>None\<close>, the answer to a
  missing node's \<^verbatim>\<open>exists\<close>, is \<open>RespExists None\<close>.
\<close>

definition request_truthy :: "request \<Rightarrow> bool" where
  "request_truthy request \<longleftrightarrow> request \<noteq> Close \<and> request \<noteq> Ping"

definition deliver_response :: "request \<Rightarrow> nat \<Rightarrow> bool \<Rightarrow> bytes \<Rightarrow> nat \<Rightarrow> client \<Rightarrow> client" where
  "deliver_response request i exists_error buffer offset c =
     (if exists_error then register_watcher request (set_result i (Some (RespExists None)) c)
      else case deserialize request buffer offset of
          Inl e \<Rightarrow> set_result_exception i e c
        | Inr response \<Rightarrow>
            let response = (if req_type request = Some 14 then unchroot_response c response else response)
            in register_watcher request (set_result i (Some response) c))"

definition answer_request :: "reply_header \<Rightarrow> bytes \<Rightarrow> nat \<Rightarrow> request \<Rightarrow> nat option \<Rightarrow> int
    \<Rightarrow> client \<Rightarrow> (exc + bool) \<times> client" where
  "answer_request header buffer offset request async_object xid c =
     (if rh_xid header \<noteq> xid then
        (case async_object of
           None \<Rightarrow> (Inl PyAttributeError, c)
         | Some i \<Rightarrow> (Inl PyRuntimeError, set_result_exception i PyRuntimeError c))
      else let exists_error = (rh_err header = zk_code NoNodeError \<and> req_type request = Some 3)
        in if rh_err header \<noteq> 0 \<and> \<not> exists_error then
             (case EXCEPTIONS (rh_err header) of
                Inl e \<Rightarrow> (Inl e, c)
              | Inr klass \<Rightarrow> (Inr (request = Close), fail_result (ZkErr klass) c async_object))
           else (case async_object of
               Some i \<Rightarrow>
                 if request_truthy request
                 then (Inr False, deliver_response request i exists_error buffer offset c)
                 else (Inr (request = Close), c)
             | None \<Rightarrow> (Inr (request = Close), c)))"

definition read_response :: "reply_header \<Rightarrow> bytes \<Rightarrow> nat \<Rightarrow> client \<Rightarrow> (exc + bool) \<times> client" where
  "read_response header buffer offset c =
     (case c_pending c of
        [] \<Rightarrow> (Inl PyIndexError, c)
      | (request, async_object, xid) # rest \<Rightarrow>
          let c = c\<lparr>c_pending := rest\<rparr>;
              c = (if rh_zxid header > 0 then c\<lparr>c_last_zxid := rh_zxid header\<rparr> else c)
          in answer_request header buffer offset request async_object xid c)"

definition read_auth :: "(nat \<Rightarrow> kazoo_state \<Rightarrow> exc + bool) \<Rightarrow> reply_header \<Rightarrow> client
    \<Rightarrow> (exc + bool) \<times> client" where
  "read_auth lst header c =
     (case c_pending c of
        [] \<Rightarrow> (Inl PyIndexError, c)
      | (request, async_object, xid) # rest \<Rightarrow>
          let c = c\<lparr>c_pending := rest\<rparr>
          in case async_object of
               None \<Rightarrow> (Inl PyAttributeError, c)
             | Some i \<Rightarrow>
                 if rh_err header \<noteq> 0 then
                   (Inr False, session_callback lst AUTH_FAILED (set_result_exception i (ZkErr AuthFailedError) c))
                 else (Inr False, set_result i (Some RespTrue) c))"

definition read_socket :: "(nat \<Rightarrow> kazoo_state \<Rightarrow> exc + bool) \<Rightarrow> exc + reply_header \<times> bytes \<times> nat
    \<Rightarrow> conn \<Rightarrow> client \<Rightarrow> (exc + bool) \<times> conn \<times> client" where
  "read_socket lst frame n c =
     (case frame of
        Inl e \<Rightarrow> (Inl e, n, c)
      | Inr (header, buffer, offset) \<Rightarrow>
          if rh_xid header = PING_XID then (Inr False, n\<lparr>n_ping_outstanding := False\<rparr>, c)
          else if rh_xid header = AUTH_XID then
            (case read_auth lst header c of (r, c) \<Rightarrow> (r, n, c))
          else if rh_xid header = WATCH_XID then
            (case read_watch_event buffer offset c of
               (Inl e, c) \<Rightarrow> (Inl e, n, c) | (Inr _, c) \<Rightarrow> (Inr False, n, c))
          else (case read_response header buffer offset c of (r, c) \<Rightarrow> (r, n, c)))"

section \<open>The loop over one connection\<close>

text \<open>
  The inputs of one turn: what other threads did to the client before it, the clock before \<^verbatim>\<open>select\<close> and the jitter, which of the two sockets
  \<^verbatim>\<open>select\<close> reports, the frame a read would bring, whether writing and taking the wake-up byte
  succeed, the clock after a send and at the test of the deadline, and the pinger's inputs.
\<close>

record turn =
  t_client :: "session_event list"
  t_now :: rat
  t_jitter :: rat
  t_select :: "exc + bool \<times> bool"
  t_frame :: "exc + reply_header \<times> bytes \<times> nat"
  t_write :: "bytes \<Rightarrow> exc + unit"
  t_recv :: "exc + unit"
  t_sent :: rat
  t_check :: rat
  t_ping_jitter :: rat
  t_ping_first :: rat
  t_ping_now :: rat
  t_ping_attempt :: rat
  t_ping_probe :: "string \<times> int \<Rightarrow> exc + string"

definition turn_deadline :: "rat \<Rightarrow> conn \<Rightarrow> turn \<Rightarrow> rat" where
  "turn_deadline read_timeout n t = n_last_send n + read_timeout / 2 - t_jitter t"

text \<open>The time-out that is given to \<^verbatim>\<open>select\<close>.\<close>

definition select_timeout :: "rat \<Rightarrow> conn \<Rightarrow> turn \<Rightarrow> rat" where
  "select_timeout read_timeout n t = max (turn_deadline read_timeout n t - t_now t) (t_jitter t)"

definition send_ping :: "turn \<Rightarrow> conn \<Rightarrow> client \<Rightarrow> (exc + unit) \<times> conn" where
  "send_ping t n c =
     (case submit (t_write t) Ping (Some PING_XID) (n\<lparr>n_ping_outstanding := True\<rparr>) of
        (Inl e, n) \<Rightarrow> (Inl e, n)
      | (Inr _, n) \<Rightarrow>
          (case n_ro_mode n of
             RoPinger prev \<Rightarrow>
               (case pinger_next (c_hosts c) (t_ping_jitter t) prev (t_ping_first t) (t_ping_now t)
                       (t_ping_attempt t) (t_ping_probe t) of
                  (Inl e, tried) \<Rightarrow> (Inl e, n\<lparr>n_ro_mode := RoPinger (Some tried)\<rparr>)
                | (Inr (PingServer server), tried) \<Rightarrow>
                    (Inl RWServerAvailable,
                     n\<lparr>n_ro_mode := RoPinger (Some tried), n_rw_server := Some server\<rparr>)
                | (Inr _, tried) \<Rightarrow> (Inr (), n\<lparr>n_ro_mode := RoPinger (Some tried)\<rparr>))
           | _ \<Rightarrow> (Inr (), n)))"

text \<open>The test at the end of a turn that sent no request.\<close>

definition turn_check :: "rat \<Rightarrow> turn \<Rightarrow> conn \<Rightarrow> client \<Rightarrow> (exc + bool) \<times> conn \<times> client" where
  "turn_check limit t n c =
     (if t_check t \<ge> limit then
        (case send_ping t n c of
           (Inl e, n) \<Rightarrow> (Inl e, n, c)
         | (Inr _, n) \<Rightarrow> (Inr False, n\<lparr>n_last_send := t_sent t\<rparr>, c))
      else (Inr False, n, c))"

text \<open>One turn; the value \<^term>\<open>True\<close> leaves the loop.\<close>

definition conn_turn_body :: "(nat \<Rightarrow> kazoo_state \<Rightarrow> exc + bool) \<Rightarrow> rat \<Rightarrow> turn \<Rightarrow> conn \<Rightarrow> client
    \<Rightarrow> (exc + bool) \<times> conn \<times> client" where
  "conn_turn_body lst read_timeout t n c =
     (let limit = turn_deadline read_timeout n t in
      case t_select t of
        Inl e \<Rightarrow> (Inl e, n, c)
      | Inr (sock, wake) \<Rightarrow>
          if \<not> sock \<and> \<not> wake then
            (if n_ping_outstanding n then (Inl ConnectionDropped, n\<lparr>n_ping_outstanding := False\<rparr>, c)
             else turn_check limit t n c)
          else (case (if sock then read_socket lst (t_frame t) n c else (Inr False, n, c)) of
              (Inl e, n, c) \<Rightarrow> (Inl e, n, c)
            | (Inr close, n, c) \<Rightarrow>
                if close then (Inr True, n, c)
                else if wake then
                  (case send_request (t_write t) (t_recv t) n c of
                     (Inl e, n, c) \<Rightarrow> (Inl e, n, c)
                   | (Inr _, n, c) \<Rightarrow> (Inr False, n\<lparr>n_last_send := t_sent t\<rparr>, c))
                else turn_check limit t n c))"

definition conn_turn :: "(nat \<Rightarrow> kazoo_state \<Rightarrow> exc + bool) \<Rightarrow> rat \<Rightarrow> turn \<Rightarrow> conn \<Rightarrow> client
    \<Rightarrow> (exc + bool) \<times> conn \<times> client" where
  "conn_turn lst read_timeout t n c =
     (case conn_turn_body lst read_timeout t n c of (r, n, c) \<Rightarrow> (guard_socket r, n, c))"

text \<open>
  The loop, for a list of turns: \<^term>\<open>None\<close> when the connection is still open after them.
\<close>

fun serve :: "(nat \<Rightarrow> kazoo_state \<Rightarrow> exc + bool) \<Rightarrow> rat \<Rightarrow> turn list \<Rightarrow> conn \<Rightarrow> client
    \<Rightarrow> (exc + unit) option \<times> conn \<times> client" where
  "serve lst read_timeout [] n c = (None, n, c)"
| "serve lst read_timeout (t # ts) n c =
     (case conn_turn lst read_timeout t n (foldl (session_step lst) c (t_client t)) of
        (Inl e, n, c) \<Rightarrow> (Some (Inl e), n, c)
      | (Inr close, n, c) \<Rightarrow> if close then (Some (Inr ()), n, c) else serve lst read_timeout ts n c)"

section \<open>Connecting\<close>

text \<open>
  \<^verbatim>\<open>_invoke\<close> with an \<^verbatim>\<open>xid\<close>, once its request is written and the reply's header read, and
  without one, once the reply's frame is read.
\<close>

definition invoke_header :: "int \<Rightarrow> reply_header \<Rightarrow> exc + int option" where
  "invoke_header xid header =
     (if rh_xid header \<noteq> xid then Inl PyRuntimeError
      else let zxid = (if rh_zxid header > 0 then Some (rh_zxid header) else None)
        in if rh_err header \<noteq> 0 then
             ebind (EXCEPTIONS (rh_err header)) (\<lambda>klass. Inl (ZkErr klass))
           else Inr zxid)"

definition invoke_connect :: "bytes \<Rightarrow> exc + connect_rec" where
  "invoke_connect msg =
     (case connect_deserialize msg 0 of Inl e \<Rightarrow> Inl ConnectionDropped | Inr (obj, _) \<Rightarrow> Inr obj)"

text \<open>
  What comes from outside while a connection is set up: creating the socket, writing and
  reading the connect frame, the SASL exchange when it is configured (\<open>sasl_exchange\<close> of the
  theory \<open>Sasl\<close>), and for each authentication its write and its reply's header.
\<close>

record connect_env =
  ce_create :: "string \<times> int \<Rightarrow> exc + unit"
  ce_write :: "bytes \<Rightarrow> exc + unit"
  ce_reply :: "exc + bytes"
  ce_sasl :: "(conn \<Rightarrow> client \<Rightarrow> (exc + unit) \<times> conn \<times> client) option"
  ce_auths :: "((string \<times> string) \<times> (exc + reply_header)) list"
  ce_now :: rat

definition connect_request :: "client \<Rightarrow> connect_rec" where
  "connect_request c =
     \<lparr>protocol_version = 0, last_zxid_seen = c_last_zxid c, time_out = c_session_timeout c,
      session_id = (case c_session_id c of Some s \<Rightarrow> s | None \<Rightarrow> 0),
      passwd = c_session_passwd c, read_only = c_read_only c\<rparr>"

fun send_auths :: "(bytes \<Rightarrow> exc + unit) \<Rightarrow> ((string \<times> string) \<times> (exc + reply_header)) list
    \<Rightarrow> conn \<Rightarrow> client \<Rightarrow> (exc + unit) \<times> conn \<times> client" where
  "send_auths write [] n c = (Inr (), n, c)"
| "send_auths write (((scheme, auth), reply) # auths) n c =
     (case submit write (Auth 0 scheme auth) (Some AUTH_XID) n of
        (Inl e, n) \<Rightarrow> (Inl e, n, c)
      | (Inr _, n) \<Rightarrow>
          (case ebind (guard_socket reply) (invoke_header AUTH_XID) of
             Inl e \<Rightarrow> (Inl e, n, c)
           | Inr zxid \<Rightarrow>
               send_auths write auths n
                 (case zxid of Some z \<Rightarrow> c\<lparr>c_last_zxid := z\<rparr> | None \<Rightarrow> c)))"

definition take_session :: "connect_rec \<Rightarrow> client \<Rightarrow> client" where
  "take_session result c =
     c\<lparr>c_session_id := Some (session_id result), c_protocol_version := Some (protocol_version result),
       c_session_passwd := passwd result\<rparr>"

definition session_established :: "(nat \<Rightarrow> kazoo_state \<Rightarrow> exc + bool) \<Rightarrow> connect_rec \<Rightarrow> conn \<Rightarrow> client
    \<Rightarrow> conn \<times> client" where
  "session_established lst result n c =
     (let c = take_session result c
      in if read_only result
         then (n\<lparr>n_ro_mode := RoPinger None\<rparr>, session_callback lst CONNECTED_RO c)
         else (n\<lparr>n_ro_mode := RoNone\<rparr>, session_callback lst CONNECTED c))"

text \<open>\<^verbatim>\<open>_connect\<close>: the value is the read time-out and the connect time-out, in milliseconds.\<close>

definition connect :: "(nat \<Rightarrow> kazoo_state \<Rightarrow> exc + bool) \<Rightarrow> connect_env \<Rightarrow> string \<Rightarrow> int
    \<Rightarrow> conn \<Rightarrow> client \<Rightarrow> (exc + rat \<times> rat) \<times> conn \<times> client" where
  "connect lst env hostip port n c =
     (if c_session_passwd c = None then (Inl PyTypeError, n, c)
      else case guard_socket (ce_create env (hostip, port)) of
        Inl e \<Rightarrow> (Inl e, n, c)
      | Inr _ \<Rightarrow>
     if c_hosts c = [] then (Inl PyZeroDivisionError, n, c)
     else (case submit (ce_write env) (Connect (connect_request c)) None n of
        (Inl e, n) \<Rightarrow> (Inl e, n, c)
      | (Inr _, n) \<Rightarrow>
     (case ebind (guard_socket (ce_reply env)) invoke_connect of
        Inl e \<Rightarrow> (Inl e, n, c)
      | Inr result \<Rightarrow>
          if time_out result \<le> 0 then (Inl (ZkErr SessionExpiredError), n, c)
          else if passwd result = None then (Inl PyTypeError, n, take_session result c)
          else (case session_established lst result n c of (n, c) \<Rightarrow>
             (case (case ce_sasl env of None \<Rightarrow> (Inr (), n, c) | Some exchange \<Rightarrow> exchange n c) of
                (Inl e, n, c) \<Rightarrow> (Inl e, n, c)
              | (Inr _, n, c) \<Rightarrow>
                (case send_auths (ce_write env) (ce_auths env) n c of
                   (Inl e, n, c) \<Rightarrow> (Inl e, n, c)
                 | (Inr _, n, c) \<Rightarrow>
                     (Inr (of_int (time_out result) * 2 / 3,
                           of_int (time_out result) / of_nat (length (c_hosts c))), n, c)))))))"

section \<open>One attempt, and the loops over hosts and attempts\<close>

datatype attempt_result = STOP_CONNECTING | KEEP_TRYING

text \<open>
  The \<^verbatim>\<open>except\<close> clauses of \<^verbatim>\<open>_connect_attempt\<close>: how the connection ended decides the
  session state, whether the retry counter starts again, and whether another attempt is made.
\<close>

definition attempt_outcome :: "(nat \<Rightarrow> kazoo_state \<Rightarrow> exc + bool) \<Rightarrow> exc + unit \<Rightarrow> retry \<Rightarrow> client
    \<Rightarrow> (exc + attempt_result) \<times> retry \<times> client" where
  "attempt_outcome lst outcome r c =
     (case outcome of
        Inr _ \<Rightarrow> (Inr STOP_CONNECTING, r, session_callback lst CLOSED c)
      | Inl e \<Rightarrow>
          if e = ConnectionDropped \<or> e = HandlerTimeout then
            (Inr KEEP_TRYING, r,
             if c_state c \<noteq> CONNECTING then session_callback lst CONNECTING c else c)
          else if e = ZkErr AuthFailedError \<or> e = SASLException then
            (Inr STOP_CONNECTING, retry_reset r, session_callback lst AUTH_FAILED c)
          else if e = ZkErr SessionClosedRequireSaslError then
            (Inr STOP_CONNECTING, retry_reset r, session_callback lst AUTH_FAILED c)
          else if is_session_expired e then
            (Inr KEEP_TRYING, retry_reset r, session_callback lst EXPIRED_SESSION c)
          else if e = RWServerAvailable then
            (Inr KEEP_TRYING, retry_reset r, session_callback lst CONNECTING c)
          else (Inl e, r, c))"

text \<open>The address that is connected to: a known r/w server replaces the host and the port.\<close>

definition connect_address :: "string \<Rightarrow> string \<Rightarrow> int \<Rightarrow> conn \<Rightarrow> string \<times> string \<times> int" where
  "connect_address host hostip port n =
     (case n_rw_server n of Some (host, port) \<Rightarrow> (host, hostip, port) | None \<Rightarrow> (host, hostip, port))"

text \<open>
  One attempt: \<open>env\<close> and \<open>turns\<close> are what happens while connecting and on the open
  connection. \<^term>\<open>None\<close> when the connection is still open.
\<close>

definition connect_attempt :: "(nat \<Rightarrow> kazoo_state \<Rightarrow> exc + bool) \<Rightarrow> connect_env \<times> turn list
    \<Rightarrow> string \<times> string \<times> int \<Rightarrow> retry \<Rightarrow> conn \<Rightarrow> client
    \<Rightarrow> (exc + attempt_result) option \<times> retry \<times> conn \<times> client" where
  "connect_attempt lst et target r n c =
     (let (host, hostip, port) = connect_address (fst target) (fst (snd target)) (snd (snd target)) n;
          n = n\<lparr>n_rw_server := None\<rparr>;
          c = (if c_state c \<noteq> CONNECTING then session_callback lst CONNECTING c else c);
          n = n\<lparr>n_xid := 0\<rparr>
      in case connect lst (fst et) hostip port n c of
           (Inl e, n, c) \<Rightarrow>
             (case attempt_outcome lst (Inl e) r c of (res, r, c) \<Rightarrow> (Some res, r, n, c))
         | (Inr (read_timeout, _), n, c) \<Rightarrow>
             let r = retry_reset r;
                 n = n\<lparr>n_ping_outstanding := False, n_last_send := ce_now (fst et)\<rparr>
             in case serve lst (read_timeout / 1000) (snd et) n c of
                  (None, n, c) \<Rightarrow> (None, r, n, c)
                | (Some outcome, n, c) \<Rightarrow>
                    (case attempt_outcome lst outcome r c of (res, r, c) \<Rightarrow> (Some res, r, n, c)))"

text \<open>
  \<^verbatim>\<open>_connect_loop\<close>: each expanded host with what happens at its attempt. The test of the stop
  flag comes before each attempt; another thread can set the flag during one.
\<close>

fun connect_hosts :: "(nat \<Rightarrow> kazoo_state \<Rightarrow> exc + bool)
    \<Rightarrow> ((string \<times> string \<times> int) \<times> connect_env \<times> turn list) list
    \<Rightarrow> retry \<Rightarrow> conn \<Rightarrow> client \<Rightarrow> (exc + attempt_result) option \<times> retry \<times> conn \<times> client" where
  "connect_hosts lst [] r n c = (Some (Inr KEEP_TRYING), r, n, c)"
| "connect_hosts lst ((target, et) # rest) r n c =
     (if c_stopped c then (Some (Inr STOP_CONNECTING), r, n, c)
      else case connect_attempt lst et target r n c of
          (Some (Inr KEEP_TRYING), r, n, c) \<Rightarrow> connect_hosts lst rest r n c
        | result \<Rightarrow> result)"

definition connect_loop :: "(nat \<Rightarrow> kazoo_state \<Rightarrow> exc + bool)
    \<Rightarrow> ((string \<times> string \<times> int) \<times> connect_env \<times> turn list) list
    \<Rightarrow> retry \<Rightarrow> conn \<Rightarrow> client \<Rightarrow> (exc + attempt_result) option \<times> retry \<times> conn \<times> client" where
  "connect_loop lst targets r n c =
     (if targets = [] then (Some (Inl ForceRetryError), r, n, c)
      else case connect_hosts lst targets r n c of
          (Some (Inr KEEP_TRYING), r, n, c) \<Rightarrow> (Some (Inl ForceRetryError), r, n, c)
        | result \<Rightarrow> result)"

text \<open>
  \<^verbatim>\<open>zk_loop\<close> after its \<^verbatim>\<open>try\<close>: whatever the retried connect loop ended with, the session is
  closed; a failed retry is only logged, another exception propagates after that.
\<close>

definition zk_loop_end :: "(nat \<Rightarrow> kazoo_state \<Rightarrow> exc + bool) \<Rightarrow> exc + attempt_result \<Rightarrow> client
    \<Rightarrow> (exc + unit) \<times> client" where
  "zk_loop_end lst result c =
     (case result of
        Inr _ \<Rightarrow> (Inr (), session_callback lst CLOSED c)
      | Inl e \<Rightarrow> (if is_retry_failed e then Inr () else Inl e, session_callback lst CLOSED c))"

text \<open>
  \<^verbatim>\<open>zk_loop\<close>, for the cycles over the hosts that happen. It is the call of the retry object
  on the connect loop, which gets the same retry object and resets it when a connection was
  made; \<^verbatim>\<open>retry_arm\<close> and \<^verbatim>\<open>retry_failure\<close> are the parts of that call before and after
  the function. \<^term>\<open>None\<close> when the thread still runs after the cycles.
\<close>

fun zk_cycles :: "(nat \<Rightarrow> kazoo_state \<Rightarrow> exc + bool) \<Rightarrow> 'w retry_env
    \<Rightarrow> ((string \<times> string \<times> int) \<times> connect_env \<times> turn list) list list
    \<Rightarrow> retry \<Rightarrow> conn \<Rightarrow> client \<Rightarrow> 'w \<Rightarrow> (exc + attempt_result) option \<times> conn \<times> client" where
  "zk_cycles lst renv [] r n c w = (None, n, c)"
| "zk_cycles lst renv (targets # cycles) r n c w =
     (case retry_arm renv r w of (r, w) \<Rightarrow>
        (case connect_loop lst targets r n c of
           (None, r, n, c) \<Rightarrow> (None, n, c)
         | (Some (Inr result), r, n, c) \<Rightarrow> (Some (Inr result), n, c)
         | (Some (Inl e), r, n, c) \<Rightarrow>
             if e = ConnectionClosedError then (Some (Inl e), n, c)
             else if retryable r e then
               (case retry_failure renv r w of
                  (Inl e', r, w) \<Rightarrow> (Some (Inl e'), n, c)
                | (Inr _, r, w) \<Rightarrow> zk_cycles lst renv cycles r n c w)
             else (Some (Inl e), n, c)))"

definition zk_loop :: "(nat \<Rightarrow> kazoo_state \<Rightarrow> exc + bool) \<Rightarrow> 'w retry_env
    \<Rightarrow> ((string \<times> string \<times> int) \<times> connect_env \<times> turn list) list list
    \<Rightarrow> retry \<Rightarrow> conn \<Rightarrow> client \<Rightarrow> 'w \<Rightarrow> (exc + unit) option \<times> client" where
  "zk_loop lst renv cycles sleeper n c w =
     (let r = retry_reset (retry_copy sleeper)
      in if c_stopped c then (case zk_loop_end lst (Inr STOP_CONNECTING) c of (x, c) \<Rightarrow> (Some x, c))
         else case zk_cycles lst renv cycles r n c w of
             (None, n, c) \<Rightarrow> (None, c)
           | (Some result, n, c) \<Rightarrow> (case zk_loop_end lst result c of (x, c) \<Rightarrow> (Some x, c)))"

end
