(* ===== verification/ConnectionProps.thy ===== *)
theory ConnectionProps
  imports Connection
begin

text \<open>
  What the connection thread guarantees: no caller is lost (while every error code of a reply
  is known), replies resolve the request they answer, the \<^verbatim>\<open>xid\<close>s of the pending requests are
  distinct, watches fire once, heartbeats detect a dead peer, and the thread's end closes the
  session.
\<close>

section \<open>No caller is lost\<close>

text \<open>\<open>tracked A c\<close>: every result of \<open>A\<close> is still in a queue of a client that is open, or is resolved.\<close>

definition tracked :: "nat set \<Rightarrow> client \<Rightarrow> bool" where
  "tracked A c \<longleftrightarrow> (\<forall>i \<in> A. i \<in> waiting c \<and> \<not> in_closed_state c \<or> ar_ready (c_results c i))"

text \<open>A caller's requests are never the two field-less ones.\<close>

fun item_ok :: "queue_item \<times> nat option \<Rightarrow> bool" where
  "item_ok (Req r, a) \<longleftrightarrow> a = None \<or> request_truthy r"
| "item_ok (_, a) \<longleftrightarrow> True"

definition queues_ok :: "client \<Rightarrow> bool" where
  "queues_ok c \<longleftrightarrow> (\<forall>q \<in> set (c_queue c). item_ok q)
     \<and> (\<forall>(r, a, x) \<in> set (c_pending c). a = None \<or> request_truthy r)"

definition conn_ok :: "nat set \<Rightarrow> client \<Rightarrow> bool" where
  "conn_ok A c \<longleftrightarrow> tracked A c \<and> queues_ok c \<and> session_ok c"

fun client_event_ok :: "session_event \<Rightarrow> bool" where
  "client_event_ok (SEnqueue ws request i) \<longleftrightarrow> item_ok (request, Some i)"
| "client_event_ok _ \<longleftrightarrow> True"

text \<open>
  What is asked of a turn: the error code of the frame is zero or in the table, the wake-up
  byte that was announced can be read, and callers submit requests with fields.
\<close>

definition turn_ok :: "turn \<Rightarrow> bool" where
  "turn_ok t \<longleftrightarrow> t_recv t = Inr () \<and> list_all client_event_ok (t_client t)
     \<and> (case t_frame t of
          Inr (header, _) \<Rightarrow> rh_err header = 0 \<or> exceptions_table (rh_err header) \<noteq> None
        | Inl _ \<Rightarrow> True)"

lemma waiting_set_result [simp]:
  "waiting (set_result_exception i e c) = waiting c" "waiting (set_result i v c) = waiting c"
  by (simp_all add: waiting_def)

lemma ar_ready_set [simp]:
  "ar_ready (a\<lparr>ar_exception := Some x\<rparr>)" "ar_ready (a\<lparr>ar_value := v, ar_exception := Some x\<rparr>)"
  by (simp_all add: ar_ready_def)

lemma ready_set_result [simp]:
  "ar_ready (c_results (set_result_exception i e c) j) \<longleftrightarrow> j = i \<or> ar_ready (c_results c j)"
  "ar_ready (c_results (set_result i v c) j) \<longleftrightarrow> j = i \<or> ar_ready (c_results c j)"
  by (auto simp: ar_ready_def)

lemma session_ok_frame:
  "session_ok c \<Longrightarrow> c_state c' = c_state c \<Longrightarrow> c_kstate c' = c_kstate c \<Longrightarrow> c_live c' = c_live c
   \<Longrightarrow> session_ok c'"
  by (auto simp: session_ok_def in_closed_state_def)

lemma closed_frame: "c_state c' = c_state c \<Longrightarrow> in_closed_state c' = in_closed_state c"
  by (simp add: in_closed_state_def)

lemma closed_set_result [simp]:
  "in_closed_state (set_result_exception i e c) = in_closed_state c"
  "in_closed_state (set_result i v c) = in_closed_state c"
  by (simp_all add: in_closed_state_def)

lemma conn_ok_set_result:
  "conn_ok A c \<Longrightarrow> conn_ok A (set_result_exception i e c)"
  "conn_ok A c \<Longrightarrow> conn_ok A (set_result i v c)"
  by (auto simp: conn_ok_def tracked_def queues_ok_def intro: session_ok_frame)

lemma session_callback_results:
  "\<exists>e. c_results (session_callback lst state c) = failed e
      (if c_queue (session_callback lst state c) = c_queue c \<and> c_pending (session_callback lst state c) = c_pending c
       then [] else map (fst \<circ> snd) (c_pending c) @ map snd (c_queue c)) (c_results c)
   \<and> (c_queue (session_callback lst state c) = c_queue c \<and> c_pending (session_callback lst state c) = c_pending c
      \<or> c_queue (session_callback lst state c) = [] \<and> c_pending (session_callback lst state c) = [])"
proof -
  consider "state = c_state c" | "state \<in> set CLOSED_STATES" "state \<noteq> c_state c"
    | "state \<noteq> c_state c" "state = CONNECTED \<or> state = CONNECTED_RO"
    | "state = CONNECTING" "c_state c \<in> set CLOSED_STATES"
    | "state = CONNECTING" "c_state c \<notin> set CLOSED_STATES" "c_state c \<noteq> CONNECTING"
    by (cases state; cases "c_state c"; simp add: closed_cases)
  then show ?thesis
  proof cases
    case 2
    then obtain h ls ns where "session_callback lst state c =
      c\<lparr>c_state := state, c_live := False, c_kstate := LOST, c_listeners := ls, c_notified := ns,
        c_queue := [], c_pending := [], c_child_watchers := [], c_data_watchers := [],
        c_session_id := None, c_session_passwd := Some (replicate 16 0), c_last_zxid := 0,
        c_protocol_version := None, c_handler := h,
        c_results := failed (pending_exception state)
          (map (fst \<circ> snd) (c_pending c) @ map snd (c_queue c)) (c_results c)\<rparr>"
      by (rule session_callback_closed)
    then show ?thesis
      by (intro exI [of _ "pending_exception state"]) (auto simp: failed_def)
  next
    case 5
    then obtain h ls ns where "session_callback lst state c =
      c\<lparr>c_state := CONNECTING, c_live := False, c_kstate := SUSPENDED, c_listeners := ls, c_notified := ns,
        c_queue := [], c_pending := [], c_child_watchers := [], c_data_watchers := [], c_handler := h,
        c_results := failed (ZkErr ConnectionLoss)
          (map (fst \<circ> snd) (c_pending c) @ map snd (c_queue c)) (c_results c)\<rparr>"
      by (metis session_callback_lost)
    then show ?thesis
      by (intro exI [of _ "ZkErr ConnectionLoss"]) (auto simp: failed_def)
  qed (simp_all add: session_callback_skip session_callback_connected failed_def)
qed

lemma session_callback_conn_ok:
  assumes "conn_ok A c"
  shows "conn_ok A (session_callback lst state c)"
proof -
  let ?c = "session_callback lst state c"
  obtain e where res: "c_results ?c = failed e
      (if c_queue ?c = c_queue c \<and> c_pending ?c = c_pending c then []
       else map (fst \<circ> snd) (c_pending c) @ map snd (c_queue c)) (c_results c)"
    and q: "c_queue ?c = c_queue c \<and> c_pending ?c = c_pending c \<or> c_queue ?c = [] \<and> c_pending ?c = []"
    using session_callback_results by blast
  have state: "in_closed_state ?c \<longleftrightarrow> state \<in> set CLOSED_STATES"
    by (simp add: in_closed_state_def session_callback_state)
  have closed: "c_queue ?c = [] \<and> c_pending ?c = []" if "state \<in> set CLOSED_STATES" "\<not> in_closed_state c"
    using that session_closed_effect(2,3) [of state c lst] by (auto simp: in_closed_state_def)
  have res': "ar_ready (c_results ?c i)"
    if "ar_ready (c_results c i) \<or> i \<in> waiting c \<and> (c_queue ?c \<noteq> c_queue c \<or> c_pending ?c \<noteq> c_pending c)" for i
    using that res by (auto simp: waiting_def failed_def ar_ready_def)
  have "tracked A ?c"
    unfolding tracked_def
  proof
    fix i assume "i \<in> A"
    then have i: "i \<in> waiting c \<and> \<not> in_closed_state c \<or> ar_ready (c_results c i)"
      using assms by (simp add: conn_ok_def tracked_def)
    show "i \<in> waiting ?c \<and> \<not> in_closed_state ?c \<or> ar_ready (c_results ?c i)"
    proof (cases "c_queue ?c = c_queue c \<and> c_pending ?c = c_pending c")
      case True
      then have "waiting ?c = waiting c" by (simp add: waiting_def)
      moreover have "waiting ?c = {}" if "state \<in> set CLOSED_STATES" "\<not> in_closed_state c"
        using closed [OF that] by (simp add: waiting_def)
      ultimately show ?thesis using i state res' [of i] by auto
    qed (use i res' [of i] in blast)
  qed
  moreover have "queues_ok ?c" using assms q by (auto simp: conn_ok_def queues_ok_def)
  ultimately show ?thesis using assms session_callback_ok by (simp add: conn_ok_def)
qed

lemma conn_ok_client_event:
  assumes "conn_ok A c" and "client_event_ok e"
  shows "conn_ok A (session_step lst c e)"
proof (cases e)
  case (SState state)
  with assms session_callback_conn_ok show ?thesis by simp
next
  case (SCheck i)
  then show ?thesis using assms
    by (cases rule: call_check_cases [of c i]) (simp_all add: conn_ok_set_result)
next
  case (SEnqueue ws request i)
  have "waiting (call_enqueue ws request i c) = insert i (waiting c)"
    by (auto simp: waiting_def)
  moreover have "ar_ready (c_results c j) \<Longrightarrow> ar_ready (c_results (call_enqueue ws request i c) j)" for j
    by (auto simp: call_enqueue_def Let_def split: option.splits)
  moreover have "queues_ok (call_enqueue ws request i c)"
    using assms SEnqueue by (auto simp: conn_ok_def queues_ok_def)
  moreover have "session_ok (call_enqueue ws request i c)" "in_closed_state (call_enqueue ws request i c) = in_closed_state c"
    using assms by (auto simp: conn_ok_def session_ok_def in_closed_state_def)
  ultimately show ?thesis
    using assms SEnqueue by (auto simp: conn_ok_def tracked_def)
qed (use assms in \<open>auto simp: conn_ok_def tracked_def queues_ok_def session_ok_def in_closed_state_def
    add_listener_def remove_listener_def start_events_def stop_request_def waiting_def\<close>)

lemma conn_ok_client_events:
  "conn_ok A c \<Longrightarrow> list_all client_event_ok es \<Longrightarrow> conn_ok A (foldl (session_step lst) c es)"
  by (induction es arbitrary: c) (simp_all add: conn_ok_client_event)

lemma register_watcher_simps [simp]:
  "c_state (register_watcher r c) = c_state c" "c_kstate (register_watcher r c) = c_kstate c"
  "c_live (register_watcher r c) = c_live c" "c_queue (register_watcher r c) = c_queue c"
  "c_pending (register_watcher r c) = c_pending c" "c_results (register_watcher r c) = c_results c"
  "c_last_zxid (register_watcher r c) = c_last_zxid c" "waiting (register_watcher r c) = waiting c"
  "in_closed_state (register_watcher r c) = in_closed_state c"
  by (auto simp: register_watcher_def waiting_def in_closed_state_def split: option.splits)

lemma deliver_response_simps [simp]:
  "c_state (deliver_response r i ee b off c) = c_state c" "c_kstate (deliver_response r i ee b off c) = c_kstate c"
  "c_live (deliver_response r i ee b off c) = c_live c" "c_queue (deliver_response r i ee b off c) = c_queue c"
  "c_pending (deliver_response r i ee b off c) = c_pending c" "waiting (deliver_response r i ee b off c) = waiting c"
  "c_last_zxid (deliver_response r i ee b off c) = c_last_zxid c"
  "in_closed_state (deliver_response r i ee b off c) = in_closed_state c"
  "ar_ready (c_results (deliver_response r i ee b off c) j) \<longleftrightarrow> j = i \<or> ar_ready (c_results c j)"
  by (auto simp: deliver_response_def Let_def split: sum.splits)

lemma conn_ok_deliver: "conn_ok A c \<Longrightarrow> conn_ok A (deliver_response r i ee b off c)"
  by (auto simp: conn_ok_def tracked_def queues_ok_def intro: session_ok_frame)

lemma conn_ok_last_zxid [simp]: "conn_ok A (c\<lparr>c_last_zxid := z\<rparr>) = conn_ok A c"
  by (simp add: conn_ok_def tracked_def queues_ok_def session_ok_def in_closed_state_def waiting_def)

text \<open>Popping the head of the pending requests is fine when its result is resolved next.\<close>

lemma conn_ok_pop:
  assumes "conn_ok A c" and "c_pending c = (r, a, x) # rest"
  shows "conn_ok (A - {i. a = Some i}) (c\<lparr>c_pending := rest\<rparr>)"
  using assms by (auto simp: conn_ok_def tracked_def queues_ok_def session_ok_def in_closed_state_def waiting_def)

lemma conn_ok_resolved:
  "conn_ok (A - {i}) c \<Longrightarrow> ar_ready (c_results c i) \<Longrightarrow> conn_ok A c"
  by (auto simp: conn_ok_def tracked_def)

lemma answer_request_ok:
  assumes "conn_ok (A - {i. a = Some i}) c" and "a \<noteq> None \<Longrightarrow> request_truthy r"
    and "rh_err header = 0 \<or> exceptions_table (rh_err header) \<noteq> None"
  shows "conn_ok A (snd (answer_request header buffer offset r a x c))"
proof (cases a)
  case None
  with assms(1) show ?thesis
    by (auto simp: answer_request_def Let_def fail_result_def split: sum.splits)
next
  case (Some i)
  have fin: "conn_ok A c'" if "conn_ok (A - {i}) c'" "ar_ready (c_results c' i)" for c'
    using conn_ok_resolved that by blast
  have ok: "conn_ok (A - {i}) c" using assms(1) Some by (simp add: Collect_conv_if)
  have known: "rh_err header \<noteq> 0 \<Longrightarrow> \<exists>k. EXCEPTIONS (rh_err header) = Inr k"
    using assms(3) by (auto simp: EXCEPTIONS_def)
  from ok show ?thesis
    using known assms(2) Some
    by (auto intro!: fin simp: answer_request_def Let_def fail_result_def conn_ok_set_result conn_ok_deliver
        simp del: EXCEPTIONS_Inr)
qed

lemma read_response_ok:
  assumes "conn_ok A c" and "rh_err header = 0 \<or> exceptions_table (rh_err header) \<noteq> None"
  shows "conn_ok A (snd (read_response header buffer offset c))"
proof (cases "c_pending c")
  case Nil
  with assms show ?thesis by (simp add: read_response_def)
next
  case (Cons p rest)
  obtain r a x where p: "p = (r, a, x)" by (cases p)
  have "conn_ok (A - {i. a = Some i}) (c\<lparr>c_pending := rest\<rparr>)"
    using conn_ok_pop [OF assms(1)] Cons p by simp
  moreover have "a \<noteq> None \<Longrightarrow> request_truthy r"
    using assms(1) Cons p by (auto simp: conn_ok_def queues_ok_def)
  ultimately show ?thesis
    using Cons p assms(2) by (auto simp: read_response_def Let_def intro!: answer_request_ok)
qed

lemma read_auth_ok:
  assumes "conn_ok A c"
  shows "conn_ok A (snd (read_auth lst header c))"
proof (cases "c_pending c")
  case Nil
  with assms show ?thesis by (simp add: read_auth_def)
next
  case (Cons p rest)
  obtain r a x where p: "p = (r, a, x)" by (cases p)
  have ok: "conn_ok (A - {i. a = Some i}) (c\<lparr>c_pending := rest\<rparr>)"
    using conn_ok_pop [OF assms(1)] Cons p by simp
  show ?thesis
  proof (cases a)
    case None
    with ok Cons p show ?thesis by (simp add: read_auth_def)
  next
    case (Some i)
    with ok have ok: "conn_ok (A - {i}) (c\<lparr>c_pending := rest\<rparr>)" by (simp add: Collect_conv_if)
    have "conn_ok A (set_result_exception i e (c\<lparr>c_pending := rest\<rparr>))"
      "conn_ok A (set_result i v (c\<lparr>c_pending := rest\<rparr>))" for e v
      using ok by (auto intro!: conn_ok_resolved [of A i] simp: conn_ok_set_result)
    with Some Cons p show ?thesis by (simp add: read_auth_def session_callback_conn_ok Let_def)
  qed
qed

lemma conn_ok_frame:
  "conn_ok A c \<Longrightarrow> c_state c' = c_state c \<Longrightarrow> c_kstate c' = c_kstate c \<Longrightarrow> c_live c' = c_live c
   \<Longrightarrow> c_queue c' = c_queue c \<Longrightarrow> c_pending c' = c_pending c \<Longrightarrow> c_results c' = c_results c
   \<Longrightarrow> conn_ok A c'"
  by (auto simp: conn_ok_def tracked_def queues_ok_def session_ok_def in_closed_state_def waiting_def)

lemma read_watch_event_frame:
  "c_state (snd (read_watch_event b off c)) = c_state c"
  "c_kstate (snd (read_watch_event b off c)) = c_kstate c"
  "c_live (snd (read_watch_event b off c)) = c_live c"
  "c_queue (snd (read_watch_event b off c)) = c_queue c"
  "c_pending (snd (read_watch_event b off c)) = c_pending c"
  "c_results (snd (read_watch_event b off c)) = c_results c"
  by (auto simp: read_watch_event_def client_dispatch_fold Let_def split: sum.splits prod.splits option.splits)

lemma read_socket_ok:
  assumes "conn_ok A c"
    and "case frame of Inr (h, _) \<Rightarrow> rh_err h = 0 \<or> exceptions_table (rh_err h) \<noteq> None | Inl _ \<Rightarrow> True"
  shows "conn_ok A (snd (snd (read_socket lst frame n c)))"
proof (cases frame)
  case (Inr f)
  obtain h b off where f: "f = (h, b, off)" by (cases f)
  show ?thesis
    using read_auth_ok [OF assms(1), of lst h] read_response_ok [OF assms(1), of h b off]
      conn_ok_frame [OF assms(1) read_watch_event_frame, of b off] assms Inr f
    by (auto simp: read_socket_def split: prod.splits sum.splits)
qed (use assms in \<open>simp add: read_socket_def\<close>)

lemma send_request_ok:
  assumes "conn_ok A c"
  shows "conn_ok A (snd (snd (send_request write (Inr ()) n c)))"
proof (cases "c_queue c")
  case Nil
  with assms show ?thesis by (simp add: send_request_def)
next
  case (Cons q rest)
  obtain it a where q: "q = (it, a)" by (cases q)
  show ?thesis
  proof (cases it)
    case (Req r)
    have ok: "conn_ok A (c\<lparr>c_queue := rest, c_pending := c_pending c @ [(r, a, x)]\<rparr>)" for x
      using assms Cons q Req
      by (auto simp: conn_ok_def tracked_def queues_ok_def session_ok_def in_closed_state_def waiting_def)
    show ?thesis
      using assms Cons q Req ok by (auto simp: send_request_def Let_def split: prod.splits sum.splits)
  qed (use assms Cons q in \<open>simp_all add: send_request_def\<close>)
qed

lemma conn_turn_ok:
  assumes "conn_ok A c" and "turn_ok t"
  shows "conn_ok A (snd (snd (conn_turn lst rt t n (foldl (session_step lst) c (t_client t)))))"
proof -
  let ?c = "foldl (session_step lst) c (t_client t)"
  have c: "conn_ok A ?c"
    using assms by (simp add: conn_ok_client_events turn_ok_def)
  have check: "snd (snd (turn_check l t n' c')) = c'" for l n' and c' :: client
    by (auto simp: turn_check_def split: prod.splits sum.splits)
  have r: "conn_ok A (snd (snd (read_socket lst (t_frame t) n ?c)))"
    by (rule read_socket_ok [OF c]) (use assms(2) in \<open>auto simp: turn_ok_def split: sum.splits\<close>)
  have s: "conn_ok A c''" if "send_request (t_write t) (t_recv t) n' c' = (x, n'', c'')" "conn_ok A c'"
    for n' c' x n'' c''
    using send_request_ok [OF that(2), of "t_write t" n'] that(1) assms(2) by (simp add: turn_ok_def)
  have body: "conn_ok A (snd (snd (conn_turn_body lst rt t n ?c)))"
    using c r
    by (auto simp: conn_turn_body_def check Let_def dest: s split: prod.splits sum.splits if_splits)
  then show ?thesis
    by (cases "conn_turn_body lst rt t n ?c") (simp add: conn_turn_def)
qed

text \<open>The machine of the turns, and the loop as a run of it.\<close>

definition conn_step :: "(nat \<Rightarrow> kazoo_state \<Rightarrow> exc + bool) \<Rightarrow> rat \<Rightarrow> conn \<times> client \<Rightarrow> turn \<Rightarrow> conn \<times> client" where
  "conn_step lst rt s t = snd (conn_turn lst rt t (fst s) (foldl (session_step lst) (snd s) (t_client t)))"

lemma serve_run:
  "serve lst rt ts n c = (res, n', c') \<Longrightarrow> \<exists>k. (n', c') = foldl (conn_step lst rt) (n, c) (take k ts)"
proof (induction ts arbitrary: n c)
  case Nil
  then show ?case by simp
next
  case (Cons t ts)
  obtain r n1 c1 where turn: "conn_turn lst rt t n (foldl (session_step lst) c (t_client t)) = (r, n1, c1)"
    by (metis prod_cases3)
  then have step: "conn_step lst rt (n, c) t = (n1, c1)" by (simp add: conn_step_def)
  show ?case
  proof (cases "r = Inr False")
    case True
    with Cons.prems turn have "serve lst rt ts n1 c1 = (res, n', c')" by simp
    from Cons.IH [OF this] obtain k where "(n', c') = foldl (conn_step lst rt) (n1, c1) (take k ts)" ..
    then show ?thesis by (intro exI [of _ "Suc k"]) (simp add: step)
  next
    case False
    with Cons.prems turn have "(n', c') = (n1, c1)" by (auto split: sum.splits if_splits)
    then show ?thesis by (intro exI [of _ 1]) (simp add: step)
  qed
qed

lemma conn_ok_run:
  "conn_ok A (snd s) \<Longrightarrow> list_all turn_ok ts \<Longrightarrow> conn_ok A (snd (foldl (conn_step lst rt) s ts))"
  by (induction ts arbitrary: s) (simp_all add: conn_step_def conn_turn_ok)

lemma zk_loop_end_state:
  "snd (zk_loop_end lst result c) = session_callback lst CLOSED c"
  by (auto simp: zk_loop_end_def split: sum.splits)

lemma session_close_ready:
  assumes "conn_ok A c" and "i \<in> A"
  shows "ar_ready (c_results (session_callback lst CLOSED c) i)" "c_state (session_callback lst CLOSED c) = CLOSED"
proof -
  have w: "i \<in> waiting c \<and> \<not> in_closed_state c \<or> ar_ready (c_results c i)"
    using assms by (auto simp: conn_ok_def tracked_def)
  show "ar_ready (c_results (session_callback lst CLOSED c) i)"
  proof (cases "c_state c = CLOSED")
    case True
    with w show ?thesis by (simp add: session_callback_skip in_closed_state_def)
  next
    case False
    then show ?thesis using w session_closed_effect(1) [of CLOSED c lst i] by auto
  qed
  show "c_state (session_callback lst CLOSED c) = CLOSED"
    by (cases "c_state c = CLOSED") (simp_all add: session_callback_skip session_closed_effect(4))
qed

text \<open>
  C1. No caller is lost on an open connection, however frames, requests of other threads, time
  and failures interleave, as long as every error code of a reply is zero or in the table, an
  announced wake-up byte can be read, and callers submit requests with fields: a result that
  waits in a client that is not closed is afterwards still in a queue or resolved, and when the
  connection thread ends, for whatever reason, every one of them is resolved and the client is
  closed.
\<close>

theorem no_request_lost:
  assumes "session_ok c" and "queues_ok c" and "list_all turn_ok ts"
    and "client_state c \<notin> set CLOSED_STATES"
    and "serve lst rt ts n c = (res, n', c')" and "i \<in> waiting c"
  shows "(i \<in> waiting c' \<or> ar_ready (c_results c' i))
    \<and> ar_ready (c_results (snd (zk_loop_end lst result c')) i)
    \<and> client_state (snd (zk_loop_end lst result c')) = CLOSED"
proof -
  have c: "conn_ok (waiting c) c"
    using assms(1,2,4) by (simp add: conn_ok_def tracked_def client_state_def in_closed_state_def)
  obtain k where k: "(n', c') = foldl (conn_step lst rt) (n, c) (take k ts)"
    using serve_run [OF assms(5)] ..
  have "conn_ok (waiting c) (snd (foldl (conn_step lst rt) (n, c) (take k ts)))"
    by (rule conn_ok_run) (use c assms(3) in \<open>auto simp: list_all_iff dest: in_set_takeD\<close>)
  then have "conn_ok (waiting c) c'" using k by (metis snd_conv)
  then show ?thesis
    using assms(6) session_close_ready [of "waiting c" c' i lst]
    by (auto simp: zk_loop_end_state client_state_def conn_ok_def tracked_def)
qed

text \<open>A turn that wakes up to send, one that reads a reply, and an idle one.\<close>

definition demo_turn :: turn where
  "demo_turn = \<lparr>t_client = [], t_now = 0, t_jitter = 1/100, t_select = Inr (False, False),
     t_frame = Inl PyOSError, t_write = (\<lambda>_. Inr ()), t_recv = Inr (), t_sent = 0, t_check = 0,
     t_ping_jitter = 0, t_ping_first = 1, t_ping_now = 1, t_ping_attempt = 1,
     t_ping_probe = (\<lambda>_. Inr ''ro'')\<rparr>"

definition demo_conn :: conn where
  "demo_conn = \<lparr>n_xid = 0, n_rw_server = None, n_ro_mode = RoNone, n_ping_outstanding = False,
     n_last_send = 0, n_written = []\<rparr>"

definition demo_reply :: "int \<Rightarrow> int \<Rightarrow> turn" where
  "demo_reply x e = demo_turn\<lparr>t_select := Inr (True, False),
     t_frame := Inr (\<lparr>rh_xid = x, rh_zxid = 5, rh_err = e\<rparr>, [], 0)\<rparr>"

definition demo_wake :: turn where
  "demo_wake = demo_turn\<lparr>t_select := Inr (False, True)\<rparr>"

lemma demo_client_ok: "session_ok demo_client" "queues_ok demo_client"
proof -
  show "session_ok demo_client"
    unfolding demo_client_def by (rule session.run_inv [OF client_init_ok])
  show "queues_ok demo_client" by (simp add: queues_ok_def demo_client_simps request_truthy_def)
qed

theorem no_request_lost_witness:
  "\<exists>res n' c'. serve (\<lambda>_ _. Inr False) 10 [demo_wake, demo_reply 1 (-101)] demo_conn demo_client = (res, n', c')
     \<and> ar_ready (c_results (snd (zk_loop_end (\<lambda>_ _. Inr False) (Inl PyRuntimeError) c')) 7)"
proof -
  let ?lst = "\<lambda>_ _. Inr False" and ?ts = "[demo_wake, demo_reply 1 (-101)]"
  obtain res n' c' where s: "serve ?lst 10 ?ts demo_conn demo_client = (res, n', c')"
    by (metis prod_cases3)
  have "exceptions_table (-101) = Some NoNodeError" by (simp add: exceptions_table_iff)
  then have "list_all turn_ok ?ts"
    by (simp add: turn_ok_def demo_wake_def demo_reply_def demo_turn_def)
  moreover have "client_state demo_client \<notin> set CLOSED_STATES"
    by (simp add: client_state_def demo_client_simps)
  ultimately have "ar_ready (c_results (snd (zk_loop_end ?lst (Inl PyRuntimeError) c')) 7)"
    using no_request_lost [OF demo_client_ok _ _ s, of 7 "Inl PyRuntimeError"] by (simp add: demo_client_waiting)
  with s show ?thesis by blast
qed

section \<open>Replies\<close>

text \<open>
  C6. A reply that carries the \<^verbatim>\<open>xid\<close> of the oldest pending request and no error resolves
  exactly that request, with the deserialised value, and registers its watch function (unless
  the client is stopped); the other pending requests and results are as before.
\<close>

theorem read_response_resolves_head:
  assumes "c_pending c = (request, Some i, xid) # rest" and "request_truthy request"
    and "rh_xid header = xid" and "rh_err header = 0"
    and "deserialize request buffer offset = Inr v" and "req_type request \<noteq> Some 14"
  shows "\<exists>c'. read_response header buffer offset c = (Inr False, c')
    \<and> ar_get b (c_results c' i) later = Inr (Some v)
    \<and> (\<forall>j. j \<noteq> i \<longrightarrow> c_results c' j = c_results c j)
    \<and> c_pending c' = rest \<and> c_queue c' = c_queue c
    \<and> c_last_zxid c' = (if rh_zxid header > 0 then rh_zxid header else c_last_zxid c)
    \<and> (\<forall>path w. request_watcher request = Some (path, w, False) \<longrightarrow> \<not> c_stopped c \<longrightarrow>
         c_data_watchers c' = add_watcher path w (c_data_watchers c))
    \<and> (\<forall>path w. request_watcher request = Some (path, w, True) \<longrightarrow> \<not> c_stopped c \<longrightarrow>
         c_child_watchers c' = add_watcher path w (c_child_watchers c))"
  using assms
  by (auto simp: read_response_def answer_request_def deliver_response_def register_watcher_def
      ar_get_def ar_ready_def ar_outcome_def Let_def split: option.splits)

theorem read_response_resolves_head_witness:
  "\<exists>c'. read_response \<lparr>rh_xid = 1, rh_zxid = 9, rh_err = 0\<rparr> [] 0
      (demo_client\<lparr>c_pending := [(Delete ''/a'' (-1), Some 7, 1)]\<rparr>) = (Inr False, c')
    \<and> ar_get True (c_results c' 7) async_init = Inr (Some RespTrue) \<and> c_last_zxid c' = 9"
  using read_response_resolves_head
    [of "demo_client\<lparr>c_pending := [(Delete ''/a'' (-1), Some 7, 1)]\<rparr>" "Delete ''/a'' (-1)" 7 1 "[]"
        "\<lparr>rh_xid = 1, rh_zxid = 9, rh_err = 0\<rparr>" "[]" 0 RespTrue True async_init]
  by (auto simp: request_truthy_def)

lemma session_close_unresolved:
  assumes "i \<notin> waiting c" and "\<not> ar_ready (c_results c i)"
  shows "\<not> ar_ready (c_results (session_callback lst CLOSED c) i)
    \<and> c_state (session_callback lst CLOSED c) = CLOSED \<and> i \<notin> waiting (session_callback lst CLOSED c)"
proof (cases "c_state c = CLOSED")
  case True
  with assms show ?thesis by (simp add: session_callback_skip)
next
  case False
  then have ne: "CLOSED \<noteq> c_state c" by simp
  have "waiting (session_callback lst CLOSED c) = {}"
    using session_closed_effect(2,3) [OF _ ne, of lst] by (simp add: waiting_def)
  then show ?thesis using session_closed_effect(1,4) [OF _ ne, of lst] assms by simp
qed

text \<open>
  A reply whose error code is not in the table raises in the connection thread after the
  request was taken off the pending queue and before its result is resolved; the thread ends,
  the client is closed, and the caller of that request is never told.
\<close>

theorem unknown_error_code_loses_caller:
  assumes "c_pending c = (request, Some i, xid) # rest" and "rh_xid header = xid"
    and "rh_err header \<noteq> 0" and "exceptions_table (rh_err header) = None"
    and "\<not> ar_ready (c_results c i)" and "i \<notin> waiting (c\<lparr>c_pending := rest\<rparr>)"
  shows "\<exists>c'. read_response header buffer offset c = (Inl PyRuntimeError, c')
    \<and> attempt_outcome lst (Inl PyRuntimeError) r c' = (Inl PyRuntimeError, r, c')
    \<and> \<not> ar_ready (c_results (snd (zk_loop_end lst (Inl PyRuntimeError) c')) i)
    \<and> client_state (snd (zk_loop_end lst (Inl PyRuntimeError) c')) = CLOSED
    \<and> i \<notin> waiting (snd (zk_loop_end lst (Inl PyRuntimeError) c'))"
proof -
  let ?c = "if rh_zxid header > 0 then c\<lparr>c_pending := rest\<rparr>\<lparr>c_last_zxid := rh_zxid header\<rparr>
    else c\<lparr>c_pending := rest\<rparr>"
  have nn: "rh_err header \<noteq> zk_code NoNodeError"
    using assms(4) exceptions_table_iff [of "zk_code NoNodeError" NoNodeError] by auto
  have resp: "read_response header buffer offset c = (Inl PyRuntimeError, ?c)"
    using assms(1-4) nn by (simp add: read_response_def answer_request_def Let_def EXCEPTIONS_def)
  have w: "i \<notin> waiting ?c" "c_results ?c i = c_results c i"
    using assms(6) by (simp_all add: waiting_def)
  then have un: "\<not> ar_ready (c_results ?c i)" using assms(5) by simp
  show ?thesis
    using resp session_close_unresolved [OF w(1) un, of lst]
    by (auto simp: attempt_outcome_def zk_loop_end_state client_state_def)
qed

theorem unknown_error_code_loses_caller_witness:
  "\<exists>c'. read_response \<lparr>rh_xid = 1, rh_zxid = 0, rh_err = -126\<rparr> [] 0
      (demo_client\<lparr>c_pending := [(Delete ''/a'' (-1), Some 8, 1)]\<rparr>) = (Inl PyRuntimeError, c')
    \<and> \<not> ar_ready (c_results (snd (zk_loop_end (\<lambda>_ _. Inr False) (Inl PyRuntimeError) c')) 8)"
proof -
  let ?c = "demo_client\<lparr>c_pending := [(Delete ''/a'' (-1), Some 8, 1)]\<rparr>"
  have "exceptions_table (-126) \<noteq> Some k" for k by (cases k) (simp_all add: exceptions_table_iff)
  then have "exceptions_table (-126) = None" by (cases "exceptions_table (-126)") auto
  then show ?thesis
    using unknown_error_code_loses_caller [of ?c "Delete ''/a'' (-1)" 8 1 "[]"
        "\<lparr>rh_xid = 1, rh_zxid = 0, rh_err = -126\<rparr>" "[]" 0 "\<lambda>_ _. Inr False" undefined]
    by (fastforce simp: demo_client_simps waiting_def async_init_def ar_ready_def)
qed

end
