(* ===== verification/Xids.thy ===== *)
theory Xids
  imports ConnectionProps
begin

text \<open>
  The transaction identifiers of the requests on the wire: the counter of \<^verbatim>\<open>_send_request\<close>
  wraps from 2147483647 to 1, so the identifiers of the pending requests never meet the
  reserved ones and are distinct; an authentication carries its own identifier.
\<close>

text \<open>\<open>is_auth\<close> is the test \<^verbatim>\<open>request.type == Auth.type\<close> on an entry of the pending requests.\<close>

definition is_auth :: "request \<times> nat option \<times> int \<Rightarrow> bool" where
  "is_auth p \<longleftrightarrow> req_type (fst p) = Some 100"

definition xids_of :: "(request \<times> nat option \<times> int) list \<Rightarrow> int list" where
  "xids_of ps = map (snd \<circ> snd) (List.filter (\<lambda>p. \<not> is_auth p) ps)"

text \<open>The identifiers of the pending requests that are no authentications.\<close>

definition xids :: "client \<Rightarrow> int list" where
  "xids c = xids_of (c_pending c)"

text \<open>The pending authentications carry \<^verbatim>\<open>AUTH_XID\<close>.\<close>

definition auths_ok :: "client \<Rightarrow> bool" where
  "auths_ok c \<longleftrightarrow> (\<forall>p \<in> set (c_pending c). is_auth p \<longrightarrow> snd (snd p) = AUTH_XID)"

text \<open>\<open>answered c c'\<close>: some of the oldest pending requests of \<open>c\<close> are gone in \<open>c'\<close>.\<close>

definition answered :: "client \<Rightarrow> client \<Rightarrow> bool" where
  "answered c c' \<longleftrightarrow> (\<exists>m. c_pending c' = drop m (c_pending c))"

lemma answered_refl: "c_pending c' = c_pending c \<Longrightarrow> answered c c'"
  by (auto simp: answered_def intro: exI [of _ 0])

lemma answered_nil: "c_pending c' = [] \<Longrightarrow> answered c c'"
  by (auto simp: answered_def intro: exI [of _ "length (c_pending c)"])

lemma answered_tl: "c_pending c' = tl (c_pending c) \<Longrightarrow> answered c c'"
  by (auto simp: answered_def drop_Suc intro: exI [of _ 1])

lemma answered_trans: "answered c c' \<Longrightarrow> answered c' c'' \<Longrightarrow> answered c c''"
  by (auto simp: answered_def)

lemma xids_of_drop: "\<exists>k. xids_of (drop m ps) = drop k (xids_of ps)"
proof -
  have "xids_of ps = xids_of (take m ps) @ xids_of (drop m ps)"
    unfolding xids_of_def by (simp flip: filter_append map_append)
  then show ?thesis by (intro exI [of _ "length (xids_of (take m ps))"]) simp
qed

lemma answered_xids: "answered c c' \<Longrightarrow> \<exists>k. xids c' = drop k (xids c)"
  using xids_of_drop by (auto simp: answered_def xids_def)

lemma answered_auths: "answered c c' \<Longrightarrow> auths_ok c \<Longrightarrow> auths_ok c'"
  unfolding answered_def auths_ok_def by (metis in_set_dropD)

text \<open>\<open>xid_of k\<close> is the counter after \<open>k\<close> requests.\<close>

definition xid_of :: "nat \<Rightarrow> int" where
  "xid_of k = (if k = 0 then 0 else (int k - 1) mod 2147483647 + 1)"

lemma next_xid_of: "next_xid (xid_of k) = xid_of (Suc k)"
proof (cases "k = 0")
  case False
  have "((int k - 1) mod 2147483647 + 1) mod 2147483647 = int k mod 2147483647"
    by (simp add: mod_simps)
  with False show ?thesis by (simp add: next_xid_def xid_of_def)
qed (simp add: next_xid_def xid_of_def)

lemma next_xid_bounds: "1 \<le> next_xid x" "next_xid x \<le> 2147483647" "next_xid x \<noteq> AUTH_XID"
proof -
  have "0 \<le> x mod 2147483647" "x mod 2147483647 < 2147483647" by simp_all
  then show "1 \<le> next_xid x" "next_xid x \<le> 2147483647" "next_xid x \<noteq> AUTH_XID"
    unfolding next_xid_def AUTH_XID_def by linarith+
qed

lemma xid_of_bounds: "0 < k \<Longrightarrow> 1 \<le> xid_of k \<and> xid_of k \<le> 2147483647"
  using next_xid_of [of "k - 1"] next_xid_bounds [of "xid_of (k - 1)"] by simp

lemma xid_of_inj:
  assumes "xid_of i = xid_of j" and "0 < i" and "i \<le> j" and "j - i < 2147483647"
  shows "i = j"
proof -
  have "(int i - 1) mod 2147483647 = (int j - 1) mod 2147483647"
    using assms by (simp add: xid_of_def)
  then have "2147483647 dvd (int j - 1) - (int i - 1)"
    by (metis mod_eq_dvd_iff)
  then have "2147483647 dvd int (j - i)" using assms(3) by (simp add: of_nat_diff)
  then have "2147483647 dvd (j - i)" by presburger
  then show ?thesis using assms(3,4) by (metis diff_is_0_eq dvd_imp_le le_antisym not_le gr0I)
qed

lemma xids_distinct:
  assumes "0 < a" and "b - a \<le> 2147483647"
  shows "distinct (map xid_of [a..<b])"
proof -
  have "inj_on xid_of {a..<b}"
  proof (rule inj_onI)
    fix i j assume ij: "i \<in> {a..<b}" "j \<in> {a..<b}" "xid_of i = xid_of j"
    then have "0 < i" "0 < j" "j - i < 2147483647" "i - j < 2147483647"
      using assms by (simp_all only: atLeastLessThan_iff) linarith+
    with ij(3) xid_of_inj [of i j] xid_of_inj [of j i] show "i = j"
      by (metis nat_le_linear)
  qed
  then show ?thesis by (simp add: distinct_map)
qed

section \<open>What each operation does to the identifiers\<close>

lemma answered_session_callback: "answered c (session_callback lst state c)"
  using session_callback_results [of lst state c] by (auto intro: answered_refl answered_nil)

lemma answered_session_step: "answered c (session_step lst c e)"
proof (cases e)
  case (SState state)
  then show ?thesis using answered_session_callback by simp
next
  case (SCheck i)
  then show ?thesis
    by (cases rule: call_check_cases [of c i]) (simp_all add: answered_refl)
qed (auto intro!: answered_refl simp: add_listener_def remove_listener_def start_events_def stop_request_def)

lemma answered_session_steps: "answered c (foldl (session_step lst) c es)"
  by (induction es rule: rev_induct) (auto intro: answered_refl answered_trans answered_session_step)

lemma answer_request_pending: "c_pending (snd (answer_request h b off r a x c)) = c_pending c"
  by (auto simp: answer_request_def Let_def fail_result_def split: option.splits sum.splits)

lemma answered_read_response: "answered c (snd (read_response h b off c))"
  by (rule answered_tl) (auto simp: read_response_def Let_def answer_request_pending split: list.splits)

lemma answered_read_auth: "answered c (snd (read_auth lst h c))"
proof (cases "c_pending c")
  case Nil
  then show ?thesis by (simp add: read_auth_def answered_refl)
next
  case (Cons p rest)
  obtain r a x where p: "p = (r, a, x)" by (cases p)
  have pop: "answered c c'" if "c_pending c' = rest" for c'
    by (rule answered_tl) (simp add: that Cons)
  show ?thesis
  proof (cases a)
    case None
    with Cons p show ?thesis by (auto simp: read_auth_def Let_def intro: pop)
  next
    case (Some i)
    let ?c = "set_result_exception i (ZkErr AuthFailedError) (c\<lparr>c_pending := rest\<rparr>)"
    have "answered c (session_callback lst AUTH_FAILED ?c)"
      by (rule answered_trans [OF pop answered_session_callback]) simp
    with Cons p Some show ?thesis by (auto simp: read_auth_def Let_def intro: pop)
  qed
qed

lemma answered_read_socket:
  assumes "read_socket lst frame n c = (r, n', c')"
  shows "answered c c' \<and> n_xid n' = n_xid n"
proof (cases frame)
  case (Inl e)
  with assms show ?thesis by (auto simp: read_socket_def intro: answered_refl)
next
  case (Inr f)
  obtain h b off where f: "f = (h, b, off)" by (cases f)
  have "answered c (snd (read_watch_event b off c))"
    by (simp add: answered_refl read_watch_event_frame)
  then show ?thesis
    using assms Inr f answered_read_auth [of c lst h] answered_read_response [of c h b off]
    by (auto simp: read_socket_def split: prod.splits sum.splits if_splits intro: answered_refl)
qed

lemma submit_xid: "submit write r x n = (res, n') \<Longrightarrow> n_xid n' = n_xid n"
  by (auto simp: submit_def split: sum.splits)

text \<open>A request that is sent leaves the pending requests as they are, or enters them with its identifier.\<close>

lemma xids_send_request:
  assumes "send_request write recv n c = (r, n', c')"
  shows "(xids c' = xids c \<and> (n_xid n' = n_xid n \<or> (\<exists>e. r = Inl e)))
    \<or> (xids c' = xids c @ [next_xid (n_xid n)] \<and> n_xid n' = next_xid (n_xid n))"
  using assms
  by (auto simp: send_request_def xids_def xids_of_def is_auth_def Let_def dest!: submit_xid
      split: list.splits queue_item.splits prod.splits sum.splits if_splits)

lemma auths_send_request:
  assumes "send_request write recv n c = (r, n', c')" and "auths_ok c"
  shows "auths_ok c'"
  using assms
  by (auto simp: send_request_def auths_ok_def is_auth_def Let_def
      split: list.splits queue_item.splits prod.splits sum.splits if_splits)

section \<open>Along the loop\<close>

text \<open>
  \<open>consecutive\<close>: the identifiers on the wire are the last ones of the counter, which stands at
  the last of them; \<open>on_wire\<close> drops the counter, which a failed write has already advanced.
\<close>

definition on_wire :: "client \<Rightarrow> nat \<Rightarrow> bool" where
  "on_wire c k \<longleftrightarrow> length (xids c) \<le> k \<and> xids c = map xid_of [Suc k - length (xids c)..<Suc k]"

definition consecutive :: "conn \<Rightarrow> client \<Rightarrow> bool" where
  "consecutive n c \<longleftrightarrow> (\<exists>k. n_xid n = xid_of k \<and> on_wire c k) \<and> auths_ok c"

lemma on_wire_drop:
  assumes "on_wire c k" and "xids c' = drop m (xids c)"
  shows "on_wire c' k"
proof -
  have "drop m (map xid_of [Suc k - length (xids c)..<Suc k]) = map xid_of [Suc k - length (xids c) + m..<Suc k]"
    by (simp only: drop_map drop_upt)
  with assms show ?thesis by (auto simp: on_wire_def)
qed

lemma on_wire_answered: "on_wire c k \<Longrightarrow> answered c c' \<Longrightarrow> on_wire c' k"
  using answered_xids on_wire_drop by blast

lemma on_wire_send:
  assumes "on_wire c k" and "xids c' = xids c @ [xid_of (Suc k)]"
  shows "on_wire c' (Suc k)"
  using assms by (auto simp: on_wire_def)

lemma consecutive_answered:
  "consecutive n c \<Longrightarrow> n_xid n' = n_xid n \<Longrightarrow> answered c c' \<Longrightarrow> consecutive n' c'"
  using on_wire_answered answered_auths unfolding consecutive_def by metis

lemma turn_check_simps:
  "turn_check l t n c = (r, n', c') \<Longrightarrow> c' = c \<and> n_xid n' = n_xid n"
  by (auto simp: turn_check_def send_ping_def dest!: submit_xid
      split: prod.splits sum.splits ro_mode.splits ping_answer.splits if_splits)

lemma turn_consecutive:
  assumes "consecutive n c" and "conn_turn lst rt t n c = (r, n', c')"
  shows "((\<exists>k. on_wire c' k) \<and> auths_ok c') \<and> (r = Inr False \<longrightarrow> consecutive n' c')"
proof -
  obtain r0 where body: "conn_turn_body lst rt t n c = (r0, n', c')" and r: "r = guard_socket r0"
    using assms(2) by (auto simp: conn_turn_def split: prod.splits)
  have send: "((\<exists>k. on_wire c2 k) \<and> auths_ok c2) \<and> (r1 = Inr () \<longrightarrow> consecutive n2 c2)"
    if req: "send_request w v n1 c1 = (r1, n2, c2)" and con: "consecutive n1 c1" for w v n1 c1 r1 n2 c2
  proof -
    obtain k where k: "n_xid n1 = xid_of k" "on_wire c1 k" "auths_ok c1" using con by (auto simp: consecutive_def)
    have a: "auths_ok c2" by (rule auths_send_request [OF req k(3)])
    from xids_send_request [OF req] show ?thesis
    proof (elim disjE conjE)
      assume "xids c2 = xids c1 @ [next_xid (n_xid n1)]" "n_xid n2 = next_xid (n_xid n1)"
      with k a on_wire_send show ?thesis by (auto simp: consecutive_def next_xid_of)
    qed (use k a on_wire_drop [of c1 k c2 0] in \<open>auto simp: consecutive_def\<close>)
  qed
  have read: "consecutive n1 c1" if "read_socket lst f n c = (r1, n1, c1)" for f r1 n1 c1
    using consecutive_answered [OF assms(1)] answered_read_socket [OF that] by blast
  have weak: "\<exists>k. on_wire c1 k" "auths_ok c1" if "consecutive n1 c1" for n1 c1
    using that by (auto simp: consecutive_def)
  have cong: "consecutive n2 c1" if "consecutive n1 c1" "n_xid n2 = n_xid n1" for n1 n2 c1
    using that by (simp add: consecutive_def)
  have "((\<exists>k. on_wire c' k) \<and> auths_ok c') \<and> (r0 = Inr False \<longrightarrow> consecutive n' c')"
    using body assms(1)
    by (auto simp: conn_turn_body_def Let_def dest!: read send turn_check_simps
        split: prod.splits sum.splits if_splits intro: weak cong)
  then show ?thesis by (simp add: r guard_socket_def split: sum.splits)
qed

lemma serve_on_wire:
  "consecutive n c \<Longrightarrow> serve lst rt ts n c = (res, n', c') \<Longrightarrow> (\<exists>k. on_wire c' k) \<and> auths_ok c'"
proof (induction ts arbitrary: n c)
  case Nil
  then show ?case by (auto simp: consecutive_def)
next
  case (Cons t ts)
  let ?c = "foldl (session_step lst) c (t_client t)"
  have c: "consecutive n ?c"
    using consecutive_answered [OF Cons.prems(1) refl answered_session_steps] .
  obtain r n1 c1 where turn: "conn_turn lst rt t n ?c = (r, n1, c1)" by (metis prod_cases3)
  from turn_consecutive [OF c turn] show ?case
    using Cons turn by (auto split: sum.splits if_splits)
qed

text \<open>
  C4. On every connection the identifiers of the pending requests that are no authentications
  are distinct and between 1 and 2147483647, so none of them is the identifier of a watch event,
  a heartbeat or an authentication, and the pending authentications, and only they, carry the
  identifier -4: in every run from the start of the connection, with no bound on the number of
  requests that were sent, as long as no more than 2147483647 are pending at a time.
\<close>

theorem pending_xids_distinct:
  assumes "n_xid n = 0" and "c_pending c = []"
    and "serve lst rt ts n c = (res, n', c')" and "length (c_pending c') \<le> 2147483647"
  shows "distinct (xids c') \<and> (\<forall>x \<in> set (xids c'). 1 \<le> x \<and> x \<le> 2147483647)
    \<and> {WATCH_XID, PING_XID, AUTH_XID} \<inter> set (xids c') = {}
    \<and> (\<forall>(request, a, xid) \<in> set (c_pending c'). xid = AUTH_XID \<longleftrightarrow> req_type request = Some 100)"
proof -
  have "consecutive n c"
    using assms(1,2)
    by (auto simp: consecutive_def on_wire_def xids_def xids_of_def xid_of_def auths_ok_def intro!: exI [of _ 0])
  from serve_on_wire [OF this assms(3)] obtain k where k: "on_wire c' k" and auths: "auths_ok c'" by blast
  have len: "length (xids c') \<le> 2147483647"
    unfolding xids_def xids_of_def length_map by (rule order.trans [OF length_filter_le assms(4)])
  have pos: "0 < Suc k - length (xids c')" using k by (simp add: on_wire_def)
  have eq: "xids c' = map xid_of [Suc k - length (xids c')..<Suc k]" using k by (simp add: on_wire_def)
  have "distinct (map xid_of [Suc k - length (xids c')..<Suc k])"
    by (rule xids_distinct [OF pos]) (use len in simp)
  then have d: "distinct (xids c')" using eq by simp
  have b: "1 \<le> x \<and> x \<le> 2147483647" if "x \<in> set (xids c')" for x
  proof -
    from that obtain j where "x = xid_of j" "Suc k - length (xids c') \<le> j"
      by (subst (asm) eq) auto
    with pos xid_of_bounds [of j] show ?thesis by simp
  qed
  moreover have "x < 1" if "x \<in> {WATCH_XID, PING_XID, AUTH_XID}" for x
    using that by (auto simp: WATCH_XID_def PING_XID_def AUTH_XID_def)
  moreover have "xid = AUTH_XID \<longleftrightarrow> req_type request = Some 100"
    if "(request, a, xid) \<in> set (c_pending c')" for request a xid
  proof (cases "req_type request = Some 100")
    case True
    with auths that show ?thesis by (auto simp: auths_ok_def is_auth_def)
  next
    case False
    with that have "xid \<in> set (xids c')" by (force simp: xids_def xids_of_def is_auth_def)
    with b [of xid] False show ?thesis by (auto simp: AUTH_XID_def)
  qed
  ultimately show ?thesis using d by fastforce
qed

text \<open>An authentication between two requests.\<close>

theorem pending_xids_distinct_witness:
  "\<exists>res n' c'. serve (\<lambda>_ _. Inr False) 10
      [demo_wake, demo_wake\<lparr>t_client := [SCheck 9, SEnqueue (Some True) (Req (Auth 0 ''d'' ''u'')) 9]\<rparr>,
       demo_wake\<lparr>t_client := [SCheck 8, SEnqueue (Some True) (Req (Sync ''/'')) 8]\<rparr>] demo_conn demo_client
      = (res, n', c') \<and> map (snd \<circ> snd) (c_pending c') = [1, AUTH_XID, 2] \<and> distinct (xids c')"
proof -
  let ?ts = "[demo_wake, demo_wake\<lparr>t_client := [SCheck 9, SEnqueue (Some True) (Req (Auth 0 ''d'' ''u'')) 9]\<rparr>,
       demo_wake\<lparr>t_client := [SCheck 8, SEnqueue (Some True) (Req (Sync ''/'')) 8]\<rparr>]"
  obtain res n' c' where s: "serve (\<lambda>_ _. Inr False) 10 ?ts demo_conn demo_client = (res, n', c')"
    by (metis prod_cases3)
  have "map (snd \<circ> snd) (c_pending (snd (snd (serve (\<lambda>_ _. Inr False) 10 ?ts demo_conn demo_client)))) = [1, AUTH_XID, 2]"
    by code_simp
  then have p: "map (snd \<circ> snd) (c_pending c') = [1, AUTH_XID, 2]" using s by simp
  from arg_cong [OF p, of length] have "length (c_pending c') \<le> 2147483647" by simp
  from pending_xids_distinct [OF _ demo_client_simps(5) s this] p s
  show ?thesis by (simp add: demo_conn_def)
qed

end
