(* ===== verification/Lifecycle.thy ===== *)
theory Lifecycle
  imports Xids
begin

text \<open>
  The life of a connection: setting it up and resuming the session, watch events on it,
  heartbeats, and the ways it ends.
\<close>

section \<open>Watch events\<close>

definition watchers_at :: "watch_table \<Rightarrow> string \<Rightarrow> nat list" where
  "watchers_at table p = (case map_of table p of None \<Rightarrow> [] | Some ws \<Rightarrow> ws)"

lemma map_of_filter_key: "map_of (List.filter (\<lambda>e. fst e \<noteq> p) table) q = (if q = p then None else map_of table q)"
  by (induction table) auto

lemma watchers_at_add:
  "watchers_at (add_watcher p w table) q =
     (if q = p then (if w \<in> set (watchers_at table p) then watchers_at table p else watchers_at table p @ [w])
      else watchers_at table q)"
  by (induction p w table rule: add_watcher.induct) (auto simp: watchers_at_def)

text \<open>
  C5. A watch event is delivered to exactly the functions registered for its path and its kind
  (data watches for a created, changed or deleted node, child watches for a deleted node or
  changed children), in the order of their registration, with the path seen by the user; it
  removes them, so a second event for the path delivers nothing, and leaves all other watches.
\<close>

theorem watch_event_fires_once:
  assumes "watch_deserialize buffer offset = Inr (\<lparr>we_type = ty, we_state = st, we_path = Some p\<rparr>, off')"
    and "EVENT_TYPE_MAP ty = Inr t" and "ty \<noteq> -1" and "\<not> c_stopped c"
  defines "ws \<equiv> (if ty = 4 then [] else watchers_at (c_data_watchers c) p)
      @ (if ty = 2 \<or> ty = 4 then watchers_at (c_child_watchers c) p else [])"
  defines "ev \<equiv> \<lparr>ev_type = t, ev_state = c_state c, ev_path = Some (client_unchroot c p)\<rparr>"
  shows "\<exists>c'. read_watch_event buffer offset c = (Inr (), c')
    \<and> callback_queue (c_handler c') = callback_queue (c_handler c)
        @ map (\<lambda>w. RunWatch \<lparr>cb_func = w, cb_event = ev\<rparr>) ws
    \<and> (\<forall>q. watchers_at (c_data_watchers c') q =
          (if q = p \<and> ty \<noteq> 4 then [] else watchers_at (c_data_watchers c) q))
    \<and> (\<forall>q. watchers_at (c_child_watchers c') q =
          (if q = p \<and> (ty = 2 \<or> ty = 4) then [] else watchers_at (c_child_watchers c) q))
    \<and> (\<exists>c''. read_watch_event buffer offset c' = (Inr (), c'')
        \<and> callback_queue (c_handler c'') = callback_queue (c_handler c'))"
proof -
  have "ty = 1 \<or> ty = 2 \<or> ty = 3 \<or> ty = 4"
    using assms(2,3) by (auto simp: EVENT_TYPE_MAP_def split: if_splits)
  then show ?thesis
    using assms(1,2,4)
    by (elim disjE)
      (simp_all add: read_watch_event_def pop_watchers_def unchroot_opt_def client_dispatch_fold
        map_of_filter_key watchers_at_def client_unchroot_def ws_def ev_def split: option.splits)
qed

theorem watch_event_fires_once_witness:
  "\<exists>c'. read_watch_event [0,0,0,2, 0,0,0,3, 0,0,0,2,47,97] 0
      (demo_client\<lparr>c_stopped := False, c_data_watchers := [(''/a'', [3, 4])], c_child_watchers := [(''/a'', [5])]\<rparr>)
      = (Inr (), c')
    \<and> callback_queue (c_handler c') = callback_queue (c_handler demo_client)
      @ map (\<lambda>w. RunWatch \<lparr>cb_func = w, cb_event = \<lparr>ev_type = DELETED, ev_state = CONNECTED, ev_path = Some ''/a''\<rparr>\<rparr>)
          [3, 4, 5]"
proof -
  let ?c = "demo_client\<lparr>c_stopped := False, c_data_watchers := [(''/a'', [3, 4])], c_child_watchers := [(''/a'', [5])]\<rparr>"
  let ?b = "[0,0,0,2, 0,0,0,3, 0,0,0,2,47,97]"
  have d: "watch_deserialize ?b 0 = Inr (\<lparr>we_type = 2, we_state = 3, we_path = Some ''/a''\<rparr>, 14)"
    by code_simp
  have t: "EVENT_TYPE_MAP 2 = Inr DELETED" by (simp add: EVENT_TYPE_MAP_def)
  have u: "client_unchroot ?c ''/a'' = ''/a''"
    by (simp add: client_unchroot_def unchroot_def demo_client_def client_init_def client_reset_def
        reset_watchers_eq reset_session_def session_callback_def make_state_change_def notify_listener_def
        add_listener_def start_events_def call_def call_check_def call_enqueue_def Let_def)
  show ?thesis
    using watch_event_fires_once [OF d t, of ?c]
    by (auto simp: demo_client_simps watchers_at_def u)
qed

section \<open>Connecting\<close>

text \<open>
  C9. A connection attempt offers the server the client's session: the frame it writes is that of
  a connect request with the client's session id (zero for none), its password, the last
  transaction it saw, the time-out it asks for and whether it accepts a read-only server. When
  the server answers with a positive time-out and a password the client takes over the session it
  names and is connected, read-only or not as the server says; when it answers with a time-out of
  zero or less, the session has expired, every waiting caller is told and the client is lost.
\<close>

theorem connect_resumes_session:
  assumes "ce_create env (hostip, port) = Inr ()" and "\<And>b. ce_write env b = Inr ()"
    and "ce_reply env = Inr msg" and "connect_deserialize msg 0 = Inr (res, off)"
    and "submit_bytes (Connect \<lparr>protocol_version = 0, last_zxid_seen = c_last_zxid c,
        time_out = c_session_timeout c, session_id = (case c_session_id c of Some s \<Rightarrow> s | None \<Rightarrow> 0),
        passwd = c_session_passwd c, read_only = c_read_only c\<rparr>) None = Inr frame"
    and "ce_sasl env = None" and "ce_auths env = []" and "c_state c = CONNECTING"
    and "c_hosts c \<noteq> []" and "c_session_passwd c \<noteq> None" and "passwd res \<noteq> None"
  shows "(time_out res > 0 \<longrightarrow> (\<exists>n' c'. connect lst env hostip port n c =
          (Inr (of_int (time_out res) * 2 / 3, of_int (time_out res) / of_nat (length (c_hosts c))), n', c')
        \<and> n_written n' = n_written n @ [frame]
        \<and> client_id c' = Some (Some (session_id res), passwd res)
        \<and> client_state c' = (if read_only res then CONNECTED_RO else CONNECTED)
        \<and> c_kstate c' = KAZOO_CONNECTED \<and> c_queue c' = c_queue c))
    \<and> (time_out res \<le> 0 \<longrightarrow> (\<exists>n'. connect lst env hostip port n c = (Inl (ZkErr SessionExpiredError), n', c)
        \<and> n_written n' = n_written n @ [frame]
        \<and> (\<exists>c'. attempt_outcome lst (Inl (ZkErr SessionExpiredError)) r c = (Inr KEEP_TRYING, retry_reset r, c')
          \<and> client_state c' = EXPIRED_SESSION \<and> c_kstate c' = LOST
          \<and> (\<forall>i b later. i \<in> waiting c \<longrightarrow>
               ar_get b (c_results c' i) later = Inl (ZkErr SessionExpiredError)))))"
proof (rule conjI)
  have offer: "submit_bytes (Connect (connect_request c)) None = Inr frame"
    using assms(5) by (simp add: connect_request_def)
  have hosts: "c_hosts (make_state_change lst s c') = c_hosts c'" for s and c' :: client
    by (rule make_state_change_obtain [of lst s c']) simp
  show "time_out res > 0 \<longrightarrow> (\<exists>n' c'. connect lst env hostip port n c =
          (Inr (of_int (time_out res) * 2 / 3, of_int (time_out res) / of_nat (length (c_hosts c))), n', c')
        \<and> n_written n' = n_written n @ [frame]
        \<and> client_id c' = Some (Some (session_id res), passwd res)
        \<and> client_state c' = (if read_only res then CONNECTED_RO else CONNECTED)
        \<and> c_kstate c' = KAZOO_CONNECTED \<and> c_queue c' = c_queue c)"
    using assms(1-4,6-11) offer
    by (auto simp: connect_def guard_socket_def submit_def invoke_connect_def session_established_def take_session_def
        session_callback_connected client_id_def client_state_def hosts Let_def)
  have ex: "EXPIRED_SESSION \<in> set CLOSED_STATES" "EXPIRED_SESSION \<noteq> c_state c"
    using assms(8) by simp_all
  show "time_out res \<le> 0 \<longrightarrow> (\<exists>n'. connect lst env hostip port n c = (Inl (ZkErr SessionExpiredError), n', c)
        \<and> n_written n' = n_written n @ [frame]
        \<and> (\<exists>c'. attempt_outcome lst (Inl (ZkErr SessionExpiredError)) r c = (Inr KEEP_TRYING, retry_reset r, c')
          \<and> client_state c' = EXPIRED_SESSION \<and> c_kstate c' = LOST
          \<and> (\<forall>i b later. i \<in> waiting c \<longrightarrow>
               ar_get b (c_results c' i) later = Inl (ZkErr SessionExpiredError))))"
    using assms(1-4,6-11) offer session_closed_effect(1,4,6) [OF ex, of lst]
    by (auto simp: connect_def guard_socket_def submit_def invoke_connect_def attempt_outcome_def
        client_state_def ar_get_def ar_ready_def ar_outcome_def pending_exception_def)
qed

text \<open>
  A read/write server that the pinger found is not the server the next attempt connects
  to: the attempt takes the server's name and port but keeps the address of the host whose
  turn it is. It fails when nothing listens there, although the found server would accept.
\<close>

theorem rw_server_not_contacted:
  assumes "n_rw_server n = Some (rw_host, rw_port)" and "c_state c = CONNECTING" and "c_session_passwd c \<noteq> None"
    and "ce_create env (hostip, rw_port) = Inl PyOSError"
  shows "connect_attempt lst (env, turns) (host, hostip, port) r n c =
    (Some (Inr KEEP_TRYING), r, n\<lparr>n_rw_server := None, n_xid := 0\<rparr>, c)"
  using assms
  by (simp add: connect_attempt_def connect_address_def connect_def guard_socket_def socket_error_def
      attempt_outcome_def Let_def)
theorem rw_server_not_contacted_witness:
  "connect_attempt (\<lambda>_ _. Inr False)
      (\<lparr>ce_create = (\<lambda>a. if a = (''10.0.0.1'', 2182) then Inl PyOSError else Inr ()), ce_write = (\<lambda>_. Inr ()),
        ce_reply = Inl PyOSError, ce_sasl = None, ce_auths = [], ce_now = 0\<rparr>, [])
      (''a'', ''10.0.0.1'', 2181) (retry_init None 1 2 0 60 True None)
      (demo_conn\<lparr>n_rw_server := Some (''10.0.0.2'', 2182)\<rparr>) (demo_client\<lparr>c_state := CONNECTING\<rparr>)
    = (Some (Inr KEEP_TRYING), retry_init None 1 2 0 60 True None,
       demo_conn\<lparr>n_rw_server := None, n_xid := 0\<rparr>, demo_client\<lparr>c_state := CONNECTING\<rparr>)"
  using rw_server_not_contacted [of "demo_conn\<lparr>n_rw_server := Some (''10.0.0.2'', 2182)\<rparr>" "''10.0.0.2''" 2182
      "demo_client\<lparr>c_state := CONNECTING\<rparr>"
      "\<lparr>ce_create = (\<lambda>a. if a = (''10.0.0.1'', 2182) then Inl PyOSError else Inr ()), ce_write = (\<lambda>_. Inr ()),
        ce_reply = Inl PyOSError, ce_sasl = None, ce_auths = [], ce_now = 0\<rparr>" "''10.0.0.1''"
      "\<lambda>_ _. Inr False" "[]" "''a''" 2181 "retry_init None 1 2 0 60 True None"]
  by (simp add: demo_client_simps)

theorem connect_resumes_session_witness:
  "\<exists>n' c'. connect (\<lambda>_ _. Inr False)
      \<lparr>ce_create = (\<lambda>_. Inr ()), ce_write = (\<lambda>_. Inr ()),
        ce_reply = Inr [0,0,0,0, 0,0,39,16, 0,0,0,0,0,0,0,77, 0,0,0,2,1,2, 0], ce_sasl = None, ce_auths = [], ce_now = 0\<rparr>
      ''10.0.0.1'' 2181 demo_conn (client_init [(''a'', 2181)] [] 10000 False None\<lparr>c_state := CONNECTING\<rparr>)
      = (Inr (20000 / 3, 10000), n', c')
    \<and> client_id c' = Some (Some 77, Some [1, 2]) \<and> client_state c' = CONNECTED"
proof -
  let ?env = "\<lparr>ce_create = (\<lambda>_. Inr ()), ce_write = (\<lambda>_. Inr ()),
        ce_reply = Inr [0,0,0,0, 0,0,39,16, 0,0,0,0,0,0,0,77, 0,0,0,2,1,2, 0], ce_sasl = None, ce_auths = [], ce_now = 0\<rparr>"
  let ?c = "client_init [(''a'', 2181)] [] 10000 False None\<lparr>c_state := CONNECTING\<rparr>"
  let ?res = "\<lparr>protocol_version = 0, last_zxid_seen = 0, time_out = 10000, session_id = 77,
    passwd = Some [1, 2], read_only = False\<rparr>"
  have d: "connect_deserialize [0,0,0,0, 0,0,39,16, 0,0,0,0,0,0,0,77, 0,0,0,2,1,2, 0] 0 = Inr (?res, 23)"
    by code_simp
  have c: "c_last_zxid ?c = 0" "c_session_timeout ?c = 10000" "c_session_id ?c = None"
    "c_session_passwd ?c = Some (replicate 16 0)" "\<not> c_read_only ?c" "length (c_hosts ?c) = 1"
    by (simp_all add: client_init_def client_reset_def reset_watchers_eq reset_session_def Let_def)
  have "\<exists>f. submit_bytes (Connect \<lparr>protocol_version = 0, last_zxid_seen = 0, time_out = 10000, session_id = 0,
    passwd = Some (replicate 16 0), read_only = False\<rparr>) None = Inr f"
    by (rule exI) code_simp
  then obtain frame where f: "submit_bytes (Connect \<lparr>protocol_version = 0, last_zxid_seen = c_last_zxid ?c,
        time_out = c_session_timeout ?c, session_id = (case c_session_id ?c of Some s \<Rightarrow> s | None \<Rightarrow> 0),
        passwd = c_session_passwd ?c, read_only = c_read_only ?c\<rparr>) None = Inr frame"
    by (auto simp: c)
  show ?thesis
    using connect_resumes_session [of ?env "''10.0.0.1''" 2181 _ ?res 23 ?c frame "\<lambda>_ _. Inr False" demo_conn undefined,
        OF _ _ _ d f] c(4,6)
    by (auto simp flip: length_greater_0_conv)
qed

section \<open>Heartbeats\<close>

text \<open>
  \<open>idle t\<close>: \<^verbatim>\<open>select\<close> times out in the turn and the deadline has passed.
\<close>

definition idle :: "rat \<Rightarrow> conn \<Rightarrow> turn \<Rightarrow> bool" where
  "idle rt n t \<longleftrightarrow> t_select t = Inr (False, False) \<and> turn_deadline rt n t \<le> t_check t"

definition ping_frame :: bytes where
  "ping_frame = [0,0,0,8, 255,255,255,254, 0,0,0,11]"

lemma submit_ping: "submit_bytes Ping (Some PING_XID) = Inr ping_frame"
  unfolding PING_XID_def ping_frame_def by code_simp

text \<open>
  C10. A dead peer is noticed within two time-outs of \<^verbatim>\<open>select\<close>: after one in which the
  deadline has passed a heartbeat is on the wire, and when the next one comes without an answer
  the connection is dropped, the client is suspended and every waiting caller gets
  \<^verbatim>\<open>ConnectionLoss\<close>. No \<^verbatim>\<open>select\<close> is called with a time-out that is not positive.
\<close>

theorem dead_peer_detected:
  assumes "idle rt n t1" and "\<And>b. t_write t1 b = Inr ()" and "n_ro_mode n = RoNone"
    and "\<not> n_ping_outstanding n" and "t_select t2 = Inr (False, False)"
    and "t_client t1 = []" and "t_client t2 = []" and "c_state c = CONNECTED" and "0 < t_jitter t"
  shows "\<exists>n' c'. serve lst rt (t1 # t2 # ts) n c = (Some (Inl ConnectionDropped), n', c)
    \<and> n_written n' = n_written n @ [ping_frame]
    \<and> attempt_outcome lst (Inl ConnectionDropped) r c = (Inr KEEP_TRYING, r, c')
    \<and> client_state c' = CONNECTING \<and> c_kstate c' = SUSPENDED
    \<and> (\<forall>i b later. i \<in> waiting c \<longrightarrow> ar_get b (c_results c' i) later = Inl (ZkErr ConnectionLoss))
    \<and> 0 < select_timeout rt n t"
proof -
  have s: "\<exists>n'. serve lst rt (t1 # t2 # ts) n c = (Some (Inl ConnectionDropped), n', c)
    \<and> n_written n' = n_written n @ [ping_frame]"
    using assms
    by (simp add: idle_def conn_turn_def conn_turn_body_def turn_check_def send_ping_def submit_def
        submit_ping guard_socket_def socket_error_def Let_def)
  have "c_state c \<notin> set CLOSED_STATES" "c_state c \<noteq> CONNECTING" using assms(8) by simp_all
  then obtain h ls ns where eq: "session_callback lst CONNECTING c =
      c\<lparr>c_state := CONNECTING, c_live := False, c_kstate := SUSPENDED, c_listeners := ls, c_notified := ns,
        c_queue := [], c_pending := [], c_child_watchers := [], c_data_watchers := [], c_handler := h,
        c_results := failed (ZkErr ConnectionLoss)
          (map (fst \<circ> snd) (c_pending c) @ map snd (c_queue c)) (c_results c)\<rparr>"
    by (rule session_callback_lost)
  have "attempt_outcome lst (Inl ConnectionDropped) r c = (Inr KEEP_TRYING, r, session_callback lst CONNECTING c)"
    using assms(8) by (simp add: attempt_outcome_def)
  then show ?thesis
    using s assms(9) unfolding eq failed_waiting
    by (simp add: client_state_def ar_get_def ar_ready_def ar_outcome_def select_timeout_def less_max_iff_disj)
qed

theorem dead_peer_detected_witness:
  "\<exists>n' (c' :: client). serve (\<lambda>_ _. Inr False) 10 [demo_turn\<lparr>t_check := 5\<rparr>, demo_turn] demo_conn demo_client
      = (Some (Inl ConnectionDropped), n', demo_client)
    \<and> n_written n' = [ping_frame] \<and> c_kstate c' = SUSPENDED
    \<and> ar_get True (c_results c' 7) async_init = Inl (ZkErr ConnectionLoss)"
proof -
  let ?t1 = "demo_turn\<lparr>t_check := 5\<rparr>"
  have t1: "idle 10 demo_conn ?t1" by (simp add: idle_def turn_deadline_def demo_turn_def demo_conn_def)
  have n: "n_ro_mode demo_conn = RoNone" "\<not> n_ping_outstanding demo_conn" "n_written demo_conn = []"
    by (simp_all add: demo_conn_def)
  have t: "\<And>b. t_write ?t1 b = Inr ()" "t_select demo_turn = Inr (False, False)"
    "t_client ?t1 = []" "t_client demo_turn = []" "0 < t_jitter demo_turn"
    by (simp_all add: demo_turn_def)
  from dead_peer_detected [OF t1 t(1) n(1,2) t(2,3,4) demo_client_simps(1) t(5), of "\<lambda>_ _. Inr False" "[]" undefined]
  obtain n' and c' :: client where res: "serve (\<lambda>_ _. Inr False) 10 [?t1, demo_turn] demo_conn demo_client
      = (Some (Inl ConnectionDropped), n', demo_client)" "n_written n' = n_written demo_conn @ [ping_frame]"
    "c_kstate c' = SUSPENDED"
    "\<forall>i b later. i \<in> waiting demo_client \<longrightarrow> ar_get b (c_results c' i) later = Inl (ZkErr ConnectionLoss)"
    by blast
  then have "ar_get True (c_results c' 7) async_init = Inl (ZkErr ConnectionLoss)" "n_written n' = [ping_frame]"
    by (simp_all add: demo_client_waiting n(3))
  with res(1,3) show ?thesis by blast
qed

section \<open>A request that cannot be encoded\<close>

text \<open>
  C40. A request whose fields do not fit their format is only noticed by the connection thread,
  which ends: one such request closes the client and fails every other waiting caller with
  \<^verbatim>\<open>ConnectionLoss\<close>.
\<close>

theorem unencodable_request_closes_client:
  assumes "c_queue c = (Req request, Some i) # rest" and "serialize request = Inl StructError"
    and "req_type request = Some ty" and "fmt_range FmtI ty" and "ty \<noteq> 100"
    and "t_select t = Inr (False, True)" and "t_client t = []" and "c_state c = CONNECTED"
  shows "\<exists>n'. serve lst rt (t # ts) n c = (Some (Inl StructError), n', c)
    \<and> attempt_outcome lst (Inl StructError) r c = (Inl StructError, r, c)
    \<and> \<not> retryable r StructError
    \<and> client_state (snd (zk_loop_end lst (Inl StructError) c)) = CLOSED
    \<and> (\<forall>j b later. j \<in> waiting c \<longrightarrow>
         ar_get b (c_results (snd (zk_loop_end lst (Inl StructError) c)) j) later = Inl (ZkErr ConnectionLoss))"
proof -
  have xid: "\<exists>b. write_int (next_xid x) = Inr b" for x
    using next_xid_bounds [of x] by (simp add: write_int_def int_struct_def)
  have ty: "\<exists>b. write_int ty = Inr b" using assms(4) by (simp add: write_int_def int_struct_def)
  obtain b1 b2 where "write_int (next_xid (n_xid n)) = Inr b1" "write_int ty = Inr b2" using xid ty by blast
  then have sub: "submit_bytes request (Some (next_xid (n_xid n))) = Inl StructError"
    using assms(2,3) next_xid_bounds(1) [of "n_xid n"] by (auto simp: submit_bytes_def)
  have ne: "CLOSED \<noteq> c_state c" using assms(8) by simp
  show ?thesis
    using assms sub session_closed_effect(1,4) [OF _ ne, of lst]
    by (simp add: conn_turn_def conn_turn_body_def send_request_def submit_def guard_socket_def socket_error_def
        attempt_outcome_def retryable_def zk_loop_end_state client_state_def ar_get_def ar_ready_def ar_outcome_def
        pending_exception_def Let_def)
qed

theorem unencodable_request_closes_client_witness:
  "\<exists>n'. serve (\<lambda>_ _. Inr False) 10 [demo_wake] demo_conn
      (demo_client\<lparr>c_queue := [(Req (Delete ''/a'' (2 ^ 40)), Some 8), (Req (Sync ''/''), Some 7)]\<rparr>)
      = (Some (Inl StructError), n', demo_client\<lparr>c_queue := [(Req (Delete ''/a'' (2 ^ 40)), Some 8), (Req (Sync ''/''), Some 7)]\<rparr>)"
proof -
  have "serialize (Delete ''/a'' (2 ^ 40)) = Inl StructError" by code_simp
  from unencodable_request_closes_client [of "demo_client\<lparr>c_queue := [(Req (Delete ''/a'' (2 ^ 40)), Some 8), (Req (Sync ''/''), Some 7)]\<rparr>",
      OF _ this, of 8 _ 2 demo_wake "\<lambda>_ _. Inr False" 10 "[]" demo_conn undefined]
  show ?thesis by (auto simp: demo_client_simps demo_wake_def demo_turn_def)
qed

end
