(* ===== verification/SerializationProps.thy ===== *)
theory SerializationProps
  imports Serialization
begin

text \<open>
  Round trips of the wire format. The server's side of the protocol is written with the
  writers of the module itself; what the client's readers return for it is proved equal to
  what was written, in any surrounding buffer. The codec contract of \<^verbatim>\<open>Wire\<close> is interpreted
  for ACL entries and for the headers of a multi reply.
\<close>

section \<open>Interpretations of the codec contract\<close>

definition acl_seen :: "acl \<Rightarrow> int \<times> string option \<times> string option" where
  "acl_seen a = (acl_perms a, string_seen (Some (id_scheme (acl_id a))),
                 string_seen (Some (id_id (acl_id a))))"

definition acl_text :: "acl \<Rightarrow> bool" where
  "acl_text a \<longleftrightarrow> pystr (id_scheme (acl_id a)) \<and> pystr (id_id (acl_id a))"

lemma read_string_write:
  assumes "write_string (Some s) = Inr b" and "pystr s"
  shows "read_string (pre @ b @ post) (length pre) =
    Inr (string_seen (Some s), length pre + length b)"
  using assms by (intro wire_string.dec_enc) simp_all

lemma unpack_int_write:
  assumes "write_int x = Inr b"
  shows "unpack_int (pre @ b @ post) (length pre) = Inr x \<and> length b = 4"
  using assms unpack_int_pack unfolding write_int_def by blast

interpretation wire_acl: codec write_acl read_acl acl_seen acl_text
proof unfold_locales
  fix a b pre post
  assume t: "acl_text a" and "write_acl a = Inr b"
  then obtain p s i where p: "write_int (acl_perms a) = Inr p"
    and s: "write_string (Some (id_scheme (acl_id a))) = Inr s"
    and i: "write_string (Some (id_id (acl_id a))) = Inr i"
    and b: "b = p @ s @ i"
    by (auto simp: write_acl_def concat_bytes_def ebind_eq_Inr)
  note p' = unpack_int_write [OF p, of pre "s @ i @ post"]
  have s': "read_string (pre @ b @ post) (length pre + 4) =
      Inr (string_seen (Some (id_scheme (acl_id a))), length pre + 4 + length s)"
    using read_string_write [OF s, of "pre @ p" "i @ post"] t p' b by (simp add: acl_text_def)
  have i': "read_string (pre @ b @ post) (length pre + 4 + length s) =
      Inr (string_seen (Some (id_id (acl_id a))), length pre + 4 + length s + length i)"
    using read_string_write [OF i, of "pre @ p @ s" post] t p' b
    by (simp add: acl_text_def add.assoc)
  show "read_acl (pre @ b @ post) (length pre) = Inr (acl_seen a, length pre + length b)"
    using p' s' i' b by (simp add: read_acl_def acl_seen_def add.assoc)
qed

interpretation wire_multiheader: codec multiheader_serialize multiheader_deserialize
  "\<lambda>h. h" "\<lambda>h. True"
proof unfold_locales
  fix h b pre post
  assume "multiheader_serialize h = Inr b"
  then obtain t e where h: "mh_type h = Some t" "mh_err h = Some e"
    and "concat_bytes [write_int t, write_flag (mh_done h), write_int e] = Inr b"
    by (auto simp: multiheader_serialize_def split: option.splits)
  then have "struct_pack multiheader_struct [t, if mh_done h then 1 else 0, e] = Inr b"
    by (auto simp: concat_bytes_def write_int_def write_flag_def struct_defs ebind_eq_Inr
        split: if_splits)
  from unpack_from_pack [OF this, of pre post] length_struct_pack [OF this]
  show "multiheader_deserialize (pre @ b @ post) (length pre) = Inr (h, length pre + length b)"
    using h by (simp add: multiheader_deserialize_def)
qed

definition write_stat :: "znode_stat \<Rightarrow> exc + bytes" where
  "write_stat st = struct_pack stat_struct
     [czxid st, mzxid st, ctime st, mtime st, version st, cversion st, aversion st,
      ephemeralOwner st, dataLength st, numChildren st, pzxid st]"

lemma read_stat_write:
  assumes "write_stat st = Inr b"
  shows "read_stat (pre @ b @ post) (length pre) = Inr st \<and> length b = 68"
  using unpack_from_pack [OF assms [unfolded write_stat_def], of pre post]
    length_struct_pack [OF assms [unfolded write_stat_def]]
  by (simp_all add: read_stat_def)

section \<open>Counted sequences in replies\<close>

text \<open>
  The children that a server lists are the children that \<^verbatim>\<open>get_children\<close> returns: for
  non-empty names the reader gives back every name, in order, and with
  \<^verbatim>\<open>include_data\<close> the node's stat after them.
\<close>

theorem get_children_roundtrip:
  assumes "\<And>x. x \<in> set xs \<Longrightarrow> pystr x \<and> x \<noteq> ''''"
    and "emap (\<lambda>x. write_string (Some x)) xs = Inr bs" and "write_int (int (length xs)) = Inr n"
    and "write_stat st = Inr sb"
  shows "deserialize (GetChildren p w) (pre @ (n @ concat bs) @ post) (length pre) =
      Inr (RespChildren (map Some xs)) \<and>
    deserialize (GetChildren2 p w) (pre @ (n @ concat bs @ sb) @ post) (length pre) =
      Inr (RespChildren2 (map Some xs) st)"
proof -
  have seen: "map (string_seen \<circ> Some) xs = map Some xs"
    using assms(1) by (auto simp: string_seen_def)
  have "emap write_string (map Some xs) = Inr bs"
    using assms(2) by (simp add: emap_map comp_def)
  moreover have "case s of None \<Rightarrow> True | Some str \<Rightarrow> pystr str" if "s \<in> set (map Some xs)" for s
    using that assms(1) by auto
  ultimately have r: "read_times read_string (length xs) ((pre @ n) @ concat bs @ q) (length (pre @ n)) =
      Inr (map Some xs, length (pre @ n) + length (concat bs))" for q
    using wire_string.read_times_enc [of "map Some xs" bs "pre @ n" q] by (simp add: seen)
  have n: "unpack_int (pre @ n @ q) (length pre) = Inr (int (length xs)) \<and> length n = 4" for q
    by (rule unpack_int_write [OF assms(3)])
  show ?thesis
    using r [of post] r [of "sb @ post"] n [of "concat bs @ post"] n [of "concat bs @ sb @ post"]
      read_stat_write [OF assms(4), of "pre @ n @ concat bs" post]
    by (simp add: read_children_def add.assoc)
qed

theorem get_children_roundtrip_witness:
  "deserialize (GetChildren ''/'' None)
     ([] @ ([0, 0, 0, 2] @ concat [[0, 0, 0, 1, 97], [0, 0, 0, 2, 98, 99]]) @ []) (length ([] :: bytes)) =
   Inr (RespChildren (map Some [''a'', ''bc'']))"
proof -
  have strs: "pystr x \<and> x \<noteq> ''''" if "x \<in> set [''a'', ''bc'']" for x
    using that by (auto intro!: pystr_ascii)
  have w: "emap (\<lambda>x. write_string (Some x)) [''a'', ''bc''] =
      Inr [[0, 0, 0, 1, 97], [0, 0, 0, 2, 98, 99]]"
    by code_simp
  have n: "write_int (int (length [''a'', ''bc''])) = Inr [0, 0, 0, 2]"
    by code_simp
  have st: "write_stat \<lparr>czxid = 0, mzxid = 0, ctime = 0, mtime = 0, version = 0, cversion = 0,
      aversion = 0, ephemeralOwner = 0, dataLength = 0, numChildren = 0, pzxid = 0\<rparr> =
      Inr (replicate 68 0)"
    by code_simp
  show ?thesis
    using get_children_roundtrip [OF strs w n st, of _ None "[]" "[]"] by blast
qed

text \<open>
  The access control list that \<^verbatim>\<open>SetACL\<close> and \<^verbatim>\<open>Create\<close> write is the one that
  \<^verbatim>\<open>GetACL\<close> reads, entry by entry, but for empty texts: \<^verbatim>\<open>write_string\<close> sends the empty
  string as \<^verbatim>\<open>None\<close>, and as \<^verbatim>\<open>None\<close> it comes back.
\<close>

theorem get_acls_roundtrip:
  assumes "\<And>a. a \<in> set acls \<Longrightarrow> acl_text a"
    and "write_acls acls = Inr b" and "write_stat st = Inr sb"
  shows "deserialize (GetACL p) (pre @ (b @ sb) @ post) (length pre) =
    Inr (RespAcls (map acl_seen acls) st)"
proof -
  obtain n bs where n: "write_int (int (length acls)) = Inr n" and bs: "emap write_acl acls = Inr bs"
    and b: "b = n @ concat bs"
    using assms(2) by (auto simp: write_acls_def ebind_eq_Inr)
  have "read_times read_acl (length acls) ((pre @ n) @ concat bs @ sb @ post) (length (pre @ n)) =
      Inr (map acl_seen acls, length (pre @ n) + length (concat bs))"
    using assms(1) bs by (rule wire_acl.read_times_enc)
  then show ?thesis
    using unpack_int_write [OF n, of pre "concat bs @ sb @ post"]
      read_stat_write [OF assms(3), of "pre @ n @ concat bs" post] b
    by (simp add: add.assoc)
qed

theorem get_acls_roundtrip_witness:
  "\<exists>b sb st. write_acls CREATOR_ALL_ACL = Inr b \<and> write_stat st = Inr sb \<and>
     deserialize (GetACL ''/'') ([] @ (b @ sb) @ []) (length ([] :: bytes)) =
     Inr (RespAcls [(31, Some ''auth'', None)] st)"
proof -
  have strs: "acl_text a" if "a \<in> set CREATOR_ALL_ACL" for a
    using that by (auto simp: CREATOR_ALL_ACL_def AUTH_IDS_def acl_text_def intro!: pystr_ascii)
  have w: "write_acls CREATOR_ALL_ACL =
      Inr [0, 0, 0, 1, 0, 0, 0, 31, 0, 0, 0, 4, 97, 117, 116, 104, 255, 255, 255, 255]"
    by code_simp
  have st: "write_stat \<lparr>czxid = 0, mzxid = 0, ctime = 0, mtime = 0, version = 0, cversion = 0,
      aversion = 0, ephemeralOwner = 0, dataLength = 0, numChildren = 0, pzxid = 0\<rparr> =
      Inr (replicate 68 0)"
    by code_simp
  have seen: "map acl_seen CREATOR_ALL_ACL = [(31, Some ''auth'', None)]"
    by (simp add: CREATOR_ALL_ACL_def AUTH_IDS_def acl_seen_def string_seen_def PERM_ALL_def)
  show ?thesis
    using get_acls_roundtrip [OF strs w st, of "''/''" "[]" "[]"] w st unfolding seen by blast
qed

section \<open>The reply of a transaction\<close>

text \<open>
  A multi reply as the server writes it: for each operation a header with the operation's
  type and its result (an error has the type -1), then a header with the done flag set.
\<close>

fun txn_result_bytes :: "txn_result \<Rightarrow> exc + bytes" where
  "txn_result_bytes (TxStr s) = write_string (Some s)"
| "txn_result_bytes TxTrue = Inr []"
| "txn_result_bytes (TxStat st) = write_stat st"
| "txn_result_bytes (TxErr k) = write_int (zk_code k)"

fun txn_reply_ok :: "int \<times> int \<times> txn_result \<Rightarrow> bool" where
  "txn_reply_ok (ty, _, TxStr s) \<longleftrightarrow> ty = 1 \<and> pystr s \<and> s \<noteq> ''''"
| "txn_reply_ok (ty, _, TxTrue) \<longleftrightarrow> ty = 2 \<or> ty = 13"
| "txn_reply_ok (ty, _, TxStat st) \<longleftrightarrow> ty = 5"
| "txn_reply_ok (ty, _, TxErr k) \<longleftrightarrow> ty = -1"

fun multi_reply :: "(int \<times> int \<times> txn_result) list \<Rightarrow> exc + bytes" where
  "multi_reply [] =
     multiheader_serialize \<lparr>mh_type = Some (-1), mh_done = True, mh_err = Some (-1)\<rparr>"
| "multi_reply ((ty, err, r) # rs) = concat_bytes
     [multiheader_serialize \<lparr>mh_type = Some ty, mh_done = False, mh_err = Some err\<rparr>,
      txn_result_bytes r, multi_reply rs]"

lemma txn_body_reply:
  assumes "txn_reply_ok (ty, err, r)" and "txn_result_bytes r = Inr b"
  shows "txn_body (Some ty) resp (pre @ b @ post) (length pre) =
    Inr (Some r, length pre + length b)"
proof (cases r)
  case (TxStr s)
  then show ?thesis
    using assms read_string_write [of s b pre post] by (simp add: txn_body_def string_seen_def)
next
  case TxTrue
  then show ?thesis using assms by (auto simp: txn_body_def)
next
  case (TxStat st)
  then show ?thesis using assms read_stat_write [of st b pre post] by (simp add: txn_body_def)
next
  case (TxErr k)
  then show ?thesis using assms unpack_int_write [of _ b pre post] by (simp add: txn_body_def)
qed

lemma txn_truthy_reply: "txn_reply_ok (ty, err, r) \<Longrightarrow> txn_truthy (Some r)"
  by (cases r) (simp_all add: txn_truthy_def)

text \<open>Reading one header and going on, over a well-formed rest of the reply.\<close>

lemma txn_loop_multi_reply:
  assumes "\<And>x. x \<in> set rs \<Longrightarrow> txn_reply_ok x" and "multi_reply rs = Inr b"
    and "buffer = pre @ b @ post"
  shows "ebind (multiheader_deserialize buffer (length pre)) (\<lambda>hd.
      txn_loop (mh_type (fst hd)) (mh_done (fst hd)) resp results buffer (snd hd)) =
    Inr (results @ map (snd \<circ> snd) rs)"
  using assms
proof (induction rs arbitrary: pre b resp results rule: multi_reply.induct)
  case 1
  have "multiheader_deserialize buffer (length pre) =
      Inr (\<lparr>mh_type = Some (-1), mh_done = True, mh_err = Some (-1)\<rparr>, length pre + length b)"
    using "1.prems"(2) unfolding "1.prems"(3) by (intro wire_multiheader.dec_enc) simp_all
  then show ?case by (simp add: txn_loop.simps)
next
  case (2 ty err r rs)
  let ?h = "\<lparr>mh_type = Some ty, mh_done = False, mh_err = Some err\<rparr>"
  obtain hb rb tb where hb: "multiheader_serialize ?h = Inr hb" and rb: "txn_result_bytes r = Inr rb"
    and tb: "multi_reply rs = Inr tb" and b: "b = hb @ rb @ tb"
    using "2.prems"(2) by (auto simp: concat_bytes_def ebind_eq_Inr)
  have ok: "txn_reply_ok (ty, err, r)" using "2.prems"(1) by simp
  have "multiheader_deserialize buffer (length pre) = Inr (?h, length pre + length hb)"
    using wire_multiheader.dec_enc [OF _ hb, of pre "rb @ tb @ post"] "2.prems"(3) b by simp
  moreover have "txn_body (Some ty) resp buffer (length pre + length hb) =
      Inr (Some r, length pre + length hb + length rb)"
    using txn_body_reply [OF ok rb, of resp "pre @ hb" "tb @ post"] "2.prems"(3) b by simp
  moreover have "ebind (multiheader_deserialize buffer (length (pre @ hb @ rb))) (\<lambda>hd.
      txn_loop (mh_type (fst hd)) (mh_done (fst hd)) (Some r) (results @ [r]) buffer (snd hd)) =
    Inr ((results @ [r]) @ map (snd \<circ> snd) rs)"
    using "2.prems" tb b by (intro "2.IH") simp_all
  ultimately show ?case
    using txn_truthy_reply [OF ok] by (simp add: txn_loop.simps [of "Some ty"] add.assoc)
qed

text \<open>
  \<^verbatim>\<open>Transaction.deserialize\<close> returns one result per operation, in the order of the
  operations: the path of a create, \<^verbatim>\<open>True\<close> for a delete or a check, the stat of a set, and
  the exception of an error entry. It stops at the header with the done flag, wherever the
  reply ends in the buffer.
\<close>

theorem transaction_deserialize_reply:
  assumes "\<And>x. x \<in> set rs \<Longrightarrow> txn_reply_ok x" and "multi_reply rs = Inr b"
  shows "transaction_deserialize (pre @ b @ post) (length pre) = Inr (map (snd \<circ> snd) rs)"
  using txn_loop_multi_reply [OF assms refl, of pre post None "[]"]
  by (simp add: transaction_deserialize_def txn_loop.simps [of None] txn_body_def txn_truthy_def)

theorem transaction_deserialize_reply_witness:
  "\<exists>b. multi_reply [(1, 0, TxStr ''/a''), (2, 0, TxTrue), (-1, 0, TxErr RolledBackError)] = Inr b \<and>
     transaction_deserialize ([] @ b @ []) (length ([] :: bytes)) =
     Inr [TxStr ''/a'', TxTrue, TxErr RolledBackError]"
proof -
  let ?rs = "[(1, 0, TxStr ''/a''), (2, 0, TxTrue), (-1, 0, TxErr RolledBackError)]"
  have ok: "txn_reply_ok x" if "x \<in> set ?rs" for x
    using that by (auto intro!: pystr_ascii)
  have "\<exists>b. multi_reply ?rs = Inr b"
    by (simp add: multiheader_serialize_def concat_bytes_def write_int_def write_flag_def
        write_string_def int_struct_def)
  then obtain b where b: "multi_reply ?rs = Inr b" ..
  show ?thesis
    using transaction_deserialize_reply [OF ok b, of "[]" "[]"] b by (intro exI [of _ b]) simp
qed

text \<open>
  A reply entry of \<^verbatim>\<open>Create2\<close> (type 15), which \<^verbatim>\<open>Transaction_Types\<close> admits, is read by
  no branch: the bytes of the entry are not consumed and the result of the operation before it
  is appended a second time.
\<close>

theorem transaction_create2_entry:
  assumes "txn_truthy (Some r)"
  shows "txn_loop (Some 15) False (Some r) results buffer offset =
    ebind (multiheader_deserialize buffer offset) (\<lambda>hd.
      txn_loop (mh_type (fst hd)) (mh_done (fst hd)) (Some r) (results @ [r]) buffer (snd hd))"
  using assms by (simp add: txn_loop.simps [of "Some 15"] txn_body_def)

theorem transaction_create2_entry_witness:
  "txn_loop (Some 15) False (Some TxTrue) [TxTrue] [255, 255, 255, 255, 1, 255, 255, 255, 255] 0 =
     Inr [TxTrue, TxTrue]"
proof -
  let ?h = "\<lparr>mh_type = Some (-1), mh_done = True, mh_err = Some (-1)\<rparr>"
  have "multiheader_serialize ?h = Inr [255, 255, 255, 255, 1, 255, 255, 255, 255]"
    by code_simp
  from wire_multiheader.dec_enc [OF _ this, of "[]" "[]"]
  have h: "multiheader_deserialize [255, 255, 255, 255, 1, 255, 255, 255, 255] 0 = Inr (?h, 9)"
    by simp
  have t: "txn_truthy (Some TxTrue)" by (simp add: txn_truthy_def)
  show ?thesis
    using transaction_create2_entry [OF t] h by (simp add: txn_loop.simps [of _ True])
qed

end
