(* ===== verification/Transport.thy ===== *)
theory Transport
  imports SerializationProps
begin

text \<open>
  The byte-level loops of \<^verbatim>\<open>ConnectionHandler\<close>: \<^verbatim>\<open>_read\<close>, \<^verbatim>\<open>_write\<close> and
  \<^verbatim>\<open>_read_header\<close>. The socket and \<^verbatim>\<open>select\<close> act on a world that is threaded through; they
  are the arguments \<open>sock\<close>. A socket that keeps asking to be tried again makes the loops run
  for ever, so they are \<^theory_text>\<open>partial_function\<close>s.
\<close>

text \<open>What a \<^verbatim>\<open>recv\<close> or \<^verbatim>\<open>send\<close> on a (TLS) socket can do.\<close>

datatype 'a sock_result = Done 'a | WantIO | SockError exc

record 'w sock =
  sock_pending :: "'w \<Rightarrow> bool"
  sock_select_read :: "'w \<Rightarrow> (exc + bool) \<times> 'w"
  sock_recv :: "nat \<Rightarrow> 'w \<Rightarrow> bytes sock_result \<times> 'w"
  sock_select_write :: "'w \<Rightarrow> (exc + bool) \<times> 'w"
  sock_send :: "bytes \<Rightarrow> 'w \<Rightarrow> nat sock_result \<times> 'w"

definition dropped :: "exc \<Rightarrow> exc" where
  "dropped e = (if e = PyOSError then ConnectionDropped else e)"

partial_function (option) read_loop ::
    "'w sock \<Rightarrow> int \<Rightarrow> bytes \<Rightarrow> 'w \<Rightarrow> ((exc + bytes) \<times> 'w) option" where
  "read_loop sock remaining msgparts w =
     (if remaining \<le> 0 then Some (Inr msgparts, w)
      else case (if sock_pending sock w then (Inr True, w) else sock_select_read sock w) of
        (Inl e, w) \<Rightarrow> Some (Inl (dropped e), w)
      | (Inr readable, w) \<Rightarrow>
          if \<not> readable then Some (Inl HandlerTimeout, w)
          else (case sock_recv sock (nat remaining) w of
              (SockError e, w) \<Rightarrow> Some (Inl (dropped e), w)
            | (WantIO, w) \<Rightarrow> read_loop sock remaining msgparts w
            | (Done chunk, w) \<Rightarrow>
                if chunk = [] then Some (Inl ConnectionDropped, w)
                else read_loop sock (remaining - int (length chunk)) (msgparts @ chunk) w))"

definition conn_read :: "'w sock \<Rightarrow> int \<Rightarrow> 'w \<Rightarrow> ((exc + bytes) \<times> 'w) option" where
  "conn_read sock len w = read_loop sock len [] w"

partial_function (option) write_loop ::
    "'w sock \<Rightarrow> bytes \<Rightarrow> nat \<Rightarrow> 'w \<Rightarrow> ((exc + unit) \<times> 'w) option" where
  "write_loop sock msg sent w =
     (if length msg \<le> sent then Some (Inr (), w)
      else case sock_select_write sock w of
        (Inl e, w) \<Rightarrow> Some (Inl (dropped e), w)
      | (Inr writable, w) \<Rightarrow>
          if \<not> writable then Some (Inl HandlerTimeout, w)
          else (case sock_send sock (drop sent msg) w of
              (SockError e, w) \<Rightarrow> Some (Inl (dropped e), w)
            | (WantIO, w) \<Rightarrow> write_loop sock msg sent w
            | (Done bytes_sent, w) \<Rightarrow>
                if bytes_sent = 0 then Some (Inl ConnectionDropped, w)
                else write_loop sock msg (sent + bytes_sent) w))"

definition conn_write :: "'w sock \<Rightarrow> bytes \<Rightarrow> 'w \<Rightarrow> ((exc + unit) \<times> 'w) option" where
  "conn_write sock msg w = write_loop sock msg 0 w"

definition read_header :: "'w sock \<Rightarrow> 'w \<Rightarrow> ((exc + reply_header \<times> bytes \<times> nat) \<times> 'w) option" where
  "read_header sock w =
     (case conn_read sock 4 w of
        None \<Rightarrow> None
      | Some (Inl e, w) \<Rightarrow> Some (Inl e, w)
      | Some (Inr b, w) \<Rightarrow>
          (case unpack_int b 0 of
             Inl e \<Rightarrow> Some (Inl e, w)
           | Inr len \<Rightarrow>
               (case conn_read sock len w of
                  None \<Rightarrow> None
                | Some (Inl e, w) \<Rightarrow> Some (Inl e, w)
                | Some (Inr b, w) \<Rightarrow>
                    Some (ebind (reply_header_deserialize b 0) (\<lambda>(header, offset). Inr (header, b, offset)), w))))"

section \<open>A socket as a stream of bytes\<close>

text \<open>
  The documented behaviour of a connected stream socket that has data, as the loops see it:
  \<open>stream\<close> is what the peer has sent and the client has not read, \<open>sink\<close> what the client has
  sent. A receive returns a non-empty prefix of at most the requested length, of any length
  the network chooses, a send takes a non-empty prefix.
\<close>

definition delivers :: "'w sock \<Rightarrow> ('w \<Rightarrow> bytes) \<Rightarrow> bool" where
  "delivers sock stream \<longleftrightarrow>
     (\<forall>w. \<exists>w'. sock_select_read sock w = (Inr True, w') \<and> stream w' = stream w)
   \<and> (\<forall>w k. 0 < k \<longrightarrow> stream w \<noteq> [] \<longrightarrow> (\<exists>m w'. 0 < m \<and> m \<le> k \<and> m \<le> length (stream w)
         \<and> sock_recv sock k w = (Done (take m (stream w)), w') \<and> stream w' = drop m (stream w)))"

definition accepts :: "'w sock \<Rightarrow> ('w \<Rightarrow> bytes) \<Rightarrow> bool" where
  "accepts sock sink \<longleftrightarrow>
     (\<forall>w. \<exists>w'. sock_select_write sock w = (Inr True, w') \<and> sink w' = sink w)
   \<and> (\<forall>w b. b \<noteq> [] \<longrightarrow> (\<exists>m w'. 0 < m \<and> m \<le> length b
         \<and> sock_send sock b w = (Done m, w') \<and> sink w' = sink w @ take m b))"

lemma read_loop_delivers:
  assumes "delivers sock stream"
  shows "n \<le> length (stream w) \<Longrightarrow>
    \<exists>w'. read_loop sock (int n) acc w = Some (Inr (acc @ take n (stream w)), w')
      \<and> stream w' = drop n (stream w)"
proof (induction n arbitrary: acc w rule: less_induct)
  case (less n)
  show ?case
  proof (cases "n = 0")
    case True
    then show ?thesis by (subst read_loop.simps) simp
  next
    case False
    obtain w1 where w1: "(if sock_pending sock w then (Inr True, w) else sock_select_read sock w) = (Inr True, w1)"
      "stream w1 = stream w"
      using assms unfolding delivers_def by (metis (full_types))
    obtain m w2 where m: "0 < m" "m \<le> n" "m \<le> length (stream w)"
      "sock_recv sock n w1 = (Done (take m (stream w)), w2)" "stream w2 = drop m (stream w)"
      using assms False less.prems w1(2) unfolding delivers_def by (metis gr0I le_zero_eq length_0_conv)
    have "n - m < n" "n - m \<le> length (stream w2)" using m less.prems by auto
    from less.IH [OF this] obtain w' where
      w': "read_loop sock (int (n - m)) (acc @ take m (stream w)) w2
             = Some (Inr ((acc @ take m (stream w)) @ take (n - m) (stream w2)), w')"
          "stream w' = drop (n - m) (stream w2)" by blast
    have "take m (stream w) @ take (n - m) (stream w2) = take n (stream w)"
      using m(2) unfolding m(5) by (metis le_add_diff_inverse take_add)
    moreover have "take m (stream w) \<noteq> []" using m(1,3) by auto
    ultimately have "read_loop sock (int n) acc w = Some (Inr (acc @ take n (stream w)), w')"
      using False m w1 w'(1) by (subst read_loop.simps) (simp add: of_nat_diff)
    then show ?thesis using w'(2) m by (auto simp: m(5))
  qed
qed

lemma write_loop_accepts:
  assumes "accepts sock sink"
  shows "\<exists>w'. write_loop sock msg sent w = Some (Inr (), w') \<and> sink w' = sink w @ drop sent msg"
proof (induction "length msg - sent" arbitrary: sent w rule: less_induct)
  case less
  show ?case
  proof (cases "length msg \<le> sent")
    case True
    then show ?thesis by (subst write_loop.simps) simp
  next
    case False
    obtain w1 where w1: "sock_select_write sock w = (Inr True, w1)" "sink w1 = sink w"
      using assms unfolding accepts_def by metis
    obtain m w2 where m: "0 < m" "m \<le> length (drop sent msg)"
      "sock_send sock (drop sent msg) w1 = (Done m, w2)" "sink w2 = sink w @ take m (drop sent msg)"
      using assms False w1(2) unfolding accepts_def by (metis drop_eq_Nil)
    have "length msg - (sent + m) < length msg - sent" using m False by simp
    from less [OF this] obtain w' where
      w': "write_loop sock msg (sent + m) w2 = Some (Inr (), w')" "sink w' = sink w2 @ drop (sent + m) msg"
      by blast
    have "take m (drop sent msg) @ drop (sent + m) msg = drop sent msg"
      by (metis add.commute append_take_drop_id drop_drop)
    then show ?thesis using False m w1 w' by (subst write_loop.simps) simp
  qed
qed

text \<open>
  C13. Framing does not depend on how the network cuts the stream: a frame (its length, then
  the reply header and the body) that is at the front of the stream is read as exactly that
  header and body, the offset is that of the body, and the rest of the stream is left for the
  next frame.
\<close>

theorem read_header_frame:
  assumes "delivers sock stream"
    and "struct_pack reply_header_struct [rh_xid h, rh_zxid h, rh_err h] = Inr hd_bytes"
    and "write_int (int (length (hd_bytes @ body))) = Inr len_bytes"
    and "stream w = len_bytes @ hd_bytes @ body @ rest"
  shows "\<exists>w'. read_header sock w = Some (Inr (h, hd_bytes @ body, 16), w') \<and> stream w' = rest"
proof -
  have len: "length len_bytes = 4" "length hd_bytes = 16"
    using length_struct_pack [OF assms(2)] length_struct_pack [OF assms(3) [unfolded write_int_def]]
    by (simp_all add: int_struct_def reply_header_struct_def struct_size_def)
  obtain w1 where w1: "conn_read sock 4 w = Some (Inr len_bytes, w1)" "stream w1 = hd_bytes @ body @ rest"
    using read_loop_delivers [OF assms(1), of 4 w "[]"] assms(4) len by (auto simp: conn_read_def)
  have n: "unpack_int len_bytes 0 = Inr (int (length (hd_bytes @ body)))"
    using unpack_int_write [OF assms(3), of "[]" "[]"] by simp
  obtain w2 where w2: "conn_read sock (int (length (hd_bytes @ body))) w1 = Some (Inr (hd_bytes @ body), w2)"
    "stream w2 = rest"
    using read_loop_delivers [OF assms(1), of "length (hd_bytes @ body)" w1 "[]"] w1(2) by (auto simp: conn_read_def)
  have d: "reply_header_deserialize (hd_bytes @ body) 0 = Inr (h, 16)"
    using unpack_from_pack [OF assms(2), of "[]" body]
    by (simp add: reply_header_deserialize_def reply_header_struct_def struct_size_def)
  show ?thesis using w1 n w2 d by (simp add: read_header_def)
qed

theorem read_header_frame_witness:
  "\<exists>w'. read_header
      \<lparr>sock_pending = (\<lambda>_. False), sock_select_read = (\<lambda>w. (Inr True, w)),
        sock_recv = (\<lambda>k w. (Done (take (min 3 k) w), drop (min 3 k) w)),
        sock_select_write = (\<lambda>w. (Inr True, w)), sock_send = (\<lambda>b w. (Done (length b), w))\<rparr>
      [0,0,0,17, 0,0,0,1, 0,0,0,0,0,0,0,2, 0,0,0,0, 9, 7,7]
      = Some (Inr (\<lparr>rh_xid = 1, rh_zxid = 2, rh_err = 0\<rparr>, [0,0,0,1, 0,0,0,0,0,0,0,2, 0,0,0,0, 9], 16), w')
    \<and> w' = [7, 7]"
proof -
  let ?sock = "\<lparr>sock_pending = (\<lambda>_. False), sock_select_read = (\<lambda>w. (Inr True, w)),
        sock_recv = (\<lambda>k w. (Done (take (min 3 k) w), drop (min 3 k) w)),
        sock_select_write = (\<lambda>w. (Inr True, w)), sock_send = (\<lambda>b w. (Done (length b), w))\<rparr>"
  have d: "delivers ?sock (\<lambda>w. w)"
    by (auto simp: delivers_def intro!: exI [of _ "min (min 3 _) (length _)"]) (simp_all add: min_def)
  have h: "struct_pack reply_header_struct [1, 2, 0] = Inr [0,0,0,1, 0,0,0,0,0,0,0,2, 0,0,0,0]" by code_simp
  have l: "write_int 17 = Inr [0,0,0,17]" by code_simp
  show ?thesis
    using read_header_frame [OF d, of "\<lparr>rh_xid = 1, rh_zxid = 2, rh_err = 0\<rparr>"
        "[0,0,0,1, 0,0,0,0,0,0,0,2, 0,0,0,0]" "[9]" "[0,0,0,17]"
        "[0,0,0,17, 0,0,0,1, 0,0,0,0,0,0,0,2, 0,0,0,0, 9, 7,7]" "[7, 7]"] h l
    by auto
qed

text \<open>
  A message is written completely and once, in order, however little the socket takes at a
  time.
\<close>

theorem conn_write_complete:
  assumes "accepts sock sink"
  shows "\<exists>w'. conn_write sock msg w = Some (Inr (), w') \<and> sink w' = sink w @ msg"
  using write_loop_accepts [OF assms, of msg 0 w] by (simp add: conn_write_def)

theorem conn_write_complete_witness:
  "\<exists>w'. conn_write \<lparr>sock_pending = (\<lambda>_. False), sock_select_read = (\<lambda>w. (Inr True, w)),
        sock_recv = (\<lambda>k w. (WantIO, w)), sock_select_write = (\<lambda>w. (Inr True, w)),
        sock_send = (\<lambda>b w. (Done 1, w @ take 1 b))\<rparr> [1, 2, 3] [] = Some (Inr (), w') \<and> w' = [1, 2, 3]"
proof -
  have "accepts \<lparr>sock_pending = (\<lambda>_. False), sock_select_read = (\<lambda>w. (Inr True, w)),
        sock_recv = (\<lambda>k w. (WantIO, w)), sock_select_write = (\<lambda>w. (Inr True, w)),
        sock_send = (\<lambda>b w. (Done 1, w @ take 1 b))\<rparr> (\<lambda>w. w)"
    by (auto simp: accepts_def Suc_le_eq intro!: exI [of _ 1])
  from conn_write_complete [OF this, of "[1, 2, 3]" "[]"] show ?thesis by simp
qed

end
