(* ===== verification/World.thy ===== *)
theory World
  imports Security Serialization Retry
begin

text \<open>
  What the recipes are written against: computations that act on a world, may raise and may
  not return, and the client operations they call. The world stands for the servers, the
  other clients, the clock and the events; the recipes' models are parametric in it and in the
  operations, so their theorems hold for every behaviour of the servers unless a hypothesis
  says what is relied on.
\<close>

section \<open>Computations\<close>

type_synonym ('w, 'a) io = "'w \<Rightarrow> ((exc + 'a) \<times> 'w) option"

definition io_return :: "'a \<Rightarrow> ('w, 'a) io" where
  "io_return x w = Some (Inr x, w)"

definition io_raise :: "exc \<Rightarrow> ('w, 'a) io" where
  "io_raise e w = Some (Inl e, w)"

definition io_bind :: "('w, 'a) io \<Rightarrow> ('a \<Rightarrow> ('w, 'b) io) \<Rightarrow> ('w, 'b) io" where
  "io_bind m f w = Option.bind (m w) (\<lambda>r. case r of (Inl e, w) \<Rightarrow> Some (Inl e, w) | (Inr x, w) \<Rightarrow> f x w)"

text \<open>\<open>try: m except p: h\<close>, and \<open>try: m finally: f\<close>.\<close>

definition io_catch :: "('w, 'a) io \<Rightarrow> (exc \<Rightarrow> bool) \<Rightarrow> (exc \<Rightarrow> ('w, 'a) io) \<Rightarrow> ('w, 'a) io" where
  "io_catch m p h w =
     Option.bind (m w) (\<lambda>r. case r of
         (Inl e, w) \<Rightarrow> if p e then h e w else Some (Inl e, w)
       | (Inr x, w) \<Rightarrow> Some (Inr x, w))"

definition io_finally :: "('w, 'a) io \<Rightarrow> ('w, unit) io \<Rightarrow> ('w, 'a) io" where
  "io_finally m f w =
     Option.bind (m w) (\<lambda>r. Option.bind (f (snd r)) (\<lambda>s. case s of
         (Inl e, w) \<Rightarrow> Some (Inl e, w)
       | (Inr _, w) \<Rightarrow> Some (fst r, w)))"

lemma io_simps [simp]:
  "io_bind (io_return x) f = f x"
  "io_bind (io_raise e) f = io_raise e"
  "io_catch (io_return x) p h = io_return x"
  "io_catch (io_raise e) p h = (if p e then h e else io_raise e)"
  by (auto simp: io_bind_def io_return_def io_raise_def io_catch_def fun_eq_iff)

lemma io_bind_Some [simp]:
  "m w = Some (Inr x, w') \<Longrightarrow> io_bind m f w = f x w'"
  "m w = Some (Inl e, w') \<Longrightarrow> io_bind m f w = Some (Inl e, w')"
  "m w = None \<Longrightarrow> io_bind m f w = None"
  by (simp_all add: io_bind_def)

lemma io_bind_eq_Inr:
  "io_bind m f w = Some (Inr y, w') \<longleftrightarrow> (\<exists>x w1. m w = Some (Inr x, w1) \<and> f x w1 = Some (Inr y, w'))"
  by (cases "m w") (auto simp: io_bind_def split: sum.splits)

lemma io_bind_cases:
  assumes "io_bind m f w = Some (r, w')"
  obtains (raised) e where "m w = Some (Inl e, w')" "r = Inl e"
  | (returned) x w1 where "m w = Some (Inr x, w1)" "f x w1 = Some (r, w')"
  using assms by (cases "m w") (auto simp: io_bind_def split: sum.splits prod.splits)

lemma io_bind_assoc [simp]: "io_bind (io_bind m f) g = io_bind m (\<lambda>x. io_bind (f x) g)"
proof
  fix w
  show "io_bind (io_bind m f) g w = io_bind m (\<lambda>x. io_bind (f x) g) w"
  proof (cases "m w")
    case (Some r)
    then show ?thesis by (cases r; cases "fst r") (simp_all add: io_bind_def)
  qed (simp add: io_bind_def)
qed

lemma io_catch_cases:
  assumes "io_catch m p h w = Some (r, w')"
  obtains (caught) e w1 where "m w = Some (Inl e, w1)" "p e" "h e w1 = Some (r, w')"
  | (passed) "m w = Some (r, w')" "\<And>e. r = Inl e \<Longrightarrow> \<not> p e"
  using assms by (cases "m w") (auto simp: io_catch_def split: sum.splits prod.splits if_splits)

lemma io_catch_Some [simp]:
  "m w = Some (Inr x, w') \<Longrightarrow> io_catch m p h w = Some (Inr x, w')"
  "m w = Some (Inl e, w') \<Longrightarrow> io_catch m p h w = (if p e then h e w' else Some (Inl e, w'))"
  by (simp_all add: io_catch_def)

lemma io_return_Some [simp]: "io_return x w = Some (Inr x, w)" "io_raise e w = Some (Inl e, w)"
  by (simp_all add: io_return_def io_raise_def)

lemma io_bind_mono [partial_function_mono]:
  assumes "\<And>w. mono_option (\<lambda>f. B f w)" and "\<And>y w. mono_option (\<lambda>f. C y f w)"
  shows "mono_option (\<lambda>f. io_bind (B f) (\<lambda>y. C y f) w)"
  unfolding io_bind_def
proof (rule bind_mono [OF assms(1)])
  fix r :: "(exc + 'd) \<times> 'a"
  obtain x w where "r = (x, w)" by (cases r)
  then show "mono_option (\<lambda>f. case r of (Inl e, w) \<Rightarrow> Some (Inl e, w) | (Inr x, w) \<Rightarrow> C x f w)"
    by (cases x) (auto intro: assms(2) partial_function_mono)
qed

lemma io_catch_mono [partial_function_mono]:
  assumes "\<And>w. mono_option (\<lambda>f. B f w)" and "\<And>y w. mono_option (\<lambda>f. C y f w)"
  shows "mono_option (\<lambda>f. io_catch (B f) p (\<lambda>y. C y f) w)"
  unfolding io_catch_def
proof (rule bind_mono [OF assms(1)])
  fix r :: "(exc + 'd) \<times> 'a"
  obtain x w where "r = (x, w)" by (cases r)
  then show "mono_option (\<lambda>f. case r of (Inl e, w) \<Rightarrow> if p e then C e f w else Some (Inl e, w)
      | (Inr x, w) \<Rightarrow> Some (Inr x, w))"
    by (cases x) (auto intro: assms(2) partial_function_mono)
qed

lemma io_finally_mono [partial_function_mono]:
  assumes "\<And>w. mono_option (\<lambda>f. B f w)"
  shows "mono_option (\<lambda>f. io_finally (B f) g w)"
  unfolding io_finally_def
  by (rule bind_mono [OF assms(1)]) (auto intro: partial_function_mono split: prod.splits sum.splits)

fun io_map :: "('a \<Rightarrow> ('w, 'b) io) \<Rightarrow> 'a list \<Rightarrow> ('w, 'b list) io" where
  "io_map f [] = io_return []"
| "io_map f (x # xs) = io_bind (f x) (\<lambda>y. io_bind (io_map f xs) (\<lambda>ys. io_return (y # ys)))"

lemma io_map_mono [partial_function_mono]:
  assumes "\<And>y w. mono_option (\<lambda>f. B f y w)"
  shows "mono_option (\<lambda>f. io_map (B f) xs w)"
proof (induction xs arbitrary: w)
  case Nil
  show ?case by (simp add: option.const_mono)
next
  case (Cons x xs)
  have "mono_option (\<lambda>f. io_bind (B f x) (\<lambda>y. io_bind (io_map (B f) xs) (\<lambda>ys. io_return (y # ys))) w)"
    by (intro io_bind_mono assms Cons.IH) (simp add: io_return_def option.const_mono)
  then show ?case by simp
qed

definition io_sum :: "exc + 'a \<Rightarrow> ('w, 'a) io" where
  "io_sum r = (case r of Inl e \<Rightarrow> io_raise e | Inr x \<Rightarrow> io_return x)"

lemma io_sum_simps [simp]: "io_sum (Inl e) = io_raise e" "io_sum (Inr x) = io_return x"
  by (simp_all add: io_sum_def)

section \<open>The client's operations\<close>

text \<open>
  The operations of \<^verbatim>\<open>KazooClient\<close> that the recipes use. \<open>zk_create path data ephemeral
  sequence makepath\<close> returns the path that was created; \<open>zk_ensure_path\<close> returns whether the
  node existed; watches are registered by the operations whose name ends in \<open>_w\<close>.
\<close>

datatype tx_op =
    TxCreate string bytes "acl list option" bool bool
  | TxDelete string int
  | TxSetData string bytes int
  | TxCheck string int

record 'w zk =
  zk_create :: "string \<Rightarrow> bytes \<Rightarrow> bool \<Rightarrow> bool \<Rightarrow> bool \<Rightarrow> ('w, string) io"
  zk_ensure_path :: "string \<Rightarrow> ('w, bool) io"
  zk_exists :: "string \<Rightarrow> ('w, znode_stat option) io"
  zk_exists_w :: "string \<Rightarrow> ('w, znode_stat option) io"
  zk_get :: "string \<Rightarrow> ('w, bytes option \<times> znode_stat) io"
  zk_get_w :: "string \<Rightarrow> ('w, bytes option \<times> znode_stat) io"
  zk_get_children :: "string \<Rightarrow> ('w, string list) io"
  zk_get_children_w :: "string \<Rightarrow> ('w, string list) io"
  zk_set :: "string \<Rightarrow> bytes \<Rightarrow> int \<Rightarrow> ('w, znode_stat) io"
  zk_delete :: "string \<Rightarrow> ('w, unit) io"
  zk_sync :: "string \<Rightarrow> ('w, string) io"
  zk_transaction :: "tx_op list \<Rightarrow> ('w, txn_result list) io"
  zk_retry :: "'w retry_env"

text \<open>\<open>client.retry(func)\<close>: a copy of the command retry runs the function.\<close>

definition io_retry :: "'w zk \<Rightarrow> retry \<Rightarrow> ('w, 'a) io \<Rightarrow> ('w, 'a) io" where
  "io_retry zk r func w =
     map_option (\<lambda>(res, r, w). (res, w)) (retry_call_partial (zk_retry zk) (retry_copy r) func w)"

text \<open>The exceptions that the recipes catch by class.\<close>

definition is_no_node :: "exc \<Rightarrow> bool" where "is_no_node e \<longleftrightarrow> e = ZkErr NoNodeError"
definition is_node_exists :: "exc \<Rightarrow> bool" where "is_node_exists e \<longleftrightarrow> e = ZkErr NodeExistsError"
definition is_bad_version :: "exc \<Rightarrow> bool" where "is_bad_version e \<longleftrightarrow> e = ZkErr BadVersionError"

section \<open>Objects\<close>

text \<open>
  A method of an object acts on the object's state beside the world: \<open>io_lift\<close> runs an
  operation of the world, \<open>io_self\<close> reads the object, \<open>io_modify\<close> changes it.
\<close>

definition io_lift :: "('w, 'a) io \<Rightarrow> ('s \<times> 'w, 'a) io" where
  "io_lift m sw = map_option (\<lambda>(r, w). (r, (fst sw, w))) (m (snd sw))"

definition io_self :: "('s \<times> 'w, 's) io" where
  "io_self sw = Some (Inr (fst sw), sw)"

definition io_modify :: "('s \<Rightarrow> 's) \<Rightarrow> ('s \<times> 'w, unit) io" where
  "io_modify g sw = Some (Inr (), (g (fst sw), snd sw))"

text \<open>A change of the world that cannot fail, and a question to it.\<close>

definition io_world :: "('w \<Rightarrow> 'w) \<Rightarrow> ('s \<times> 'w, unit) io" where
  "io_world g sw = Some (Inr (), (fst sw, g (snd sw)))"

definition io_ask :: "('w \<Rightarrow> 'a) \<Rightarrow> ('s \<times> 'w, 'a) io" where
  "io_ask g sw = Some (Inr (g (snd sw)), sw)"

definition lift_env :: "'w retry_env \<Rightarrow> ('s \<times> 'w) retry_env" where
  "lift_env env = \<lparr>
     env_monotonic = (\<lambda>(s, w). case env_monotonic env w of (t, w) \<Rightarrow> (t, (s, w))),
     env_uniform = (\<lambda>lo hi (s, w). case env_uniform env lo hi w of (u, w) \<Rightarrow> (u, (s, w))),
     env_sleep = (\<lambda>t (s, w). (s, env_sleep env t w)),
     env_interrupt = map_option (\<lambda>i (s, w). case i w of (b, w) \<Rightarrow> (b, (s, w))) (env_interrupt env)\<rparr>"

definition io_retry_self :: "'w zk \<Rightarrow> retry \<Rightarrow> ('s \<times> 'w, 'a) io \<Rightarrow> ('s \<times> 'w, 'a) io" where
  "io_retry_self zk r func sw =
     map_option (\<lambda>(res, r, sw). (res, sw)) (retry_call_partial (lift_env (zk_retry zk)) r func sw)"

lemma io_self_simps [simp]:
  "io_self (s, w) = Some (Inr s, (s, w))"
  "io_modify g (s, w) = Some (Inr (), (g s, w))"
  "io_world h (s, w) = Some (Inr (), (s, h w))"
  "io_ask k (s, w) = Some (Inr (k w), (s, w))"
  by (simp_all add: io_self_def io_modify_def io_world_def io_ask_def)

lemma io_lift_Some [simp]:
  "m w = Some (r, w') \<Longrightarrow> io_lift m (s, w) = Some (r, (s, w'))"
  "m w = None \<Longrightarrow> io_lift m (s, w) = None"
  by (simp_all add: io_lift_def)

lemma io_lift_eq: "io_lift m (s, w) = Some (r, (s', w')) \<longleftrightarrow> m w = Some (r, w') \<and> s' = s"
  by (auto simp: io_lift_def)

text \<open>
  An object that lives for one computation: \<open>io_new\<close> adds it to the state, \<open>io_fst\<close> and
  \<open>io_snd\<close> run a method of the new and of the old object.
\<close>

definition io_fst :: "('t \<times> 'w, 'a) io \<Rightarrow> (('t \<times> 's) \<times> 'w, 'a) io" where
  "io_fst m tsw = map_option (\<lambda>(r, (t, w)). (r, ((t, snd (fst tsw)), w))) (m (fst (fst tsw), snd tsw))"

definition io_snd :: "('s \<times> 'w, 'a) io \<Rightarrow> (('t \<times> 's) \<times> 'w, 'a) io" where
  "io_snd m tsw = map_option (\<lambda>(r, (s, w)). (r, ((fst (fst tsw), s), w))) (m (snd (fst tsw), snd tsw))"

definition io_new :: "'t \<Rightarrow> (('t \<times> 's) \<times> 'w, 'a) io \<Rightarrow> ('s \<times> 'w, 'a) io" where
  "io_new t m sw = map_option (\<lambda>(r, ((t, s), w)). (r, (s, w))) (m ((t, fst sw), snd sw))"

text \<open>What is left of a duration that started at the given time.\<close>

definition leftover :: "'w zk \<Rightarrow> rat option \<Rightarrow> rat \<Rightarrow> ('w, rat option) io" where
  "leftover zk duration started w =
     (case duration of
        None \<Rightarrow> Some (Inr None, w)
      | Some d \<Rightarrow> (case env_monotonic (zk_retry zk) w of (now, w) \<Rightarrow> Some (Inr (Some (max 0 (d - (now - started)))), w)))"

definition io_monotonic :: "'w zk \<Rightarrow> ('w, rat) io" where
  "io_monotonic zk w = (case env_monotonic (zk_retry zk) w of (now, w) \<Rightarrow> Some (Inr now, w))"

lemma io_objects_Some [simp]:
  "m (t, w) = Some (r, (t', w')) \<Longrightarrow> io_fst m ((t, s), w) = Some (r, ((t', s), w'))"
  "n (s, w) = Some (r, (s', w')) \<Longrightarrow> io_snd n ((t, s), w) = Some (r, ((t, s'), w'))"
  "k ((t, s), w) = Some (r, ((t', s'), w')) \<Longrightarrow> io_new t k (s, w) = Some (r, (s', w'))"
  by (simp_all add: io_fst_def io_snd_def io_new_def)

end
