(* ===== verification/Lock.thy ===== *)
theory Lock
  imports World "HOL-Library.List_Lexorder" "HOL-Library.Char_ord"
begin

text \<open>
  \<^verbatim>\<open>kazoo/recipe/lock.py\<close>: \<^verbatim>\<open>Lock\<close> with its read and write variants. The contender names
  and the regular expression that recognises them, \<^verbatim>\<open>_get_predecessor\<close>, the acquire loop,
  release and the list of contenders. Strings are compared the way Python compares them.
\<close>

section \<open>Contender names\<close>

definition is_digit :: "char \<Rightarrow> bool" where
  "is_digit c \<longleftrightarrow> CHR ''0'' \<le> c \<and> c \<le> CHR ''9''"

text \<open>
  The end of a name that the expression \<^verbatim>\<open>(-?\d{10})$\<close> matches. (A node name has no line
  end, which ZooKeeper rejects.)
\<close>

definition is_sequence :: "string \<Rightarrow> bool" where
  "is_sequence s \<longleftrightarrow>
     (let d = (if s \<noteq> [] \<and> hd s = CHR ''-'' then tl s else s)
      in length d = 10 \<and> list_all is_digit d)"

text \<open>
  \<^verbatim>\<open>re.search\<close> of \<^verbatim>\<open>(?:p1|p2...)(-?\d{10})$\<close>: the leftmost position at which some pattern
  matches, the patterns in order; the value is the group, the sequence number. The patterns
  are literal names.
\<close>

definition match_here :: "string list \<Rightarrow> string \<Rightarrow> string option" where
  "match_here patterns s =
     map_option (\<lambda>p. drop (length p) s)
       (find (\<lambda>p. starts_with s p \<and> is_sequence (drop (length p) s)) patterns)"

fun contender_search :: "string list \<Rightarrow> string \<Rightarrow> string option" where
  "contender_search patterns [] = match_here patterns []"
| "contender_search patterns (c # s) =
     (case match_here patterns (c # s) of
        Some g \<Rightarrow> Some g
      | None \<Rightarrow> contender_search patterns s)"

section \<open>The predecessor\<close>

text \<open>The matches of the children in order, with their sequence numbers.\<close>

definition contender_matches :: "string list \<Rightarrow> string list \<Rightarrow> (string \<times> string) list" where
  "contender_matches patterns children =
     List.map_filter (\<lambda>child. map_option (\<lambda>g. (child, g)) (contender_search patterns child)) children"

text \<open>
  \<^verbatim>\<open>_get_predecessor\<close>, given the children: it must find its own node among them; of the
  contenders with a smaller sequence number it takes the last one in the sorted order.
\<close>

definition get_predecessor :: "string list \<Rightarrow> string \<Rightarrow> string list \<Rightarrow> string \<Rightarrow> exc + string option" where
  "get_predecessor patterns prefix children node =
     (let node_sequence = drop (length prefix) node;
          matches = List.filter (\<lambda>m. snd m < node_sequence) (contender_matches patterns children)
      in if node \<notin> set children then Inl ForceRetryError
         else if matches = [] then Inr None
         else Inr (Some (fst (last (sort_key snd matches)))))"

definition find_node :: "string \<Rightarrow> string list \<Rightarrow> string option" where
  "find_node prefix children = find (\<lambda>child. starts_with child prefix) children"

section \<open>The lock object\<close>

record lock =
  lk_path :: string
  lk_exclude_names :: "string list"
  lk_node_name :: string
  lk_prefix :: string
  lk_data :: bytes
  lk_node :: "string option"
  lk_create_tried :: bool
  lk_is_acquired :: bool
  lk_assured_path :: bool

text \<open>
  \<^verbatim>\<open>__init__\<close> of the three classes; \<open>uuid\<close> is the fresh hexadecimal identifier, \<open>data\<close> the
  encoded identifier of the contender.
\<close>

definition lock_new :: "string \<Rightarrow> string list \<Rightarrow> string list \<Rightarrow> string \<Rightarrow> bytes \<Rightarrow> string \<Rightarrow> lock" where
  "lock_new node_name exclude_names extra uuid data path =
     \<lparr>lk_path = path, lk_exclude_names = remdups (exclude_names @ extra), lk_node_name = node_name,
      lk_prefix = uuid @ node_name, lk_data = data, lk_node = None, lk_create_tried = False,
      lk_is_acquired = False, lk_assured_path = False\<rparr>"

definition lock_init :: "string list \<Rightarrow> string \<Rightarrow> bytes \<Rightarrow> string \<Rightarrow> lock" where
  "lock_init = lock_new ''__lock__'' [''__lock__'']"

definition write_lock_init :: "string list \<Rightarrow> string \<Rightarrow> bytes \<Rightarrow> string \<Rightarrow> lock" where
  "write_lock_init = lock_new ''__lock__'' [''__lock__'', ''__rlock__'']"

definition read_lock_init :: "string list \<Rightarrow> string \<Rightarrow> bytes \<Rightarrow> string \<Rightarrow> lock" where
  "read_lock_init = lock_new ''__rlock__'' [''__lock__'']"

text \<open>
  What the lock uses beside the client's operations: its wake event, which watches and
  listeners set, the cancellation flag, which another thread sets, the method lock, the session
  listener. \<open>le_wait\<close> waits until the event is set or the time is up and tells which.
\<close>

record 'w lock_env =
  le_zk :: "'w zk"
  le_retry :: retry
  le_clear :: "'w \<Rightarrow> 'w"
  le_wait :: "rat option \<Rightarrow> ('w, bool) io"
  le_cancelled :: "'w \<Rightarrow> bool"
  le_uncancel :: "'w \<Rightarrow> 'w"
  le_cancel :: "'w \<Rightarrow> 'w"
  le_add_listener :: "'w \<Rightarrow> 'w"
  le_remove_listener :: "'w \<Rightarrow> 'w"
  le_method_lock :: "bool \<Rightarrow> rat option \<Rightarrow> ('w, bool) io"
  le_method_unlock :: "'w \<Rightarrow> 'w"

section \<open>Acquiring\<close>

definition lock_ensure_path :: "'w lock_env \<Rightarrow> (lock \<times> 'w, unit) io" where
  "lock_ensure_path env =
     io_bind io_self (\<lambda>l.
     io_bind (io_lift (zk_ensure_path (le_zk env) (lk_path l))) (\<lambda>_.
       io_modify (\<lambda>l. l\<lparr>lk_assured_path := True\<rparr>)))"

definition lock_cancel :: "'w lock_env \<Rightarrow> (lock \<times> 'w, unit) io" where
  "lock_cancel env = io_world (le_cancel env)"

definition lock_predecessor :: "'w lock_env \<Rightarrow> string \<Rightarrow> (lock \<times> 'w, string option) io" where
  "lock_predecessor env node =
     io_bind io_self (\<lambda>l.
     io_bind (io_lift (zk_get_children (le_zk env) (lk_path l))) (\<lambda>children.
       case get_predecessor (lk_exclude_names l) (lk_prefix l) children node of
         Inl e \<Rightarrow> io_raise e
       | Inr p \<Rightarrow> io_return p))"

definition lock_find_node :: "'w lock_env \<Rightarrow> (lock \<times> 'w, string option) io" where
  "lock_find_node env =
     io_bind io_self (\<lambda>l.
     io_bind (io_lift (zk_get_children (le_zk env) (lk_path l))) (\<lambda>children.
       io_return (find_node (lk_prefix l) children)))"

text \<open>Watching the predecessor: gone already, or the event comes, or the wait times out.\<close>

definition wait_predecessor :: "'w lock_env \<Rightarrow> string \<Rightarrow> rat option \<Rightarrow> (lock \<times> 'w, unit) io" where
  "wait_predecessor env predecessor timeout =
     io_bind (io_world (le_add_listener env)) (\<lambda>_.
       io_finally
         (io_bind
            (io_catch (io_bind (io_lift (zk_get_w (le_zk env) predecessor)) (\<lambda>_. io_return True))
               is_no_node (\<lambda>_. io_return False))
            (\<lambda>exists.
               if \<not> exists then io_return ()
               else io_bind (io_lift (le_wait env timeout)) (\<lambda>is_set.
                   if is_set then io_return () else io_raise LockTimeout)))
         (io_world (le_remove_listener env)))"

partial_function (option) lock_loop ::
    "'w lock_env \<Rightarrow> string \<Rightarrow> bool \<Rightarrow> rat option \<Rightarrow> lock \<times> 'w \<Rightarrow> ((exc + bool) \<times> lock \<times> 'w) option" where
  "lock_loop env node blocking timeout lw =
     io_bind (io_world (le_clear env)) (\<lambda>_.
     io_bind (io_ask (le_cancelled env)) (\<lambda>cancelled lw.
       if cancelled then io_raise CancelledError lw
       else io_bind (lock_predecessor env node) (\<lambda>predecessor lw.
           case predecessor of
             None \<Rightarrow> io_return True lw
           | Some p \<Rightarrow>
               if \<not> blocking then io_return False lw
               else io_bind io_self (\<lambda>l.
                   io_bind (wait_predecessor env (lk_path l @ ''/'' @ p) timeout) (\<lambda>_.
                     lock_loop env node blocking timeout)) lw) lw)) lw"

definition inner_acquire :: "'w lock_env \<Rightarrow> bool \<Rightarrow> rat option \<Rightarrow> bool \<Rightarrow> (lock \<times> 'w, bool) io" where
  "inner_acquire env blocking timeout ephemeral =
     io_bind io_self (\<lambda>l.
       if lk_is_acquired l then (if \<not> blocking then io_return False else io_raise ForceRetryError)
       else
         io_bind (if lk_assured_path l then io_return () else lock_ensure_path env) (\<lambda>_.
         io_bind (if lk_create_tried l then lock_find_node env
                  else io_bind (io_modify (\<lambda>l. l\<lparr>lk_create_tried := True\<rparr>)) (\<lambda>_. io_return None)) (\<lambda>node.
         io_bind (case node of
             Some n \<Rightarrow> io_return n
           | None \<Rightarrow>
               io_bind (io_lift (zk_create (le_zk env) (lk_path l @ ''/'' @ lk_prefix l) (lk_data l)
                                   ephemeral True False)) (\<lambda>created.
                 io_return (drop (length (lk_path l) + 1) created))) (\<lambda>node.
         io_bind (io_modify (\<lambda>l. l\<lparr>lk_node := Some node\<rparr>)) (\<lambda>_.
           lock_loop env node blocking timeout)))))"

definition delete_node :: "'w lock_env \<Rightarrow> string \<Rightarrow> (lock \<times> 'w, unit) io" where
  "delete_node env node =
     io_bind io_self (\<lambda>l. io_lift (zk_delete (le_zk env) (lk_path l @ ''/'' @ node)))"

definition best_effort_cleanup :: "'w lock_env \<Rightarrow> (lock \<times> 'w, unit) io" where
  "best_effort_cleanup env =
     io_catch
       (io_bind io_self (\<lambda>l.
        io_bind (case lk_node l of Some n \<Rightarrow> io_return (Some n) | None \<Rightarrow> lock_find_node env) (\<lambda>node.
          case node of Some n \<Rightarrow> delete_node env n | None \<Rightarrow> io_return ())))
       is_kazoo_exception (\<lambda>_. io_return ())"

text \<open>
  \<^verbatim>\<open>acquire\<close>: the method lock is released in every case; a failed retry counts as not
  gotten; another exception of the library cleans up and is raised again.
\<close>

definition acquire_locked :: "'w lock_env \<Rightarrow> bool \<Rightarrow> rat option \<Rightarrow> bool \<Rightarrow> (lock \<times> 'w, bool) io" where
  "acquire_locked env blocking timeout ephemeral =
     io_bind io_self (\<lambda>l0.
     io_bind
       (io_catch
          (io_retry_self (le_zk env) ((retry_copy (le_retry env))\<lparr>deadline := timeout\<rparr>)
             (inner_acquire env blocking timeout ephemeral))
          is_kazoo_exception
          (\<lambda>e. if is_retry_failed e then io_return False
               else io_bind (if lk_is_acquired l0 then io_return ()
                             else io_bind (best_effort_cleanup env) (\<lambda>_. io_world (le_uncancel env)))
                      (\<lambda>_. io_raise e)))
       (\<lambda>gotten.
          io_bind (if gotten then io_modify (\<lambda>l. l\<lparr>lk_is_acquired := True\<rparr>) else io_return ()) (\<lambda>_.
          io_bind (if \<not> gotten \<and> \<not> lk_is_acquired l0 then best_effort_cleanup env else io_return ()) (\<lambda>_.
            io_return gotten))))"

definition acquire :: "'w lock_env \<Rightarrow> bool \<Rightarrow> rat option \<Rightarrow> bool \<Rightarrow> (lock \<times> 'w, bool) io" where
  "acquire env blocking timeout ephemeral =
     io_bind (io_lift (le_method_lock env blocking timeout)) (\<lambda>locked.
       if \<not> locked then io_return False
       else io_finally (acquire_locked env blocking timeout ephemeral) (io_world (le_method_unlock env)))"

section \<open>Releasing, and the contenders\<close>

definition inner_release :: "'w lock_env \<Rightarrow> (lock \<times> 'w, bool) io" where
  "inner_release env =
     io_bind io_self (\<lambda>l.
       if \<not> lk_is_acquired l then io_return False
       else
         io_bind (io_catch
             (case lk_node l of Some n \<Rightarrow> delete_node env n | None \<Rightarrow> io_raise PyTypeError)
             is_no_node (\<lambda>_. io_return ())) (\<lambda>_.
         io_bind (io_modify (\<lambda>l. l\<lparr>lk_is_acquired := False, lk_node := None\<rparr>)) (\<lambda>_.
           io_return True)))"

definition release :: "'w lock_env \<Rightarrow> retry \<Rightarrow> (lock \<times> 'w, bool) io" where
  "release env command_retry = io_retry_self (le_zk env) (retry_copy command_retry) (inner_release env)"

text \<open>The nodes of all contenders, this kind of lock included, in the order of their numbers.\<close>

definition contender_nodes :: "lock \<Rightarrow> string list \<Rightarrow> string list" where
  "contender_nodes l children =
     map fst (sort_key snd (contender_matches (remdups (lk_exclude_names l @ [lk_node_name l])) children))"

definition contenders :: "'w lock_env \<Rightarrow> (lock \<times> 'w, string list) io" where
  "contenders env =
     io_bind io_self (\<lambda>l.
     io_bind (if lk_assured_path l then io_return () else lock_ensure_path env) (\<lambda>_.
     io_bind (io_lift (zk_get_children (le_zk env) (lk_path l))) (\<lambda>children.
     io_bind (io_map (\<lambda>node.
         io_catch
           (io_bind (io_lift (zk_get (le_zk env) (lk_path l @ ''/'' @ node))) (\<lambda>r.
              case fst r of
                None \<Rightarrow> io_return []
              | Some data \<Rightarrow>
                  io_bind (io_sum (decode_utf8 data)) (\<lambda>identifier. io_return [identifier])))
           is_no_node (\<lambda>_. io_return []))
       (contender_nodes l children)) (\<lambda>datas. io_return (concat datas)))))"

end
