(* ===== verification/LockProps.thy ===== *)
theory LockProps
  imports Lock States
begin

text \<open>
  Why the lock excludes: the order of the contenders' names is the order of their sequence
  numbers, \<^verbatim>\<open>_get_predecessor\<close> finds the right contender, and in every interleaving of
  contenders, releases and expired sessions two holders are compatible.
\<close>

section \<open>Sequence numbers\<close>

text \<open>The ten digits that the server appends to the name of a sequential node.\<close>

fun decimal :: "nat \<Rightarrow> nat \<Rightarrow> string" where
  "decimal 0 n = []"
| "decimal (Suc k) n = char_of (48 + n div 10 ^ k mod 10) # decimal k n"

definition seq_string :: "nat \<Rightarrow> string" where
  "seq_string n = decimal 10 n"

lemma length_decimal [simp]: "length (decimal k n) = k"
  by (induction k) simp_all

lemma digit_char: "d < 10 \<Longrightarrow> (of_char (char_of (48 + d)) :: nat) = 48 + d"
  by (simp add: of_char_of)

lemma is_digit_char: "d < 10 \<Longrightarrow> is_digit (char_of (48 + d :: nat))"
  by (simp add: is_digit_def less_eq_char_def digit_char)

lemma decimal_digits: "list_all is_digit (decimal k n)"
  by (induction k) (simp_all add: is_digit_char)

lemma lex_split:
  fixes p :: nat
  assumes "x < p" and "y < p"
  shows "p * a + x < p * b + y \<longleftrightarrow> a < b \<or> a = b \<and> x < y"
proof -
  have less: "p * c + u < p * d + v" if "c < d" "u < p" for c d u v :: nat
  proof -
    have "p * c + p \<le> p * d" using that(1) mult_le_mono2 [of "Suc c" d p] by simp
    with that(2) show ?thesis by linarith
  qed
  show ?thesis
    using less [of a b x y] less [of b a y x] assms by (cases a b rule: linorder_cases) auto
qed

lemma decimal_less_mod:
  "decimal k m < decimal k n \<longleftrightarrow> m mod 10 ^ k < n mod 10 ^ k"
proof (induction k)
  case (Suc k)
  let ?a = "m div 10 ^ k mod 10" and ?b = "n div 10 ^ k mod 10"
  have "m mod 10 ^ Suc k < n mod 10 ^ Suc k \<longleftrightarrow>
      ?a < ?b \<or> ?a = ?b \<and> m mod 10 ^ k < n mod 10 ^ k"
    unfolding power_Suc2 mod_mult2_eq by (rule lex_split) simp_all
  moreover have "char_of (48 + ?a) < (char_of (48 + ?b) :: char) \<longleftrightarrow> ?a < ?b"
    by (simp add: less_char_def digit_char)
  moreover have "char_of (48 + ?a) = (char_of (48 + ?b) :: char) \<longleftrightarrow> ?a = ?b"
    using digit_char [of ?a] digit_char [of ?b] by (metis add_left_cancel mod_less_divisor zero_less_numeral)
  ultimately show ?case by (simp add: Suc.IH)
qed simp

lemma decimal_less_iff: "m < 10 ^ k \<Longrightarrow> n < 10 ^ k \<Longrightarrow> decimal k m < decimal k n \<longleftrightarrow> m < n"
  by (simp add: decimal_less_mod)

lemma decimal_inj: "m < 10 ^ k \<Longrightarrow> n < 10 ^ k \<Longrightarrow> decimal k m = decimal k n \<longleftrightarrow> m = n"
  using decimal_less_iff [of m k n] decimal_less_iff [of n k m] by (metis less_irrefl nat_neq_iff)

lemma is_sequence_decimal: "is_sequence (seq_string n)"
proof -
  have "\<not> is_digit (CHR ''-'')" by (simp add: is_digit_def less_eq_char_def)
  moreover have "list_all is_digit (seq_string n)" "length (seq_string n) = 10"
    by (simp_all add: seq_string_def decimal_digits del: decimal.simps)
  ultimately show ?thesis
    by (cases "seq_string n") (auto simp: is_sequence_def Let_def)
qed

section \<open>Recognising contenders\<close>

lemma match_here_Some:
  "match_here ps s = Some g \<Longrightarrow> \<exists>p \<in> set ps. s = p @ g \<and> is_sequence g"
  by (auto simp: match_here_def find_Some_iff starts_with_iff)

lemma match_here_ex: "p \<in> set ps \<Longrightarrow> is_sequence g \<Longrightarrow> match_here ps (p @ g) \<noteq> None"
  unfolding match_here_def by (simp add: find_None_iff) (intro exI [of _ p] conjI; simp)

lemma contender_search_suffix:
  "contender_search ps s = Some g \<Longrightarrow> \<exists>u. \<exists>p \<in> set ps. s = u @ p @ g \<and> is_sequence g"
proof (induction s)
  case Nil
  then show ?case using match_here_Some [of ps "[]" g] by auto
next
  case (Cons c s)
  show ?case
  proof (cases "match_here ps (c # s)")
    case None
    with Cons show ?thesis by simp (metis append_Cons)
  next
    case (Some h)
    with Cons.prems match_here_Some [OF Some] show ?thesis by (auto intro: exI [of _ "[]"])
  qed
qed

lemma contender_search_ex:
  "p \<in> set ps \<Longrightarrow> is_sequence g \<Longrightarrow> contender_search ps (u @ p @ g) \<noteq> None"
proof (induction u)
  case Nil
  then have "match_here ps (p @ g) \<noteq> None" by (rule match_here_ex)
  then show ?case by (cases "p @ g") auto
qed (auto split: option.splits)

lemma sequence_suffix_unique:
  assumes "is_sequence g" and "s @ seq_string n = t @ g" and "s \<noteq> []" and "last s \<noteq> CHR ''-''"
  shows "g = seq_string n"
proof -
  have len: "length (seq_string n) = 10" by (simp add: seq_string_def del: decimal.simps)
  have g: "length g = 10 \<or> length g = 11 \<and> hd g = CHR ''-''"
    using assms(1) by (cases g) (auto simp: is_sequence_def Let_def split: if_splits)
  then show ?thesis
  proof
    assume "length g = 10"
    with assms(2) len show ?thesis by (simp add: append_eq_append_conv)
  next
    assume g: "length g = 11 \<and> hd g = CHR ''-''"
    obtain s' c where s: "s = s' @ [c]" using assms(3) by (metis rev_exhaust)
    have "s' @ (c # seq_string n) = t @ g" using assms(2) s by simp
    then have "g = c # seq_string n" using g len by (simp add: append_eq_append_conv)
    with g assms(4) s show ?thesis by simp
  qed
qed

text \<open>A contender's name: any identifier, a name the lock looks for, the ten digits.\<close>

lemma contender_search_name:
  assumes "p \<in> set ps" and "p \<noteq> []" and "last p \<noteq> CHR ''-''"
  shows "contender_search ps (u @ p @ seq_string n) = Some (seq_string n)"
proof -
  obtain g where g: "contender_search ps (u @ p @ seq_string n) = Some g"
    using contender_search_ex [OF assms(1) is_sequence_decimal, of u n] by blast
  from contender_search_suffix [OF this] obtain v q where
    "(u @ p) @ seq_string n = (v @ q) @ g" "is_sequence g" by auto
  then have "g = seq_string n"
    by (intro sequence_suffix_unique [of g "u @ p" n "v @ q"]) (use assms in auto)
  with g show ?thesis by simp
qed

section \<open>The predecessor\<close>

text \<open>
  A contender as the server names it: an arbitrary identifier, the kind's name, the number.
\<close>

definition contender_name :: "string \<Rightarrow> string \<Rightarrow> nat \<Rightarrow> string" where
  "contender_name uuid name n = (uuid @ name) @ seq_string n"

definition good_names :: "string list \<Rightarrow> bool" where
  "good_names ps \<longleftrightarrow> list_all (\<lambda>p. p \<noteq> [] \<and> last p \<noteq> CHR ''-'') ps"

lemma contender_matches_iff:
  "(child, g) \<in> set (contender_matches ps children) \<longleftrightarrow>
     child \<in> set children \<and> contender_search ps child = Some g"
  by (force simp: contender_matches_def List.map_filter_def)

lemma last_sort_key_max:
  fixes f :: "'a \<Rightarrow> 'b :: linorder"
  assumes "xs \<noteq> []"
  shows "last (sort_key f xs) \<in> set xs \<and> (\<forall>x \<in> set xs. f x \<le> f (last (sort_key f xs)))"
proof -
  let ?ys = "sort_key f xs"
  have ne: "?ys \<noteq> []" using assms by (metis length_sort list.size(3) length_0_conv)
  have srt: "sorted (map f ?ys)" by (rule sorted_sort_key)
  have "f x \<le> f (last ?ys)" if x: "x \<in> set ?ys" for x
  proof -
    obtain i where i: "i < length ?ys" "x = ?ys ! i" using x unfolding in_set_conv_nth by metis
    have "map f ?ys ! i \<le> map f ?ys ! (length ?ys - 1)"
      by (rule sorted_nth_mono [OF srt]) (use i in auto)
    with i ne show ?thesis by (simp add: last_conv_nth)
  qed
  then show ?thesis using last_in_set [OF ne] by simp
qed

lemma contender_search_contender:
  "good_names ps \<Longrightarrow> p \<in> set ps \<Longrightarrow> contender_search ps (contender_name u p m) = Some (seq_string m)"
  using contender_search_name [of p ps u m] by (simp add: contender_name_def good_names_def list_all_iff)

lemma seq_string_less: "m < 10 ^ 10 \<Longrightarrow> n < 10 ^ 10 \<Longrightarrow> seq_string m < seq_string n \<longleftrightarrow> m < n"
  unfolding seq_string_def by (rule decimal_less_iff)

lemma seq_string_le: "m < 10 ^ 10 \<Longrightarrow> n < 10 ^ 10 \<Longrightarrow> seq_string m \<le> seq_string n \<longleftrightarrow> m \<le> n"
  using seq_string_less [of n m] by (simp add: not_less [symmetric])

text \<open>A contender of an excluding kind with a smaller number keeps the lock from being free.\<close>

lemma get_predecessor_blocked:
  assumes "good_names ps" and "p \<in> set ps" and "contender_name u p m \<in> set children"
    and "m < n" and "n < 10 ^ 10"
  shows "get_predecessor ps pre children (pre @ seq_string n) \<noteq> Inr None"
proof -
  have "(contender_name u p m, seq_string m) \<in> set (contender_matches ps children)"
    using assms contender_search_contender by (simp add: contender_matches_iff)
  moreover have "seq_string m < seq_string n" using assms seq_string_less by simp
  ultimately have "List.filter (\<lambda>q. snd q < seq_string n) (contender_matches ps children) \<noteq> []"
    by (force simp: filter_empty_conv)
  then show ?thesis by (simp add: get_predecessor_def Let_def)
qed

text \<open>
  C12. \<^verbatim>\<open>_get_predecessor\<close> returns nothing exactly when no contender of an excluding kind has
  a smaller sequence number, and otherwise the one among them with the largest number; it
  raises when the lock's own node is gone. It holds for all sequence numbers that the ten
  digits can write.
\<close>

theorem get_predecessor_correct:
  assumes "good_names ps" and "n < 10 ^ 10" and "node = contender_name uuid name n"
    and "\<And>c. c \<in> set children \<Longrightarrow> contender_search ps c = None \<or>
      (\<exists>u p m. p \<in> set ps \<and> m < 10 ^ 10 \<and> c = contender_name u p m)"
  shows "case get_predecessor ps (uuid @ name) children node of
      Inl e \<Rightarrow> e = ForceRetryError \<and> node \<notin> set children
    | Inr None \<Rightarrow> (\<forall>u p m. p \<in> set ps \<and> m < 10 ^ 10 \<and> contender_name u p m \<in> set children \<longrightarrow> n \<le> m)
    | Inr (Some q) \<Rightarrow> (\<exists>u p m. p \<in> set ps \<and> m < n \<and> q = contender_name u p m \<and> q \<in> set children
        \<and> (\<forall>u' p' m'. p' \<in> set ps \<and> m' < n \<and> contender_name u' p' m' \<in> set children \<longrightarrow> m' \<le> m))"
proof -
  have drop: "drop (length uuid + length name) node = seq_string n"
    by (simp add: assms(3) contender_name_def)
  let ?ms = "List.filter (\<lambda>q. snd q < seq_string n) (contender_matches ps children)"
  let ?q = "last (sort_key snd ?ms)"
  consider "node \<notin> set children" | "node \<in> set children" "?ms = []"
    | "node \<in> set children" "?ms \<noteq> []" by blast
  then show ?thesis
  proof cases
    case 1
    then show ?thesis by (simp add: get_predecessor_def)
  next
    case 2
    then have none: "get_predecessor ps (uuid @ name) children node = Inr None"
      by (simp add: get_predecessor_def drop Let_def)
    have "n \<le> m" if "p \<in> set ps" "m < 10 ^ 10" "contender_name u p m \<in> set children" for u p m
      using get_predecessor_blocked [OF assms(1) that(1,3) _ assms(2), of "uuid @ name"] none
      by (metis assms(3) contender_name_def not_le)
    then show ?thesis by (auto simp: none)
  next
    case 3
    then have some: "get_predecessor ps (uuid @ name) children node = Inr (Some (fst ?q))"
      by (simp add: get_predecessor_def drop Let_def)
    have q: "?q \<in> set ?ms" "\<forall>x \<in> set ?ms. snd x \<le> snd ?q"
      using last_sort_key_max [OF 3(2), of snd] by blast+
    then have qc: "fst ?q \<in> set children" "contender_search ps (fst ?q) = Some (snd ?q)" "snd ?q < seq_string n"
      using contender_matches_iff [of "fst ?q" "snd ?q" ps children] by simp_all
    then obtain u p m where m: "p \<in> set ps" "m < 10 ^ 10" "fst ?q = contender_name u p m"
      using assms(4) by fastforce
    then have snd: "snd ?q = seq_string m"
      using qc(2) contender_search_contender [OF assms(1) m(1)] by simp
    have "m < n" using qc(3) snd seq_string_less [OF m(2) assms(2)] by simp
    moreover have "m' \<le> m"
      if "p' \<in> set ps" "m' < n" "contender_name u' p' m' \<in> set children" for u' p' m'
    proof -
      have "(contender_name u' p' m', seq_string m') \<in> set ?ms"
        using that assms(1,2) contender_search_contender seq_string_less [of m' n]
        by (simp add: contender_matches_iff)
      with q(2) snd have "seq_string m' \<le> seq_string m" by fastforce
      then show ?thesis using seq_string_le [of m' m] that(2) assms(2) m(2) by simp
    qed
    ultimately have "\<exists>u p m. p \<in> set ps \<and> m < n \<and> fst ?q = contender_name u p m \<and> fst ?q \<in> set children
        \<and> (\<forall>u' p' m'. p' \<in> set ps \<and> m' < n \<and> contender_name u' p' m' \<in> set children \<longrightarrow> m' \<le> m)"
      using m qc(1) by blast
    then show ?thesis by (simp add: some)
  qed
qed

lemma decimal_numeral:
  "decimal (numeral k) n = char_of (48 + n div 10 ^ pred_numeral k mod 10) # decimal (pred_numeral k) n"
  using decimal.simps(2) [of "pred_numeral k" n] by (simp only: numeral_eq_Suc [symmetric])

lemma seq_string_examples:
  "seq_string 0 = ''0000000000''" "seq_string 1 = ''0000000001''" "seq_string (Suc 0) = ''0000000001''"
  "seq_string 2 = ''0000000002''" "seq_string 3 = ''0000000003''"
  by (simp_all add: seq_string_def decimal_numeral char_of_def bit_0)

theorem get_predecessor_correct_witness:
  "get_predecessor [''__lock__''] (''c'' @ ''__lock__'')
     [''c__lock__0000000003'', ''a__lock__0000000001'', ''b__lock__0000000002'', ''x'']
     (contender_name ''c'' ''__lock__'' 3) = Inr (Some (contender_name ''b'' ''__lock__'' 2))"
proof -
  let ?cs = "[''c__lock__0000000003'', ''a__lock__0000000001'', ''b__lock__0000000002'', ''x'']"
  let ?ps = "[''__lock__'']"
  let ?g = "get_predecessor ?ps (''c'' @ ''__lock__'') ?cs (contender_name ''c'' ''__lock__'' 3)"
  have g: "good_names ?ps" by code_simp
  have names: "?cs ! 0 = contender_name ''c'' ''__lock__'' 3" "?cs ! 1 = contender_name ''a'' ''__lock__'' 1"
    "?cs ! 2 = contender_name ''b'' ''__lock__'' 2"
    by (simp_all add: contender_name_def seq_string_examples)
  have x: "contender_search ?ps ''x'' = None" by code_simp
  have wf: "contender_search ?ps c = None \<or> (\<exists>u p m. p \<in> set ?ps \<and> m < 10 ^ 10 \<and> c = contender_name u p m)"
    if "c \<in> set ?cs" for c
  proof -
    have ex: "\<exists>u' p m. p \<in> set ?ps \<and> m < 10 ^ 10 \<and> contender_name u ''__lock__'' k = contender_name u' p m"
      if "k < 10 ^ 10" for u k using that by auto
    have "c = ?cs ! 0 \<or> c = ?cs ! 1 \<or> c = ?cs ! 2 \<or> c = ''x''" using that by auto
    then show ?thesis unfolding names
    proof (elim disjE)
      assume "c = ''x''"
      with x show ?thesis by (simp only: simp_thms)
    qed (use ex [where k = 3 and u = "''c''"] ex [where k = 1 and u = "''a''"] ex [where k = 2 and u = "''b''"] in \<open>simp_all only: simp_thms\<close>, simp_all)
  qed
  have "?g = Inr (Some ''b__lock__0000000002'')"
    by (simp add: contender_name_def seq_string_examples) code_simp
  with get_predecessor_correct [OF g _ refl wf, where n = 3 and uuid = "''c''" and name = "''__lock__''"] names(3)
  show ?thesis by simp
qed

section \<open>Mutual exclusion\<close>

text \<open>
  The contenders for one lock path and the server. \<open>cfg i\<close> is the lock object of contender
  \<open>i\<close> (its prefix and the names it excludes do not change), \<open>ls_nodes i\<close> the node it created,
  \<open>ls_holds i\<close> its \<^verbatim>\<open>is_acquired\<close>. The server appends an increasing number to a sequential
  node and removes an ephemeral node when its session ends; the contender may learn of that
  much later. The decision to hold the lock is the code's \<open>get_predecessor\<close> on the children the
  server has at that moment.
\<close>

record lock_sys =
  ls_children :: "string list"
  ls_counter :: nat
  ls_nodes :: "nat \<Rightarrow> string option"
  ls_holds :: "nat \<Rightarrow> bool"

inductive lock_step :: "(nat \<Rightarrow> lock) \<Rightarrow> lock_sys \<Rightarrow> lock_sys \<Rightarrow> bool" for cfg where
  step_create:
    "ls_nodes s i = None \<Longrightarrow> ls_counter s < 10 ^ 10 \<Longrightarrow> node = lk_prefix (cfg i) @ seq_string (ls_counter s) \<Longrightarrow>
     lock_step cfg s (s\<lparr>ls_children := ls_children s @ [node], ls_counter := ls_counter s + 1,
       ls_nodes := (ls_nodes s)(i := Some node)\<rparr>)"
| step_check:
    "ls_nodes s i = Some node \<Longrightarrow>
     get_predecessor (lk_exclude_names (cfg i)) (lk_prefix (cfg i)) (ls_children s) node = Inr None \<Longrightarrow>
     lock_step cfg s (s\<lparr>ls_holds := (ls_holds s)(i := True)\<rparr>)"
| step_delete:
    "ls_nodes s i = Some node \<Longrightarrow>
     lock_step cfg s (s\<lparr>ls_children := removeAll node (ls_children s), ls_nodes := (ls_nodes s)(i := None),
       ls_holds := (ls_holds s)(i := False)\<rparr>)"
| step_expire:
    "ls_nodes s i = Some node \<Longrightarrow>
     lock_step cfg s (s\<lparr>ls_children := removeAll node (ls_children s)\<rparr>)"
| step_foreign:
    "(\<And>i node. ls_nodes s i = Some node \<Longrightarrow> node \<in> set children \<longleftrightarrow> node \<in> set (ls_children s)) \<Longrightarrow>
     lock_step cfg s (s\<lparr>ls_children := children\<rparr>)"

inductive_cases lock_stepE: "lock_step cfg s s'"

text \<open>
  What the constructors of the lock classes establish: the prefix ends with the kind's name,
  and no name ends with a dash. A holder whose node is gone has lost the lock, whatever its
  flag says.
\<close>

definition cfg_ok :: "(nat \<Rightarrow> lock) \<Rightarrow> bool" where
  "cfg_ok cfg \<longleftrightarrow> (\<forall>i. (\<exists>uuid. lk_prefix (cfg i) = uuid @ lk_node_name (cfg i))
     \<and> good_names (lk_exclude_names (cfg i)))"

definition live_holder :: "lock_sys \<Rightarrow> nat \<Rightarrow> bool" where
  "live_holder s i \<longleftrightarrow> ls_holds s i \<and> (\<exists>node. ls_nodes s i = Some node \<and> node \<in> set (ls_children s))"

definition lock_start :: "lock_sys \<Rightarrow> bool" where
  "lock_start s \<longleftrightarrow> ls_nodes s = (\<lambda>_. None) \<and> ls_holds s = (\<lambda>_. False)"

definition numbered :: "(nat \<Rightarrow> lock) \<Rightarrow> lock_sys \<Rightarrow> nat \<Rightarrow> nat \<Rightarrow> bool" where
  "numbered cfg s i k \<longleftrightarrow> ls_nodes s i = Some (lk_prefix (cfg i) @ seq_string k) \<and> k < 10 ^ 10"

definition lock_inv :: "(nat \<Rightarrow> lock) \<Rightarrow> lock_sys \<Rightarrow> bool" where
  "lock_inv cfg s \<longleftrightarrow>
     (\<forall>i. ls_holds s i \<longrightarrow> ls_nodes s i \<noteq> None)
   \<and> (\<forall>i node. ls_nodes s i = Some node \<longrightarrow> (\<exists>k < ls_counter s. numbered cfg s i k))
   \<and> (\<forall>i j k. numbered cfg s i k \<longrightarrow> numbered cfg s j k \<longrightarrow> i = j)
   \<and> (\<forall>i j m n. live_holder s i \<longrightarrow> numbered cfg s i n \<longrightarrow> numbered cfg s j m \<longrightarrow> m < n \<longrightarrow>
        lk_prefix (cfg j) @ seq_string m \<in> set (ls_children s) \<longrightarrow>
        lk_node_name (cfg j) \<notin> set (lk_exclude_names (cfg i)))"

lemma seq_string_inj: "m < 10 ^ 10 \<Longrightarrow> n < 10 ^ 10 \<Longrightarrow> seq_string m = seq_string n \<longleftrightarrow> m = n"
  unfolding seq_string_def by (rule decimal_inj)

lemma numbered_unique: "numbered cfg s i m \<Longrightarrow> numbered cfg s i n \<Longrightarrow> m = n"
  using seq_string_inj by (auto simp: numbered_def)

lemma length_seq_string [simp]: "length (seq_string n) = 10"
  by (simp add: seq_string_def del: decimal.simps)

lemma numbered_same_node:
  "ls_nodes s i = Some node \<Longrightarrow> ls_nodes s j = Some node \<Longrightarrow> numbered cfg s i m \<Longrightarrow> numbered cfg s j n \<Longrightarrow> m = n"
  using seq_string_inj [of m n] by (auto simp: numbered_def append_eq_append_conv)

lemma lock_inv_shrink:
  assumes "lock_inv cfg s" and "ls_counter s' = ls_counter s"
    and "\<And>i. ls_nodes s' i = None \<or> ls_nodes s' i = ls_nodes s i"
    and "\<And>i. ls_holds s' i \<Longrightarrow> ls_holds s i \<and> ls_nodes s' i = ls_nodes s i"
    and "\<And>i node. ls_nodes s' i = Some node \<Longrightarrow> node \<in> set (ls_children s') \<Longrightarrow> node \<in> set (ls_children s)"
  shows "lock_inv cfg s'"
proof -
  have num: "numbered cfg s i k" if "numbered cfg s' i k" for i k
    using that assms(3) [of i] by (auto simp: numbered_def)
  have live: "live_holder s i" if lv: "live_holder s' i" for i
  proof -
    obtain node where "ls_holds s' i" "ls_nodes s' i = Some node" "node \<in> set (ls_children s')"
      using lv by (auto simp: live_holder_def)
    with assms(4) [of i] assms(5) [of i node] show ?thesis unfolding live_holder_def by metis
  qed
  have keep: "ls_nodes s i = Some node" if "ls_nodes s' i = Some node" for i node
    using that assms(3) [of i] by auto
  have num': "numbered cfg s' i k" if "ls_nodes s' i = Some node" "numbered cfg s i k" for i node k
    using that keep [OF that(1)] by (simp add: numbered_def)
  have a: "ls_nodes s' i \<noteq> None" if "ls_holds s' i" for i
    using assms(1) assms(4) [OF that] by (simp add: lock_inv_def)
  have b: "\<exists>k < ls_counter s'. numbered cfg s' i k" if "ls_nodes s' i = Some node" for i node
  proof -
    have "\<exists>k < ls_counter s. numbered cfg s i k" using assms(1) keep [OF that] unfolding lock_inv_def by blast
    then show ?thesis using num' [OF that] assms(2) by auto
  qed
  have c: "i = j" if "numbered cfg s' i k" "numbered cfg s' j k" for i j k
    using assms(1) num [OF that(1)] num [OF that(2)] unfolding lock_inv_def by blast
  have d: "lk_node_name (cfg j) \<notin> set (lk_exclude_names (cfg i))"
    if "live_holder s' i" "numbered cfg s' i n" "numbered cfg s' j m" "m < n"
      "lk_prefix (cfg j) @ seq_string m \<in> set (ls_children s')" for i j m n
  proof -
    have "lk_prefix (cfg j) @ seq_string m \<in> set (ls_children s)"
      using that(3,5) assms(5) [of j] by (simp add: numbered_def)
    then show ?thesis
      using assms(1) live [OF that(1)] num [OF that(2)] num [OF that(3)] that(4)
      unfolding lock_inv_def by blast
  qed
  show ?thesis unfolding lock_inv_def using a b c d by blast
qed

lemma lock_step_inv:
  assumes "lock_step cfg s s'" and "lock_inv cfg s" and cfg: "cfg_ok cfg"
  shows "lock_inv cfg s'"
  using assms(1)
proof cases
  case (step_create i node)
  let ?c = "ls_counter s"
  have num: "numbered cfg s' j k \<longleftrightarrow> (if j = i then k = ?c else numbered cfg s j k)" for j k
    using step_create seq_string_inj [of k ?c] by (auto simp: numbered_def)
  have below: "k < ?c" if "numbered cfg s j k" for j k
    using that assms(2) numbered_unique unfolding lock_inv_def numbered_def by blast
  have fresh: "lk_prefix (cfg j) @ seq_string k \<noteq> node" if "numbered cfg s j k" for j k
    using that below [OF that] step_create seq_string_inj [of k ?c]
    by (auto simp: append_eq_append_conv numbered_def)
  have live: "j \<noteq> i \<and> live_holder s j" if lv: "live_holder s' j" for j
  proof -
    have "ls_holds s j" using lv step_create by (simp add: live_holder_def)
    then have j: "j \<noteq> i" using assms(2) step_create by (auto simp: lock_inv_def)
    obtain n where n: "ls_nodes s' j = Some n" "n \<in> set (ls_children s')"
      using lv by (auto simp: live_holder_def)
    then have nj: "ls_nodes s j = Some n" using j step_create by simp
    then obtain k where "numbered cfg s j k" using assms(2) unfolding lock_inv_def by blast
    with n nj fresh [of j k] have "n \<in> set (ls_children s)"
      using step_create by (auto simp: numbered_def)
    with nj show ?thesis using \<open>ls_holds s j\<close> j by (auto simp: live_holder_def)
  qed
  have "ls_holds s' j \<longrightarrow> ls_nodes s' j \<noteq> None" for j
    using assms(2) step_create by (auto simp: lock_inv_def)
  moreover have "\<exists>k < ls_counter s'. numbered cfg s' j k" if "ls_nodes s' j = Some n" for j n
  proof (cases "j = i")
    case False
    then have "ls_nodes s j = Some n" using that step_create by simp
    then obtain k where "k < ?c" "numbered cfg s j k" using assms(2) by (auto simp: lock_inv_def)
    then show ?thesis using False num step_create by (intro exI [of _ k]) simp
  qed (use num step_create in \<open>auto\<close>)
  moreover have "j = l" if "numbered cfg s' j k" "numbered cfg s' l k" for j l k
    using that below [of j k] below [of l k] assms(2) unfolding num lock_inv_def
    by (metis less_irrefl)
  moreover have "lk_node_name (cfg l) \<notin> set (lk_exclude_names (cfg j))"
    if "live_holder s' j" "numbered cfg s' j n" "numbered cfg s' l m" "m < n"
      "lk_prefix (cfg l) @ seq_string m \<in> set (ls_children s')" for j l m n
  proof -
    have j: "j \<noteq> i" "live_holder s j" using live [OF that(1)] by auto
    then have n: "numbered cfg s j n" using that(2) num by simp
    then have "l \<noteq> i" using that(3,4) num [of l m] below [of j n] by auto
    then have l: "numbered cfg s l m" using that(3) num by simp
    then have "lk_prefix (cfg l) @ seq_string m \<in> set (ls_children s)"
      using that(5) fresh [OF l] step_create by auto
    then show ?thesis using assms(2) j n l that(4) unfolding lock_inv_def by blast
  qed
  ultimately show ?thesis unfolding lock_inv_def by blast
next
  case (step_check i node)
  have num: "numbered cfg s' j k \<longleftrightarrow> numbered cfg s j k" for j k
    using step_check by (simp add: numbered_def)
  have new: "lk_node_name (cfg l) \<notin> set (lk_exclude_names (cfg i))"
    if "numbered cfg s i n" "numbered cfg s l m" "m < n"
      "lk_prefix (cfg l) @ seq_string m \<in> set (ls_children s)" for l m n
  proof
    assume bad: "lk_node_name (cfg l) \<in> set (lk_exclude_names (cfg i))"
    obtain u where "lk_prefix (cfg l) = u @ lk_node_name (cfg l)" using cfg by (auto simp: cfg_ok_def)
    then have child: "contender_name u (lk_node_name (cfg l)) m \<in> set (ls_children s)"
      using that(4) by (simp add: contender_name_def)
    have "node = lk_prefix (cfg i) @ seq_string n" "n < 10 ^ 10"
      using that(1) step_check by (auto simp: numbered_def)
    then show False
      using get_predecessor_blocked [OF _ bad child that(3), of "lk_prefix (cfg i)"] cfg step_check
      by (simp add: cfg_ok_def)
  qed
  have old: "live_holder s j" if "live_holder s' j" "j \<noteq> i" for j
    using that step_check by (simp add: live_holder_def)
  have same: "ls_children s' = ls_children s" "ls_counter s' = ls_counter s" "ls_nodes s' = ls_nodes s"
    using step_check by simp_all
  have holds: "ls_holds s' j \<longrightarrow> ls_nodes s j \<noteq> None" for j
    using assms(2) step_check by (auto simp: lock_inv_def)
  have excl: "lk_node_name (cfg l) \<notin> set (lk_exclude_names (cfg j))"
    if "live_holder s' j" "numbered cfg s j n" "numbered cfg s l m" "m < n"
      "lk_prefix (cfg l) @ seq_string m \<in> set (ls_children s)" for j l m n
  proof (cases "j = i")
    case True
    with that new show ?thesis by blast
  next
    case False
    with that old assms(2) show ?thesis unfolding lock_inv_def by blast
  qed
  have "(\<forall>i node. ls_nodes s i = Some node \<longrightarrow> (\<exists>k<ls_counter s. numbered cfg s i k))"
    "(\<forall>i j k. numbered cfg s i k \<longrightarrow> numbered cfg s j k \<longrightarrow> i = j)"
    using assms(2) unfolding lock_inv_def by blast+
  then show ?thesis unfolding lock_inv_def num same using holds excl by blast
next
  case (step_delete i node)
  show ?thesis by (rule lock_inv_shrink [OF assms(2)]) (use step_delete in \<open>auto split: if_splits\<close>)
next
  case (step_expire i node)
  show ?thesis by (rule lock_inv_shrink [OF assms(2)]) (use step_expire in auto)
next
  case (step_foreign children)
  show ?thesis by (rule lock_inv_shrink [OF assms(2)]) (use step_foreign in auto)
qed

interpretation lock_system: relation_invariant "lock_step cfg" "\<lambda>s. cfg_ok cfg \<and> lock_inv cfg s" for cfg
  by unfold_locales (use lock_step_inv in blast)

lemma lock_start_inv: "lock_start s \<Longrightarrow> lock_inv cfg s"
  by (simp add: lock_start_def lock_inv_def numbered_def)

text \<open>Of two live holders the later one does not exclude the kind of the earlier one.\<close>

lemma live_holders_compatible:
  assumes inv: "lock_inv cfg s" and "live_holder s i" and "live_holder s j" and "i \<noteq> j"
  shows "lk_node_name (cfg j) \<notin> set (lk_exclude_names (cfg i))
    \<or> lk_node_name (cfg i) \<notin> set (lk_exclude_names (cfg j))"
proof -
  obtain ni nj where nodes: "ls_nodes s i = Some ni" "ni \<in> set (ls_children s)"
    "ls_nodes s j = Some nj" "nj \<in> set (ls_children s)"
    using assms(2,3) by (auto simp: live_holder_def)
  obtain k l where num: "numbered cfg s i k" "numbered cfg s j l"
    using inv nodes(1,3) unfolding lock_inv_def by metis
  then have name: "ni = lk_prefix (cfg i) @ seq_string k" "nj = lk_prefix (cfg j) @ seq_string l"
    using nodes by (auto simp: numbered_def)
  have "k \<noteq> l" using inv num assms(4) unfolding lock_inv_def by blast
  then consider "k < l" | "l < k" by linarith
  then show ?thesis
  proof cases
    case 1
    with inv assms(3) num nodes(2) name(1) show ?thesis unfolding lock_inv_def by blast
  next
    case 2
    with inv assms(2) num nodes(4) name(2) show ?thesis unfolding lock_inv_def by blast
  qed
qed

lemma holders_compatible:
  assumes "cfg_ok cfg" and "lock_start s0" and "(lock_step cfg)\<^sup>*\<^sup>* s0 s"
    and "live_holder s i" and "live_holder s j" and "i \<noteq> j"
  shows "lk_node_name (cfg j) \<notin> set (lk_exclude_names (cfg i))
    \<or> lk_node_name (cfg i) \<notin> set (lk_exclude_names (cfg j))"
  using live_holders_compatible [OF _ assms(4-6)] lock_system.reachable_inv [OF assms(3)] assms(1,2) lock_start_inv
  by blast

definition is_lock :: "lock \<Rightarrow> bool" where
  "is_lock l \<longleftrightarrow> (\<exists>uuid data path. l = lock_init [] uuid data path)"

definition is_write_lock :: "lock \<Rightarrow> bool" where
  "is_write_lock l \<longleftrightarrow> (\<exists>uuid data path. l = write_lock_init [] uuid data path)"

definition is_read_lock :: "lock \<Rightarrow> bool" where
  "is_read_lock l \<longleftrightarrow> (\<exists>uuid data path. l = read_lock_init [] uuid data path)"

lemma lock_kinds:
  "is_lock l \<Longrightarrow> lk_node_name l = ''__lock__'' \<and> lk_exclude_names l = [''__lock__'']
     \<and> (\<exists>uuid. lk_prefix l = uuid @ lk_node_name l)"
  "is_write_lock l \<Longrightarrow> lk_node_name l = ''__lock__'' \<and> lk_exclude_names l = [''__lock__'', ''__rlock__'']
     \<and> (\<exists>uuid. lk_prefix l = uuid @ lk_node_name l)"
  "is_read_lock l \<Longrightarrow> lk_node_name l = ''__rlock__'' \<and> lk_exclude_names l = [''__lock__'']
     \<and> (\<exists>uuid. lk_prefix l = uuid @ lk_node_name l)"
  by (auto simp: is_lock_def is_write_lock_def is_read_lock_def lock_init_def write_lock_init_def
      read_lock_init_def lock_new_def)

lemma good_kinds: "good_names [''__lock__'']" "good_names [''__lock__'', ''__rlock__'']"
  by (simp_all add: good_names_def)

text \<open>
  C2. Mutual exclusion: in every state that the contenders and the server reach together, at
  most one contender of a \<^verbatim>\<open>Lock\<close> holds it with its node still on the server.
\<close>

theorem lock_mutual_exclusion:
  assumes "\<And>i. is_lock (cfg i)" and "lock_start s0" and "(lock_step cfg)\<^sup>*\<^sup>* s0 s"
    and "live_holder s i" and "live_holder s j"
  shows "i = j"
proof (rule ccontr)
  assume "i \<noteq> j"
  moreover have "cfg_ok cfg" unfolding cfg_ok_def using assms(1) lock_kinds(1) good_kinds by metis
  ultimately show False
    using holders_compatible [OF _ assms(2,3,4,5)] lock_kinds(1) [OF assms(1)] by simp
qed

definition demo_lock_sys :: lock_sys where
  "demo_lock_sys = \<lparr>ls_children = [], ls_counter = 0, ls_nodes = (\<lambda>_. None), ls_holds = (\<lambda>_. False)\<rparr>"

lemma demo_lock_start: "lock_start demo_lock_sys"
  by (simp add: lock_start_def demo_lock_sys_def)

definition demo_locks :: "nat \<Rightarrow> lock" where
  "demo_locks i = lock_init [] (replicate i CHR ''a'') [] ''/l''"

theorem lock_mutual_exclusion_witness:
  "\<exists>s. (lock_step demo_locks)\<^sup>*\<^sup>* demo_lock_sys s \<and> live_holder s 0 \<and> (\<forall>j. live_holder s j \<longrightarrow> j = 0)"
proof -
  let ?a = "''__lock__0000000000''"
  let ?s1 = "demo_lock_sys\<lparr>ls_children := [?a], ls_counter := 1, ls_nodes := (\<lambda>_. None)(0 := Some ?a)\<rparr>"
  let ?s2 = "?s1\<lparr>ls_holds := (\<lambda>_. False)(0 := True)\<rparr>"
  have cfg: "lk_prefix (demo_locks 0) = ''__lock__''" "lk_exclude_names (demo_locks 0) = [''__lock__'']"
    by (simp_all add: demo_locks_def lock_init_def lock_new_def)
  have p: "get_predecessor [''__lock__''] ''__lock__'' [?a] ?a = Inr None" by code_simp
  have "lock_step demo_locks demo_lock_sys ?s1"
    using step_create [of demo_lock_sys 0 ?a demo_locks] cfg by (simp add: demo_lock_sys_def seq_string_examples)
  moreover have "lock_step demo_locks ?s1 ?s2"
    using step_check [of ?s1 0 ?a demo_locks] cfg p by (simp add: demo_lock_sys_def)
  ultimately have run: "(lock_step demo_locks)\<^sup>*\<^sup>* demo_lock_sys ?s2"
    by (meson rtranclp.rtrancl_into_rtrancl rtranclp.rtrancl_refl)
  have kind: "is_lock (demo_locks i)" for i by (auto simp: is_lock_def demo_locks_def)
  have h: "live_holder ?s2 0" by (simp add: live_holder_def demo_lock_sys_def)
  have "j = 0" if "live_holder ?s2 j" for j
    using lock_mutual_exclusion [OF kind demo_lock_start run that h] .
  with run h show ?thesis by blast
qed

text \<open>
  C11. Readers and writers: of two contenders that hold a lock path with a \<^verbatim>\<open>ReadLock\<close> or a
  \<^verbatim>\<open>WriteLock\<close> at the same time, both hold a \<^verbatim>\<open>ReadLock\<close>.
\<close>

theorem read_write_exclusion:
  assumes "\<And>i. is_write_lock (cfg i) \<or> is_read_lock (cfg i)" and "lock_start s0"
    and "(lock_step cfg)\<^sup>*\<^sup>* s0 s" and "live_holder s i" and "live_holder s j" and "i \<noteq> j"
  shows "is_read_lock (cfg i) \<and> is_read_lock (cfg j)"
proof -
  have "cfg_ok cfg" unfolding cfg_ok_def
    using assms(1) lock_kinds(2,3) good_kinds by metis
  then show ?thesis
    using holders_compatible [OF _ assms(2-6)] lock_kinds(2,3) [of "cfg i"] lock_kinds(2,3) [of "cfg j"]
      assms(1) [of i] assms(1) [of j] by auto
qed

definition demo_readers :: "nat \<Rightarrow> lock" where
  "demo_readers i = read_lock_init [] (replicate i CHR ''a'') [] ''/l''"

theorem read_write_exclusion_witness:
  "\<exists>s. (lock_step demo_readers)\<^sup>*\<^sup>* demo_lock_sys s \<and> live_holder s 0 \<and> live_holder s 1
     \<and> is_read_lock (demo_readers 0) \<and> is_read_lock (demo_readers 1)"
proof -
  let ?a = "''__rlock__0000000000''" and ?b = "''a__rlock__0000000001''"
  let ?s1 = "demo_lock_sys\<lparr>ls_children := [?a], ls_counter := 1, ls_nodes := (\<lambda>_. None)(0 := Some ?a)\<rparr>"
  let ?s2 = "?s1\<lparr>ls_children := [?a, ?b], ls_counter := 2, ls_nodes := (\<lambda>_. None)(0 := Some ?a, 1 := Some ?b)\<rparr>"
  let ?s3 = "?s2\<lparr>ls_holds := (\<lambda>_. False)(0 := True)\<rparr>"
  let ?s4 = "?s3\<lparr>ls_holds := (\<lambda>_. False)(0 := True, 1 := True)\<rparr>"
  have cfg: "lk_prefix (demo_readers 0) = ''__rlock__''" "lk_prefix (demo_readers 1) = ''a__rlock__''"
    "lk_exclude_names (demo_readers k) = [''__lock__'']" for k
    by (simp_all add: demo_readers_def read_lock_init_def lock_new_def)
  have p: "get_predecessor [''__lock__''] ''__rlock__'' [?a, ?b] ?a = Inr None"
    "get_predecessor [''__lock__''] ''a__rlock__'' [?a, ?b] ?b = Inr None"
    by code_simp+
  have "lock_step demo_readers demo_lock_sys ?s1"
    using step_create [of demo_lock_sys 0 ?a demo_readers] cfg by (simp add: demo_lock_sys_def seq_string_examples)
  moreover have "lock_step demo_readers ?s1 ?s2"
    using step_create [of ?s1 1 ?b demo_readers] cfg(2)
    by (simp add: demo_lock_sys_def seq_string_examples numeral_2_eq_2)
  moreover have "lock_step demo_readers ?s2 ?s3"
    using step_check [of ?s2 0 ?a demo_readers] cfg p by (simp add: demo_lock_sys_def)
  moreover have "lock_step demo_readers ?s3 ?s4"
    using step_check [of ?s3 1 ?b demo_readers] cfg(2,3) p by (simp add: demo_lock_sys_def)
  ultimately have run: "(lock_step demo_readers)\<^sup>*\<^sup>* demo_lock_sys ?s4"
    by (meson rtranclp.rtrancl_into_rtrancl rtranclp.rtrancl_refl)
  have kind: "is_write_lock (demo_readers i) \<or> is_read_lock (demo_readers i)" for i
    by (auto simp: is_read_lock_def demo_readers_def)
  have start: "lock_start demo_lock_sys" by (rule demo_lock_start)
  have h: "live_holder ?s4 0" "live_holder ?s4 1" by (simp_all add: live_holder_def demo_lock_sys_def)
  from read_write_exclusion [OF kind start run h] run h show ?thesis by auto
qed

end
