(* ===== verification/Operations.thy ===== *)
theory Operations
  imports World Paths
begin

text \<open>
  The operations of \<^verbatim>\<open>KazooClient\<close> on znodes and \<^verbatim>\<open>TransactionRequest\<close>
  (\<^verbatim>\<open>kazoo/client.py\<close>). Each asynchronous operation builds one request, with the chroot in
  front of its path, and hands it to \<^verbatim>\<open>_call\<close>; the blocking operation waits for the result.
  The chains of completions (\<^verbatim>\<open>create_async\<close> with \<^verbatim>\<open>makepath\<close>, \<^verbatim>\<open>ensure_path_async\<close>)
  run one after the other, each when the result before it is resolved, so they are sequences
  of computations here. The tests of the arguments' types hold by typing.
\<close>

section \<open>The requests\<close>

text \<open>\<^verbatim>\<open>os.path.split\<close>.\<close>

definition posix_split :: "string \<Rightarrow> string \<times> string" where
  "posix_split p =
     (let tail = rev (takeWhile (\<lambda>x. x \<noteq> slash) (rev p));
          head = take (length p - length tail) p
      in (if list_all (\<lambda>x. x = slash) head then head else rstrip slash head, tail))"

definition exists_request :: "string \<Rightarrow> string \<Rightarrow> watcher option \<Rightarrow> exc + request" where
  "exists_request chroot path watch =
     ebind (prefix_root chroot path False) (\<lambda>p. Inr (Exists p watch))"

definition get_request :: "string \<Rightarrow> string \<Rightarrow> watcher option \<Rightarrow> exc + request" where
  "get_request chroot path watch =
     ebind (prefix_root chroot path False) (\<lambda>p. Inr (GetData p watch))"

definition get_children_request :: "string \<Rightarrow> string \<Rightarrow> watcher option \<Rightarrow> bool \<Rightarrow> exc + request" where
  "get_children_request chroot path watch include_data =
     (if include_data then ebind (prefix_root chroot path False) (\<lambda>p. Inr (GetChildren2 p watch))
      else ebind (prefix_root chroot path False) (\<lambda>p. Inr (GetChildren p watch)))"

definition get_acls_request :: "string \<Rightarrow> string \<Rightarrow> exc + request" where
  "get_acls_request chroot path = ebind (prefix_root chroot path False) (\<lambda>p. Inr (GetACL p))"

definition set_acls_request :: "string \<Rightarrow> string \<Rightarrow> acl list \<Rightarrow> int \<Rightarrow> exc + request" where
  "set_acls_request chroot path acls ver =
     ebind (prefix_root chroot path False) (\<lambda>p. Inr (SetACL p acls ver))"

definition set_request :: "string \<Rightarrow> string \<Rightarrow> bytes option \<Rightarrow> int \<Rightarrow> exc + request" where
  "set_request chroot path data ver =
     ebind (prefix_root chroot path False) (\<lambda>p. Inr (SetData p data ver))"

definition delete_request :: "string \<Rightarrow> string \<Rightarrow> int \<Rightarrow> exc + request" where
  "delete_request chroot path ver =
     ebind (prefix_root chroot path False) (\<lambda>p. Inr (Delete p ver))"

definition sync_request :: "string \<Rightarrow> string \<Rightarrow> exc + request" where
  "sync_request chroot path = ebind (prefix_root chroot path False) (\<lambda>p. Inr (Sync p))"

text \<open>
  The ACL of a new node: a missing one is replaced by a non-empty default of the client, then
  by the open one. \<open>acl_or\<close> is \<^verbatim>\<open>acl or self.default_acl\<close>, where the empty list counts as
  missing.
\<close>

definition create_acl :: "acl list option \<Rightarrow> acl list option \<Rightarrow> acl list" where
  "create_acl default_acl acl =
     (case acl of
        Some a \<Rightarrow> a
      | None \<Rightarrow> (case default_acl of
          Some d \<Rightarrow> if d \<noteq> [] then d else OPEN_ACL_UNSAFE
        | None \<Rightarrow> OPEN_ACL_UNSAFE))"

definition acl_or :: "acl list option \<Rightarrow> acl list option \<Rightarrow> acl list option" where
  "acl_or default_acl acl =
     (case acl of Some a \<Rightarrow> if a \<noteq> [] then acl else default_acl | None \<Rightarrow> default_acl)"

definition create_flags :: "bool \<Rightarrow> bool \<Rightarrow> int" where
  "create_flags ephemeral sequence = (if ephemeral then 1 else 0) + (if sequence then 2 else 0)"

definition create_request :: "string \<Rightarrow> string \<Rightarrow> bytes option \<Rightarrow> acl list \<Rightarrow> int \<Rightarrow> bool \<Rightarrow> bool
    \<Rightarrow> exc + request" where
  "create_request chroot path data acls flags trailing include_data =
     ebind (prefix_root chroot path trailing) (\<lambda>p.
       Inr (if include_data then Create2 p data acls flags else Create p data acls flags))"

section \<open>The operations\<close>

text \<open>
  What an operation uses of the client: the chroot, the default ACL, and \<open>cl_call\<close>, which
  submits a request with \<^verbatim>\<open>_call\<close> and waits for its result.
\<close>

record 'w caller =
  cl_call :: "request \<Rightarrow> ('w, response) io"
  cl_chroot :: string
  cl_default_acl :: "acl list option"

text \<open>
  The replies have the shape that \<open>deserialize\<close> gives for the request; another shape cannot
  come, it raises here.
\<close>

definition client_exists :: "'w caller \<Rightarrow> string \<Rightarrow> watcher option \<Rightarrow> ('w, znode_stat option) io" where
  "client_exists cl path watch =
     io_bind (io_sum (exists_request (cl_chroot cl) path watch)) (\<lambda>r.
     io_bind (cl_call cl r) (\<lambda>resp.
       case resp of RespExists st \<Rightarrow> io_return st | _ \<Rightarrow> io_raise PyTypeError))"

definition client_get :: "'w caller \<Rightarrow> string \<Rightarrow> watcher option \<Rightarrow> ('w, bytes option \<times> znode_stat) io" where
  "client_get cl path watch =
     io_bind (io_sum (get_request (cl_chroot cl) path watch)) (\<lambda>r.
     io_bind (cl_call cl r) (\<lambda>resp.
       case resp of RespData d st \<Rightarrow> io_return (d, st) | _ \<Rightarrow> io_raise PyTypeError))"

definition client_get_children :: "'w caller \<Rightarrow> string \<Rightarrow> watcher option \<Rightarrow> bool
    \<Rightarrow> ('w, string option list \<times> znode_stat option) io" where
  "client_get_children cl path watch include_data =
     io_bind (io_sum (get_children_request (cl_chroot cl) path watch include_data)) (\<lambda>r.
     io_bind (cl_call cl r) (\<lambda>resp.
       case resp of
         RespChildren xs \<Rightarrow> io_return (xs, None)
       | RespNil \<Rightarrow> io_return ([], None)
       | RespChildren2 xs st \<Rightarrow> io_return (xs, Some st)
       | _ \<Rightarrow> io_raise PyTypeError))"

definition client_get_acls :: "'w caller \<Rightarrow> string
    \<Rightarrow> ('w, (int \<times> string option \<times> string option) list \<times> znode_stat) io" where
  "client_get_acls cl path =
     io_bind (io_sum (get_acls_request (cl_chroot cl) path)) (\<lambda>r.
     io_bind (cl_call cl r) (\<lambda>resp.
       case resp of RespAcls a st \<Rightarrow> io_return (a, st) | _ \<Rightarrow> io_raise PyTypeError))"

definition client_set_acls :: "'w caller \<Rightarrow> string \<Rightarrow> acl list \<Rightarrow> int \<Rightarrow> ('w, znode_stat) io" where
  "client_set_acls cl path acls ver =
     io_bind (io_sum (set_acls_request (cl_chroot cl) path acls ver)) (\<lambda>r.
     io_bind (cl_call cl r) (\<lambda>resp.
       case resp of RespStat st \<Rightarrow> io_return st | _ \<Rightarrow> io_raise PyTypeError))"

definition client_set :: "'w caller \<Rightarrow> string \<Rightarrow> bytes option \<Rightarrow> int \<Rightarrow> ('w, znode_stat) io" where
  "client_set cl path data ver =
     io_bind (io_sum (set_request (cl_chroot cl) path data ver)) (\<lambda>r.
     io_bind (cl_call cl r) (\<lambda>resp.
       case resp of RespStat st \<Rightarrow> io_return st | _ \<Rightarrow> io_raise PyTypeError))"

definition client_delete :: "'w caller \<Rightarrow> string \<Rightarrow> int \<Rightarrow> ('w, unit) io" where
  "client_delete cl path ver =
     io_bind (io_sum (delete_request (cl_chroot cl) path ver)) (\<lambda>r.
     io_bind (cl_call cl r) (\<lambda>resp.
       case resp of RespTrue \<Rightarrow> io_return () | _ \<Rightarrow> io_raise PyTypeError))"

definition client_sync :: "'w caller \<Rightarrow> string \<Rightarrow> ('w, string) io" where
  "client_sync cl path =
     io_bind (io_sum (sync_request (cl_chroot cl) path)) (\<lambda>r.
     io_bind (cl_call cl r) (\<lambda>resp.
       case resp of RespPath (Some p) \<Rightarrow> io_return (unchroot (cl_chroot cl) p) | _ \<Rightarrow> io_raise PyTypeError))"

definition client_reconfig :: "'w caller \<Rightarrow> string option \<Rightarrow> string option \<Rightarrow> string option \<Rightarrow> int
    \<Rightarrow> ('w, bytes option \<times> znode_stat) io" where
  "client_reconfig cl joining leaving new_members from_config =
     io_bind (cl_call cl (Reconfig joining leaving new_members from_config)) (\<lambda>resp.
       case resp of RespData d st \<Rightarrow> io_return (d, st) | _ \<Rightarrow> io_raise PyTypeError)"

text \<open>
  \<^verbatim>\<open>_create_async_inner\<close> and the successful part of \<^verbatim>\<open>create_completion\<close>: one create request,
  the chroot taken off the path of the reply.
\<close>

definition create_once :: "'w caller \<Rightarrow> string \<Rightarrow> bytes option \<Rightarrow> acl list \<Rightarrow> int \<Rightarrow> bool \<Rightarrow> bool
    \<Rightarrow> ('w, string \<times> znode_stat option) io" where
  "create_once cl path data acls flags trailing include_data =
     io_bind (io_sum (create_request (cl_chroot cl) path data acls flags trailing include_data)) (\<lambda>r.
     io_bind (cl_call cl r) (\<lambda>resp.
       case resp of
         RespPath (Some p) \<Rightarrow> io_return (unchroot (cl_chroot cl) p, None)
       | RespPathStat (Some p) st \<Rightarrow> io_return (unchroot (cl_chroot cl) p, Some st)
       | _ \<Rightarrow> io_raise PyAttributeError))"

text \<open>
  \<^verbatim>\<open>ensure_path_async\<close>: what it returns is \<^verbatim>\<open>True\<close> for a node that existed, and the path of
  the created node otherwise.
\<close>

datatype ensured = Existed | Created string

partial_function (option) ensure_path ::
    "'w caller \<Rightarrow> string \<Rightarrow> acl list option \<Rightarrow> 'w \<Rightarrow> ((exc + ensured) \<times> 'w) option" where
  "ensure_path cl path acl w =
     (let acl = acl_or (cl_default_acl cl) acl; parent = fst (posix_split path); node = snd (posix_split path) in
      io_bind (client_exists cl path None) (\<lambda>st w.
        if st \<noteq> None then io_return Existed w
        else io_bind (\<lambda>w. if node \<noteq> '''' then io_bind (ensure_path cl parent acl) (\<lambda>_. io_return ()) w
                         else io_return () w) (\<lambda>_.
          io_catch
            (io_bind (create_once cl path (Some []) (create_acl (cl_default_acl cl) acl) 0 False False)
               (\<lambda>created. io_return (Created (fst created))))
            is_node_exists (\<lambda>_. io_return Existed)) w) w)"

text \<open>
  \<^verbatim>\<open>create_async\<close>: with \<^verbatim>\<open>makepath\<close> a missing parent is made and the create is tried again,
  as often as the parent is missing.
\<close>

definition create_parent :: "string \<Rightarrow> bool \<Rightarrow> string" where
  "create_parent path sequence =
     (if sequence \<and> ends_with path ''/'' then rstrip slash path else fst (posix_split path))"

partial_function (option) create_loop ::
    "'w caller \<Rightarrow> string \<Rightarrow> bytes option \<Rightarrow> acl list \<Rightarrow> int \<Rightarrow> bool \<Rightarrow> bool \<Rightarrow> bool
      \<Rightarrow> 'w \<Rightarrow> ((exc + string \<times> znode_stat option) \<times> 'w) option" where
  "create_loop cl path data acls flags sequence makepath include_data w =
     io_catch (create_once cl path data acls flags sequence include_data) is_no_node (\<lambda>e w.
       if \<not> makepath then io_raise e w
       else io_bind (ensure_path cl (create_parent path sequence) (Some acls)) (\<lambda>_.
         create_loop cl path data acls flags sequence makepath include_data) w) w"

definition create_async :: "'w caller \<Rightarrow> string \<Rightarrow> bytes option \<Rightarrow> acl list option \<Rightarrow> bool \<Rightarrow> bool \<Rightarrow> bool
    \<Rightarrow> bool \<Rightarrow> ('w, string \<times> znode_stat option) io" where
  "create_async cl path data acl ephemeral sequence makepath include_data =
     create_loop cl path data (create_acl (cl_default_acl cl) acl) (create_flags ephemeral sequence)
       sequence makepath include_data"

definition client_create :: "'w caller \<Rightarrow> string \<Rightarrow> bytes option \<Rightarrow> acl list option \<Rightarrow> bool \<Rightarrow> bool \<Rightarrow> bool
    \<Rightarrow> bool \<Rightarrow> ('w, string \<times> znode_stat option) io" where
  "client_create cl path data acl = create_async cl path data (acl_or (cl_default_acl cl) acl)"

text \<open>
  \<^verbatim>\<open>_delete_recursive\<close>; the value is \<^verbatim>\<open>True\<close> for a missing node and \<^verbatim>\<open>None\<close> otherwise. A
  child without a name, which the concatenation of the path would refuse, raises.
\<close>

definition child_path :: "string \<Rightarrow> string option \<Rightarrow> exc + string" where
  "child_path path child =
     (case child of
        None \<Rightarrow> Inl PyTypeError
      | Some name \<Rightarrow> Inr (if path = ''/'' then path @ name else path @ ''/'' @ name))"

partial_function (option) delete_recursive ::
    "'w caller \<Rightarrow> string \<Rightarrow> 'w \<Rightarrow> ((exc + bool option) \<times> 'w) option" where
  "delete_recursive cl path w =
     io_bind
       (io_catch (io_bind (client_get_children cl path None False) (\<lambda>r. io_return (Some (fst r))))
          is_no_node (\<lambda>_. io_return None)) (\<lambda>children w.
       case children of
         None \<Rightarrow> io_return (Some True) w
       | Some cs \<Rightarrow>
           io_bind (io_map (\<lambda>child. io_bind (io_sum (child_path path child)) (delete_recursive cl)) cs) (\<lambda>_.
           io_bind (io_catch (client_delete cl path (-1)) is_no_node (\<lambda>_. io_return ())) (\<lambda>_.
             io_return None)) w) w"

definition client_delete_op :: "'w caller \<Rightarrow> string \<Rightarrow> int \<Rightarrow> bool \<Rightarrow> ('w, bool option) io" where
  "client_delete_op cl path ver recursive =
     (if recursive then delete_recursive cl path
      else io_bind (client_delete cl path ver) (\<lambda>_. io_return (Some True)))"

section \<open>Transactions\<close>

record txn =
  tx_operations :: "request list"
  tx_committed :: bool

definition tx_init :: txn where
  "tx_init = \<lparr>tx_operations = [], tx_committed = False\<rparr>"

definition tx_check_state :: "txn \<Rightarrow> exc + unit" where
  "tx_check_state t = (if tx_committed t then Inl PyValueError else Inr ())"

definition tx_add :: "exc + request \<Rightarrow> txn \<Rightarrow> exc + txn" where
  "tx_add req t =
     ebind req (\<lambda>r. ebind (tx_check_state t) (\<lambda>_. Inr (t\<lparr>tx_operations := tx_operations t @ [r]\<rparr>)))"

definition tx_create :: "'w caller \<Rightarrow> string \<Rightarrow> bytes \<Rightarrow> acl list option \<Rightarrow> bool \<Rightarrow> bool \<Rightarrow> txn \<Rightarrow> exc + txn" where
  "tx_create cl path data acl ephemeral sequence =
     tx_add (ebind (prefix_root (cl_chroot cl) path False) (\<lambda>p.
       Inr (Create p (Some data) (create_acl (cl_default_acl cl) acl) (create_flags ephemeral sequence))))"

definition tx_delete :: "'w caller \<Rightarrow> string \<Rightarrow> int \<Rightarrow> txn \<Rightarrow> exc + txn" where
  "tx_delete cl path ver =
     tx_add (ebind (prefix_root (cl_chroot cl) path False) (\<lambda>p. Inr (Delete p ver)))"

definition tx_set_data :: "'w caller \<Rightarrow> string \<Rightarrow> bytes \<Rightarrow> int \<Rightarrow> txn \<Rightarrow> exc + txn" where
  "tx_set_data cl path data ver =
     tx_add (ebind (prefix_root (cl_chroot cl) path False) (\<lambda>p. Inr (SetData p (Some data) ver)))"

definition tx_check :: "'w caller \<Rightarrow> string \<Rightarrow> int \<Rightarrow> txn \<Rightarrow> exc + txn" where
  "tx_check cl path ver =
     tx_add (ebind (prefix_root (cl_chroot cl) path False) (\<lambda>p. Inr (CheckVersion p ver)))"

definition tx_commit :: "'w caller \<Rightarrow> txn \<Rightarrow> 'w \<Rightarrow> ((exc + txn_result list) \<times> txn \<times> 'w) option" where
  "tx_commit cl t w =
     (case tx_check_state t of
        Inl e \<Rightarrow> Some (Inl e, t, w)
      | Inr _ \<Rightarrow>
          map_option (\<lambda>(r, w). (case r of
              Inl e \<Rightarrow> Inl e
            | Inr resp \<Rightarrow> (case resp of RespResults rs \<Rightarrow> Inr rs | _ \<Rightarrow> Inl PyTypeError),
              t\<lparr>tx_committed := True\<rparr>, w))
            (cl_call cl (Transaction (tx_operations t)) w))"

text \<open>\<^verbatim>\<open>__exit__\<close>: the block commits unless it raised.\<close>

definition tx_exit :: "'w caller \<Rightarrow> bool \<Rightarrow> txn \<Rightarrow> 'w \<Rightarrow> ((exc + txn_result list) \<times> txn \<times> 'w) option" where
  "tx_exit cl raised t w = (if raised then Some (Inr [], t, w) else tx_commit cl t w)"

end
