(* ===== verification/RetryInv.thy ===== *)
theory RetryInv
  imports World
begin

text \<open>
  Reasoning about a retried computation: an invariant of the world that the clock, the sleep and
  the failed runs keep holds when the run that succeeds starts.
\<close>

definition env_keeps :: "'w retry_env \<Rightarrow> ('w \<Rightarrow> bool) \<Rightarrow> bool" where
  "env_keeps env P \<longleftrightarrow>
     (\<forall>w. P w \<longrightarrow> P (snd (env_monotonic env w)) \<and> (\<forall>lo hi. P (snd (env_uniform env lo hi w)))
        \<and> (\<forall>t. P (env_sleep env t w)) \<and> (\<forall>i. env_interrupt env = Some i \<longrightarrow> P (snd (i w))))"

lemma env_keepsD:
  assumes "env_keeps env P" and "P w"
  shows "P (snd (env_monotonic env w))" "P (snd (env_uniform env lo hi w))" "P (env_sleep env t w)"
    "env_interrupt env = Some i \<Longrightarrow> P (snd (i w))"
  using assms by (simp_all add: env_keeps_def)

lemma interruptible_sleep_keeps:
  assumes "\<And>t w. P w \<Longrightarrow> P (env_sleep env t w)" and "\<And>w. P w \<Longrightarrow> P (snd (i w))"
  shows "P w \<Longrightarrow> P (snd (interruptible_sleep env i t w))"
  using assms
proof (induction env i t w rule: interruptible_sleep.induct)
  case (1 env i t w)
  show ?case
  proof (cases "t > 0")
    case True
    obtain b w1 where i: "i (env_sleep env (min (1 / 10) t) w) = (b, w1)" by fastforce
    then have w1: "P w1" using 1(2-4) by (metis snd_conv)
    show ?thesis
    proof (cases b)
      case True
      with i w1 \<open>t > 0\<close> show ?thesis by (subst interruptible_sleep.simps) simp
    next
      case False
      with 1 True i w1 show ?thesis by (subst interruptible_sleep.simps) simp
    qed
  next
    case False
    with 1 show ?thesis by (subst interruptible_sleep.simps) simp
  qed
qed

lemma retry_failure_keeps:
  assumes "env_keeps env P" and "P w" and "retry_failure env r w = (x, r', w')"
  shows "P w'"
proof -
  note keep = env_keepsD [OF assms(1)]
  have s: "P (snd (next_sleep env r w))" for r
    using keep(2) [OF assms(2)] by (simp add: next_sleep_def split: prod.splits) (metis snd_conv)
  have p: "P (snd (past_deadline env r t w))" if "P w" for r t w
    using keep(1) [OF that] that by (auto simp: past_deadline_def split: option.splits prod.splits)
  have t: "P (snd (retry_wait env t w))" if "P w" for t w
    using that keep(3,4) interruptible_sleep_keeps [of P env]
    by (auto simp: retry_wait_def split: option.splits)
  let ?r = "r\<lparr>attempts := attempts r + 1\<rparr>"
  obtain sl w1 where w1: "next_sleep env ?r w = (sl, w1)" by fastforce
  obtain b w2 where w2: "past_deadline env ?r sl w1 = (b, w2)" by fastforce
  obtain b' w3 where w3: "retry_wait env sl w2 = (b', w3)" by fastforce
  have "P w1" using s [of ?r] w1 by simp
  moreover from this have "P w2" using p [of w1 ?r sl] w2 by simp
  moreover from this have "P w3" using t [of w2 sl] w3 by simp
  ultimately show ?thesis
    using assms(2,3) w1 w2 w3 by (auto simp: retry_failure_def Let_def split: if_splits bool.splits)
qed

lemma retry_arm_keeps:
  assumes "env_keeps env P" and "P w" and "retry_arm env r w = (r', w')"
  shows "P w'"
  using assms(2,3) env_keepsD(1) [OF assms(1,2)]
  by (auto simp: retry_arm_def split: option.splits prod.splits)

lemma retry_loop_keeps:
  fixes func :: "'w \<Rightarrow> ((exc + 'a) \<times> 'w) option"
  assumes "env_keeps env P" and "\<And>w e w'. P w \<Longrightarrow> func w = Some (Inl e, w') \<Longrightarrow> P w'"
    and "P w" and "retry_loop env func r w = Some (res, r', w')"
  shows "case res of Inr x \<Rightarrow> (\<exists>w0. P w0 \<and> func w0 = Some (Inr x, w')) | Inl e \<Rightarrow> P w'"
proof -
  let ?Q = "\<lambda>(w :: 'w) (res :: (exc + 'a) \<times> retry \<times> 'w).
    P w \<longrightarrow> (case fst res of Inr x \<Rightarrow> (\<exists>w0. P w0 \<and> func w0 = Some (Inr x, snd (snd res))) | Inl e \<Rightarrow> P (snd (snd res)))"
  let ?P = "\<lambda>(env' :: 'w retry_env) (func' :: 'w \<Rightarrow> ((exc + 'a) \<times> 'w) option) (r :: retry) w res.
    env' = env \<longrightarrow> func' = func \<longrightarrow> ?Q w res"
  have "?P env func r w (res, r', w')"
  proof (rule retry_loop.raw_induct [where P = ?P, OF _ assms(4)], intro impI)
    fix loop :: "'w retry_env \<Rightarrow> ('w \<Rightarrow> ((exc + 'a) \<times> 'w) option) \<Rightarrow> retry \<Rightarrow> 'w \<Rightarrow> ((exc + 'a) \<times> retry \<times> 'w) option"
      and env' and func' :: "'w \<Rightarrow> ((exc + 'a) \<times> 'w) option" and r w res
    assume IH: "\<And>env func r w res. loop env func r w = Some res \<Longrightarrow> ?P env func r w res"
      and eq: "(case retry_arm env' r w of (r, w) \<Rightarrow>
       (case func' w of
          None \<Rightarrow> None
        | Some (Inr x, w) \<Rightarrow> Some (Inr x, r, w)
        | Some (Inl e, w) \<Rightarrow>
            if e = ConnectionClosedError then Some (Inl e, r, w)
            else if retryable r e then
              (case retry_failure env' r w of
                 (Inl e', r, w) \<Rightarrow> Some (Inl e', r, w)
               | (Inr u, r, w) \<Rightarrow> loop env' func' r w)
            else Some (Inl e, r, w))) = Some res" and env': "env' = env" and func': "func' = func" and w: "P w"
    show "case fst res of Inr x \<Rightarrow> (\<exists>w0. P w0 \<and> func w0 = Some (Inr x, snd (snd res))) | Inl e \<Rightarrow> P (snd (snd res))"
    proof -
      obtain r1 w1 where arm: "retry_arm env r w = (r1, w1)" by fastforce
      have w1: "P w1" by (rule retry_arm_keeps [OF assms(1) w arm])
      obtain out w2 where out: "func w1 = Some (out, w2)"
        using eq arm env' func' by (auto split: option.splits)
      obtain fail r2 w3 where fail: "retry_failure env r1 w2 = (fail, r2, w3)"
        by (metis prod_cases3)
      show ?thesis
      proof (cases out)
        case (Inr x)
        with eq arm out w1 env' func' show ?thesis by auto
      next
        case (Inl e)
        then have w2: "P w2" using assms(2) w1 out by blast
        then have w3: "P w3" by (rule retry_failure_keeps [OF assms(1) _ fail])
        consider (stop) e' w' rr where "res = (Inl e', rr, w')" "P w'"
          | (again) "loop env func r2 w3 = Some res"
          using eq arm out w2 w3 env' func' fail Inl by (auto split: if_splits sum.splits)
        then show ?thesis
        proof cases
          case again
          then show ?thesis using IH [OF again] w3 by simp
        qed simp
      qed
    qed
  qed
  then show ?thesis using assms(3) by (auto split: sum.splits)
qed

lemma io_retry_keeps:
  assumes "env_keeps (zk_retry zk) P" and "\<And>w e w'. P w \<Longrightarrow> func w = Some (Inl e, w') \<Longrightarrow> P w'"
    and "P w" and "io_retry zk r func w = Some (res, w')"
  shows "case res of Inr x \<Rightarrow> (\<exists>w0. P w0 \<and> func w0 = Some (Inr x, w')) | Inl e \<Rightarrow> P w'"
  using assms(4) retry_loop_keeps [OF assms(1,2,3)]
  by (fastforce simp: io_retry_def retry_call_partial_def)

lemma env_keeps_lift:
  assumes "\<And>s. env_keeps env (\<lambda>w. P (s, w))"
  shows "env_keeps (lift_env env) P"
  using assms by (auto simp: env_keeps_def lift_env_def split: prod.splits) (metis snd_conv)+

lemma io_retry_self_keeps:
  assumes "\<And>s. env_keeps (zk_retry zk) (\<lambda>w. P (s, w))"
    and "\<And>sw e sw'. P sw \<Longrightarrow> func sw = Some (Inl e, sw') \<Longrightarrow> P sw'"
    and "P sw" and "io_retry_self zk r func sw = Some (res, sw')"
  shows "case res of Inr x \<Rightarrow> (\<exists>sw0. P sw0 \<and> func sw0 = Some (Inr x, sw')) | Inl e \<Rightarrow> P sw'"
  using assms(4) retry_loop_keeps [OF env_keeps_lift [OF assms(1)] assms(2,3)]
  by (fastforce simp: io_retry_self_def retry_call_partial_def)

lemma io_retry_self_succeeds:
  assumes "\<And>s. env_keeps (zk_retry zk) (\<lambda>w. P (s, w))"
    and "\<And>sw e sw'. P sw \<Longrightarrow> func sw = Some (Inl e, sw') \<Longrightarrow> P sw'"
    and "P sw" and "io_retry_self zk r func sw = Some (Inr x, sw')"
  obtains sw0 where "P sw0" "func sw0 = Some (Inr x, sw')"
  using io_retry_self_keeps [of zk P func sw r "Inr x" sw'] assms by auto

lemma io_retry_succeeds:
  assumes "env_keeps (zk_retry zk) P" and "\<And>w e w'. P w \<Longrightarrow> func w = Some (Inl e, w') \<Longrightarrow> P w'"
    and "P w" and "io_retry zk r func w = Some (Inr x, w')"
  obtains w0 where "P w0" "func w0 = Some (Inr x, w')"
  using io_retry_keeps [of zk P func w r "Inr x" w'] assms by auto

section \<open>Unfolding a retried call\<close>

lemma retry_loop_success:
  "retry_arm env r w = (r1, w1) \<Longrightarrow> func w1 = Some (Inr x, w2) \<Longrightarrow> retry_loop env func r w = Some (Inr x, r1, w2)"
  by (subst retry_loop.simps) simp

lemma retry_loop_again:
  "retry_arm env r w = (r1, w1) \<Longrightarrow> func w1 = Some (Inl e, w2) \<Longrightarrow> e \<noteq> ConnectionClosedError \<Longrightarrow>
   retryable r1 e \<Longrightarrow> retry_failure env r1 w2 = (Inr u, r2, w3) \<Longrightarrow>
   retry_loop env func r w = retry_loop env func r2 w3"
  by (subst retry_loop.simps) simp

lemma retry_loop_raises:
  "retry_arm env r w = (r1, w1) \<Longrightarrow> func w1 = Some (Inl e, w2) \<Longrightarrow> e = ConnectionClosedError \<or> \<not> retryable r1 e \<Longrightarrow>
   retry_loop env func r w = Some (Inl e, r1, w2)"
  by (subst retry_loop.simps) auto

text \<open>Surroundings in which no time passes and no one interrupts.\<close>

definition still_env :: "'w retry_env" where
  "still_env = \<lparr>env_monotonic = (\<lambda>w. (0, w)), env_uniform = (\<lambda>lo hi w. (lo, w)), env_sleep = (\<lambda>t w. w),
     env_interrupt = None\<rparr>"

lemma still_env_keeps [simp]: "env_keeps still_env P"
  by (simp add: env_keeps_def still_env_def)

lemma still_lift [simp]: "lift_env still_env = still_env"
  by (simp add: lift_env_def still_env_def fun_eq_iff)

lemma still_retry_failure:
  "max_tries r = None \<Longrightarrow> cur_stoptime r = None \<Longrightarrow> \<exists>r'. retry_failure still_env r w = (Inr (), r', w)
     \<and> same_config r r' \<and> cur_stoptime r' = None"
  by (simp add: retry_failure_def still_env_def next_sleep_def past_deadline_def retry_wait_def Let_def same_config_def)

definition forever :: retry where
  "forever = retry_init None 1 2 0 60 True None"

lemma forever_simps [simp]:
  "retry_copy forever = forever" "retry_reset forever = forever" "retry_arm env forever w = (forever, w)"
  "max_tries forever = None" "deadline forever = None" "cur_stoptime forever = None"
  by (simp_all add: forever_def retry_copy_def retry_reset_def retry_init_def retry_arm_def)

lemma io_retry_forever:
  "zk_retry zk = still_env \<Longrightarrow> func w = Some (Inr x, w') \<Longrightarrow> io_retry zk forever func w = Some (Inr x, w')"
  "zk_retry zk = still_env \<Longrightarrow> func w = Some (Inl e, w') \<Longrightarrow> e = ConnectionClosedError \<or> \<not> retryable forever e \<Longrightarrow>
     io_retry zk forever func w = Some (Inl e, w')"
  by (simp_all add: io_retry_def retry_call_partial_def retry_loop_success retry_loop_raises)

lemma io_retry_self_forever:
  "zk_retry zk = still_env \<Longrightarrow> func sw = Some (Inr x, sw') \<Longrightarrow> io_retry_self zk forever func sw = Some (Inr x, sw')"
  "zk_retry zk = still_env \<Longrightarrow> func sw = Some (Inl e, sw1) \<Longrightarrow> e \<noteq> ConnectionClosedError \<Longrightarrow> retryable forever e \<Longrightarrow>
     func sw1 = Some (Inr x, sw2) \<Longrightarrow> io_retry_self zk forever func sw = Some (Inr x, sw2)"
proof -
  assume zk: "zk_retry zk = still_env"
  show "func sw = Some (Inr x, sw') \<Longrightarrow> io_retry_self zk forever func sw = Some (Inr x, sw')"
    by (simp add: io_retry_self_def retry_call_partial_def zk retry_loop_success)
  assume f: "func sw = Some (Inl e, sw1)" "e \<noteq> ConnectionClosedError" "retryable forever e" "func sw1 = Some (Inr x, sw2)"
  obtain r' where r': "retry_failure still_env forever sw1 = (Inr (), r', sw1)" "same_config forever r'"
    "cur_stoptime r' = None" using still_retry_failure [of forever sw1] by auto
  then have "retry_arm still_env r' sw1 = (r', sw1)" by (simp add: retry_arm_def same_config_def)
  then show "io_retry_self zk forever func sw = Some (Inr x, sw2)"
    using retry_loop_again [of still_env forever sw forever sw func e sw1 "()" r' sw1] f r'
      retry_loop_success [of still_env r' sw1 r' sw1 func x sw2]
    by (simp add: io_retry_self_def retry_call_partial_def zk)
qed

lemma retry_loop_total:
  assumes "env_keeps env P" and "P w" and "\<And>w. P w \<Longrightarrow> \<exists>x w'. func w = Some (Inr x, w') \<and> Q x w'"
  shows "\<exists>x r' w'. retry_loop env func r w = Some (Inr x, r', w') \<and> Q x w'"
proof -
  obtain r1 w1 where arm: "retry_arm env r w = (r1, w1)" by fastforce
  then have "P w1" using retry_arm_keeps [OF assms(1,2)] by blast
  then obtain x w' where "func w1 = Some (Inr x, w')" "Q x w'" using assms(3) by blast
  then show ?thesis using retry_loop_success [of env r w r1 w1 func x w'] arm by blast
qed

lemma io_retry_total:
  assumes "env_keeps (zk_retry zk) P" and "P w" and "\<And>w. P w \<Longrightarrow> \<exists>x w'. func w = Some (Inr x, w') \<and> Q x w'"
  shows "\<exists>x w'. io_retry zk r func w = Some (Inr x, w') \<and> Q x w'"
proof -
  obtain x r' w' where "retry_loop (zk_retry zk) func (retry_reset (retry_copy r)) w = Some (Inr x, r', w')" "Q x w'"
    using retry_loop_total [where func = func and P = P and Q = Q, OF assms] by blast
  then show ?thesis by (simp add: io_retry_def retry_call_partial_def)
qed

lemma io_retry_self_total:
  assumes "\<And>s. env_keeps (zk_retry zk) (\<lambda>w. P (s, w))" and "P sw"
    and "\<And>sw. P sw \<Longrightarrow> \<exists>x sw'. func sw = Some (Inr x, sw') \<and> Q x sw'"
  shows "\<exists>x sw'. io_retry_self zk r func sw = Some (Inr x, sw') \<and> Q x sw'"
proof -
  obtain x r' sw' where "retry_loop (lift_env (zk_retry zk)) func (retry_reset r) sw = Some (Inr x, r', sw')" "Q x sw'"
    using retry_loop_total [where func = func and P = P and Q = Q, OF env_keeps_lift [OF assms(1)] assms(2,3)] by blast
  then show ?thesis by (simp add: io_retry_self_def retry_call_partial_def)
qed

text \<open>A client whose operations are all refused, from which the examples start.\<close>

definition blank_stat :: znode_stat where
  "blank_stat = \<lparr>czxid = 0, mzxid = 0, ctime = 0, mtime = 0, version = 0, cversion = 0, aversion = 0,
     ephemeralOwner = 0, dataLength = 0, numChildren = 0, pzxid = 0\<rparr>"

definition zk_refuse :: "'w zk" where
  "zk_refuse = \<lparr>zk_create = (\<lambda>_ _ _ _ _. io_raise (ZkErr UnimplementedError)),
     zk_ensure_path = (\<lambda>_. io_return True), zk_exists = (\<lambda>_. io_return None), zk_exists_w = (\<lambda>_. io_return None),
     zk_get = (\<lambda>_. io_raise (ZkErr NoNodeError)), zk_get_w = (\<lambda>_. io_raise (ZkErr NoNodeError)),
     zk_get_children = (\<lambda>_. io_return []), zk_get_children_w = (\<lambda>_. io_return []),
     zk_set = (\<lambda>_ _ _. io_raise (ZkErr NoNodeError)), zk_delete = (\<lambda>_. io_raise (ZkErr NoNodeError)),
     zk_sync = io_return, zk_transaction = (\<lambda>_. io_return []), zk_retry = still_env\<rparr>"

end
