(* ===== verification/OperationsProps.thy ===== *)
theory OperationsProps
  imports Operations RetryInv "HOL-Library.Sublist"
begin

text \<open>
  What the client's operations promise, against servers that are only known by the laws they
  keep: the nodes of a server are the component lists of its paths.
\<close>

section \<open>Splitting a path\<close>

lemma posix_split_parts:
  "\<exists>h. p = h @ snd (posix_split p) \<and> slash \<notin> set (snd (posix_split p))
     \<and> (h = [] \<or> ends_with h ''/'')
     \<and> fst (posix_split p) = (if list_all (\<lambda>x. x = slash) h then h else rstrip slash h)"
proof -
  let ?tl = "takeWhile (\<lambda>x. x \<noteq> slash) (rev p)" and ?hd = "dropWhile (\<lambda>x. x \<noteq> slash) (rev p)"
  have p: "p = rev ?hd @ rev ?tl" by (metis rev_append rev_rev_ident takeWhile_dropWhile_id)
  have take: "take (length p - length (rev ?tl)) p = rev ?hd"
    by (subst (2) p) (metis append_eq_conv_conj diff_add_inverse2 length_append length_rev p)
  have "slash \<notin> set (rev ?tl)" by (auto dest: set_takeWhileD)
  moreover have "rev ?hd = [] \<or> ends_with (rev ?hd) ''/''"
    by (cases ?hd) (use hd_dropWhile [of "\<lambda>x. x \<noteq> slash" "rev p"] in \<open>auto simp: ends_with_singleton\<close>)
  ultimately show ?thesis
    using p take by (intro exI [of _ "rev ?hd"]) (simp add: posix_split_def Let_def)
qed

lemma list_all_slash_comps: "list_all (\<lambda>x. x = slash) h \<Longrightarrow> path_comps h = []"
proof (induction h)
  case (Cons x h)
  then show ?case by simp
qed simp

lemma rstrip_append: "\<exists>k. s = rstrip c s @ replicate k c"
proof -
  have "takeWhile (\<lambda>x. x = c) (rev s) = replicate (length (takeWhile (\<lambda>x. x = c) (rev s))) c"
    by (metis (mono_tags, lifting) replicate_length_same set_takeWhileD)
  then have "s = rev (dropWhile (\<lambda>x. x = c) (rev s)) @ replicate (length (takeWhile (\<lambda>x. x = c) (rev s))) c"
    by (metis rev_append rev_replicate rev_rev_ident takeWhile_dropWhile_id)
  then show ?thesis by (auto simp: rstrip_def lstrip_def)
qed

lemma path_comps_slashes: "path_comps (s @ replicate k slash) = path_comps s"
proof (induction k)
  case (Suc k)
  have "s @ replicate (Suc k) slash = (s @ replicate k slash) @ [slash]"
    by (simp add: replicate_append_same)
  with Suc show ?case by (metis path_comps_snoc_slash)
qed simp

lemma rstrip_not_slash: "\<not> ends_with (rstrip slash s) ''/''"
  using hd_dropWhile [of "\<lambda>x. x = slash" "rev s"]
  by (auto simp: rstrip_def lstrip_def ends_with_singleton last_rev)

lemma path_comps_no_slash: "slash \<notin> set t \<Longrightarrow> path_comps t = (if t = [] then [] else [t])"
  by (simp add: path_comps_def split_on_no_sep)

lemma posix_split_comps:
  assumes "\<not> ends_with p ''/''" and "path_comps p \<noteq> []"
  shows "snd (posix_split p) \<noteq> []" "path_comps p = path_comps (fst (posix_split p)) @ [snd (posix_split p)]"
    "\<not> ends_with (fst (posix_split p)) ''/'' \<or> path_comps (fst (posix_split p)) = []"
    "length (fst (posix_split p)) < length p"
proof -
  let ?t = "snd (posix_split p)"
  obtain h where h: "p = h @ ?t" "slash \<notin> set ?t" "h = [] \<or> ends_with h ''/''"
    and f: "fst (posix_split p) = (if list_all (\<lambda>x. x = slash) h then h else rstrip slash h)"
    using posix_split_parts by blast
  show t: "?t \<noteq> []"
  proof
    assume "?t = []"
    with h(1,3) assms show False by (metis append_Nil2 path_comps_Nil)
  qed
  have "path_comps p = path_comps h @ [?t]"
  proof (cases "h = []")
    case True
    then have "p = ?t" using h(1) by simp
    then show ?thesis using h(2) t True by (metis append_Nil path_comps_Nil path_comps_no_slash)
  next
    case False
    then obtain h' where h': "h = h' @ [slash]"
      using h(3) by (metis ends_with_singleton snoc_eq_iff_butlast)
    then have "path_comps p = path_comps h' @ path_comps ?t"
      using h(1) by (metis append.assoc append_Cons append_Nil path_comps_sep)
    then show ?thesis using h' h(2) t by (simp add: path_comps_no_slash)
  qed
  moreover have "path_comps (fst (posix_split p)) = path_comps h"
    by (simp add: f)
  ultimately show "path_comps p = path_comps (fst (posix_split p)) @ [?t]" by simp
  show "\<not> ends_with (fst (posix_split p)) ''/'' \<or> path_comps (fst (posix_split p)) = []"
    using rstrip_not_slash [of h] list_all_slash_comps [of h] by (simp add: f)
  have "length (rstrip slash h) \<le> length h"
    using rstrip_append [of h slash] by (metis le_add1 length_append)
  then have "length (fst (posix_split p)) \<le> length h" by (simp add: f)
  moreover have "length p = length h + length ?t" using h(1) by (metis length_append)
  moreover have "length ?t \<noteq> 0" using t by simp
  ultimately show "length (fst (posix_split p)) < length p" by linarith
qed

lemma rejoin_comps:
  assumes "chroot_form c" and "prefix_root c p t = Inr q"
  shows "path_comps q = path_comps c @ path_comps p"
proof -
  have r: "path_comps (join_with ''/'' (path_comps c @ path_comps p)) = path_comps c @ path_comps p"
    using path_comps_join_with path_comps_elem by (metis Un_iff set_append)
  then have "path_comps (slash # join_with ''/'' (path_comps c @ path_comps p) @ [slash]) = path_comps c @ path_comps p"
    by (metis path_comps_slash path_comps_snoc_slash)
  with r show ?thesis using assms(2) by (auto simp: prefix_root_eq [OF assms(1)] split: if_splits)
qed

section \<open>Making paths\<close>

text \<open>
  What the server promises while other clients may add nodes, but none removes any:
  \<^verbatim>\<open>exists\<close> tells the truth, \<^verbatim>\<open>create\<close> makes the node, or finds it made, or finds its parent
  missing. The nodes are closed under parents, the root is one.
\<close>

definition creating_server :: "(request \<Rightarrow> ('w, response) io) \<Rightarrow> ('w \<Rightarrow> string list set) \<Rightarrow> bool" where
  "creating_server serve nodes \<longleftrightarrow>
     (\<forall>w cs x. cs @ [x] \<in> nodes w \<longrightarrow> cs \<in> nodes w)
   \<and> (\<forall>p w. \<exists>st w'. serve (Exists p None) w = Some (Inr (RespExists st), w') \<and> nodes w \<subseteq> nodes w'
        \<and> (st \<noteq> None \<longrightarrow> path_comps p \<in> nodes w') \<and> (st = None \<longrightarrow> path_comps p \<notin> nodes w))
   \<and> (\<forall>p d a w. \<exists>r w'. serve (Create p d a 0) w = Some (r, w') \<and> nodes w \<subseteq> nodes w'
        \<and> ((\<exists>q. r = Inr (RespPath (Some q))) \<and> path_comps p \<in> nodes w'
         \<or> r = Inl (ZkErr NodeExistsError) \<and> path_comps p \<in> nodes w'
         \<or> r = Inl (ZkErr NoNodeError) \<and> butlast (path_comps p) \<notin> nodes w))"

lemma creating_server_prefix:
  assumes "creating_server serve nodes" and "cs @ ds \<in> nodes w"
  shows "cs \<in> nodes w"
  using assms(2)
proof (induction ds rule: rev_induct)
  case (snoc x ds)
  then have "cs @ ds \<in> nodes w" using assms(1) unfolding creating_server_def by (metis append.assoc)
  then show ?case by (rule snoc.IH)
qed simp

lemma create_once_creates:
  assumes "creating_server (cl_call cl) nodes" and "chroot_form (cl_chroot cl)"
    and "\<not> dotted (path_comps path)" and "path_comps path \<noteq> []"
    and "path_comps (cl_chroot cl) @ butlast (path_comps path) \<in> nodes w"
  shows "\<exists>r w'. create_once cl path d a 0 False False w = Some (r, w') \<and> nodes w \<subseteq> nodes w'
    \<and> path_comps (cl_chroot cl) @ path_comps path \<in> nodes w'
    \<and> (r = Inl (ZkErr NodeExistsError) \<or> (\<exists>q. r = Inr q))"
proof -
  obtain q where q: "prefix_root (cl_chroot cl) path False = Inr q"
    using assms(3) by (simp add: prefix_root_eq [OF assms(2)])
  have comps: "path_comps q = path_comps (cl_chroot cl) @ path_comps path"
    by (rule rejoin_comps [OF assms(2) q])
  obtain r w' where r: "cl_call cl (Create q d a 0) w = Some (r, w')" "nodes w \<subseteq> nodes w'"
    and cases: "(\<exists>q'. r = Inr (RespPath (Some q'))) \<and> path_comps q \<in> nodes w'
      \<or> r = Inl (ZkErr NodeExistsError) \<and> path_comps q \<in> nodes w'
      \<or> r = Inl (ZkErr NoNodeError) \<and> butlast (path_comps q) \<notin> nodes w"
    using assms(1) unfolding creating_server_def by blast
  have "butlast (path_comps q) \<in> nodes w"
    using assms(4,5) by (simp add: comps butlast_append)
  with cases consider q' where "r = Inr (RespPath (Some q'))" "path_comps q \<in> nodes w'"
    | "r = Inl (ZkErr NodeExistsError)" "path_comps q \<in> nodes w'" by blast
  then show ?thesis
    using r comps by cases (auto simp: create_once_def create_request_def q)
qed

lemma ensure_path_aux:
  assumes "creating_server (cl_call cl) nodes" and "chroot_form (cl_chroot cl)"
    and "path_comps (cl_chroot cl) \<in> nodes w" and "\<not> dotted (path_comps path)"
    and "\<not> ends_with path ''/'' \<or> path_comps path = []"
  shows "\<exists>r w'. ensure_path cl path acl w = Some (Inr r, w') \<and> nodes w \<subseteq> nodes w'
    \<and> path_comps (cl_chroot cl) @ path_comps path \<in> nodes w'"
  using assms(3-5)
proof (induction "length path" arbitrary: path acl w rule: less_induct)
  case less
  obtain q where q: "prefix_root (cl_chroot cl) path False = Inr q"
    using less.prems(2) by (simp add: prefix_root_eq [OF assms(2)])
  have comps: "path_comps q = path_comps (cl_chroot cl) @ path_comps path"
    by (rule rejoin_comps [OF assms(2) q])
  obtain st w1 where st: "cl_call cl (Exists q None) w = Some (Inr (RespExists st), w1)"
    "nodes w \<subseteq> nodes w1" "st \<noteq> None \<longrightarrow> path_comps q \<in> nodes w1" "st = None \<longrightarrow> path_comps q \<notin> nodes w"
    using assms(1) unfolding creating_server_def by blast
  have ex: "client_exists cl path None w = Some (Inr st, w1)"
    by (simp add: client_exists_def exists_request_def q st(1))
  show ?case
  proof (cases "st = None")
    case False
    then show ?thesis
      using st comps by (subst ensure_path.simps) (simp add: ex)
  next
    case True
    then have ne: "path_comps path \<noteq> []" using st comps less.prems(1) by auto
    with less.prems(3) have ns: "\<not> ends_with path ''/''" by simp
    let ?p = "fst (posix_split path)" and ?a = "acl_or (cl_default_acl cl) acl"
    note split = posix_split_comps [OF ns ne]
    have "\<not> dotted (path_comps ?p)" using less.prems(2) split(2) by simp
    then obtain r w2 where par: "ensure_path cl ?p ?a w1 = Some (Inr r, w2)" "nodes w1 \<subseteq> nodes w2"
      "path_comps (cl_chroot cl) @ path_comps ?p \<in> nodes w2"
      using less.hyps [OF split(4) _ _ split(3)] less.prems(1) st(2) by blast
    have "butlast (path_comps path) = path_comps ?p" using split(2) by simp
    then obtain c w3 where cr: "create_once cl path (Some []) (create_acl (cl_default_acl cl) ?a) 0 False False w2
        = Some (c, w3)" "nodes w2 \<subseteq> nodes w3" "path_comps (cl_chroot cl) @ path_comps path \<in> nodes w3"
      "c = Inl (ZkErr NodeExistsError) \<or> (\<exists>q. c = Inr q)"
      using create_once_creates [OF assms(1,2) less.prems(2) ne] par(3) by metis
    from cr(4) obtain res where res: "ensure_path cl path acl w = Some (Inr res, w3)"
    proof
      assume "c = Inl (ZkErr NodeExistsError)"
      then show ?thesis using that True ex par(1) cr(1) split(1)
        by (subst (asm) ensure_path.simps) (simp add: is_node_exists_def io_bind_def io_catch_def)
    next
      assume "\<exists>q. c = Inr q"
      then show ?thesis using that True ex par(1) cr(1) split(1)
        by (subst (asm) ensure_path.simps) (auto simp: io_bind_def io_catch_def)
    qed
    then show ?thesis using cr st(2) par(2) by blast
  qed
qed

text \<open>
  C14. \<^verbatim>\<open>ensure_path\<close> returns, and then the node and all nodes above it exist, whatever other
  clients create in the meantime; no node is removed. The chroot must exist, and the path must
  not end in a slash.
\<close>

theorem ensure_path_creates:
  assumes "creating_server (cl_call cl) nodes" and "chroot_form (cl_chroot cl)"
    and "path_comps (cl_chroot cl) \<in> nodes w" and "\<not> dotted (path_comps path)"
    and "\<not> ends_with path ''/'' \<or> path_comps path = []"
  shows "\<exists>r w'. ensure_path cl path acl w = Some (Inr r, w') \<and> nodes w \<subseteq> nodes w'
    \<and> (\<forall>k. path_comps (cl_chroot cl) @ take k (path_comps path) \<in> nodes w')"
proof -
  obtain r w' where w': "ensure_path cl path acl w = Some (Inr r, w')" "nodes w \<subseteq> nodes w'"
    "path_comps (cl_chroot cl) @ path_comps path \<in> nodes w'"
    using ensure_path_aux [OF assms] by blast
  have "path_comps (cl_chroot cl) @ take k (path_comps path) \<in> nodes w'" for k
    using w'(3) creating_server_prefix [OF assms(1), of _ "drop k (path_comps path)"]
    by (metis append.assoc append_take_drop_id)
  with w' show ?thesis by blast
qed

text \<open>A server with one client; a world is the list of its nodes, those without a parent do not count.\<close>

definition demo_has :: "string list list \<Rightarrow> string list \<Rightarrow> bool" where
  "demo_has w cs \<longleftrightarrow> list_all (\<lambda>k. take (Suc k) cs \<in> set w) [0..<length cs]"

fun demo_server :: "request \<Rightarrow> (string list list, response) io" where
  "demo_server (Exists p _) w =
     Some (Inr (RespExists (if demo_has w (path_comps p) then Some blank_stat else None)), w)"
| "demo_server (Create p _ _ _) w =
     (let cs = path_comps p in
      if demo_has w cs then Some (Inl (ZkErr NodeExistsError), w)
      else if demo_has w (butlast cs) then Some (Inr (RespPath (Some p)), w @ [cs])
      else Some (Inl (ZkErr NoNodeError), w))"
| "demo_server _ w = Some (Inl (ZkErr UnimplementedError), w)"

definition demo_caller :: "string list list caller" where
  "demo_caller = \<lparr>cl_call = demo_server, cl_chroot = [], cl_default_acl = None\<rparr>"

lemma demo_has_iff: "demo_has w cs \<longleftrightarrow> (\<forall>k < length cs. take (Suc k) cs \<in> set w)"
  by (auto simp: demo_has_def list_all_iff)

lemma demo_has_Nil [simp]: "demo_has w []"
  by (simp add: demo_has_def)

lemma demo_has_snoc: "demo_has w (cs @ [x]) \<longleftrightarrow> demo_has w cs \<and> cs @ [x] \<in> set w"
  by (auto simp: demo_has_iff less_Suc_eq)

lemma demo_has_mono: "demo_has w cs \<Longrightarrow> demo_has (w @ ws) cs"
  by (simp add: demo_has_iff)

lemma demo_server_creates: "creating_server demo_server (\<lambda>w. {cs. demo_has w cs})"
proof -
  have new: "demo_has (w @ [cs]) cs" if "demo_has w (butlast cs)" for w cs
    using that by (cases cs rule: rev_cases) (simp_all add: demo_has_snoc demo_has_mono)
  show ?thesis
    unfolding creating_server_def
    by (intro conjI allI) (auto simp: demo_has_snoc Let_def demo_has_mono new)
qed

theorem ensure_path_creates_witness:
  "\<exists>r w'. ensure_path demo_caller ''/a/b'' None [[''z'']] = Some (Inr r, w')
     \<and> demo_has w' [''a''] \<and> demo_has w' [''a'', ''b''] \<and> demo_has w' [''z'']"
proof -
  have f: "chroot_form (cl_chroot demo_caller)" "path_comps (cl_chroot demo_caller) = []"
    by (simp_all add: demo_caller_def chroot_form_def)
  have p: "path_comps ''/a/b'' = [''a'', ''b'']" "\<not> dotted (path_comps ''/a/b'')" "\<not> ends_with ''/a/b'' ''/''"
    by code_simp+
  have z: "demo_has [[''z'']] [''z'']" "demo_has [[''z'']] []" by code_simp+
  obtain r w' where r: "ensure_path demo_caller ''/a/b'' None [[''z'']] = Some (Inr r, w')"
    "{cs. demo_has [[''z'']] cs} \<subseteq> {cs. demo_has w' cs}"
    "\<forall>k. path_comps (cl_chroot demo_caller) @ take k (path_comps ''/a/b'') \<in> {cs. demo_has w' cs}"
    using ensure_path_creates [of demo_caller "\<lambda>w. {cs. demo_has w cs}" "[[''z'']]" "''/a/b''" None]
      demo_server_creates f p z(2) by (auto simp: demo_caller_def)
  from r(3) have "demo_has w' (take 1 [''a'', ''b''])" "demo_has w' (take 2 [''a'', ''b''])"
    unfolding f(2) p(1) by (metis append_Nil mem_Collect_eq)+
  then show ?thesis using r(1,2) z(1) by auto
qed

text \<open>
  With a slash at its end the same path is not made: the parents are left out, and the create
  fails when they are missing.
\<close>

theorem ensure_path_trailing_slash:
  assumes "prefix_root (cl_chroot cl) (p @ ''/'') False = Inr q"
    and "cl_call cl (Exists q None) w = Some (Inr (RespExists None), w1)"
    and "\<And>d a. cl_call cl (Create q d a 0) w1 = Some (Inl (ZkErr NoNodeError), w2)"
  shows "ensure_path cl (p @ ''/'') acl w = Some (Inl (ZkErr NoNodeError), w2)"
proof -
  have node: "snd (posix_split (p @ ''/'')) = ''''"
    by (simp add: posix_split_def Let_def)
  have "client_exists cl (p @ ''/'') None w = Some (Inr None, w1)"
    using assms(1,2) by (simp add: client_exists_def exists_request_def)
  moreover have "create_once cl (p @ ''/'') d a 0 False False w1 = Some (Inl (ZkErr NoNodeError), w2)" for d a
    using assms(1,3) by (simp add: create_once_def create_request_def)
  ultimately show ?thesis
    by (subst ensure_path.simps) (simp add: node is_node_exists_def io_bind_def io_catch_def)
qed

theorem ensure_path_trailing_slash_witness:
  "ensure_path demo_caller ''/a/b/'' None [] = Some (Inl (ZkErr NoNodeError), [])
   \<and> (\<exists>r w'. ensure_path demo_caller ''/a/b'' None [] = Some (Inr r, w'))"
proof -
  have q: "prefix_root (cl_chroot demo_caller) (''/a/b'' @ ''/'') False = Inr ''/a/b''" by code_simp
  have d: "cl_call demo_caller (Exists ''/a/b'' None) [] = Some (Inr (RespExists None), [])"
    "cl_call demo_caller (Create ''/a/b'' d a 0) [] = Some (Inl (ZkErr NoNodeError), [])" for d a
    by (simp_all add: demo_caller_def demo_has_def path_comps_def Let_def)
  have "chroot_form (cl_chroot demo_caller)" "path_comps (cl_chroot demo_caller) = []" "demo_has [] []"
    "\<not> dotted (path_comps ''/a/b'')" "\<not> ends_with ''/a/b'' ''/''"
    by (simp_all add: demo_caller_def chroot_form_def demo_has_iff dotted_def path_comps_def ends_with_def)
  then have "\<exists>r w'. ensure_path demo_caller ''/a/b'' None [] = Some (Inr r, w')"
    using ensure_path_aux [of demo_caller "\<lambda>w. {cs. demo_has w cs}" "[]" "''/a/b''" None] demo_server_creates
    by (auto simp: demo_caller_def)
  then show ?thesis using ensure_path_trailing_slash [OF q d] by simp
qed

section \<open>Recursive deletion\<close>

text \<open>
  A server whose nodes nobody else changes meanwhile: it lists the children of a node, deletes
  a node without children, and knows when a node is missing.
\<close>

definition tree_server :: "(request \<Rightarrow> ('w, response) io) \<Rightarrow> ('w \<Rightarrow> string list set) \<Rightarrow> bool" where
  "tree_server serve nodes \<longleftrightarrow>
     (\<forall>w. finite (nodes w) \<and> (\<forall>cs x. cs @ [x] \<in> nodes w \<longrightarrow> cs \<in> nodes w \<and> clean_comps [x]))
   \<and> (\<forall>p w. \<exists>w'. nodes w' = nodes w \<and>
        (if path_comps p \<in> nodes w
         then \<exists>xs. serve (GetChildren p None) w = Some (Inr (RespChildren (map Some xs)), w')
            \<and> set xs = {x. path_comps p @ [x] \<in> nodes w}
         else serve (GetChildren p None) w = Some (Inl (ZkErr NoNodeError), w')))
   \<and> (\<forall>p w. path_comps p \<noteq> [] \<longrightarrow> path_comps p \<in> nodes w \<longrightarrow> (\<forall>x. path_comps p @ [x] \<notin> nodes w) \<longrightarrow>
        (\<exists>w'. serve (Delete p (-1)) w = Some (Inr RespTrue, w') \<and> nodes w' = nodes w - {path_comps p}))"

definition below :: "string list \<Rightarrow> string list set" where
  "below cs = {q. prefix cs q}"

lemma tree_server_finite: "tree_server serve nodes \<Longrightarrow> finite (nodes w)"
  by (simp add: tree_server_def)

lemma tree_server_clean: "tree_server serve nodes \<Longrightarrow> cs @ [x] \<in> nodes w \<Longrightarrow> cs \<in> nodes w \<and> clean_comps [x]"
  by (simp add: tree_server_def)

lemma tree_server_list:
  assumes "tree_server serve nodes" and "path_comps p = cs"
  shows "\<exists>w'. nodes w' = nodes w \<and>
        (if cs \<in> nodes w
         then \<exists>xs. serve (GetChildren p None) w = Some (Inr (RespChildren (map Some xs)), w')
            \<and> set xs = {x. cs @ [x] \<in> nodes w}
         else serve (GetChildren p None) w = Some (Inl (ZkErr NoNodeError), w'))"
  using assms(1) unfolding tree_server_def assms(2) [symmetric] by blast

lemma tree_server_delete:
  assumes "tree_server serve nodes" and "path_comps p = cs" and "cs \<noteq> []" and "cs \<in> nodes w"
    and "\<forall>x. cs @ [x] \<notin> nodes w"
  shows "\<exists>w'. serve (Delete p (-1)) w = Some (Inr RespTrue, w') \<and> nodes w' = nodes w - {cs}"
  using assms(1,3-5) unfolding tree_server_def assms(2) [symmetric] by blast

lemma tree_server_closed:
  assumes "tree_server serve nodes" and "cs @ ds \<in> nodes w"
  shows "cs \<in> nodes w"
  using assms(2)
proof (induction ds rule: rev_induct)
  case (snoc x ds)
  then have "cs @ ds \<in> nodes w" using tree_server_clean [OF assms(1)] by (metis append.assoc)
  then show ?case by (rule snoc.IH)
qed simp

lemma tree_server_child:
  assumes "tree_server serve nodes" and "q \<in> nodes w" and "prefix cs q" and "q \<noteq> cs"
  shows "\<exists>x. cs @ [x] \<in> nodes w \<and> prefix (cs @ [x]) q"
proof -
  obtain x t where "q = (cs @ [x]) @ t"
    using assms(3,4) by (metis append.assoc append_Cons append_Nil prefixE append_Nil2 neq_Nil_conv)
  then show ?thesis using tree_server_closed [OF assms(1), of "cs @ [x]" t w] assms(2) by auto
qed

lemma child_path_comps:
  assumes "clean_comps [y]"
  shows "\<exists>p'. child_path path (Some y) = Inr p' \<and> path_comps p' = path_comps path @ [y]"
proof -
  have "path_comps y = [y]" using assms path_comps_no_slash [of y] by (simp add: clean_comps_def)
  then show ?thesis by (simp add: child_path_def)
qed

lemma delete_children:
  assumes "\<And>y w. y \<in> set ys \<Longrightarrow> nodes w \<subseteq> N \<Longrightarrow>
      \<exists>r w'. f (Some y) w = Some (Inr r, w') \<and> nodes w' = nodes w - below (cs @ [y])"
    and "nodes w \<subseteq> N"
  shows "\<exists>rs w'. io_map f (map Some ys) w = Some (Inr rs, w') \<and> nodes w' = nodes w - (\<Union>y\<in>set ys. below (cs @ [y]))"
  using assms
proof (induction ys arbitrary: w)
  case Nil
  then show ?case by simp
next
  case (Cons y ys)
  obtain r w1 where r: "f (Some y) w = Some (Inr r, w1)" "nodes w1 = nodes w - below (cs @ [y])"
    using Cons.prems(1) [of y w] Cons.prems(2) by auto
  moreover have "nodes w1 \<subseteq> N" using r(2) Cons.prems(2) by blast
  then obtain rs w' where "io_map f (map Some ys) w1 = Some (Inr rs, w')"
    "nodes w' = nodes w1 - (\<Union>y\<in>set ys. below (cs @ [y]))"
    using Cons.IH Cons.prems(1) by (metis list.set_intros(2))
  ultimately show ?case by (auto simp: io_bind_def)
qed

lemma client_calls:
  assumes "chroot_form (cl_chroot cl)" and "\<not> dotted (path_comps path)"
  obtains q where "path_comps q = path_comps (cl_chroot cl) @ path_comps path"
    "client_get_children cl path None False = io_bind (cl_call cl (GetChildren q None)) (\<lambda>resp.
       case resp of RespChildren xs \<Rightarrow> io_return (xs, None) | RespNil \<Rightarrow> io_return ([], None)
       | RespChildren2 xs st \<Rightarrow> io_return (xs, Some st) | _ \<Rightarrow> io_raise PyTypeError)"
    "client_delete cl path (-1) = io_bind (cl_call cl (Delete q (-1))) (\<lambda>resp.
       case resp of RespTrue \<Rightarrow> io_return () | _ \<Rightarrow> io_raise PyTypeError)"
proof -
  obtain q where q: "prefix_root (cl_chroot cl) path False = Inr q"
    using assms by (simp add: prefix_root_eq [OF assms(1)])
  show thesis
    by (rule that [OF rejoin_comps [OF assms(1) q]])
      (simp_all add: client_get_children_def get_children_request_def client_delete_def delete_request_def q)
qed

lemma Diff_cong_Int: "A \<inter> C = B \<inter> C \<Longrightarrow> C - A = C - B"
  by blast

lemma below_children:
  assumes "tree_server serve nodes" and "set xs = {x. cs @ [x] \<in> nodes w}"
  shows "(\<Union>y\<in>set xs. below (cs @ [y])) \<inter> nodes w = (below cs - {cs}) \<inter> nodes w"
proof
  show "(\<Union>y\<in>set xs. below (cs @ [y])) \<inter> nodes w \<subseteq> (below cs - {cs}) \<inter> nodes w"
    by (auto simp: below_def prefix_def)
  show "(below cs - {cs}) \<inter> nodes w \<subseteq> (\<Union>y\<in>set xs. below (cs @ [y])) \<inter> nodes w"
    using tree_server_child [OF assms(1)] by (fastforce simp: below_def assms(2))
qed

lemma delete_recursive_step:
  assumes "client_get_children cl path None False w = Some (Inr (cs, st), w1)"
    and "io_map (\<lambda>child. io_bind (io_sum (child_path path child)) (delete_recursive cl)) cs w1 = Some (Inr rs, w2)"
    and "client_delete cl path (-1) w2 = Some (Inr (), w3)"
  shows "delete_recursive cl path w = Some (Inr None, w3)"
  by (subst delete_recursive.simps) (use assms in simp)

lemma delete_recursive_aux:
  assumes "tree_server (cl_call cl) nodes" and "chroot_form (cl_chroot cl)"
    and "path_comps (cl_chroot cl) @ path_comps path \<noteq> []" and "\<not> dotted (path_comps path)"
  shows "\<exists>r w'. delete_recursive cl path w = Some (Inr r, w')
    \<and> nodes w' = nodes w - below (path_comps (cl_chroot cl) @ path_comps path)"
  using assms(3,4)
proof (induction "card (nodes w \<inter> below (path_comps (cl_chroot cl) @ path_comps path))"
    arbitrary: path w rule: less_induct)
  case less
  let ?cs = "path_comps (cl_chroot cl) @ path_comps path"
  obtain q where q: "path_comps q = ?cs"
    and gc: "client_get_children cl path None False = io_bind (cl_call cl (GetChildren q None)) (\<lambda>resp.
       case resp of RespChildren xs \<Rightarrow> io_return (xs, None) | RespNil \<Rightarrow> io_return ([], None)
       | RespChildren2 xs st \<Rightarrow> io_return (xs, Some st) | _ \<Rightarrow> io_raise PyTypeError)"
    and dl: "client_delete cl path (-1) = io_bind (cl_call cl (Delete q (-1))) (\<lambda>resp.
       case resp of RespTrue \<Rightarrow> io_return () | _ \<Rightarrow> io_raise PyTypeError)"
    by (rule client_calls [OF assms(2) less.prems(2)])
  obtain w1 where w1: "nodes w1 = nodes w"
    and list: "if ?cs \<in> nodes w
         then \<exists>xs. cl_call cl (GetChildren q None) w = Some (Inr (RespChildren (map Some xs)), w1)
            \<and> set xs = {x. ?cs @ [x] \<in> nodes w}
         else cl_call cl (GetChildren q None) w = Some (Inl (ZkErr NoNodeError), w1)"
    using tree_server_list [OF assms(1) q, of w] by (elim exE conjE) (rule that)
  show ?case
  proof (cases "?cs \<in> nodes w")
    case False
    then have "delete_recursive cl path w = Some (Inr (Some True), w1)"
      using list by (subst delete_recursive.simps) (simp add: gc is_no_node_def io_bind_def io_catch_def)
    moreover have "nodes w \<inter> below ?cs = {}"
      using False tree_server_closed [OF assms(1)] by (auto simp: below_def prefix_def)
    ultimately show ?thesis using w1 by blast
  next
    case True
    then obtain xs where xs: "cl_call cl (GetChildren q None) w = Some (Inr (RespChildren (map Some xs)), w1)"
      "set xs = {x. ?cs @ [x] \<in> nodes w}" using list by auto
    let ?f = "\<lambda>child. io_bind (io_sum (child_path path child)) (delete_recursive cl)"
    have child: "\<exists>r w'. ?f (Some y) v = Some (Inr r, w') \<and> nodes w' = nodes v - below (?cs @ [y])"
      if y: "y \<in> set xs" and v: "nodes v \<subseteq> nodes w" for y v
    proof -
      have clean: "clean_comps [y]" using y xs(2) tree_server_clean [OF assms(1)] by blast
      then obtain p' where p': "child_path path (Some y) = Inr p'" "path_comps p' = path_comps path @ [y]"
        using child_path_comps by blast
      have sub: "below (?cs @ [y]) \<subseteq> below ?cs" by (auto simp: below_def prefix_def)
      have cs: "?cs \<in> below ?cs" "?cs \<notin> below (?cs @ [y])" by (auto simp: below_def)
      have "nodes v \<inter> below (?cs @ [y]) \<noteq> nodes w \<inter> below ?cs" using cs True by (metis IntD2 IntI)
      with sub v have "nodes v \<inter> below (?cs @ [y]) \<subset> nodes w \<inter> below ?cs"
        by (intro psubsetI Int_mono)
      moreover have "finite (nodes w \<inter> below ?cs)" using tree_server_finite [OF assms(1)] by simp
      ultimately have "card (nodes v \<inter> below (?cs @ [y])) < card (nodes w \<inter> below ?cs)"
        by (rule psubset_card_mono [rotated])
      moreover have "\<not> dotted (path_comps p')" using p'(2) less.prems(2) clean by (simp add: clean_comps_def)
      ultimately show ?thesis using less.hyps [of v p'] p' by simp
    qed
    obtain rs w2 where w2: "io_map ?f (map Some xs) w1 = Some (Inr rs, w2)"
      "nodes w2 = nodes w1 - (\<Union>y\<in>set xs. below (?cs @ [y]))"
      using delete_children [of xs nodes "nodes w" ?f ?cs w1] child w1 by blast
    have left: "nodes w2 = nodes w - (below ?cs - {?cs})"
      unfolding w2(2) w1 by (rule Diff_cong_Int [OF below_children [OF assms(1) xs(2)]])
    have leaf: "?cs \<in> nodes w2" "\<forall>x. ?cs @ [x] \<notin> nodes w2"
      unfolding left using True by (simp_all add: below_def)
    obtain w3 where w3: "cl_call cl (Delete q (-1)) w2 = Some (Inr RespTrue, w3)" "nodes w3 = nodes w2 - {?cs}"
      using tree_server_delete [OF assms(1) q less.prems(1) leaf] by (elim exE conjE) (rule that)
    have "delete_recursive cl path w = Some (Inr None, w3)"
      using delete_recursive_step [of cl path w "map Some xs" None w1 rs w2 w3] xs(1) w2(1) w3(1)
      by (simp add: gc dl)
    moreover have "nodes w3 = nodes w - below ?cs"
      unfolding w3(2) left by (auto simp: below_def)
    ultimately show ?thesis by blast
  qed
qed

text \<open>
  C15. \<^verbatim>\<open>delete(recursive=True)\<close> returns, and it deletes the node and everything below it, and
  nothing else, when no other client touches the tree; a missing node is no error.
\<close>

theorem delete_recursive_subtree:
  assumes "tree_server (cl_call cl) nodes" and "chroot_form (cl_chroot cl)"
    and "path_comps (cl_chroot cl) @ path_comps path \<noteq> []" and "\<not> dotted (path_comps path)"
  shows "\<exists>r w'. client_delete_op cl path ver True w = Some (Inr r, w')
    \<and> nodes w' = nodes w - {q. prefix (path_comps (cl_chroot cl) @ path_comps path) q}"
  using delete_recursive_aux [OF assms] by (simp add: client_delete_op_def below_def)

text \<open>The nodes of a world are those with all their parents and proper names.\<close>

definition demo_nodes :: "string list list \<Rightarrow> string list set" where
  "demo_nodes w = {cs. demo_has w cs \<and> clean_comps cs}"

fun demo_tree :: "request \<Rightarrow> (string list list, response) io" where
  "demo_tree (GetChildren p _) w =
     (let cs = path_comps p in
      if demo_has w cs \<and> clean_comps cs
      then Some (Inr (RespChildren (map (Some \<circ> last)
             (filter (\<lambda>q. q \<noteq> [] \<and> butlast q = cs \<and> demo_has w q \<and> clean_comps q) w))), w)
      else Some (Inl (ZkErr NoNodeError), w))"
| "demo_tree (Delete p _) w = Some (Inr RespTrue, filter (\<lambda>q. q \<noteq> path_comps p) w)"
| "demo_tree _ w = Some (Inl (ZkErr UnimplementedError), w)"

lemma demo_has_in: "demo_has w cs \<Longrightarrow> cs \<noteq> [] \<Longrightarrow> cs \<in> set w"
  by (cases cs rule: rev_cases) (simp_all add: demo_has_snoc)

lemma clean_comps_snoc: "clean_comps (cs @ [x]) \<longleftrightarrow> clean_comps cs \<and> clean_comps [x]"
  by (auto simp: clean_comps_def)

lemma demo_has_filter:
  "demo_has (filter (\<lambda>q. q \<noteq> p) w) cs \<longleftrightarrow> demo_has w cs \<and> (\<forall>k < length cs. take (Suc k) cs \<noteq> p)"
  by (auto simp: demo_has_iff)

lemma demo_has_prefix: "demo_has w (cs @ ds) \<Longrightarrow> demo_has w cs"
  by (auto simp: demo_has_iff) (metis Suc_leI add.commute append_take_drop_id append_eq_append_conv2
      length_append take_append trans_less_add2 diff_is_0_eq append_Nil2 take_0)

lemma demo_delete:
  assumes "p \<noteq> []" and "\<forall>x. p @ [x] \<notin> demo_nodes w"
  shows "demo_nodes (filter (\<lambda>q. q \<noteq> p) w) = demo_nodes w - {p}"
proof -
  have "cs = p" if cs: "cs \<in> demo_nodes w" and k: "k < length cs" "take (Suc k) cs = p" for cs k
  proof (rule ccontr)
    assume "cs \<noteq> p"
    with k obtain x t where split: "cs = (p @ [x]) @ t"
      by (metis append.assoc append_Cons append_Nil append_Nil2 append_take_drop_id neq_Nil_conv)
    then have "p @ [x] \<in> demo_nodes w"
      using cs demo_has_prefix [of w "p @ [x]" t] by (auto simp: demo_nodes_def clean_comps_def dotted_def)
    with assms(2) show False by blast
  qed
  moreover have "take (Suc (length p - 1)) p = p" "length p - 1 < length p" using assms(1) by simp_all
  ultimately show ?thesis
    unfolding demo_nodes_def demo_has_filter by blast
qed

lemma demo_tree_server: "tree_server demo_tree demo_nodes"
  unfolding tree_server_def
proof (intro conjI allI impI)
  fix w
  have "demo_nodes w \<subseteq> insert [] (set w)" using demo_has_in by (auto simp: demo_nodes_def)
  then show "finite (demo_nodes w)" by (rule finite_subset) simp
next
  fix w cs x
  assume "cs @ [x] \<in> demo_nodes w"
  then show "cs \<in> demo_nodes w" "clean_comps [x]"
    by (simp_all add: demo_nodes_def demo_has_snoc clean_comps_snoc [of cs])
next
  fix p w
  let ?cs = "path_comps p"
  let ?xs = "map last (filter (\<lambda>q. q \<noteq> [] \<and> butlast q = ?cs \<and> demo_has w q \<and> clean_comps q) w)"
  have "x \<in> set ?xs \<longleftrightarrow> ?cs @ [x] \<in> demo_nodes w" for x
  proof
    assume "x \<in> set ?xs"
    then obtain q where "q \<noteq> []" "butlast q = ?cs" "demo_has w q" "clean_comps q" "x = last q" by auto
    moreover from this have "?cs @ [x] = q" by (metis append_butlast_last_id)
    ultimately show "?cs @ [x] \<in> demo_nodes w" by (simp add: demo_nodes_def)
  next
    assume "?cs @ [x] \<in> demo_nodes w"
    moreover from this have "?cs @ [x] \<in> set w" by (simp add: demo_nodes_def demo_has_in)
    ultimately show "x \<in> set ?xs" by (force simp: demo_nodes_def)
  qed
  then have "set ?xs = {x. ?cs @ [x] \<in> demo_nodes w}" by blast
  then show "\<exists>w'. demo_nodes w' = demo_nodes w \<and>
      (if ?cs \<in> demo_nodes w
       then \<exists>xs. demo_tree (GetChildren p None) w = Some (Inr (RespChildren (map Some xs)), w')
          \<and> set xs = {x. ?cs @ [x] \<in> demo_nodes w}
       else demo_tree (GetChildren p None) w = Some (Inl (ZkErr NoNodeError), w'))"
    by (intro exI [of _ w]) (auto simp: Let_def demo_nodes_def intro!: exI [of _ ?xs])
next
  fix p w
  assume "path_comps p \<noteq> []" "path_comps p \<in> demo_nodes w" "\<forall>x. path_comps p @ [x] \<notin> demo_nodes w"
  then show "\<exists>w'. demo_tree (Delete p (-1)) w = Some (Inr RespTrue, w') \<and> demo_nodes w' = demo_nodes w - {path_comps p}"
    using demo_delete by simp
qed

definition demo_tree_caller :: "string list list caller" where
  "demo_tree_caller = \<lparr>cl_call = demo_tree, cl_chroot = ''/c'', cl_default_acl = None\<rparr>"

theorem delete_recursive_subtree_witness:
  "\<exists>r w'. client_delete_op demo_tree_caller ''/a'' (-1) True
       [[''c''], [''c'', ''a''], [''c'', ''b''], [''c'', ''a'', ''x'']] = Some (Inr r, w')
     \<and> [''c'', ''b''] \<in> demo_nodes w' \<and> [''c'', ''a''] \<notin> demo_nodes w' \<and> [''c'', ''a'', ''x''] \<notin> demo_nodes w'"
proof -
  let ?w = "[[''c''], [''c'', ''a''], [''c'', ''b''], [''c'', ''a'', ''x'']]"
  have c: "chroot_form ''/c''" "path_comps ''c'' = [''c'']" "path_comps ''a'' = [''a'']" "\<not> dotted [''a'']"
    by code_simp+
  have "demo_has ?w [''c'', ''b''] \<and> clean_comps [''c'', ''b'']" by code_simp
  then have b: "[''c'', ''b''] \<in> demo_nodes ?w" by (simp add: demo_nodes_def)
  have "\<exists>r w'. client_delete_op demo_tree_caller ''/a'' (-1) True ?w = Some (Inr r, w')
      \<and> demo_nodes w' = demo_nodes ?w - {q. prefix (path_comps (cl_chroot demo_tree_caller) @ path_comps ''/a'') q}"
    by (rule delete_recursive_subtree) (simp_all add: demo_tree_caller_def demo_tree_server c)
  then obtain r w' where "client_delete_op demo_tree_caller ''/a'' (-1) True ?w = Some (Inr r, w')"
    and w': "demo_nodes w' = demo_nodes ?w - {q. prefix [''c'', ''a''] q}"
    by (auto simp: demo_tree_caller_def c)
  moreover have "[''c'', ''b''] \<in> demo_nodes w'" "[''c'', ''a''] \<notin> demo_nodes w'" "[''c'', ''a'', ''x''] \<notin> demo_nodes w'"
    unfolding w' using b by simp_all
  ultimately show ?thesis by blast
qed

section \<open>The chroot holds for every operation\<close>

fun request_paths :: "request \<Rightarrow> string list" where
  "request_paths (Create p _ _ _) = [p]"
| "request_paths (Create2 p _ _ _) = [p]"
| "request_paths (Delete p _) = [p]"
| "request_paths (Exists p _) = [p]"
| "request_paths (GetData p _) = [p]"
| "request_paths (SetData p _ _) = [p]"
| "request_paths (GetACL p) = [p]"
| "request_paths (SetACL p _ _) = [p]"
| "request_paths (GetChildren p _) = [p]"
| "request_paths (GetChildren2 p _) = [p]"
| "request_paths (Sync p) = [p]"
| "request_paths (CheckVersion p _) = [p]"
| "request_paths (Transaction rs) = concat (map request_paths rs)"
| "request_paths _ = []"

definition confined :: "string \<Rightarrow> request \<Rightarrow> bool" where
  "confined c r \<longleftrightarrow> (\<forall>q \<in> set (request_paths r). q = c \<or> starts_with q (c @ ''/''))"

fun tx_apply :: "'w caller \<Rightarrow> tx_op \<Rightarrow> txn \<Rightarrow> exc + txn" where
  "tx_apply cl (TxCreate p d a e s) t = tx_create cl p d a e s t"
| "tx_apply cl (TxDelete p v) t = tx_delete cl p v t"
| "tx_apply cl (TxSetData p d v) t = tx_set_data cl p d v t"
| "tx_apply cl (TxCheck p v) t = tx_check cl p v t"

fun tx_build :: "'w caller \<Rightarrow> tx_op list \<Rightarrow> txn \<Rightarrow> exc + txn" where
  "tx_build cl [] t = Inr t"
| "tx_build cl (a # ops) t = ebind (tx_apply cl a t) (tx_build cl ops)"

text \<open>The request of one operation, when nothing was committed yet.\<close>

definition tx_request :: "'w caller \<Rightarrow> tx_op \<Rightarrow> exc + request" where
  "tx_request cl a = ebind (tx_apply cl a tx_init) (\<lambda>t. Inr (hd (tx_operations t)))"

lemmas tx_defs = tx_create_def tx_delete_def tx_set_data_def tx_check_def tx_add_def tx_check_state_def

lemma tx_apply_eq:
  "tx_apply cl a t = ebind (tx_request cl a) (\<lambda>r.
     if tx_committed t then Inl PyValueError else Inr (t\<lparr>tx_operations := tx_operations t @ [r]\<rparr>))"
  by (cases a) (simp_all add: tx_request_def tx_defs tx_init_def ebind_def split: sum.splits)

lemma tx_build_eq:
  assumes "\<not> tx_committed t"
  shows "tx_build cl ops t = ebind (emap (tx_request cl) ops) (\<lambda>rs. Inr (t\<lparr>tx_operations := tx_operations t @ rs\<rparr>))"
  using assms
proof (induction ops arbitrary: t)
  case (Cons a ops)
  show ?case
  proof (cases "tx_request cl a")
    case (Inr r)
    then show ?thesis
      using Cons by (cases "emap (tx_request cl) ops") (simp_all add: tx_apply_eq)
  qed (simp add: tx_apply_eq)
qed simp

lemma tx_request_confined:
  assumes "chroot_form (cl_chroot cl)" and "cl_chroot cl \<noteq> ''/''" and "cl_chroot cl \<noteq> ''''"
    and "tx_request cl a = Inr r"
  shows "confined (cl_chroot cl) r"
  using assms(4)
  by (cases a) (auto simp: tx_request_def tx_defs tx_init_def confined_def ebind_eq_Inr
      dest!: prefix_root_below [OF assms(1-3)])

lemma emap_confined:
  assumes "\<And>a r. f a = Inr r \<Longrightarrow> confined c r" and "emap f ops = Inr rs"
  shows "confined c (Transaction rs)"
  using assms(2)
proof (induction ops arbitrary: rs)
  case (Cons a ops)
  then obtain r rs' where "f a = Inr r" "emap f ops = Inr rs'" "rs = r # rs'"
    by (auto simp: ebind_eq_Inr)
  then show ?case using Cons.IH assms(1) by (auto simp: confined_def)
qed (simp add: confined_def)

text \<open>
  C16. No operation leaves the chroot: every path in the request of any operation, and in every
  operation of a transaction, is the chroot or lies below it.
\<close>

theorem requests_confined:
  assumes "chroot_form (cl_chroot cl)" and "cl_chroot cl \<noteq> ''/''" and "cl_chroot cl \<noteq> ''''"
  defines "c \<equiv> cl_chroot cl"
  shows "(\<forall>r. Inr r \<in> {exists_request c p wt, get_request c p wt, get_children_request c p wt inc,
        get_acls_request c p, set_acls_request c p acls v, set_request c p d v, delete_request c p v,
        sync_request c p, create_request c p d acls flags tr inc} \<longrightarrow> confined c r)
    \<and> (\<forall>t. tx_build cl ops tx_init = Inr t \<longrightarrow> confined c (Transaction (tx_operations t)))"
proof (intro conjI allI impI)
  fix r
  assume "Inr r \<in> {exists_request c p wt, get_request c p wt, get_children_request c p wt inc,
        get_acls_request c p, set_acls_request c p acls v, set_request c p d v, delete_request c p v,
        sync_request c p, create_request c p d acls flags tr inc}"
  then obtain q trail where q: "prefix_root c p trail = Inr q" "request_paths r = [q]"
    unfolding exists_request_def get_request_def get_children_request_def get_acls_request_def
      set_acls_request_def set_request_def delete_request_def sync_request_def create_request_def
    by (auto simp: eq_commute [of "Inr r"] ebind_eq_Inr split: if_splits)
  then show "confined c r"
    using prefix_root_below [OF assms(1-3), of p trail q] by (simp add: confined_def c_def)
next
  fix t
  assume "tx_build cl ops tx_init = Inr t"
  then have "emap (tx_request cl) ops = Inr (tx_operations t)"
    by (auto simp: tx_build_eq tx_init_def ebind_eq_Inr)
  then show "confined c (Transaction (tx_operations t))"
    unfolding c_def using emap_confined [of "tx_request cl"] tx_request_confined [OF assms(1-3)] by blast
qed

text \<open>
  C17. A transaction is committed once: its operations are sent in the order in which they were
  added, in one request, and after that neither another commit nor another operation is
  accepted, and nothing more is sent.
\<close>

theorem transaction_commits_once:
  assumes "tx_build cl ops tx_init = Inr t"
    and "cl_call cl (Transaction rs) w = Some (Inr (RespResults res), w')"
    and "emap (tx_request cl) ops = Inr rs"
  shows "\<exists>t'. tx_commit cl t w = Some (Inr res, t', w')
    \<and> (\<forall>w. tx_commit cl t' w = Some (Inl PyValueError, t', w))
    \<and> (\<forall>a t''. tx_apply cl a t' \<noteq> Inr t'') \<and> tx_operations t' = rs"
proof -
  have t: "t = tx_init\<lparr>tx_operations := rs\<rparr>"
    using assms(1,3) by (simp add: tx_build_eq tx_init_def)
  let ?t = "t\<lparr>tx_committed := True\<rparr>"
  have "tx_commit cl t w = Some (Inr res, ?t, w')"
    using assms(2) by (simp add: tx_commit_def tx_check_state_def t tx_init_def)
  moreover have "tx_apply cl a ?t \<noteq> Inr t''" for a t''
    by (simp add: tx_apply_eq ebind_def split: sum.splits)
  ultimately show ?thesis
    by (intro exI [of _ ?t]) (simp add: tx_commit_def tx_check_state_def t)
qed

definition txn_caller :: "request list caller" where
  "txn_caller = \<lparr>cl_call = (\<lambda>r w. Some (Inr (RespResults []), w @ [r])), cl_chroot = ''/c'', cl_default_acl = None\<rparr>"

theorem requests_confined_witness:
  "create_request ''/c'' ''a/b'' None [] 0 False False = Inr (Create ''/c/a/b'' None [] 0)
   \<and> confined ''/c'' (Create ''/c/a/b'' None [] 0)"
proof -
  have f: "chroot_form (cl_chroot txn_caller)" "cl_chroot txn_caller \<noteq> ''/''" "cl_chroot txn_caller \<noteq> ''''"
    by (code_simp, simp_all add: txn_caller_def)
  have r: "create_request ''/c'' ''a/b'' None [] 0 False False = Inr (Create ''/c/a/b'' None [] 0)" by code_simp
  have c: "cl_chroot txn_caller = ''/c''" by (simp add: txn_caller_def)
  show ?thesis
    using requests_confined [OF f, where p = "''a/b''" and d = None and acls = "[]" and flags = 0
        and tr = False and inc = False] r unfolding c by (metis insertCI)
qed

theorem transaction_commits_once_witness:
  "\<exists>t t'. tx_build txn_caller [TxDelete ''a'' 3, TxCheck ''b'' 1] tx_init = Inr t
     \<and> tx_commit txn_caller t [] = Some (Inr [], t', [Transaction [Delete ''/c/a'' 3, CheckVersion ''/c/b'' 1]])
     \<and> tx_commit txn_caller t' [] = Some (Inl PyValueError, t', [])"
proof -
  let ?ops = "[TxDelete ''a'' 3, TxCheck ''b'' 1]" and ?rs = "[Delete ''/c/a'' 3, CheckVersion ''/c/b'' 1]"
  have p: "prefix_root ''/c'' ''a'' False = Inr ''/c/a''" "prefix_root ''/c'' ''b'' False = Inr ''/c/b''"
    by code_simp+
  have rs: "emap (tx_request txn_caller) ?ops = Inr ?rs"
    by (simp add: tx_request_def tx_defs tx_init_def txn_caller_def p)
  have "tx_build txn_caller ?ops tx_init =
      ebind (emap (tx_request txn_caller) ?ops) (\<lambda>rs. Inr (tx_init\<lparr>tx_operations := tx_operations tx_init @ rs\<rparr>))"
    by (rule tx_build_eq) (simp add: tx_init_def)
  then have t: "tx_build txn_caller ?ops tx_init = Inr (tx_init\<lparr>tx_operations := ?rs\<rparr>)"
    unfolding rs by (simp add: tx_init_def)
  have "cl_call txn_caller (Transaction ?rs) [] = Some (Inr (RespResults []), [Transaction ?rs])"
    by (simp add: txn_caller_def)
  from transaction_commits_once [OF t this rs] t show ?thesis by blast
qed

end
