(* ===== verification/PyInt.thy ===== *)
theory PyInt
  imports Errors "HOL-Library.Char_ord"
begin

text \<open>
  Python's decimal integers, which the recipes store in nodes and put into node names:
  \<^verbatim>\<open>repr\<close> and \<^verbatim>\<open>str\<close> of an integer, \<^verbatim>\<open>int\<close> of a string, and the format \<^verbatim>\<open>{:03d}\<close>.
\<close>

definition digit_char :: "nat \<Rightarrow> char" where
  "digit_char d = char_of (48 + d)"

definition py_digit :: "char \<Rightarrow> bool" where
  "py_digit c \<longleftrightarrow> (of_char c :: nat) \<ge> 48 \<and> (of_char c :: nat) \<le> 57"

definition digit_value :: "char \<Rightarrow> nat" where
  "digit_value c = of_char c - 48"

fun nat_digits :: "nat \<Rightarrow> string" where
  "nat_digits n = (if n < 10 then [digit_char n] else nat_digits (n div 10) @ [digit_char (n mod 10)])"

declare nat_digits.simps [simp del]

definition repr_int :: "int \<Rightarrow> string" where
  "repr_int i = (if i < 0 then CHR ''-'' # nat_digits (nat (- i)) else nat_digits (nat i))"

definition digits_value :: "string \<Rightarrow> nat" where
  "digits_value s = foldl (\<lambda>a c. a * 10 + digit_value c) 0 s"

text \<open>
  \<^verbatim>\<open>s.strip()\<close>: the white space of Unicode, the characters beyond ASCII as their UTF-8 bytes.
\<close>

definition py_space :: "char \<Rightarrow> bool" where
  "py_space c \<longleftrightarrow> (of_char c :: nat) \<in> {9, 10, 11, 12, 13, 28, 29, 30, 31, 32}"

definition wide_spaces :: "string list" where
  "wide_spaces =
    [[CHR 0xC2, CHR 0x85], [CHR 0xC2, CHR 0xA0], [CHR 0xE1, CHR 0x9A, CHR 0x80],
     [CHR 0xE2, CHR 0x80, CHR 0xA8], [CHR 0xE2, CHR 0x80, CHR 0xA9], [CHR 0xE2, CHR 0x80, CHR 0xAF],
     [CHR 0xE2, CHR 0x81, CHR 0x9F], [CHR 0xE3, CHR 0x80, CHR 0x80], [CHR 0xE2, CHR 0x80, CHR 0x80],
     [CHR 0xE2, CHR 0x80, CHR 0x81], [CHR 0xE2, CHR 0x80, CHR 0x82], [CHR 0xE2, CHR 0x80, CHR 0x83],
     [CHR 0xE2, CHR 0x80, CHR 0x84], [CHR 0xE2, CHR 0x80, CHR 0x85], [CHR 0xE2, CHR 0x80, CHR 0x86],
     [CHR 0xE2, CHR 0x80, CHR 0x87], [CHR 0xE2, CHR 0x80, CHR 0x88], [CHR 0xE2, CHR 0x80, CHR 0x89],
     [CHR 0xE2, CHR 0x80, CHR 0x8A]]"

text \<open>\<open>strip_left seqs\<close> takes single spaces and the sequences in \<open>seqs\<close> off the front.\<close>

function strip_left :: "string list \<Rightarrow> string \<Rightarrow> string" where
  "strip_left seqs [] = []"
| "strip_left seqs (c # s) =
     (if py_space c then strip_left seqs s
      else case List.find (starts_with (c # s)) seqs of
          None \<Rightarrow> c # s
        | Some p \<Rightarrow> if p = [] then c # s else strip_left seqs (drop (length p) (c # s)))"
  by pat_completeness auto
termination
  by (relation "measure (\<lambda>(seqs, s). length s)") (auto simp: length_greater_0_conv [symmetric] simp del: length_greater_0_conv)

definition py_strip :: "string \<Rightarrow> string" where
  "py_strip s = rev (strip_left (map rev wide_spaces) (rev (strip_left wide_spaces s)))"

text \<open>\<^verbatim>\<open>int(s)\<close>: spaces around, a sign, digits, with single underscores between digits.\<close>

definition int_magnitude :: "string \<Rightarrow> exc + nat" where
  "int_magnitude s =
     (let groups = split_on (CHR ''_'') s
      in if list_all (\<lambda>g. g \<noteq> [] \<and> list_all py_digit g) groups then Inr (digits_value (concat groups))
         else Inl PyValueError)"

definition int_of_string :: "string \<Rightarrow> exc + int" where
  "int_of_string s =
     (case py_strip s of
        [] \<Rightarrow> Inl PyValueError
      | c # t \<Rightarrow>
          if c = CHR ''-'' then ebind (int_magnitude t) (\<lambda>n. Inr (- int n))
          else if c = CHR ''+'' then ebind (int_magnitude t) (\<lambda>n. Inr (int n))
          else ebind (int_magnitude (c # t)) (\<lambda>n. Inr (int n)))"

text \<open>\<^verbatim>\<open>{:03d}\<close> of a number that is not negative.\<close>

definition zero_pad :: "nat \<Rightarrow> nat \<Rightarrow> string" where
  "zero_pad k n = (let s = nat_digits n in replicate (k - length s) (CHR ''0'') @ s)"

section \<open>Round trip\<close>

lemma digit_char_of: "d < 10 \<Longrightarrow> of_char (digit_char d) = 48 + d"
  by (simp add: digit_char_def)

lemma digit_char_digit: "d < 10 \<Longrightarrow> py_digit (digit_char d)"
  by (simp add: py_digit_def digit_char_of)

lemma digit_char_value: "d < 10 \<Longrightarrow> digit_value (digit_char d) = d"
  by (simp add: digit_value_def digit_char_of)

lemma nat_digits_not_Nil: "nat_digits n \<noteq> []"
  by (subst nat_digits.simps) simp

lemma nat_digits_digits: "list_all py_digit (nat_digits n)"
proof (induction n rule: nat_digits.induct)
  case (1 n)
  then show ?case by (subst nat_digits.simps) (simp add: digit_char_digit)
qed

lemma digits_value_snoc: "digits_value (s @ [c]) = digits_value s * 10 + digit_value c"
  by (simp add: digits_value_def)

lemma digits_value_nat_digits [simp]: "digits_value (nat_digits n) = n"
proof (induction n rule: nat_digits.induct)
  case (1 n)
  show ?case
  proof (cases "n < 10")
    case True
    then show ?thesis by (subst nat_digits.simps) (simp add: digits_value_def digit_char_value)
  next
    case False
    then show ?thesis using 1 by (subst nat_digits.simps) (simp add: digits_value_snoc digit_char_value)
  qed
qed

lemma py_digit_not: "py_digit c \<Longrightarrow> \<not> py_space c" "py_digit c \<Longrightarrow> c \<noteq> CHR ''_''"
  "py_digit c \<Longrightarrow> c \<noteq> CHR ''-''" "py_digit c \<Longrightarrow> c \<noteq> CHR ''+''" "py_digit c \<Longrightarrow> c \<noteq> CHR ''/''"
  by (auto simp: py_digit_def py_space_def)

lemma int_magnitude_nat_digits: "int_magnitude (nat_digits n) = Inr n"
proof -
  have "CHR ''_'' \<notin> set (nat_digits n)"
    using nat_digits_digits [of n] py_digit_not(2) by (auto simp: list_all_iff)
  then show ?thesis
    by (simp add: int_magnitude_def split_on_no_sep nat_digits_not_Nil nat_digits_digits)
qed

text \<open>A string is left as it is when its ends are ASCII characters other than spaces.\<close>

definition ascii_solid :: "char \<Rightarrow> bool" where
  "ascii_solid c \<longleftrightarrow> \<not> py_space c \<and> (of_char c :: nat) < 128"

lemma wide_spaces_ends:
  "p \<in> set wide_spaces \<Longrightarrow> p \<noteq> [] \<and> \<not> ascii_solid (hd p) \<and> \<not> ascii_solid (last p)"
  by (auto simp: wide_spaces_def ascii_solid_def)

lemma strip_left_id:
  assumes "s \<noteq> [] \<Longrightarrow> ascii_solid (hd s)" and "\<And>p. p \<in> set seqs \<Longrightarrow> p \<noteq> [] \<and> \<not> ascii_solid (hd p)"
  shows "strip_left seqs s = s"
proof (cases s)
  case (Cons c t)
  have "List.find (starts_with s) seqs = None"
  proof (rule ccontr)
    assume "List.find (starts_with s) seqs \<noteq> None"
    then obtain p where "p \<in> set seqs" "starts_with s p" by (auto simp: find_Some_iff in_set_conv_nth)
    then have "p \<noteq> []" "\<not> ascii_solid (hd p)" "starts_with s p" using assms(2) by blast+
    moreover from this have "hd p = hd s" by (cases p) (auto simp: starts_with_def Cons split: list.splits)
    ultimately show False using assms(1) Cons by simp
  qed
  then show ?thesis using assms(1) Cons by (simp add: ascii_solid_def)
qed simp

lemma py_strip_id:
  assumes "s \<noteq> []" and "ascii_solid (hd s)" and "ascii_solid (last s)"
  shows "py_strip s = s"
proof -
  have "strip_left wide_spaces s = s" using assms(2) wide_spaces_ends by (intro strip_left_id) blast+
  moreover have "strip_left (map rev wide_spaces) (rev s) = rev s"
    using assms(1,3) wide_spaces_ends by (intro strip_left_id) (auto simp: hd_rev)
  ultimately show ?thesis by (simp add: py_strip_def)
qed

lemma py_digit_solid: "py_digit c \<Longrightarrow> ascii_solid c"
  by (auto simp: py_digit_def py_space_def ascii_solid_def)

lemma repr_int_ends: "repr_int i \<noteq> []" "ascii_solid (hd (repr_int i))" "ascii_solid (last (repr_int i))"
proof -
  have d: "py_digit (hd (nat_digits n))" "py_digit (last (nat_digits n))" for n
    using nat_digits_digits [of n] nat_digits_not_Nil [of n] by (simp_all add: list_all_iff)
  then have s: "ascii_solid (hd (nat_digits n))" "ascii_solid (last (nat_digits n))" for n
    using py_digit_solid by blast+
  show "repr_int i \<noteq> []" by (simp add: repr_int_def nat_digits_not_Nil)
  show "ascii_solid (hd (repr_int i))" using s by (simp add: repr_int_def ascii_solid_def py_space_def)
  show "ascii_solid (last (repr_int i))" using s nat_digits_not_Nil by (simp add: repr_int_def)
qed

lemma int_of_string_repr [simp]: "int_of_string (repr_int i) = Inr i"
proof (cases "i < 0")
  case True
  then show ?thesis
    using py_strip_id [OF repr_int_ends, of i]
    by (simp add: int_of_string_def repr_int_def int_magnitude_nat_digits)
next
  case False
  obtain c t where ct: "nat_digits (nat i) = c # t"
    using nat_digits_not_Nil by (cases "nat_digits (nat i)") simp_all
  then have "py_digit c" using nat_digits_digits [of "nat i"] by simp
  then have "c \<noteq> CHR ''-''" "c \<noteq> CHR ''+''" using py_digit_not by blast+
  then show ?thesis
    using False py_strip_id [OF repr_int_ends, of i] int_magnitude_nat_digits [of "nat i"] ct
    by (simp add: int_of_string_def repr_int_def)
qed

end
