(* ===== verification/Counter.thy ===== *)
theory Counter
  imports RetryInv PyInt "HOL-Library.Sublist"
begin

text \<open>
  \<^verbatim>\<open>kazoo/recipe/counter.py\<close> for integers: the shared counter, in its own format (the decimal
  representation) and in Curator's (four bytes, big-endian). A change reads the value with its
  version and writes the new value if the version is still the same, and is tried again
  otherwise.
\<close>

section \<open>The counter\<close>

record counter =
  ct_path :: string
  ct_default :: int
  ct_curator :: bool
  ct_ensured :: bool
  ct_pre_value :: "int option"
  ct_post_value :: "int option"

definition counter_init :: "string \<Rightarrow> int \<Rightarrow> bool \<Rightarrow> counter" where
  "counter_init path dflt support_curator =
     \<lparr>ct_path = path, ct_default = dflt, ct_curator = support_curator, ct_ensured = False,
      ct_pre_value = None, ct_post_value = None\<rparr>"

text \<open>\<^verbatim>\<open>decode("ascii")\<close>, \<^verbatim>\<open>struct.unpack(">i", ...)\<close>, and the way back.\<close>

definition decode_ascii :: "bytes \<Rightarrow> exc + string" where
  "decode_ascii bs = (if list_all (\<lambda>b. b < 128) bs then Inr (map byte_char bs) else Inl UnicodeDecodeError)"

definition encode_ascii :: "string \<Rightarrow> bytes" where
  "encode_ascii s = map char_byte s"

definition unpack_i :: "bytes \<Rightarrow> exc + int" where
  "unpack_i bs = (if length bs = 4 then unpack_int bs 0 else Inl StructError)"

text \<open>What a node's data means as a value, and the data of a value.\<close>

definition counter_decode :: "counter \<Rightarrow> bytes option \<Rightarrow> exc + int" where
  "counter_decode c data =
     (case data of
        None \<Rightarrow> if ct_curator c then Inl PyTypeError else Inl PyAttributeError
      | Some bs \<Rightarrow>
          if bs = [] then Inr (ct_default c)
          else if ct_curator c then unpack_i bs
          else ebind (decode_ascii bs) int_of_string)"

definition counter_encode :: "counter \<Rightarrow> int \<Rightarrow> exc + bytes" where
  "counter_encode c v = (if ct_curator c then write_int v else Inr (encode_ascii (repr_int v)))"

definition counter_ensure_node :: "'w zk \<Rightarrow> (counter \<times> 'w, unit) io" where
  "counter_ensure_node zk =
     io_bind io_self (\<lambda>c.
       if ct_ensured c then io_return ()
       else io_bind (io_lift (zk_ensure_path zk (ct_path c))) (\<lambda>_.
         io_modify (\<lambda>c. c\<lparr>ct_ensured := True\<rparr>)))"

definition counter_value :: "'w zk \<Rightarrow> (counter \<times> 'w, int \<times> int) io" where
  "counter_value zk =
     io_bind (counter_ensure_node zk) (\<lambda>_.
     io_bind io_self (\<lambda>c.
     io_bind (io_lift (zk_get zk (ct_path c))) (\<lambda>r.
     io_bind (io_sum (counter_decode c (fst r))) (\<lambda>data.
       io_return (data, version (snd r))))))"

definition counter_inner_change :: "'w zk \<Rightarrow> int \<Rightarrow> (counter \<times> 'w, unit) io" where
  "counter_inner_change zk v =
     io_bind (counter_value zk) (\<lambda>(pre, ver).
     io_bind (io_modify (\<lambda>c. c\<lparr>ct_pre_value := Some pre\<rparr>)) (\<lambda>_.
     io_bind io_self (\<lambda>c.
     io_bind (io_sum (counter_encode c (pre + v))) (\<lambda>data.
     io_bind
       (io_catch (io_bind (io_lift (zk_set zk (ct_path c) data ver)) (\<lambda>_. io_return ()))
          is_bad_version
          (\<lambda>_. io_bind (io_modify (\<lambda>c. c\<lparr>ct_post_value := None\<rparr>)) (\<lambda>_. io_raise ForceRetryError))) (\<lambda>_.
       io_modify (\<lambda>c. c\<lparr>ct_post_value := Some (pre + v)\<rparr>))))))"

definition counter_change :: "'w zk \<Rightarrow> retry \<Rightarrow> int \<Rightarrow> (counter \<times> 'w, unit) io" where
  "counter_change zk r v = io_retry_self zk (retry_copy r) (counter_inner_change zk v)"

definition counter_add :: "'w zk \<Rightarrow> retry \<Rightarrow> int \<Rightarrow> (counter \<times> 'w, unit) io" where
  "counter_add zk r v = counter_change zk r v"

definition counter_sub :: "'w zk \<Rightarrow> retry \<Rightarrow> int \<Rightarrow> (counter \<times> 'w, unit) io" where
  "counter_sub zk r v = counter_change zk r (- v)"

section \<open>The formats\<close>

lemma encode_ascii_repr: "list_all (\<lambda>b. b < 128) (encode_ascii (repr_int v))"
proof -
  have "of_char c < (128 :: nat)" if "c \<in> set (repr_int v)" for c
    using that nat_digits_digits
    by (auto simp: repr_int_def list_all_iff py_digit_def split: if_splits) fastforce+
  then have "(char_byte c) < 128" if "c \<in> set (repr_int v)" for c
    using that by (simp add: char_byte_def word_less_nat_alt unat_of_nat)
  then show ?thesis by (auto simp: encode_ascii_def list_all_iff)
qed

lemma write_int_unpack: "write_int v = Inr d \<Longrightarrow> unpack_i d = Inr v \<and> d \<noteq> []"
proof -
  assume d: "write_int v = Inr d"
  then have len: "length d = 4"
    using length_struct_pack [of int_struct "[v]" d] by (simp add: write_int_def)
  have "unpack_int ([] @ d @ []) (length ([] :: bytes)) = Inr v"
    using unpack_int_pack [of v d "[]" "[]"] d by (simp add: write_int_def)
  then show "unpack_i d = Inr v \<and> d \<noteq> []" using len by (auto simp: unpack_i_def)
qed

text \<open>
  The counter reads back what it wrote: for every value that has an encoding (every integer
  in the counter's own format, a 32-bit one in Curator's) decoding the data gives the value, and
  a value that does not fit raises before anything is written.
\<close>

theorem counter_roundtrip:
  "(\<forall>d. counter_encode c v = Inr d \<longrightarrow> counter_decode c (Some d) = Inr v)
   \<and> (counter_encode c v = Inl StructError) = (ct_curator c \<and> \<not> (- (2 ^ 31) \<le> v \<and> v < 2 ^ 31))"
proof (cases "ct_curator c")
  case True
  then show ?thesis
    using write_int_unpack [of v]
    by (auto simp: counter_encode_def counter_decode_def write_int_def struct_defs split: if_splits)
next
  case False
  have "map byte_char (encode_ascii s) = s" for s by (simp add: encode_ascii_def comp_def)
  then have "decode_ascii (encode_ascii (repr_int v)) = Inr (repr_int v)"
    by (simp add: decode_ascii_def encode_ascii_repr)
  moreover have "encode_ascii (repr_int v) \<noteq> []" using repr_int_ends(1) by (simp add: encode_ascii_def)
  ultimately show ?thesis using False by (simp add: counter_encode_def counter_decode_def)
qed

theorem counter_roundtrip_witness:
  "counter_encode (counter_init ''/c'' 0 True) 258 = Inr [0, 0, 1, 2]
   \<and> counter_decode (counter_init ''/c'' 0 True) (Some [0, 0, 1, 2]) = Inr 258"
proof -
  have e: "counter_encode (counter_init ''/c'' 0 True) 258 = Inr [0, 0, 1, 2]"
    by (simp add: counter_encode_def counter_init_def, code_simp)
  then show ?thesis using counter_roundtrip [of "counter_init ''/c'' 0 True" 258] by simp
qed

section \<open>Atomic changes\<close>

text \<open>
  A server that other clients use too, known by the list of the values written to the node so
  far, whose length is the version: \<^verbatim>\<open>get\<close> answers with the last one at some moment of the call,
  \<^verbatim>\<open>set\<close> with a version succeeds only in a moment at which that is the version. A failed call
  may or may not have been carried out.
\<close>

definition last_value :: "bytes list \<Rightarrow> bytes" where
  "last_value h = (if h = [] then [] else last h)"

definition versioned_server :: "'w zk \<Rightarrow> string \<Rightarrow> ('w \<Rightarrow> bytes list) \<Rightarrow> bool" where
  "versioned_server zk path hist \<longleftrightarrow>
     (\<forall>w r w'. zk_ensure_path zk path w = Some (r, w') \<longrightarrow> prefix (hist w) (hist w'))
   \<and> (\<forall>w r w'. zk_get zk path w = Some (r, w') \<longrightarrow> prefix (hist w) (hist w')
        \<and> (\<forall>d st. r = Inr (d, st) \<longrightarrow> (\<exists>h. prefix (hist w) h \<and> prefix h (hist w')
             \<and> d = Some (last_value h) \<and> version st = int (length h))))
   \<and> (\<forall>w d v r w'. zk_set zk path d v w = Some (r, w') \<longrightarrow> prefix (hist w) (hist w')
        \<and> (\<forall>st. r = Inr st \<longrightarrow> v \<noteq> -1 \<longrightarrow> (\<exists>h. prefix (hist w) h \<and> int (length h) = v \<and> prefix (h @ [d]) (hist w'))))
   \<and> env_keeps (zk_retry zk) (\<lambda>w. True) \<and> (\<forall>h. env_keeps (zk_retry zk) (\<lambda>w. prefix h (hist w)))"

definition same_counter :: "counter \<Rightarrow> counter \<Rightarrow> bool" where
  "same_counter c c' \<longleftrightarrow> ct_path c' = ct_path c \<and> ct_default c' = ct_default c \<and> ct_curator c' = ct_curator c"

lemma same_counter_codec:
  "same_counter c c' \<Longrightarrow> counter_decode c' = counter_decode c \<and> counter_encode c' = counter_encode c"
  by (auto simp: same_counter_def counter_decode_def counter_encode_def fun_eq_iff split: option.splits)

lemma counter_ensure_cases:
  assumes "versioned_server zk (ct_path c) hist" and "counter_ensure_node zk (c, w) = Some (r, (c', w'))"
  shows "same_counter c c' \<and> prefix (hist w) (hist w') \<and> ct_post_value c' = ct_post_value c"
proof (cases "ct_ensured c")
  case True
  then show ?thesis using assms(2) by (simp add: counter_ensure_node_def same_counter_def)
next
  case False
  obtain x w1 where x: "zk_ensure_path zk (ct_path c) w = Some (x, w1)"
    using assms(2) False by (cases "zk_ensure_path zk (ct_path c) w") (auto simp: counter_ensure_node_def)
  then have "prefix (hist w) (hist w1)" using assms(1) by (simp add: versioned_server_def)
  then show ?thesis
    using assms(2) False x by (cases x) (auto simp: counter_ensure_node_def same_counter_def)
qed

lemma counter_value_cases:
  assumes "versioned_server zk (ct_path c) hist" and "counter_value zk (c, w) = Some (r, (c', w'))"
  shows "same_counter c c' \<and> prefix (hist w) (hist w')
    \<and> (\<forall>pre ver. r = Inr (pre, ver) \<longrightarrow> (\<exists>h. prefix (hist w) h \<and> prefix h (hist w')
         \<and> counter_decode c (Some (last_value h)) = Inr pre \<and> ver = int (length h)))"
proof -
  obtain r1 c1 w1 where ens: "counter_ensure_node zk (c, w) = Some (r1, (c1, w1))"
    using assms(2) by (cases "counter_ensure_node zk (c, w)") (auto simp: counter_value_def)
  note e = counter_ensure_cases [OF assms(1) ens]
  show ?thesis
  proof (cases r1)
    case (Inl x)
    then show ?thesis using assms(2) ens e by (auto simp: counter_value_def)
  next
    case (Inr u)
    obtain g w2 where g: "zk_get zk (ct_path c1) w1 = Some (g, w2)"
      using assms(2) ens Inr by (cases "zk_get zk (ct_path c1) w1") (auto simp: counter_value_def)
    have s: "versioned_server zk (ct_path c1) hist" using assms(1) e by (simp add: same_counter_def)
    have g': "prefix (hist w1) (hist w2)" "\<And>d st. g = Inr (d, st) \<Longrightarrow> \<exists>h. prefix (hist w1) h
        \<and> prefix h (hist w2) \<and> d = Some (last_value h) \<and> version st = int (length h)"
      using s g unfolding versioned_server_def by blast+
    have out: "c' = c1 \<and> w' = w2" "\<And>pre ver. r = Inr (pre, ver) \<Longrightarrow>
        \<exists>d st. g = Inr (d, st) \<and> counter_decode c1 d = Inr pre \<and> ver = version st"
      using assms(2) ens Inr g
      by (cases g; auto simp: counter_value_def io_sum_def split: sum.splits)+
    have "\<exists>h. prefix (hist w) h \<and> prefix h (hist w')
         \<and> counter_decode c (Some (last_value h)) = Inr pre \<and> ver = int (length h)"
      if "r = Inr (pre, ver)" for pre ver
      using out(2) [OF that] g'(2) out(1) e same_counter_codec [of c c1] prefix_order.trans by metis
    then show ?thesis using e g'(1) out(1) prefix_order.trans by blast
  qed
qed

lemma counter_write_cases:
  assumes "versioned_server zk (ct_path c) hist"
    and "io_bind
       (io_catch (io_bind (io_lift (zk_set zk (ct_path c) data ver)) (\<lambda>_. io_return ()))
          is_bad_version
          (\<lambda>_. io_bind (io_modify (\<lambda>c. c\<lparr>ct_post_value := None\<rparr>)) (\<lambda>_. io_raise ForceRetryError))) (\<lambda>_.
       io_modify (\<lambda>c. c\<lparr>ct_post_value := Some post\<rparr>)) (c, w) = Some (r, (c', w'))"
  shows "same_counter c c' \<and> prefix (hist w) (hist w') \<and> ct_pre_value c' = ct_pre_value c
    \<and> (\<forall>u. r = Inr u \<longrightarrow> ct_post_value c' = Some post \<and> (ver \<noteq> -1 \<longrightarrow> (\<exists>h. prefix (hist w) h
         \<and> int (length h) = ver \<and> prefix (h @ [data]) (hist w'))))"
proof -
  obtain s w1 where s: "zk_set zk (ct_path c) data ver w = Some (s, w1)"
    using assms(2) by (cases "zk_set zk (ct_path c) data ver w") (auto simp: io_bind_def io_catch_def)
  have p: "prefix (hist w) (hist w1)" "\<And>st. s = Inr st \<Longrightarrow> ver \<noteq> -1 \<Longrightarrow>
      \<exists>h. prefix (hist w) h \<and> int (length h) = ver \<and> prefix (h @ [data]) (hist w1)"
    using assms(1) s unfolding versioned_server_def by blast+
  show ?thesis
    using assms(2) s p by (cases s) (auto simp: same_counter_def io_bind_def io_catch_def split: if_splits)
qed

lemma counter_inner_change_cases:
  assumes "versioned_server zk (ct_path c) hist" and "counter_inner_change zk v (c, w) = Some (r, (c', w'))"
  shows "same_counter c c' \<and> prefix (hist w) (hist w')
    \<and> (\<forall>u. r = Inr u \<longrightarrow> (\<exists>h pre d. prefix (hist w) h \<and> counter_decode c (Some (last_value h)) = Inr pre
         \<and> counter_encode c (pre + v) = Inr d \<and> prefix (h @ [d]) (hist w')
         \<and> ct_pre_value c' = Some pre \<and> ct_post_value c' = Some (pre + v)))"
  using assms(2) unfolding counter_inner_change_def
proof (cases rule: io_bind_cases)
  case (raised e)
  then show ?thesis using counter_value_cases [OF assms(1) raised(1)] by simp
next
  case (returned x sw1)
  obtain pre ver c1 w1 where x: "x = (pre, ver)" "sw1 = (c1, w1)" by (cases x, cases sw1) simp
  have val: "same_counter c c1" "prefix (hist w) (hist w1)"
    "\<exists>h. prefix (hist w) h \<and> prefix h (hist w1) \<and> counter_decode c (Some (last_value h)) = Inr pre \<and> ver = int (length h)"
    using counter_value_cases [OF assms(1) returned(1) [unfolded x]] by simp_all
  let ?c = "c1\<lparr>ct_pre_value := Some pre\<rparr>"
  have c: "same_counter c ?c" using val(1) by (simp add: same_counter_def)
  then have s: "versioned_server zk (ct_path ?c) hist" using assms(1) by (simp add: same_counter_def)
  show ?thesis
  proof (cases "counter_encode ?c (pre + v)")
    case (Inl e)
    then have "r = Inl e \<and> c' = ?c \<and> w' = w1" using returned(2) x by (auto simp: io_bind_def)
    then show ?thesis using c val(2) by simp
  next
    case (Inr d)
    then have body: "io_bind
       (io_catch (io_bind (io_lift (zk_set zk (ct_path ?c) d ver)) (\<lambda>_. io_return ()))
          is_bad_version
          (\<lambda>_. io_bind (io_modify (\<lambda>c. c\<lparr>ct_post_value := None\<rparr>)) (\<lambda>_. io_raise ForceRetryError))) (\<lambda>_.
       io_modify (\<lambda>c. c\<lparr>ct_post_value := Some (pre + v)\<rparr>)) (?c, w1) = Some (r, (c', w'))"
      using returned(2) x by (simp add: io_bind_def)
    note wr = counter_write_cases [OF s body]
    have "same_counter c c'" using c wr by (simp add: same_counter_def)
    moreover have "prefix (hist w) (hist w')" using val(2) wr prefix_order.trans by blast
    moreover have "\<exists>h pre d. prefix (hist w) h \<and> counter_decode c (Some (last_value h)) = Inr pre
         \<and> counter_encode c (pre + v) = Inr d \<and> prefix (h @ [d]) (hist w')
         \<and> ct_pre_value c' = Some pre \<and> ct_post_value c' = Some (pre + v)" if "r = Inr u" for u
    proof -
      obtain h where h: "prefix (hist w) h" "prefix h (hist w1)"
        "counter_decode c (Some (last_value h)) = Inr pre" "ver = int (length h)" using val(3) by blast
      then have "ver \<noteq> -1" by simp
      moreover have "\<forall>u. r = Inr u \<longrightarrow> ct_post_value c' = Some (pre + v) \<and> (ver \<noteq> -1 \<longrightarrow> (\<exists>h. prefix (hist w1) h
         \<and> int (length h) = ver \<and> prefix (h @ [d]) (hist w')))" using wr by (elim conjE)
      ultimately have wr_ok: "ct_post_value c' = Some (pre + v)" "\<exists>h. prefix (hist w1) h
         \<and> int (length h) = ver \<and> prefix (h @ [d]) (hist w')" using that by simp_all
      then obtain h' where h': "prefix (hist w1) h'" "int (length h') = ver" "prefix (h' @ [d]) (hist w')"
        using wr_ok by blast
      have "prefix h h'" by (rule prefix_order.trans [OF h(2) h'(1)])
      moreover have "length h = length h'" using h(4) h'(2) by simp
      ultimately have "h' = h" by (metis append_eq_append_conv append_Nil2 prefixE)
      then have "prefix (h @ [d]) (hist w')" using h'(3) by simp
      moreover have "counter_encode c (pre + v) = Inr d" using Inr same_counter_codec [OF c] by simp
      moreover have "ct_pre_value c' = Some pre" using wr by simp
      moreover note wr_ok(1)
      ultimately show ?thesis using h(1,3) by blast
    qed
    ultimately show ?thesis by blast
  qed
qed

text \<open>
  C18. A change of the counter loses no other change: when it returns, the value it wrote is
  the value the node had at that very moment plus the given number, whatever other clients
  wrote meanwhile, and \<^verbatim>\<open>pre_value\<close> and \<^verbatim>\<open>post_value\<close> are those two values.
\<close>

theorem counter_change_atomic:
  assumes "versioned_server zk (ct_path c) hist"
    and "counter_add zk r v (c, w) = Some (Inr (), (c', w'))"
  shows "\<exists>h pre d. prefix (hist w) h \<and> counter_decode c (Some (last_value h)) = Inr pre
    \<and> counter_encode c (pre + v) = Inr d \<and> prefix (h @ [d]) (hist w')
    \<and> ct_pre_value c' = Some pre \<and> ct_post_value c' = Some (pre + v)"
proof -
  let ?P = "\<lambda>(c1, w1). same_counter c c1 \<and> prefix (hist w) (hist w1)"
  have keep: "env_keeps (zk_retry zk) (\<lambda>w1. ?P (s, w1))" for s
    using assms(1) unfolding versioned_server_def env_keeps_def by simp
  have step: "?P sw'" if "?P sw" "counter_inner_change zk v sw = Some (Inl e, sw')" for sw e sw'
  proof -
    obtain c1 w1 c2 w2 where s: "sw = (c1, w1)" "sw' = (c2, w2)" by (cases sw, cases sw') simp
    then have "versioned_server zk (ct_path c1) hist" using assms(1) that(1) by (simp add: same_counter_def)
    from counter_inner_change_cases [OF this that(2) [unfolded s]] that(1) show ?thesis
      unfolding s same_counter_def by (auto intro: prefix_order.trans)
  qed
  have start: "?P (c, w)" by (simp add: same_counter_def)
  obtain sw0 where sw0: "?P sw0" "counter_inner_change zk v sw0 = Some (Inr (), (c', w'))"
    by (rule io_retry_self_succeeds [where P = ?P, OF keep step start
          assms(2) [unfolded counter_add_def counter_change_def]])
  obtain c0 w0 where "sw0 = (c0, w0)" by (cases sw0)
  with sw0 have run: "same_counter c c0" "prefix (hist w) (hist w0)"
    "counter_inner_change zk v (c0, w0) = Some (Inr (), (c', w'))" by simp_all
  then have "versioned_server zk (ct_path c0) hist" using assms(1) by (simp add: same_counter_def)
  from counter_inner_change_cases [OF this run(3)] same_counter_codec [OF run(1)] run(2)
  show ?thesis by (metis prefix_order.trans)
qed

section \<open>A lost reply\<close>

text \<open>
  A server that keeps the written values and whether the reply to the next write is lost.
\<close>

definition demo_stat_version :: "nat \<Rightarrow> znode_stat" where
  "demo_stat_version n = \<lparr>czxid = 0, mzxid = 0, ctime = 0, mtime = 0, version = int n, cversion = 0, aversion = 0,
     ephemeralOwner = 0, dataLength = 0, numChildren = 0, pzxid = 0\<rparr>"

definition demo_counter_zk :: "(bytes list \<times> bool) zk" where
  "demo_counter_zk = zk_refuse\<lparr>
     zk_get := (\<lambda>_ (h, lose). Some (Inr (Some (last_value h), demo_stat_version (length h)), (h, lose))),
     zk_set := (\<lambda>_ d v (h, lose).
       if v \<noteq> int (length h) then Some (Inl (ZkErr BadVersionError), (h, lose))
       else Some (if lose then Inl (ZkErr ConnectionLoss) else Inr (demo_stat_version (length h + 1)), (h @ [d], False)))\<rparr>"

lemma demo_counter_server: "versioned_server demo_counter_zk p fst"
  unfolding versioned_server_def
  by (auto simp: demo_counter_zk_def zk_refuse_def demo_stat_version_def split: if_splits)

definition demo_counter :: counter where
  "demo_counter = counter_init ''/c'' 0 True"

lemma demo_inner_change:
  "counter_inner_change demo_counter_zk 5 (demo_counter, ([], lose)) =
     Some (if lose then Inl (ZkErr ConnectionLoss) else Inr (),
       (demo_counter\<lparr>ct_ensured := True, ct_pre_value := Some 0, ct_post_value := if lose then None else Some 5\<rparr>,
        ([[0, 0, 0, 5]], False)))"
  "counter_inner_change demo_counter_zk 5 (demo_counter\<lparr>ct_ensured := True, ct_pre_value := Some 0, ct_post_value := None\<rparr>,
       ([[0, 0, 0, 5]], False)) =
     Some (Inr (), (demo_counter\<lparr>ct_ensured := True, ct_pre_value := Some 5, ct_post_value := Some 10\<rparr>,
        ([[0, 0, 0, 5], [0, 0, 0, 10]], False)))"
proof -
  have e: "counter_encode (c\<lparr>ct_curator := True\<rparr>) 5 = Inr [0, 0, 0, 5]" "counter_encode (c\<lparr>ct_curator := True\<rparr>) 10 = Inr [0, 0, 0, 10]"
    "unpack_i [0, 0, 0, 5] = Inr 5" for c
    by (simp add: counter_encode_def, code_simp)+ code_simp
  show "counter_inner_change demo_counter_zk 5 (demo_counter, ([], lose)) = Some (if lose then Inl (ZkErr ConnectionLoss) else Inr (),
       (demo_counter\<lparr>ct_ensured := True, ct_pre_value := Some 0, ct_post_value := if lose then None else Some 5\<rparr>,
        ([[0, 0, 0, 5]], False)))"
    using e by (simp add: counter_inner_change_def counter_value_def counter_ensure_node_def demo_counter_def
        counter_init_def demo_counter_zk_def zk_refuse_def io_bind_def io_catch_def counter_decode_def last_value_def
        demo_stat_version_def counter_encode_def is_bad_version_def)
  show "counter_inner_change demo_counter_zk 5 (demo_counter\<lparr>ct_ensured := True, ct_pre_value := Some 0, ct_post_value := None\<rparr>,
       ([[0, 0, 0, 5]], False)) =
     Some (Inr (), (demo_counter\<lparr>ct_ensured := True, ct_pre_value := Some 5, ct_post_value := Some 10\<rparr>,
        ([[0, 0, 0, 5], [0, 0, 0, 10]], False)))"
    using e by (simp add: counter_inner_change_def counter_value_def counter_ensure_node_def demo_counter_def
        counter_init_def demo_counter_zk_def zk_refuse_def io_bind_def io_catch_def counter_decode_def last_value_def
        demo_stat_version_def counter_encode_def)
qed

theorem counter_change_atomic_witness:
  "\<exists>c'. counter_add demo_counter_zk forever 5 (demo_counter, ([], False)) = Some (Inr (), (c', ([[0, 0, 0, 5]], False)))
     \<and> ct_post_value c' = Some 5
     \<and> (\<exists>h d. prefix (h @ [d]) [[0, 0, 0, 5]] \<and> counter_decode demo_counter (Some (last_value h)) = Inr 0)"
proof -
  let ?c = "demo_counter\<lparr>ct_ensured := True, ct_pre_value := Some 0, ct_post_value := Some 5\<rparr>"
  have zk: "zk_retry demo_counter_zk = still_env" by (simp add: demo_counter_zk_def zk_refuse_def)
  have run: "counter_add demo_counter_zk forever 5 (demo_counter, ([], False)) = Some (Inr (), (?c, ([[0, 0, 0, 5]], False)))"
    unfolding counter_add_def counter_change_def forever_simps
    by (rule io_retry_self_forever(1) [OF zk]) (simp add: demo_inner_change)
  from counter_change_atomic [OF demo_counter_server run] run show ?thesis by auto
qed

text \<open>
  A change is not applied exactly once: when the reply to a write is lost, the retry reads the
  value that the first try wrote and adds the number again.
\<close>

theorem counter_change_twice:
  "\<exists>c'. counter_add demo_counter_zk forever 5 (demo_counter, ([], True)) =
     Some (Inr (), (c', ([[0, 0, 0, 5], [0, 0, 0, 10]], False))) \<and> ct_post_value c' = Some 10"
proof -
  have zk: "zk_retry demo_counter_zk = still_env" by (simp add: demo_counter_zk_def zk_refuse_def)
  have "retryable forever (ZkErr ConnectionLoss)" by code_simp
  then have "counter_add demo_counter_zk forever 5 (demo_counter, ([], True)) =
      Some (Inr (), (demo_counter\<lparr>ct_ensured := True, ct_pre_value := Some 5, ct_post_value := Some 10\<rparr>,
        ([[0, 0, 0, 5], [0, 0, 0, 10]], False)))"
    unfolding counter_add_def counter_change_def forever_simps
    using io_retry_self_forever(2) [OF zk demo_inner_change(1) [of True, simplified] _ _ demo_inner_change(2)] by simp
  then show ?thesis by simp
qed

end
