(* ===== verification/Queues.thy ===== *)
theory Queues
  imports RetryInv PyInt LockProps
begin

text \<open>
  \<^verbatim>\<open>kazoo/recipe/queue.py\<close>: the queue with priorities, whose entries are removed when they are
  fetched, and the locking queue, whose entries are locked while they are processed. The names
  of the entries order them by priority, then by sequence number.
\<close>

section \<open>The base class\<close>

record queue =
  q_path :: string
  q_entries_path :: string
  q_structure_paths :: "string list"
  q_ensured :: bool
  q_children :: "string list"
  q_id :: bytes
  q_processing :: "(string \<times> bytes option) option"

definition base_queue_init :: "string \<Rightarrow> queue" where
  "base_queue_init path =
     \<lparr>q_path = path, q_entries_path = path, q_structure_paths = [path], q_ensured = False,
      q_children = [], q_id = [], q_processing = None\<rparr>"

definition queue_init :: "string \<Rightarrow> queue" where
  "queue_init path = (base_queue_init path)\<lparr>q_children := []\<rparr>"

definition locking_queue_init :: "bytes \<Rightarrow> string \<Rightarrow> queue" where
  "locking_queue_init uuid path =
     (base_queue_init path)\<lparr>q_id := uuid, q_processing := None, q_entries_path := path @ ''/entries'',
        q_structure_paths := [path @ ''/taken'', path @ ''/entries'']\<rparr>"

definition q_lock_path :: "queue \<Rightarrow> string" where
  "q_lock_path q = q_path q @ ''/taken''"

definition check_put_arguments :: "int \<Rightarrow> exc + unit" where
  "check_put_arguments priority = (if priority < 0 \<or> priority > 999 then Inl PyValueError else Inr ())"

definition q_ensure_paths :: "'w zk \<Rightarrow> (queue \<times> 'w, unit) io" where
  "q_ensure_paths zk =
     io_bind io_self (\<lambda>q.
       if q_ensured q then io_return ()
       else io_bind (io_map (\<lambda>path. io_lift (zk_ensure_path zk path)) (q_structure_paths q)) (\<lambda>_.
         io_modify (\<lambda>q. q\<lparr>q_ensured := True\<rparr>)))"

definition q_len :: "'w zk \<Rightarrow> retry \<Rightarrow> (queue \<times> 'w, int) io" where
  "q_len zk r =
     io_bind (q_ensure_paths zk) (\<lambda>_.
     io_bind io_self (\<lambda>q.
     io_bind (io_lift (io_retry zk r (zk_get zk (q_entries_path q)))) (\<lambda>d.
       io_return (numChildren (snd d)))))"

section \<open>The queue\<close>

definition queue_inner_get :: "'w zk \<Rightarrow> retry \<Rightarrow> (queue \<times> 'w, bytes option) io" where
  "queue_inner_get zk r =
     io_bind io_self (\<lambda>q.
     io_bind (if q_children q = [] then
                io_bind (io_lift (io_retry zk r (zk_get_children zk (q_path q)))) (\<lambda>cs.
                  io_modify (\<lambda>q. q\<lparr>q_children := sort cs\<rparr>))
              else io_return ()) (\<lambda>_.
     io_bind io_self (\<lambda>q.
       case q_children q of
         [] \<Rightarrow> io_return None
       | name # rest \<Rightarrow>
           io_bind
             (io_catch
                (io_bind (io_lift (zk_get zk (q_path q @ ''/'' @ name))) (\<lambda>d.
                 io_bind (io_lift (zk_delete zk (q_path q @ ''/'' @ name))) (\<lambda>_. io_return (fst d))))
                is_no_node
                (\<lambda>_. io_bind (io_modify (\<lambda>q. q\<lparr>q_children := []\<rparr>)) (\<lambda>_. io_raise ForceRetryError))) (\<lambda>data.
           io_bind (io_modify (\<lambda>q. q\<lparr>q_children := tl (q_children q)\<rparr>)) (\<lambda>_.
             io_return data)))))"

definition queue_get :: "'w zk \<Rightarrow> retry \<Rightarrow> (queue \<times> 'w, bytes option) io" where
  "queue_get zk r =
     io_bind (q_ensure_paths zk) (\<lambda>_. io_retry_self zk (retry_copy r) (queue_inner_get zk r))"

definition queue_put :: "'w zk \<Rightarrow> bytes \<Rightarrow> int \<Rightarrow> (queue \<times> 'w, unit) io" where
  "queue_put zk data priority =
     io_bind (io_sum (check_put_arguments priority)) (\<lambda>_.
     io_bind (q_ensure_paths zk) (\<lambda>_.
     io_bind io_self (\<lambda>q.
     io_bind (io_lift (zk_create zk (q_path q @ ''/'' @ ''entry-'' @ zero_pad 3 (nat priority) @ ''-'') data
                False True False)) (\<lambda>_. io_return ()))))"

section \<open>The locking queue\<close>

definition lq_put :: "'w zk \<Rightarrow> bytes \<Rightarrow> int \<Rightarrow> (queue \<times> 'w, unit) io" where
  "lq_put zk data priority =
     io_bind (io_sum (check_put_arguments priority)) (\<lambda>_.
     io_bind (q_ensure_paths zk) (\<lambda>_.
     io_bind io_self (\<lambda>q.
     io_bind (io_lift (zk_create zk (q_entries_path q @ ''/entry-'' @ zero_pad 3 (nat priority) @ ''-'') data
                False True False)) (\<lambda>_. io_return ()))))"

text \<open>The transaction's block commits at its end; what the commit returns is not looked at.\<close>

definition lq_put_all :: "'w zk \<Rightarrow> bytes list \<Rightarrow> int \<Rightarrow> (queue \<times> 'w, unit) io" where
  "lq_put_all zk datas priority =
     io_bind (io_sum (check_put_arguments priority)) (\<lambda>_.
     io_bind (q_ensure_paths zk) (\<lambda>_.
     io_bind io_self (\<lambda>q.
     io_bind (io_lift (zk_transaction zk (map (\<lambda>data.
         TxCreate (q_entries_path q @ ''/entry-'' @ zero_pad 3 (nat priority) @ ''-'') data None False True) datas)))
       (\<lambda>_. io_return ()))))"

definition filter_locked :: "string list \<Rightarrow> string list \<Rightarrow> string list" where
  "filter_locked entries taken =
     (let available = sort entries
      in if taken = [] then available else List.filter (\<lambda>x. x \<notin> set taken) available)"

definition lq_take :: "'w zk \<Rightarrow> retry \<Rightarrow> queue \<Rightarrow> string \<Rightarrow> ('w, (string \<times> bytes option) option) io" where
  "lq_take zk r q i =
     io_bind
       (io_catch (io_bind (zk_create zk (q_lock_path q @ ''/'' @ i) (q_id q) True False False) (\<lambda>_. io_return True))
          is_node_exists (\<lambda>_. io_return False)) (\<lambda>created.
       if \<not> created then io_return None
       else io_catch
           (io_bind (io_retry zk r (zk_get zk (q_entries_path q @ ''/'' @ i))) (\<lambda>d. io_return (Some (i, fst d))))
           is_no_node
           (\<lambda>_. io_bind (zk_delete zk (q_lock_path q @ ''/'' @ i)) (\<lambda>_. io_return None)))"

text \<open>
  The local variables of \<^verbatim>\<open>_inner_get\<close>, and its watch function; \<^term>\<open>None\<close> is the first call.
\<close>

record lq_getting =
  g_canceled :: bool
  g_flag :: bool
  g_value :: "(string \<times> bytes option) list"

definition check_for_updates :: "'w zk \<Rightarrow> retry \<Rightarrow> queue \<Rightarrow> event_type option \<Rightarrow> (lq_getting \<times> 'w, unit) io" where
  "check_for_updates zk r q event =
     (if event \<noteq> None \<and> event \<noteq> Some CHILD then io_return ()
      else io_bind io_self (\<lambda>g.
        if g_canceled g \<or> g_flag g then io_return ()
        else
          io_bind (io_lift (io_retry zk r (zk_get_children_w zk (q_entries_path q)))) (\<lambda>entries.
          io_bind (io_lift (io_retry zk r (zk_get_children_w zk (q_lock_path q)))) (\<lambda>taken.
            case filter_locked entries taken of
              [] \<Rightarrow> io_return ()
            | i # _ \<Rightarrow>
                io_bind (io_lift (lq_take zk r q i)) (\<lambda>ret.
                  case ret of
                    None \<Rightarrow> io_return ()
                  | Some x \<Rightarrow> io_modify (\<lambda>g. g\<lparr>g_value := g_value g @ [x], g_flag := True\<rparr>))))))"

text \<open>
  The wait is the sequence of watch events that arrive before the flag is set or the time is
  up; an exception in a watch function stays in its worker.
\<close>

definition lq_inner_get :: "'w zk \<Rightarrow> retry \<Rightarrow> event_type list \<Rightarrow> (queue \<times> 'w, bytes option) io" where
  "lq_inner_get zk r events =
     io_bind io_self (\<lambda>q (q0, w).
       case io_bind (check_for_updates zk r q None) (\<lambda>_.
              io_map (\<lambda>e. io_catch (check_for_updates zk r q (Some e)) (\<lambda>_. True) (\<lambda>_. io_return ())) events)
            (\<lparr>g_canceled = False, g_flag = False, g_value = []\<rparr>, w) of
         None \<Rightarrow> None
       | Some (Inl e, (g, w)) \<Rightarrow> Some (Inl e, (q0, w))
       | Some (Inr _, (g, w)) \<Rightarrow>
           (case g_value g of
              [] \<Rightarrow> Some (Inr None, (q0, w))
            | x # _ \<Rightarrow> Some (Inr (snd x), (q0\<lparr>q_processing := Some x\<rparr>, w))))"

definition lq_get :: "'w zk \<Rightarrow> retry \<Rightarrow> event_type list \<Rightarrow> (queue \<times> 'w, bytes option) io" where
  "lq_get zk r events =
     io_bind (q_ensure_paths zk) (\<lambda>_.
     io_bind io_self (\<lambda>q.
       case q_processing q of Some x \<Rightarrow> io_return (snd x) | None \<Rightarrow> lq_inner_get zk r events))"

definition lq_holds_lock :: "'w zk \<Rightarrow> retry \<Rightarrow> (queue \<times> 'w, bool) io" where
  "lq_holds_lock zk r =
     io_bind io_self (\<lambda>q.
       case q_processing q of
         None \<Rightarrow> io_return False
       | Some (lock_id, _) \<Rightarrow>
           let lock_path = q_lock_path q @ ''/'' @ lock_id in
           io_bind (io_lift (zk_sync zk lock_path)) (\<lambda>_.
           io_bind (io_lift (io_retry zk r (zk_get zk lock_path))) (\<lambda>d.
             io_return (fst d = Some (q_id q)))))"

text \<open>\<^verbatim>\<open>consume\<close> and \<^verbatim>\<open>release\<close> differ in the operations of their transaction only.\<close>

definition lq_finish :: "'w zk \<Rightarrow> retry \<Rightarrow> (queue \<Rightarrow> string \<Rightarrow> tx_op list) \<Rightarrow> (queue \<times> 'w, bool) io" where
  "lq_finish zk r ops =
     io_bind io_self (\<lambda>q.
       case q_processing q of
         None \<Rightarrow> io_return False
       | Some (i, _) \<Rightarrow>
           io_bind (lq_holds_lock zk r) (\<lambda>held.
             if \<not> held then io_return False
             else io_bind (io_lift (zk_transaction zk (ops q i))) (\<lambda>_.
               io_bind (io_modify (\<lambda>q. q\<lparr>q_processing := None\<rparr>)) (\<lambda>_. io_return True))))"

definition lq_consume :: "'w zk \<Rightarrow> retry \<Rightarrow> (queue \<times> 'w, bool) io" where
  "lq_consume zk r = lq_finish zk r (\<lambda>q i.
     [TxDelete (q_entries_path q @ ''/'' @ i) (-1), TxDelete (q_lock_path q @ ''/'' @ i) (-1)])"

definition lq_release :: "'w zk \<Rightarrow> retry \<Rightarrow> (queue \<times> 'w, bool) io" where
  "lq_release zk r = lq_finish zk r (\<lambda>q i. [TxDelete (q_lock_path q @ ''/'' @ i) (-1)])"

end
