(* ===== verification/QueuesProps.thy ===== *)
theory QueuesProps
  imports Queues
begin

text \<open>
  The queue with one consumer refines an abstract queue that serves listings: by priority and,
  within a priority, in the order in which the entries were put; the locking queue gives an
  entry to one consumer at a time. Two weaknesses of \<^verbatim>\<open>consume\<close> and \<^verbatim>\<open>holds_lock\<close> follow at
  the end.
\<close>

section \<open>The order of the entries\<close>

text \<open>The name of the entry that the server makes of \<^verbatim>\<open>entry-{priority:03d}-\<close>.\<close>

definition entry_name :: "nat \<Rightarrow> nat \<Rightarrow> string" where
  "entry_name p n = ''entry-'' @ zero_pad 3 p @ ''-'' @ seq_string n"

lemma decimal_snoc: "decimal (Suc k) n = decimal k (n div 10) @ [digit_char (n mod 10)]"
proof (induction k)
  case (Suc k)
  have "n div 10 ^ Suc k = n div 10 div 10 ^ k" by (simp add: div_mult2_eq)
  then show ?case using Suc by (simp del: power_Suc)
qed (simp add: digit_char_def)

lemma zero_pad_decimal: "n < 10 ^ Suc k \<Longrightarrow> zero_pad (Suc k) n = decimal (Suc k) n"
proof (induction k arbitrary: n)
  case 0
  then show ?case by (subst decimal_snoc) (simp add: zero_pad_def nat_digits.simps)
next
  case (Suc k)
  show ?case
  proof (cases "n < 10")
    case True
    have "decimal j 0 = replicate j (digit_char 0)" for j by (induction j) (simp_all add: digit_char_def)
    moreover have "digit_char 0 = CHR ''0''" by (simp add: digit_char_def char_of_def bit_0)
    ultimately show ?thesis
      using True by (subst decimal_snoc) (simp add: zero_pad_def nat_digits.simps [of n])
  next
    case False
    have "n div 10 < 10 ^ Suc k" using Suc.prems by (simp add: less_mult_imp_div_less)
    then have "zero_pad (Suc k) (n div 10) = decimal (Suc k) (n div 10)" by (rule Suc.IH)
    moreover have "zero_pad (Suc (Suc k)) n = zero_pad (Suc k) (n div 10) @ [digit_char (n mod 10)]"
      using False by (simp add: zero_pad_def Let_def nat_digits.simps [of n])
    ultimately show ?thesis using decimal_snoc [of "Suc k" n] by simp
  qed
qed

lemma append_less_same: "length xs = length ys \<Longrightarrow> (xs @ us < ys @ vs) \<longleftrightarrow> xs < ys \<or> xs = ys \<and> us < (vs :: 'a :: linorder list)"
  by (induction xs ys rule: list_induct2) auto

lemma entry_name_less:
  assumes "p \<le> 999" and "p' \<le> 999" and "n < 10 ^ 10" and "n' < 10 ^ 10"
  shows "entry_name p n < entry_name p' n' \<longleftrightarrow> p < p' \<or> p = p' \<and> n < n'"
proof -
  have z: "zero_pad 3 k = decimal 3 k" if "k \<le> 999" for k
    using that zero_pad_decimal [of k 2] by (simp add: numeral_3_eq_3 numeral_2_eq_2)
  have "decimal 3 p < decimal 3 p' \<longleftrightarrow> p < p'" "decimal 3 p = decimal 3 p' \<longleftrightarrow> p = p'"
    using assms(1,2) by (simp_all add: decimal_less_iff decimal_inj)
  moreover have "seq_string n < seq_string n' \<longleftrightarrow> n < n'"
    unfolding seq_string_def by (rule decimal_less_iff [OF assms(3,4)])
  ultimately show ?thesis
    unfolding entry_name_def z [OF assms(1)] z [OF assms(2)] by (simp add: append_less_same)
qed

section \<open>The entries and their order\<close>

text \<open>An entry: its priority, its sequence number and its data.\<close>

type_synonym entry = "nat \<times> nat \<times> bytes"

definition entry_seq :: "entry \<Rightarrow> nat" where "entry_seq = (\<lambda>(a, n, d). n)"

definition entries_sorted :: "entry list \<Rightarrow> bool" where
  "entries_sorted = sorted_wrt (\<lambda>(a, m, _) (b, n, _). a < b \<or> a = b \<and> m < n)"

definition entry_ok :: "entry \<Rightarrow> bool" where
  "entry_ok = (\<lambda>(a, n, _). a \<le> 999 \<and> n < 10 ^ 10)"

definition named :: "entry \<Rightarrow> string \<times> bytes" where
  "named = (\<lambda>(a, n, d). (entry_name a n, d))"

definition stripped :: "entry \<Rightarrow> nat \<times> bytes" where
  "stripped = (\<lambda>(a, n, d). (a, d))"

lemma named_fst_less:
  "entry_ok x \<Longrightarrow> entry_ok y \<Longrightarrow>
   fst (named x) < fst (named y) \<longleftrightarrow> fst x < fst y \<or> fst x = fst y \<and> entry_seq x < entry_seq y"
  by (auto simp: entry_ok_def named_def entry_seq_def entry_name_less split: prod.splits)

lemma named_fst_inj:
  assumes "entry_ok x" and "entry_ok y" and "fst (named x) = fst (named y)"
  shows "fst x = fst y \<and> entry_seq x = entry_seq y"
  using named_fst_less [OF assms(1,2)] named_fst_less [OF assms(2,1)] assms(3) by (auto simp: not_less_iff_gr_or_eq)

lemma names_sorted:
  assumes "entries_sorted items" and "\<forall>e \<in> set items. entry_ok e"
  shows "sorted_wrt (<) (map (fst \<circ> named) items)"
proof -
  have "sorted_wrt (\<lambda>x y. fst (named x) < fst (named y)) items"
    by (rule sorted_wrt_mono_rel [OF _ assms(1) [unfolded entries_sorted_def]])
      (use assms(2) in \<open>auto simp: named_fst_less entry_seq_def\<close>)
  then show ?thesis by (simp add: sorted_wrt_map)
qed

text \<open>Sorting by priority keeps the order in which the entries of one priority were put.\<close>

lemma entries_sorted_insort:
  "entries_sorted es \<Longrightarrow> \<forall>e \<in> set es. entry_seq x < entry_seq e \<Longrightarrow> entries_sorted (insort_key fst x es)"
  by (induction es) (auto simp: entries_sorted_def entry_seq_def set_insort_key)

lemma entries_sorted_sort:
  "sorted_wrt (<) (map entry_seq es) \<Longrightarrow> entries_sorted (sort_key fst es)"
proof (induction es)
  case Nil
  then show ?case by (simp add: entries_sorted_def)
next
  case (Cons x es)
  then show ?case by (simp add: entries_sorted_insort)
qed

lemma map_insort_stripped: "map stripped (insort_key fst x es) = insort_key fst (stripped x) (map stripped es)"
  by (induction es) (auto simp: stripped_def split: prod.splits)

lemma map_sort_stripped: "map stripped (sort_key fst es) = sort_key fst (map stripped es)"
  by (induction es) (simp_all add: map_insort_stripped)

section \<open>What the queue promises\<close>

text \<open>
  The abstract queue: the rest of the listing that is being served, and the entries that were put
  since it was made, in the order in which they were put. Both hold priorities and data, and no
  names. \<open>listing_get\<close> serves the listing, and makes a new one when it is used up: the entries by
  priority, those of one priority in the order in which they were put.
\<close>

type_synonym listing = "(nat \<times> bytes) list \<times> (nat \<times> bytes) list"

definition listing_get :: "listing \<Rightarrow> bytes option \<times> listing" where
  "listing_get s = (case s of (listed, fresh) \<Rightarrow>
     let (listed, fresh) = (if listed = [] then (sort_key fst fresh, []) else (listed, fresh))
     in case listed of [] \<Rightarrow> (None, ([], fresh)) | (a, d) # rest \<Rightarrow> (Some d, (rest, fresh)))"

text \<open>The operations of a program on a queue: a put is on the consumer's own object of the queue or on another.\<close>

datatype queue_op = QGet | QPut bool bytes int

text \<open>\<^verbatim>\<open>put\<close> returns \<^verbatim>\<open>None\<close>, and \<^verbatim>\<open>get\<close> does when the queue is empty.\<close>

fun listing_op :: "queue_op \<Rightarrow> listing \<Rightarrow> (exc + bytes option) \<times> listing" where
  "listing_op QGet s = (case listing_get s of (d, s) \<Rightarrow> (Inr d, s))"
| "listing_op (QPut own data priority) (listed, fresh) =
     (if priority < 0 \<or> priority > 999 then (Inl PyValueError, (listed, fresh))
      else (Inr None, (listed, fresh @ [(nat priority, data)])))"

fun listing_run :: "queue_op list \<Rightarrow> listing \<Rightarrow> (exc + bytes option) list \<times> listing" where
  "listing_run [] s = ([], s)"
| "listing_run (op # ops) s =
     (case listing_op op s of (r, s) \<Rightarrow> case listing_run ops s of (rs, s) \<Rightarrow> (r # rs, s))"

text \<open>
  The same operations on two objects of the queue, the consumer's \<open>qc\<close> and a producer's \<open>qp\<close>.
\<close>

fun queue_op_run :: "'w zk \<Rightarrow> retry \<Rightarrow> queue_op \<Rightarrow> queue \<times> queue \<times> 'w
    \<Rightarrow> ((exc + bytes option) \<times> queue \<times> queue \<times> 'w) option" where
  "queue_op_run zk r QGet (qc, qp, w) =
     map_option (\<lambda>(res, (qc, w)). (res, qc, qp, w)) (queue_get zk r (qc, w))"
| "queue_op_run zk r (QPut own data priority) (qc, qp, w) =
     (if own then map_option (\<lambda>(res, (qc, w)). (map_sum id (\<lambda>_. None) res, qc, qp, w)) (queue_put zk data priority (qc, w))
      else map_option (\<lambda>(res, (qp, w)). (map_sum id (\<lambda>_. None) res, qc, qp, w)) (queue_put zk data priority (qp, w)))"

fun queue_run :: "'w zk \<Rightarrow> retry \<Rightarrow> queue_op list \<Rightarrow> queue \<times> queue \<times> 'w
    \<Rightarrow> ((exc + bytes option) list \<times> queue \<times> queue \<times> 'w) option" where
  "queue_run zk r [] s = Some ([], s)"
| "queue_run zk r (op # ops) s =
     (case queue_op_run zk r op s of
        None \<Rightarrow> None
      | Some (res, s) \<Rightarrow> map_option (\<lambda>(rs, s). (res # rs, s)) (queue_run zk r ops s))"

section \<open>The server\<close>

text \<open>
  A server that answers without errors and whose nodes below the path only this consumer removes:
  the entries and their data, and the sequence number it gives to the next entry.
\<close>

definition entry_server :: "'w zk \<Rightarrow> string \<Rightarrow> ('w \<Rightarrow> string \<rightharpoonup> bytes) \<Rightarrow> ('w \<Rightarrow> nat) \<Rightarrow> bool" where
  "entry_server zk p ents seqn \<longleftrightarrow>
     (\<forall>w. \<exists>b w'. zk_ensure_path zk p w = Some (Inr b, w') \<and> ents w' = ents w \<and> seqn w' = seqn w)
   \<and> (\<forall>w. finite (dom (ents w)) \<longrightarrow> (\<exists>xs w'. zk_get_children zk p w = Some (Inr xs, w') \<and> distinct xs
        \<and> set xs = dom (ents w) \<and> ents w' = ents w \<and> seqn w' = seqn w))
   \<and> (\<forall>w x d. ents w x = Some d \<longrightarrow> (\<exists>st w'. zk_get zk (p @ ''/'' @ x) w = Some (Inr (Some d, st), w')
        \<and> ents w' = ents w \<and> seqn w' = seqn w))
   \<and> (\<forall>w x. x \<in> dom (ents w) \<longrightarrow> (\<exists>w'. zk_delete zk (p @ ''/'' @ x) w = Some (Inr (), w')
        \<and> ents w' = (ents w)(x := None) \<and> seqn w' = seqn w))
   \<and> (\<forall>w a d. seqn w < 10 ^ 10 \<longrightarrow>
        (\<exists>name w'. zk_create zk (p @ ''/'' @ ''entry-'' @ zero_pad 3 a @ ''-'') d False True False w = Some (Inr name, w')
          \<and> ents w' = (ents w)(entry_name a (seqn w) \<mapsto> d) \<and> seqn w' = Suc (seqn w)))
   \<and> (\<forall>m n. env_keeps (zk_retry zk) (\<lambda>w. ents w = m \<and> seqn w = n))"

lemma entry_server_ensure:
  assumes "entry_server zk p ents seqn"
  obtains b w' where "zk_ensure_path zk p w = Some (Inr b, w')" "ents w' = ents w" "seqn w' = seqn w"
  using assms unfolding entry_server_def by blast

lemma entry_server_children:
  assumes "entry_server zk p ents seqn" and "finite (dom (ents w))"
  obtains xs w' where "zk_get_children zk p w = Some (Inr xs, w')" "distinct xs" "set xs = dom (ents w)"
    "ents w' = ents w" "seqn w' = seqn w"
  using assms unfolding entry_server_def by blast

lemma entry_server_get:
  assumes "entry_server zk p ents seqn" and "ents w x = Some d"
  obtains st w' where "zk_get zk (p @ ''/'' @ x) w = Some (Inr (Some d, st), w')" "ents w' = ents w" "seqn w' = seqn w"
  using assms unfolding entry_server_def by blast

lemma entry_server_delete:
  assumes "entry_server zk p ents seqn" and "x \<in> dom (ents w)"
  obtains w' where "zk_delete zk (p @ ''/'' @ x) w = Some (Inr (), w')" "ents w' = (ents w)(x := None)" "seqn w' = seqn w"
  using assms unfolding entry_server_def by blast

lemma entry_server_create:
  assumes "entry_server zk p ents seqn" and "seqn w < 10 ^ 10"
  obtains name w' where "zk_create zk (p @ ''/'' @ ''entry-'' @ zero_pad 3 a @ ''-'') d False True False w = Some (Inr name, w')"
    "ents w' = (ents w)(entry_name a (seqn w) \<mapsto> d)" "seqn w' = Suc (seqn w)"
  using assms unfolding entry_server_def by blast

lemma entry_server_keeps:
  "entry_server zk p ents seqn \<Longrightarrow> env_keeps (zk_retry zk) (\<lambda>w. ents w = m \<and> seqn w = n)"
  unfolding entry_server_def by blast

definition queue_at :: "string \<Rightarrow> queue \<Rightarrow> bool" where
  "queue_at p q \<longleftrightarrow> q_path q = p \<and> q_structure_paths q = [p]"

lemma q_ensure_paths_step:
  assumes "entry_server zk p ents seqn" and "queue_at p q"
  shows "\<exists>w'. q_ensure_paths zk (q, w) = Some (Inr (), (q\<lparr>q_ensured := True\<rparr>, w')) \<and> ents w' = ents w \<and> seqn w' = seqn w"
proof (cases "q_ensured q")
  case True
  then have "q\<lparr>q_ensured := True\<rparr> = q" by simp
  with True show ?thesis by (simp add: q_ensure_paths_def io_bind_def)
next
  case False
  obtain b w' where "zk_ensure_path zk p w = Some (Inr b, w')" "ents w' = ents w" "seqn w' = seqn w"
    by (rule entry_server_ensure [OF assms(1)])
  then show ?thesis using False assms(2) by (simp add: q_ensure_paths_def queue_at_def io_bind_def)
qed

section \<open>One operation\<close>

text \<open>The names that the next \<^verbatim>\<open>get\<close> works on.\<close>

definition to_serve :: "(string \<rightharpoonup> bytes) \<Rightarrow> queue \<Rightarrow> string list" where
  "to_serve m q = (if q_children q = [] then sorted_list_of_set (dom m) else q_children q)"

lemma queue_fill:
  assumes "entry_server zk p ents seqn" and "queue_at p q" and "ents w = m" and "seqn w = n" and "finite (dom m)"
  shows "\<exists>w'. io_bind io_self (\<lambda>q. if q_children q = [] then
                io_bind (io_lift (io_retry zk r (zk_get_children zk (q_path q)))) (\<lambda>cs.
                  io_modify (\<lambda>q. q\<lparr>q_children := sort cs\<rparr>))
              else io_return ()) (q, w) =
      Some (Inr (), (q\<lparr>q_children := to_serve m q\<rparr>, w')) \<and> ents w' = m \<and> seqn w' = n"
proof (cases "q_children q = []")
  case False
  then show ?thesis using assms(3,4) by (simp add: to_serve_def)
next
  case True
  have "\<exists>xs w'. io_retry zk r (zk_get_children zk p) w = Some (Inr xs, w')
      \<and> (distinct xs \<and> set xs = dom m \<and> ents w' = m \<and> seqn w' = n)"
  proof (rule io_retry_total [where P = "\<lambda>w. ents w = m \<and> seqn w = n"])
    show "env_keeps (zk_retry zk) (\<lambda>w. ents w = m \<and> seqn w = n)" by (rule entry_server_keeps [OF assms(1)])
    show "ents w = m \<and> seqn w = n" using assms(3,4) by simp
    fix w1 assume "ents w1 = m \<and> seqn w1 = n"
    with assms(5) show "\<exists>xs w'. zk_get_children zk p w1 = Some (Inr xs, w') \<and> (distinct xs \<and> set xs = dom m \<and> ents w' = m \<and> seqn w' = n)"
      using entry_server_children [OF assms(1), of w1] by metis
  qed
  then obtain xs w' where "io_retry zk r (zk_get_children zk p) w = Some (Inr xs, w')"
    "distinct xs" "set xs = dom m" "ents w' = m" "seqn w' = n" by blast
  moreover from this have "sort xs = sorted_list_of_set (dom m)"
    using sorted_list_of_set_sort_remdups [of xs] by (simp add: distinct_remdups_id)
  ultimately show ?thesis using True assms(2) by (simp add: queue_at_def to_serve_def)
qed

text \<open>What a \<^verbatim>\<open>get\<close> returns, and what is left, for the names \<open>xs\<close> it works on.\<close>

definition served :: "string list \<Rightarrow> (string \<rightharpoonup> bytes) \<Rightarrow> bytes option \<times> string list \<times> (string \<rightharpoonup> bytes)" where
  "served xs m = (case xs of [] \<Rightarrow> (None, [], m) | x # rest \<Rightarrow> (m x, rest, m(x := None)))"

lemma queue_inner_get_step:
  assumes "entry_server zk p ents seqn" and "queue_at p q" and "ents w = m" and "seqn w = n" and "finite (dom m)"
    and "set (q_children q) \<subseteq> dom m" and "served (to_serve m q) m = (d, rest, m')"
  shows "\<exists>w'. queue_inner_get zk r (q, w) = Some (Inr d, (q\<lparr>q_children := rest\<rparr>, w')) \<and> ents w' = m' \<and> seqn w' = n"
proof -
  obtain w1 where fill: "io_bind io_self (\<lambda>q. if q_children q = [] then
                io_bind (io_lift (io_retry zk r (zk_get_children zk (q_path q)))) (\<lambda>cs.
                  io_modify (\<lambda>q. q\<lparr>q_children := sort cs\<rparr>))
              else io_return ()) (q, w) = Some (Inr (), (q\<lparr>q_children := to_serve m q\<rparr>, w1))" "ents w1 = m" "seqn w1 = n"
    using queue_fill [OF assms(1-5)] by blast
  show ?thesis
  proof (cases "to_serve m q")
    case Nil
    with assms(7) have "d = None" "rest = []" "m' = m" by (simp_all add: served_def)
    then show ?thesis using fill Nil by (auto simp: queue_inner_get_def io_bind_def)
  next
    case (Cons x xs)
    then have x: "x \<in> set (to_serve m q)" by simp
    then have "x \<in> dom m" using assms(5,6) by (auto simp: to_serve_def split: if_splits)
    then obtain v where v: "m x = Some v" by blast
    obtain st w2 where w2: "zk_get zk (p @ ''/'' @ x) w1 = Some (Inr (Some v, st), w2)" "ents w2 = m" "seqn w2 = n"
      using entry_server_get [OF assms(1), of w1 x v] fill(2,3) v by metis
    obtain w3 where w3: "zk_delete zk (p @ ''/'' @ x) w2 = Some (Inr (), w3)" "ents w3 = m(x := None)" "seqn w3 = n"
      using entry_server_delete [OF assms(1), of x w2] w2(2,3) \<open>x \<in> dom m\<close> by metis
    have "q_path q = p" using assms(2) by (simp add: queue_at_def)
    then have "queue_inner_get zk r (q, w) = Some (Inr (Some v), (q\<lparr>q_children := xs\<rparr>, w3))"
      using fill(1) Cons w2(1) w3(1) by (simp add: queue_inner_get_def io_bind_def io_catch_def)
    then show ?thesis using assms(7) Cons v w3(2,3) by (auto simp: served_def)
  qed
qed

lemma queue_get_step:
  assumes "entry_server zk p ents seqn" and "queue_at p q" and "finite (dom (ents w))"
    and "set (q_children q) \<subseteq> dom (ents w)" and "served (to_serve (ents w) q) (ents w) = (d, rest, m')"
  shows "\<exists>w'. queue_get zk r (q, w) = Some (Inr d, (q\<lparr>q_ensured := True, q_children := rest\<rparr>, w'))
    \<and> ents w' = m' \<and> seqn w' = seqn w"
proof -
  let ?m = "ents w" and ?n = "seqn w" and ?q = "q\<lparr>q_ensured := True\<rparr>"
  obtain w1 where w1: "q_ensure_paths zk (q, w) = Some (Inr (), (?q, w1))" "ents w1 = ?m" "seqn w1 = ?n"
    using q_ensure_paths_step [OF assms(1,2)] by blast
  let ?P = "\<lambda>(q1, w). q1 = ?q \<and> ents w = ?m \<and> seqn w = ?n"
  let ?Q = "\<lambda>x sw. x = d \<and> fst sw = ?q\<lparr>q_children := rest\<rparr> \<and> ents (snd sw) = m' \<and> seqn (snd sw) = ?n"
  have "\<exists>x sw'. io_retry_self zk (retry_copy r) (queue_inner_get zk r) (?q, w1) = Some (Inr x, sw') \<and> ?Q x sw'"
  proof (rule io_retry_self_total [where P = ?P])
    show "env_keeps (zk_retry zk) (\<lambda>w. case (s, w) of (q1, w) \<Rightarrow> q1 = ?q \<and> ents w = ?m \<and> seqn w = ?n)" for s
      using entry_server_keeps [OF assms(1)] by (cases "s = ?q") (simp_all add: env_keeps_def)
    show "?P (?q, w1)" using w1(2,3) by simp
  next
    fix sw
    assume "?P sw"
    then obtain w2 where sw: "sw = (?q, w2)" "ents w2 = ?m" "seqn w2 = ?n" by (cases sw) auto
    have "queue_at p ?q" "set (q_children ?q) \<subseteq> dom ?m" "served (to_serve ?m ?q) ?m = (d, rest, m')"
      using assms(2,4,5) by (simp_all add: queue_at_def to_serve_def cong: if_cong)
    from queue_inner_get_step [OF assms(1) this(1) sw(2,3) assms(3) this(2,3), of r]
    show "\<exists>x sw'. queue_inner_get zk r sw = Some (Inr x, sw') \<and> ?Q x sw'" using sw(1) by auto
  qed
  then show ?thesis using w1(1) by (fastforce simp: queue_get_def io_bind_def)
qed

lemma queue_put_step:
  assumes "entry_server zk p ents seqn" and "queue_at p q" and "seqn w < 10 ^ 10" and "0 \<le> priority" and "priority \<le> 999"
  shows "\<exists>w'. queue_put zk data priority (q, w) = Some (Inr (), (q\<lparr>q_ensured := True\<rparr>, w'))
    \<and> ents w' = (ents w)(entry_name (nat priority) (seqn w) \<mapsto> data) \<and> seqn w' = Suc (seqn w)"
proof -
  obtain w1 where w1: "q_ensure_paths zk (q, w) = Some (Inr (), (q\<lparr>q_ensured := True\<rparr>, w1))" "ents w1 = ents w" "seqn w1 = seqn w"
    using q_ensure_paths_step [OF assms(1,2)] by blast
  have "seqn w1 < 10 ^ 10" using assms(3) w1(3) by simp
  then obtain name w2 where "zk_create zk (p @ ''/'' @ ''entry-'' @ zero_pad 3 (nat priority) @ ''-'') data False True False w1
      = Some (Inr name, w2)" "ents w2 = (ents w1)(entry_name (nat priority) (seqn w1) \<mapsto> data)" "seqn w2 = Suc (seqn w1)"
    by (rule entry_server_create [OF assms(1)])
  then show ?thesis
    using w1 assms(2,4,5) by (simp add: queue_put_def check_put_arguments_def queue_at_def io_bind_def)
qed

section \<open>The refinement\<close>

text \<open>
  The names that the consumer holds are those of the listing, the nodes are those of the listing
  and of the entries put since, and these are in the order of their sequence numbers.
\<close>

definition queue_state :: "string \<Rightarrow> ('w \<Rightarrow> string \<rightharpoonup> bytes) \<Rightarrow> ('w \<Rightarrow> nat) \<Rightarrow> entry list \<Rightarrow> entry list
    \<Rightarrow> queue \<times> queue \<times> 'w \<Rightarrow> bool" where
  "queue_state p ents seqn listed fresh = (\<lambda>(qc, qp, w). queue_at p qc \<and> queue_at p qp
     \<and> q_children qc = map (fst \<circ> named) listed \<and> ents w = map_of (map named (listed @ fresh))
     \<and> distinct (map entry_seq (listed @ fresh)) \<and> sorted_wrt (<) (map entry_seq fresh)
     \<and> (\<forall>e \<in> set (listed @ fresh). entry_ok e \<and> entry_seq e < seqn w))"

lemma names_distinct:
  assumes "distinct (map entry_seq es)" and "\<forall>e \<in> set es. entry_ok e"
  shows "distinct (map (fst \<circ> named) es)"
proof -
  have "inj_on (fst \<circ> named) (set es)"
    using assms named_fst_inj by (auto simp: inj_on_def distinct_map)
  then show ?thesis using assms(1) by (simp add: distinct_map)
qed

lemma map_of_remove_first:
  "k \<notin> fst ` set kvs \<Longrightarrow> (map_of ((k, v) # kvs))(k := None) = map_of kvs"
  by (rule ext) (simp add: map_of_eq_None_iff [THEN iffD2])

lemma map_of_add_last:
  "k \<notin> fst ` set kvs \<Longrightarrow> map_of (kvs @ [(k, v)]) = (map_of kvs)(k \<mapsto> v)"
  by (rule ext) (simp add: map_add_def map_of_eq_None_iff [THEN iffD2] split: option.splits)

text \<open>A new listing: the entries put so far, sorted, are what the consumer then works on.\<close>

lemma relisted:
  assumes "queue_state p ents seqn [] fresh (qc, qp, w)"
  shows "to_serve (ents w) qc = map (fst \<circ> named) (sort_key fst fresh)"
    and "ents w = map_of (map named (sort_key fst fresh))"
proof -
  have ok: "\<forall>e \<in> set fresh. entry_ok e" "distinct (map entry_seq fresh)" "sorted_wrt (<) (map entry_seq fresh)"
    "ents w = map_of (map named fresh)" "q_children qc = []"
    using assms by (simp_all add: queue_state_def)
  have srt: "sorted_wrt (<) (map (fst \<circ> named) (sort_key fst fresh))"
    by (rule names_sorted [OF entries_sorted_sort]) (use ok in simp_all)
  have dom: "set (map (fst \<circ> named) (sort_key fst fresh)) = dom (ents w)"
    by (simp add: ok(4) dom_map_of_conv_image_fst image_image)
  show "to_serve (ents w) qc = map (fst \<circ> named) (sort_key fst fresh)"
    unfolding to_serve_def using ok(5) dom srt
    by (metis (no_types, lifting) sorted_list_of_set.idem_if_sorted_distinct strict_sorted_iff)
  have d: "distinct (map fst (map named fresh))" using names_distinct [OF ok(2,1)] by simp
  moreover have "distinct (map fst (map named (sort_key fst fresh)))" using srt by (simp add: strict_sorted_iff)
  ultimately show "ents w = map_of (map named (sort_key fst fresh))"
    unfolding ok(4) by (subst map_of_inject_set) (simp_all del: map_map)
qed

lemma served_listing:
  assumes "distinct (map (fst \<circ> named) es)" and "m = map_of (map named es)" and "es = listed @ fresh"
  shows "served (map (fst \<circ> named) listed) m =
    (case listed of [] \<Rightarrow> (None, [], m) | e # rest \<Rightarrow> (Some (snd (snd e)), map (fst \<circ> named) rest, map_of (map named (rest @ fresh))))"
proof (cases listed)
  case (Cons e rest)
  then have "fst (named e) \<notin> set (map (fst \<circ> named) (rest @ fresh))" using assms(1,3) by simp
  then have "fst (named e) \<notin> fst ` set (map named (rest @ fresh))" by (simp only: set_map image_comp) simp
  from map_of_remove_first [OF this, of "snd (named e)"] show ?thesis
    using assms(2,3) Cons by (simp add: served_def named_def split: prod.splits)
qed (simp add: served_def)

text \<open>The listing that the next \<^verbatim>\<open>get\<close> serves, and the entries that it leaves aside.\<close>

definition listing_now :: "entry list \<Rightarrow> entry list \<Rightarrow> entry list \<times> entry list" where
  "listing_now listed fresh = (if listed = [] then (sort_key fst fresh, []) else (listed, fresh))"

lemma listing_get_now:
  assumes "listing_now listed fresh = (l, f)"
  shows "listing_get (map stripped listed, map stripped fresh) =
    (case l of [] \<Rightarrow> (None, ([], map stripped f)) | e # rest \<Rightarrow> (Some (snd (snd e)), (map stripped rest, map stripped f)))"
proof -
  have "(if map stripped listed = [] then (sort_key fst (map stripped fresh), []) else (map stripped listed, map stripped fresh))
      = (map stripped l, map stripped f)"
    using assms by (auto simp: listing_now_def map_sort_stripped split: if_splits)
  then have "listing_get (map stripped listed, map stripped fresh) =
      (case map stripped l of [] \<Rightarrow> (None, ([], map stripped f)) | (a, d) # rest \<Rightarrow> (Some d, (rest, map stripped f)))"
    unfolding listing_get_def Let_def prod.case by (simp only: prod.case)
  then show ?thesis by (cases l) (simp_all add: stripped_def split: prod.splits)
qed

lemma queue_state_now:
  assumes "queue_state p ents seqn listed fresh (qc, qp, w)" and "listing_now listed fresh = (l, f)"
  shows "queue_state p ents seqn l f (qc\<lparr>q_children := map (fst \<circ> named) l\<rparr>, qp, w)"
    and "to_serve (ents w) qc = map (fst \<circ> named) l" and "set (q_children qc) \<subseteq> dom (ents w)"
proof -
  have "queue_state p ents seqn l f (qc\<lparr>q_children := map (fst \<circ> named) l\<rparr>, qp, w) \<and> to_serve (ents w) qc = map (fst \<circ> named) l"
  proof (cases "listed = []")
    case True
    then have l: "l = sort_key fst fresh" "f = []" using assms(2) by (simp_all add: listing_now_def)
    from assms(1) True have q: "queue_state p ents seqn [] fresh (qc, qp, w)" by simp
    have "distinct (map entry_seq (sort_key fst fresh))"
      using q by (simp add: queue_state_def distinct_map)
    with q relisted [OF q] show ?thesis unfolding l by (simp add: queue_state_def queue_at_def)
  next
    case False
    then have "l = listed" "f = fresh" using assms(2) by (simp_all add: listing_now_def)
    moreover have "qc\<lparr>q_children := map (fst \<circ> named) listed\<rparr> = qc" using assms(1) by (simp add: queue_state_def)
    ultimately show ?thesis using assms(1) False by (simp add: to_serve_def queue_state_def queue_at_def)
  qed
  then show "queue_state p ents seqn l f (qc\<lparr>q_children := map (fst \<circ> named) l\<rparr>, qp, w)"
    "to_serve (ents w) qc = map (fst \<circ> named) l" by simp_all
  have "q_children qc = map (fst \<circ> named) listed" "ents w = map_of (map named (listed @ fresh))"
    using assms(1) by (simp_all add: queue_state_def)
  then show "set (q_children qc) \<subseteq> dom (ents w)"
    by (simp add: dom_map_of_conv_image_fst image_image map_add_dom_app_simps)
qed

lemma queue_state_tl:
  assumes "queue_state p ents seqn (e # l) f (qc, qp, w)" and "ents w' = map_of (map named (l @ f))" and "seqn w' = seqn w"
  shows "queue_state p ents seqn l f (qc\<lparr>q_ensured := True, q_children := map (fst \<circ> named) l\<rparr>, qp, w')"
  using assms by (simp add: queue_state_def queue_at_def)

lemma queue_state_frame:
  assumes "queue_state p ents seqn l f (qc, qp, w)" and "ents w' = ents w" and "seqn w' = seqn w"
  shows "queue_state p ents seqn l f (qc\<lparr>q_ensured := b, q_children := map (fst \<circ> named) l\<rparr>, qp, w')"
  using assms by (simp add: queue_state_def queue_at_def)

lemma queue_state_get:
  assumes "entry_server zk p ents seqn" and "queue_state p ents seqn listed fresh (qc, qp, w)"
  shows "\<exists>qc' w' listed' fresh'. queue_get zk r (qc, w) =
        Some (Inr (fst (listing_get (map stripped listed, map stripped fresh))), (qc', w'))
    \<and> snd (listing_get (map stripped listed, map stripped fresh)) = (map stripped listed', map stripped fresh')
    \<and> queue_state p ents seqn listed' fresh' (qc', qp, w') \<and> seqn w' = seqn w"
proof -
  obtain l f where lf: "listing_now listed fresh = (l, f)" by (cases "listing_now listed fresh")
  let ?q = "qc\<lparr>q_children := map (fst \<circ> named) l\<rparr>"
  have now: "queue_state p ents seqn l f (?q, qp, w)" and to: "to_serve (ents w) qc = map (fst \<circ> named) l"
    and sub: "set (q_children qc) \<subseteq> dom (ents w)"
    by (rule queue_state_now [OF assms(2) lf])+
  have qat: "queue_at p qc" using assms(2) by (simp add: queue_state_def)
  have m: "ents w = map_of (map named (l @ f))" and d: "distinct (map (fst \<circ> named) (l @ f))"
    using now names_distinct [of "l @ f"] by (simp_all add: queue_state_def)
  have fin: "finite (dom (ents w))" unfolding m by (rule finite_dom_map_of)
  note get = queue_get_step [OF assms(1) qat fin sub, unfolded to served_listing [OF d m refl]]
  show ?thesis
  proof (cases l)
    case Nil
    then obtain w' where w': "queue_get zk r (qc, w) = Some (Inr None, (qc\<lparr>q_ensured := True, q_children := []\<rparr>, w'))"
      "ents w' = ents w" "seqn w' = seqn w"
      using get [of None "[]" "ents w"] by auto
    have "queue_state p ents seqn [] f (qc\<lparr>q_ensured := True, q_children := []\<rparr>, qp, w')"
      using queue_state_frame [OF now w'(2,3), of True] Nil by simp
    with w'(1,3) show ?thesis using listing_get_now [OF lf] Nil by (metis fst_conv list.simps(4,8) snd_conv)
  next
    case (Cons e rest)
    then obtain w' where w': "queue_get zk r (qc, w) =
        Some (Inr (Some (snd (snd e))), (qc\<lparr>q_ensured := True, q_children := map (fst \<circ> named) rest\<rparr>, w'))"
      "ents w' = map_of (map named (rest @ f))" "seqn w' = seqn w"
      using get [of "Some (snd (snd e))" "map (fst \<circ> named) rest" "map_of (map named (rest @ f))"] by auto
    have "queue_state p ents seqn rest f (qc\<lparr>q_ensured := True, q_children := map (fst \<circ> named) rest\<rparr>, qp, w')"
      using queue_state_tl [OF now [unfolded Cons] w'(2,3)] by simp
    with w'(1,3) show ?thesis using listing_get_now [OF lf] Cons by (metis fst_conv list.simps(5) snd_conv)
  qed
qed

lemma queue_state_put:
  assumes "queue_state p ents seqn l f (qc, qp, w)" and "priority \<le> 999" and "seqn w < 10 ^ 10"
    and "ents w' = (ents w)(entry_name priority (seqn w) \<mapsto> data)" and "seqn w' = Suc (seqn w)"
    and "queue_at p qc'" and "q_children qc' = q_children qc" and "queue_at p qp'"
  shows "queue_state p ents seqn l (f @ [(priority, seqn w, data)]) (qc', qp', w')"
proof -
  let ?e = "(priority, seqn w, data)" and ?es = "l @ f"
  have ok: "\<forall>e \<in> set ?es. entry_ok e" and lt: "\<forall>e \<in> set ?es. entry_seq e < seqn w"
    and ents: "ents w = map_of (map named ?es)" and dist: "distinct (map entry_seq ?es)"
    and srt: "sorted_wrt (<) (map entry_seq f)"
    using assms(1) by (simp_all add: queue_state_def)
  have e: "entry_ok ?e" "entry_seq ?e = seqn w" "named ?e = (entry_name priority (seqn w), data)"
    using assms(2,3) by (simp_all add: entry_ok_def entry_seq_def named_def)
  have "fst (named ?e) \<notin> (\<lambda>x. fst (named x)) ` set ?es"
  proof (rule notI, elim imageE)
    fix x assume x: "fst (named ?e) = fst (named x)" "x \<in> set ?es"
    then have "entry_ok x" "entry_seq x < seqn w" using ok lt by blast+
    with named_fst_inj [OF this(1) e(1) x(1) [symmetric]] e(2) show False by simp
  qed
  then have "fst (named ?e) \<notin> fst ` set (map named ?es)" by (simp only: set_map image_image not_False_eq_True)
  then have "map_of (map named ?es @ [named ?e]) = (map_of (map named ?es))(entry_name priority (seqn w) \<mapsto> data)"
    unfolding e(3) by (intro map_of_add_last) simp
  then have "ents w' = map_of (map named (l @ f @ [?e]))" using assms(4) ents by simp
  moreover have "distinct (map entry_seq (l @ f @ [?e]))" using dist lt e(2) by force
  moreover have "sorted_wrt (<) (map entry_seq (f @ [?e]))" using srt lt e(2) by (auto simp: sorted_wrt_append)
  moreover have "\<forall>x \<in> set (l @ f @ [?e]). entry_ok x \<and> entry_seq x < seqn w'"
  proof
    fix x assume "x \<in> set (l @ f @ [?e])"
    then have "x \<in> set ?es \<or> x = ?e" by auto
    then show "entry_ok x \<and> entry_seq x < seqn w'"
    proof
      assume "x \<in> set ?es"
      then have "entry_ok x" "entry_seq x < seqn w" using ok lt by blast+
      then show ?thesis using assms(5) by simp
    qed (use e(1,2) assms(5) in simp)
  qed
  moreover have "q_children qc' = map (fst \<circ> named) l" using assms(1,7) by (simp add: queue_state_def)
  ultimately show ?thesis using assms(6,8) unfolding queue_state_def prod.case by blast
qed

lemma queue_op_refines:
  assumes "entry_server zk p ents seqn" and "queue_state p ents seqn listed fresh (qc, qp, w)" and "seqn w < 10 ^ 10"
  shows "\<exists>qc' qp' w' listed' fresh'. queue_op_run zk r op (qc, qp, w) =
        Some (fst (listing_op op (map stripped listed, map stripped fresh)), (qc', qp', w'))
    \<and> snd (listing_op op (map stripped listed, map stripped fresh)) = (map stripped listed', map stripped fresh')
    \<and> queue_state p ents seqn listed' fresh' (qc', qp', w') \<and> seqn w' \<le> Suc (seqn w)"
proof (cases op)
  case QGet
  from queue_state_get [OF assms(1,2), of r] obtain qc' w' listed' fresh' where
    "queue_get zk r (qc, w) = Some (Inr (fst (listing_get (map stripped listed, map stripped fresh))), (qc', w'))"
    "snd (listing_get (map stripped listed, map stripped fresh)) = (map stripped listed', map stripped fresh')"
    "queue_state p ents seqn listed' fresh' (qc', qp, w')" "seqn w' = seqn w" by blast
  then show ?thesis
    unfolding QGet by (intro exI [of _ qc'] exI [of _ qp] exI [of _ w'] exI [of _ listed'] exI [of _ fresh'])
      (simp add: case_prod_unfold)
next
  case (QPut own data priority)
  show ?thesis
  proof (cases "priority < 0 \<or> priority > 999")
    case True
    then have "queue_put zk data priority (q, w) = Some (Inl PyValueError, (q, w))" for q
      by (simp add: queue_put_def check_put_arguments_def io_bind_def)
    with True assms(2) show ?thesis unfolding QPut by auto
  next
    case False
    then have pr: "0 \<le> priority" "priority \<le> 999" "nat priority \<le> 999" by auto
    have at: "queue_at p qc" "queue_at p qp" "\<And>q b. queue_at p (q\<lparr>q_ensured := b\<rparr>) = queue_at p q"
      using assms(2) by (simp_all add: queue_state_def queue_at_def)
    let ?fresh = "fresh @ [(nat priority, seqn w, data)]"
    have sp: "map stripped ?fresh = map stripped fresh @ [(nat priority, data)]" by (simp add: stripped_def)
    define q where "q = (if own then qc else qp)"
    have "queue_at p q" using at(1,2) by (simp add: q_def)
    from queue_put_step [OF assms(1) this assms(3) pr(1,2), of data] obtain w' where
      w': "queue_put zk data priority (q, w) = Some (Inr (), (q\<lparr>q_ensured := True\<rparr>, w'))"
      "ents w' = (ents w)(entry_name (nat priority) (seqn w) \<mapsto> data)" "seqn w' = Suc (seqn w)" by blast
    let ?qc = "if own then qc\<lparr>q_ensured := True\<rparr> else qc" and ?qp = "if own then qp else qp\<lparr>q_ensured := True\<rparr>"
    have "queue_state p ents seqn listed ?fresh (?qc, ?qp, w')"
      by (rule queue_state_put [OF assms(2) pr(3) assms(3) w'(2,3)]) (use at in simp_all)
    moreover have "queue_op_run zk r op (qc, qp, w) = Some (Inr None, ?qc, ?qp, w')"
      using w'(1) by (simp add: QPut q_def split: if_splits)
    ultimately show ?thesis
      using w'(3) False
      by (intro exI [of _ ?qc] exI [of _ ?qp] exI [of _ w'] exI [of _ listed] exI [of _ ?fresh])
        (simp only: QPut listing_op.simps sp if_False fst_conv snd_conv order_refl simp_thms)
  qed
qed

lemma queue_run_refines:
  assumes "entry_server zk p ents seqn"
  shows "queue_state p ents seqn listed fresh (qc, qp, w) \<Longrightarrow> seqn w + length ops \<le> 10 ^ 10 \<Longrightarrow>
    \<exists>s listed' fresh'. queue_run zk r ops (qc, qp, w) = Some (fst (listing_run ops (map stripped listed, map stripped fresh)), s)
      \<and> snd (listing_run ops (map stripped listed, map stripped fresh)) = (map stripped listed', map stripped fresh')
      \<and> queue_state p ents seqn listed' fresh' s"
proof (induction ops arbitrary: listed fresh qc qp w)
  case Nil
  then show ?case by auto
next
  case (Cons op ops)
  have lt: "seqn w < 10 ^ 10" using Cons.prems(2) by simp
  from queue_op_refines [OF assms Cons.prems(1) lt, of r op]
  obtain qc' qp' w' listed' fresh' where op:
    "queue_op_run zk r op (qc, qp, w) = Some (fst (listing_op op (map stripped listed, map stripped fresh)), (qc', qp', w'))"
    "snd (listing_op op (map stripped listed, map stripped fresh)) = (map stripped listed', map stripped fresh')"
    "queue_state p ents seqn listed' fresh' (qc', qp', w')" "seqn w' \<le> Suc (seqn w)" by blast
  have "seqn w' + length ops \<le> 10 ^ 10" using op(4) Cons.prems(2) by simp
  from Cons.IH [OF op(3) this] show ?case
    using op(1,2) by (auto simp: case_prod_unfold)
qed

text \<open>
  The order of the deliveries of the abstract queue: entries that are all put before the first
  \<^verbatim>\<open>get\<close> are delivered by priority.
\<close>

lemma listing_drains:
  "listing_run (replicate (Suc (length listed)) QGet) (listed, []) = (map (\<lambda>e. Inr (Some (snd e))) listed @ [Inr None], ([], []))"
  by (induction listed) (auto simp: listing_get_def)

text \<open>
  C19. A queue with one consumer, whose server answers without errors, is a priority queue by
  listings: in every sequence of gets and puts, on the consumer's object or on another, every
  result is that of the abstract queue, which serves the entries it listed by priority, and those
  of one priority in the order in which they were put, and lists the others when it has served
  these. Each entry is delivered once, an entry that is put while a listing is served comes after
  it, whatever its priority, and a priority outside 0 to 999 is refused. It starts with any
  entries, and needs that the sequence numbers have at most ten digits.
\<close>

theorem queue_serves_listings:
  assumes "entry_server zk p ents seqn"
    and "ents w = map_of (map named items)" and "sorted_wrt (<) (map entry_seq items)"
    and "\<forall>e \<in> set items. entry_ok e \<and> entry_seq e < seqn w" and "seqn w + length ops \<le> 10 ^ 10"
  shows "\<exists>s. queue_run zk r ops (queue_init p, queue_init p, w) =
      Some (fst (listing_run ops ([], map stripped items)), s)"
proof -
  have "queue_state p ents seqn [] items (queue_init p, queue_init p, w)"
    using assms(2-4)
    by (auto simp: queue_state_def queue_at_def queue_init_def base_queue_init_def strict_sorted_iff)
  from queue_run_refines [OF assms(1) this assms(5), of r] show ?thesis by auto
qed

text \<open>
  A server on which the entries are a finite map from names to data, next to the counter of its
  sequence numbers.
\<close>

definition demo_queue_zk :: "((string \<rightharpoonup> bytes) \<times> nat) zk" where
  "demo_queue_zk = zk_refuse\<lparr>
     zk_ensure_path := (\<lambda>_ s. Some (Inr True, s)),
     zk_get_children := (\<lambda>_ s. Some (Inr (sorted_list_of_set (dom (fst s))), s)),
     zk_get := (\<lambda>path s. Some (case fst s (drop 3 path) of
        None \<Rightarrow> Inl (ZkErr NoNodeError) | Some d \<Rightarrow> Inr (Some d, blank_stat), s)),
     zk_create := (\<lambda>path d _ _ _ (m, n). Some (Inr path, (m(drop 3 path @ seq_string n \<mapsto> d), Suc n))),
     zk_delete := (\<lambda>path (m, n). Some (if drop 3 path \<in> dom m then Inr () else Inl (ZkErr NoNodeError), (m(drop 3 path := None), n)))\<rparr>"

lemma demo_queue_server: "entry_server demo_queue_zk ''/q'' fst snd"
  by (auto simp: entry_server_def demo_queue_zk_def zk_refuse_def entry_name_def)

text \<open>
  An entry that was put at first with the lower priority, one that is served before it, and one
  of the highest priority that is put after the first \<^verbatim>\<open>get\<close> and comes last.
\<close>

theorem queue_serves_listings_witness:
  "\<exists>s. queue_run demo_queue_zk forever [QPut False [20] 2, QGet, QPut True [30] 0, QPut True [40] 1000, QGet, QGet, QGet]
       (queue_init ''/q'', queue_init ''/q'', (map_of (map named [(1, 7, [10])]), 8)) =
     Some ([Inr None, Inr (Some [10]), Inr None, Inl PyValueError, Inr (Some [20]), Inr (Some [30]), Inr None], s)"
proof -
  let ?ops = "[QPut False [20] 2, QGet, QPut True [30] 0, QPut True [40] 1000, QGet, QGet, QGet]"
  have e: "\<forall>e \<in> set [(1, 7, [10])]. entry_ok e \<and> entry_seq e < snd (map_of (map named [(1, 7, [10])]), 8)"
    by (simp add: entry_ok_def entry_seq_def)
  have "fst (listing_run ?ops ([], map stripped [(1, 7, [10])])) =
      [Inr None, Inr (Some [10]), Inr None, Inl PyValueError, Inr (Some [20]), Inr (Some [30]), Inr None]"
    by (simp add: listing_get_def stripped_def)
  with queue_serves_listings [OF demo_queue_server, of "(map_of (map named [(1, 7, [10])]), 8)" "[(1, 7, [10])]" ?ops forever,
      OF _ _ e]
  show ?thesis by simp
qed

section \<open>One consumer at a time\<close>

text \<open>
  Of the consumers of a locking queue only one has an entry: a consumer gets an entry only
  by creating the entry's lock node, which fails while the node is there.
\<close>

theorem lq_take_exclusive:
  assumes "\<And>w x w'. zk_create zk (q_lock_path q @ ''/'' @ i) (q_id q) True False False w = Some (Inr x, w') \<Longrightarrow>
      owner w = None \<and> owner w' = Some (q_id q)"
    and "\<And>w. env_keeps (zk_retry zk) (\<lambda>w'. owner w' = owner w)"
    and "\<And>w y w'. zk_get zk (q_entries_path q @ ''/'' @ i) w = Some (y, w') \<Longrightarrow> owner w' = owner w"
    and "lq_take zk r q i w = Some (Inr (Some x), w')"
  shows "owner w = None \<and> owner w' = Some (q_id q) \<and> fst x = i"
proof -
  let ?get = "io_retry zk r (zk_get zk (q_entries_path q @ ''/'' @ i))"
  obtain created w1 where c: "io_catch (io_bind (zk_create zk (q_lock_path q @ ''/'' @ i) (q_id q) True False False)
       (\<lambda>_. io_return True)) is_node_exists (\<lambda>_. io_return False) w = Some (Inr created, w1)"
    and t: "(if \<not> created then io_return None else io_catch (io_bind ?get (\<lambda>d. io_return (Some (i, fst d)))) is_no_node
       (\<lambda>_. io_bind (zk_delete zk (q_lock_path q @ ''/'' @ i)) (\<lambda>_. io_return None))) w1 = Some (Inr (Some x), w')"
    using assms(4) unfolding lq_take_def by (auto simp: io_bind_eq_Inr)
  have created: created using t by (cases created) simp_all
  from c obtain y where y: "zk_create zk (q_lock_path q @ ''/'' @ i) (q_id q) True False False w = Some (Inr y, w1)"
    by (rule io_catch_cases) (use created in \<open>auto simp: io_bind_eq_Inr\<close>)
  from t created obtain d where d: "?get w1 = Some (Inr d, w')" "x = (i, fst d)"
    by (auto elim!: io_catch_cases simp: io_bind_eq_Inr)
  obtain w2 where "owner w2 = owner w1" "zk_get zk (q_entries_path q @ ''/'' @ i) w2 = Some (Inr d, w')"
    by (rule io_retry_succeeds [where P = "\<lambda>w'. owner w' = owner w1", OF _ _ refl d(1)]) (use assms(2,3) in auto)
  then show ?thesis using assms(1) [OF y] assms(3) d(2) by simp
qed

text \<open>A server with one entry, whose lock node may be held.\<close>

definition demo_take_zk :: "bytes option zk" where
  "demo_take_zk = zk_refuse\<lparr>
     zk_create := (\<lambda>_ d _ _ _ m. case m of
        None \<Rightarrow> Some (Inr [], Some d) | Some _ \<Rightarrow> Some (Inl (ZkErr NodeExistsError), m)),
     zk_get := (\<lambda>_ m. Some (Inr (Some [42], blank_stat), m))\<rparr>"

theorem lq_take_exclusive_witness:
  "lq_take demo_take_zk forever (locking_queue_init [7] ''/q'') ''entry-1'' None =
      Some (Inr (Some (''entry-1'', Some [42])), Some [7])
   \<and> lq_take demo_take_zk forever (locking_queue_init [8] ''/q'') ''entry-1'' (Some [7]) = Some (Inr None, Some [7])"
proof -
  have zk: "zk_retry demo_take_zk = still_env" by (simp add: demo_take_zk_def zk_refuse_def)
  have get: "zk_get demo_take_zk p m = Some (Inr (Some [42], blank_stat), m)" for p m
    by (simp add: demo_take_zk_def)
  have create: "zk_create demo_take_zk p d a b c m = (case m of
        None \<Rightarrow> Some (Inr [], Some d) | Some _ \<Rightarrow> Some (Inl (ZkErr NodeExistsError), m))" for p d a b c m
    by (simp add: demo_take_zk_def)
  have other: "lq_take demo_take_zk forever (locking_queue_init [8] ''/q'') ''entry-1'' (Some [7]) = Some (Inr None, Some [7])"
    by (simp add: lq_take_def create io_catch_def io_bind_def is_node_exists_def locking_queue_init_def)
  have run: "lq_take demo_take_zk forever (locking_queue_init [7] ''/q'') ''entry-1'' None =
      Some (Inr (Some (''entry-1'', Some [42])), Some [7])"
    by (simp add: lq_take_def create io_catch_def io_bind_def io_retry_forever(1) [OF zk get] locking_queue_init_def)
  have "(None :: bytes option) = None \<and> Some [7] = Some (q_id (locking_queue_init [7] ''/q'')) \<and> fst (''entry-1'', Some [42 :: byte]) = ''entry-1''"
    by (rule lq_take_exclusive [where owner = "\<lambda>m. m", OF _ _ _ run])
      (auto simp: create get zk locking_queue_init_def split: option.splits)
  with other run show ?thesis by simp
qed

section \<open>Finishing an entry\<close>

text \<open>
  \<^verbatim>\<open>consume\<close> does not look at the results of its transaction: it forgets the entry and
  returns \<^verbatim>\<open>True\<close> also when the transaction was rolled back, so that the entry is still there.
\<close>

lemma lq_consume_ignores_results:
  assumes "q_processing q = Some (i, d)" and "lq_holds_lock zk r (q, w) = Some (Inr True, (q, w1))"
    and "zk_transaction zk [TxDelete (q_entries_path q @ ''/'' @ i) (-1), TxDelete (q_lock_path q @ ''/'' @ i) (-1)] w1 =
      Some (Inr results, w2)"
  shows "lq_consume zk r (q, w) = Some (Inr True, (q\<lparr>q_processing := None\<rparr>, w2))"
  using assms by (simp add: lq_consume_def lq_finish_def)

text \<open>\<^verbatim>\<open>holds_lock\<close> raises when the lock node is gone, instead of returning \<^verbatim>\<open>False\<close>.\<close>

lemma lq_holds_lock_raises:
  assumes "q_processing q = Some (i, d)" and "zk_sync zk (q_lock_path q @ ''/'' @ i) w = Some (Inr s, w1)"
    and "io_retry zk r (zk_get zk (q_lock_path q @ ''/'' @ i)) w1 = Some (Inl (ZkErr NoNodeError), w2)"
  shows "lq_holds_lock zk r (q, w) = Some (Inl (ZkErr NoNodeError), (q, w2))"
  using assms by (simp add: lq_holds_lock_def Let_def)

end
