(* ===== verification/SemaphoreProps.thy ===== *)
theory SemaphoreProps
  imports Semaphore
begin

text \<open>
  The bound on the leases of a semaphore: while every contender takes its lease in the session
  in which it got the lock there are never more leases than allowed. Without that condition
  there can be more, and the last section runs into it.
\<close>

section \<open>The leases never exceed the maximum\<close>

text \<open>
  The runs of \<^verbatim>\<open>_inner_acquire\<close> and the server. \<open>ss_seen i\<close> are the children that run \<open>i\<close>
  has read and not acted upon. A run reads and creates only while its lock object is acquired;
  a lease disappears by a release or with its session at any time. \<open>strict\<close> says that the
  lock's node is still there when the lease is created.
\<close>

record sem_sys = lock_sys +
  ss_leases :: "string list"
  ss_seen :: "nat \<Rightarrow> string list option"

abbreviation lock_part :: "sem_sys \<Rightarrow> lock_sys" where
  "lock_part s \<equiv> lock_sys.truncate s"

inductive sem_step :: "bool \<Rightarrow> semaphore \<Rightarrow> (nat \<Rightarrow> lock) \<Rightarrow> sem_sys \<Rightarrow> sem_sys \<Rightarrow> bool"
  for strict sem cfg where
  sem_lock:
    "lock_step cfg (lock_part s) (lock_part s') \<Longrightarrow> ss_leases s' = ss_leases s \<Longrightarrow>
     (\<And>i. ss_seen s' i = (if ls_holds s' i then ss_seen s i else None)) \<Longrightarrow>
     sem_step strict sem cfg s s'"
| sem_read:
    "ls_holds s i \<Longrightarrow>
     sem_step strict sem cfg s (s\<lparr>ss_seen := (ss_seen s)(i := Some (ss_leases s))\<rparr>)"
| sem_create:
    "ls_holds s i \<Longrightarrow> ss_seen s i = Some children \<Longrightarrow> lease_available sem children \<Longrightarrow>
     strict \<Longrightarrow> live_holder (lock_part s) i \<Longrightarrow>
     sem_step strict sem cfg s (s\<lparr>ss_leases := ss_leases s @ [lease], ss_seen := (ss_seen s)(i := None)\<rparr>)"
| sem_create_late:
    "ls_holds s i \<Longrightarrow> ss_seen s i = Some children \<Longrightarrow> lease_available sem children \<Longrightarrow> \<not> strict \<Longrightarrow>
     sem_step strict sem cfg s (s\<lparr>ss_leases := ss_leases s @ [lease], ss_seen := (ss_seen s)(i := None)\<rparr>)"
| sem_remove:
    "sem_step strict sem cfg s (s\<lparr>ss_leases := removeAll lease (ss_leases s)\<rparr>)"

text \<open>The children that a run with a living lock has read are no fewer than the leases.\<close>

definition sem_inv :: "semaphore \<Rightarrow> (nat \<Rightarrow> lock) \<Rightarrow> sem_sys \<Rightarrow> bool" where
  "sem_inv sem cfg s \<longleftrightarrow> lock_inv cfg (lock_part s)
     \<and> int (length (ss_leases s)) \<le> sm_max_leases sem
     \<and> (\<forall>i. ss_seen s i \<noteq> None \<longrightarrow> ls_holds s i)
     \<and> (\<forall>i children. ss_seen s i = Some children \<longrightarrow> live_holder (lock_part s) i \<longrightarrow>
          length (ss_leases s) \<le> length children)"

lemma lock_part_simps [simp]:
  "ls_holds (lock_part s) = ls_holds s" "ls_nodes (lock_part s) = ls_nodes s"
  "ls_children (lock_part s) = ls_children s" "ls_counter (lock_part s) = ls_counter s"
  by (simp_all add: lock_sys.defs)

lemma lock_part_update [simp]:
  "lock_part (s\<lparr>ss_leases := l\<rparr>) = lock_part s" "lock_part (s\<lparr>ss_seen := f\<rparr>) = lock_part s"
  by (simp_all add: lock_sys.defs)

text \<open>A contender whose node is gone does not become a live holder again without a new check.\<close>

lemma lock_step_live:
  assumes "lock_step cfg s s'" and "lock_inv cfg s" and "live_holder s' i" and "ls_holds s i"
  shows "live_holder s i"
  using assms(1)
proof cases
  case (step_create j node)
  have "i \<noteq> j" using assms(2,4) step_create unfolding lock_inv_def by auto
  moreover obtain n where n: "ls_nodes s i = Some n" "n \<in> set (ls_children s')"
    using assms(3) step_create \<open>i \<noteq> j\<close> by (auto simp: live_holder_def)
  obtain k where k: "k < ls_counter s" "numbered cfg s i k" using assms(2) n(1) unfolding lock_inv_def by blast
  have "n \<noteq> node"
    using k n(1) step_create seq_string_inj [of k "ls_counter s"] by (auto simp: append_eq_append_conv numbered_def)
  then show ?thesis using n step_create assms(4) by (auto simp: live_holder_def)
qed (use assms(3,4) in \<open>auto simp: live_holder_def split: if_splits\<close>)

lemma lock_part_excludes:
  assumes "\<And>i. is_lock (cfg i)" and "lock_inv cfg s" and "live_holder s i" and "live_holder s j"
  shows "i = j"
  using live_holders_compatible [OF assms(2-4)] lock_kinds(1) [OF assms(1)] by auto

lemma sem_step_inv:
  assumes "sem_step True sem cfg s s'" and kind: "\<And>i. is_lock (cfg i)" and inv: "sem_inv sem cfg s"
  shows "sem_inv sem cfg s'"
  using assms(1)
proof cases
  case sem_lock
  have cfg: "cfg_ok cfg" unfolding cfg_ok_def using kind lock_kinds(1) good_kinds by metis
  have li: "lock_inv cfg (lock_part s)" using inv by (simp add: sem_inv_def)
  have "lock_inv cfg (lock_part s')" by (rule lock_step_inv [OF sem_lock(1) li cfg])
  moreover have "length (ss_leases s') \<le> length children"
    if "ss_seen s' i = Some children" "live_holder (lock_part s') i" for i children
  proof -
    have seen: "ss_seen s i = Some children" using that(1) sem_lock(3) [of i] by (auto split: if_splits)
    then have "ls_holds s i" using inv by (auto simp: sem_inv_def)
    then have "live_holder (lock_part s) i"
      using lock_step_live [OF sem_lock(1) li that(2)] by simp
    then show ?thesis using inv seen sem_lock(2) by (simp add: sem_inv_def)
  qed
  ultimately show ?thesis using inv sem_lock(2,3) by (auto simp: sem_inv_def split: if_splits)
next
  case (sem_read i)
  then show ?thesis using inv by (auto simp: sem_inv_def)
next
  case (sem_create i children lease)
  have "length (ss_leases s) \<le> length children" using inv sem_create by (simp add: sem_inv_def)
  then have "int (length (ss_leases s')) \<le> sm_max_leases sem"
    using sem_create by (simp add: lease_available_def)
  moreover have "\<not> live_holder (lock_part s) j" if "j \<noteq> i" for j
    using lock_part_excludes [where cfg = cfg and s = "lock_part s" and i = i and j = j, OF kind] inv sem_create that by (auto simp: sem_inv_def)
  ultimately show ?thesis using inv sem_create by (auto simp: sem_inv_def)
next
  case (sem_remove lease)
  have len: "length (removeAll lease (ss_leases s)) \<le> length (ss_leases s)" by (simp add: removeAll_filter_not_eq)
  then have "int (length (removeAll lease (ss_leases s))) \<le> sm_max_leases sem"
    using inv unfolding sem_inv_def by linarith
  moreover have "length (removeAll lease (ss_leases s)) \<le> length children"
    if "ss_seen s i = Some children" "live_holder (lock_part s) i" for i children
    using le_trans [OF len] inv that by (simp add: sem_inv_def)
  ultimately show ?thesis using inv by (simp add: sem_inv_def sem_remove)
qed simp

interpretation semaphore_system: relation_invariant "sem_step True sem cfg"
    "\<lambda>s. (\<forall>i. is_lock (cfg i)) \<and> sem_inv sem cfg s" for sem cfg
  by unfold_locales (use sem_step_inv in blast)

definition sem_start :: "sem_sys \<Rightarrow> bool" where
  "sem_start s \<longleftrightarrow> lock_start (lock_part s) \<and> ss_leases s = [] \<and> ss_seen s = (\<lambda>_. None)"

text \<open>
  C20. A semaphore never has more leases than \<^verbatim>\<open>max_leases\<close>, in every interleaving of contenders
  that take the lock, read the leases and create their own, of releases and of expiring
  sessions, as long as nobody creates a lease after it lost the lock.
\<close>

theorem semaphore_bound:
  assumes "\<And>i. is_lock (cfg i)" and "0 \<le> sm_max_leases sem" and "sem_start s0"
    and "(sem_step True sem cfg)\<^sup>*\<^sup>* s0 s"
  shows "int (length (ss_leases s)) \<le> sm_max_leases sem"
proof -
  have "sem_inv sem cfg s0"
    using assms(2,3) lock_start_inv [of "lock_part s0"] by (simp add: sem_inv_def sem_start_def)
  then show ?thesis using semaphore_system.reachable_inv [OF assms(4)] assms(1) by (simp add: sem_inv_def)
qed

definition demo_sem :: semaphore where
  "demo_sem = semaphore_init ''s'' ''/s'' None 1"

text \<open>The state after contender 0 (and then 1) has got the lock.\<close>

definition demo_sem_sys :: "string list \<Rightarrow> nat \<Rightarrow> (nat \<Rightarrow> string option) \<Rightarrow> (nat \<Rightarrow> bool) \<Rightarrow> string list \<Rightarrow>
    (nat \<Rightarrow> string list option) \<Rightarrow> sem_sys" where
  "demo_sem_sys children n nodes holds leases seen =
     \<lparr>ls_children = children, ls_counter = n, ls_nodes = nodes, ls_holds = holds, ss_leases = leases, ss_seen = seen\<rparr>"

definition demo_node0 :: string where "demo_node0 = ''__lock__0000000000''"
definition demo_node1 :: string where "demo_node1 = ''a__lock__0000000001''"

lemma demo_names:
  "lk_prefix (demo_locks 0) @ seq_string 0 = demo_node0" "lk_prefix (demo_locks (Suc 0)) @ seq_string (Suc 0) = demo_node1"
  by (simp_all add: demo_locks_def lock_init_def lock_new_def seq_string_examples demo_node0_def demo_node1_def)

lemma demo_predecessor:
  "get_predecessor (lk_exclude_names (demo_locks 0)) (lk_prefix (demo_locks 0)) [demo_node0] demo_node0 = Inr None"
  "get_predecessor (lk_exclude_names (demo_locks (Suc 0))) (lk_prefix (demo_locks (Suc 0))) [demo_node1] demo_node1 = Inr None"
  by code_simp+

lemma demo_lease_available: "lease_available demo_sem []"
  by (simp add: lease_available_def demo_sem_def semaphore_init_def)

lemma demo_lock_part: "lock_part (demo_sem_sys c n nd h l se) =
    \<lparr>ls_children = c, ls_counter = n, ls_nodes = nd, ls_holds = h\<rparr>"
  by (simp add: demo_sem_sys_def lock_sys.defs)

lemma demo_sem_lock:
  assumes "lock_step cfg \<lparr>ls_children = c, ls_counter = n, ls_nodes = nd, ls_holds = h\<rparr>
      \<lparr>ls_children = c', ls_counter = n', ls_nodes = nd', ls_holds = h'\<rparr>"
    and "\<And>i. se' i = (if h' i then se i else None)"
  shows "sem_step strict sem cfg (demo_sem_sys c n nd h l se) (demo_sem_sys c' n' nd' h' l se')"
  using sem_lock [of cfg "demo_sem_sys c n nd h l se" "demo_sem_sys c' n' nd' h' l se'" strict sem] assms
  by (simp add: demo_lock_part) (simp add: demo_sem_sys_def)

lemma demo_run:
  assumes "nd0 = (\<lambda>_. None)(0 := Some demo_node0)" and "h0 = (\<lambda>_. False)(0 := True)"
  shows "(sem_step strict demo_sem demo_locks)\<^sup>*\<^sup>*
      (demo_sem_sys [] 0 (\<lambda>_. None) (\<lambda>_. False) [] (\<lambda>_. None))
      (demo_sem_sys [demo_node0] 1 nd0 h0 [] ((\<lambda>_. None)(0 := Some [])))"
proof -
  let ?s0 = "demo_sem_sys [] 0 (\<lambda>_. None) (\<lambda>_. False) [] (\<lambda>_. None)"
  let ?s1 = "demo_sem_sys [demo_node0] 1 nd0 (\<lambda>_. False) [] (\<lambda>_. None)"
  let ?s2 = "demo_sem_sys [demo_node0] 1 nd0 h0 [] (\<lambda>_. None)"
  let ?s3 = "demo_sem_sys [demo_node0] 1 nd0 h0 [] ((\<lambda>_. None)(0 := Some []))"
  have "sem_step strict demo_sem demo_locks ?s0 ?s1"
    by (rule demo_sem_lock)
      (use step_create [of "\<lparr>ls_children = [], ls_counter = 0, ls_nodes = (\<lambda>_. None), ls_holds = (\<lambda>_. False)\<rparr>" 0 demo_node0 demo_locks]
        demo_names(1) assms in simp_all)
  moreover have "sem_step strict demo_sem demo_locks ?s1 ?s2"
    by (rule demo_sem_lock)
      (use step_check [of "\<lparr>ls_children = [demo_node0], ls_counter = 1, ls_nodes = nd0, ls_holds = (\<lambda>_. False)\<rparr>" 0 demo_node0 demo_locks]
        demo_predecessor(1) assms in simp_all)
  moreover have "sem_step strict demo_sem demo_locks ?s2 ?s3"
    using sem_read [of ?s2 0 strict demo_sem demo_locks] assms by (simp add: demo_sem_sys_def)
  ultimately show ?thesis by (meson rtranclp.rtrancl_into_rtrancl rtranclp.rtrancl_refl)
qed

theorem semaphore_bound_witness:
  "\<exists>s. (sem_step True demo_sem demo_locks)\<^sup>*\<^sup>* (demo_sem_sys [] 0 (\<lambda>_. None) (\<lambda>_. False) [] (\<lambda>_. None)) s
     \<and> ss_leases s = [''s''] \<and> int (length (ss_leases s)) \<le> sm_max_leases demo_sem"
proof -
  let ?nd = "(\<lambda>_ :: nat. None)(0 := Some demo_node0)" and ?h = "(\<lambda>_ :: nat. False)(0 := True)"
  let ?s3 = "demo_sem_sys [demo_node0] 1 ?nd ?h [] ((\<lambda>_. None)(0 := Some []))"
  have "sem_step True demo_sem demo_locks ?s3 (demo_sem_sys [demo_node0] 1 ?nd ?h [''s''] (\<lambda>_. None))"
    using sem_create [of ?s3 0 "[]" demo_sem True demo_locks "''s''"] demo_lease_available
    by (simp add: demo_sem_sys_def live_holder_def)
  then have run: "(sem_step True demo_sem demo_locks)\<^sup>*\<^sup>* (demo_sem_sys [] 0 (\<lambda>_. None) (\<lambda>_. False) [] (\<lambda>_. None))
      (demo_sem_sys [demo_node0] 1 ?nd ?h [''s''] (\<lambda>_. None))"
    using demo_run [OF refl refl] by (meson rtranclp.rtrancl_into_rtrancl)
  have kind: "is_lock (demo_locks i)" for i by (auto simp: is_lock_def demo_locks_def)
  have start: "sem_start (demo_sem_sys [] 0 (\<lambda>_. None) (\<lambda>_. False) [] (\<lambda>_. None))"
    by (simp add: sem_start_def lock_start_def demo_sem_sys_def)
  have "0 \<le> sm_max_leases demo_sem" by (simp add: demo_sem_def semaphore_init_def)
  from semaphore_bound [OF kind this start run] run show ?thesis by (intro exI) (auto simp: demo_sem_sys_def)
qed

section \<open>A lease that comes too late\<close>

text \<open>
  The lease is created without looking whether the lock is still held: when the session of
  the holder ends between reading the leases and creating its own (a reconnected client creates
  it in its new session), the next contender takes the same lease, and there are two with a
  maximum of one.
\<close>

theorem semaphore_late_lease:
  "\<exists>s. (sem_step False demo_sem demo_locks)\<^sup>*\<^sup>* (demo_sem_sys [] 0 (\<lambda>_. None) (\<lambda>_. False) [] (\<lambda>_. None)) s
     \<and> sm_max_leases demo_sem < int (length (ss_leases s))"
proof -
  let ?nd0 = "(\<lambda>_ :: nat. None)(0 := Some demo_node0)" and ?h0 = "(\<lambda>_ :: nat. False)(0 := True)"
  let ?nd1 = "?nd0(1 := Some demo_node1)" and ?h1 = "?h0(1 := True)"
  let ?seen = "(\<lambda>_ :: nat. None)(0 := Some [])"
  let ?s3 = "demo_sem_sys [demo_node0] 1 ?nd0 ?h0 [] ?seen"
  let ?s4 = "demo_sem_sys [] 1 ?nd0 ?h0 [] ?seen"
  let ?s5 = "demo_sem_sys [demo_node1] 2 ?nd1 ?h0 [] ?seen"
  let ?s6 = "demo_sem_sys [demo_node1] 2 ?nd1 ?h1 [] ?seen"
  let ?s7 = "demo_sem_sys [demo_node1] 2 ?nd1 ?h1 [] (?seen(1 := Some []))"
  let ?s8 = "demo_sem_sys [demo_node1] 2 ?nd1 ?h1 [''b''] ?seen"
  let ?s9 = "demo_sem_sys [demo_node1] 2 ?nd1 ?h1 [''b'', ''a''] (\<lambda>_. None)"
  have "sem_step False demo_sem demo_locks ?s3 ?s4"
    by (rule demo_sem_lock)
      (use step_expire [of "\<lparr>ls_children = [demo_node0], ls_counter = 1, ls_nodes = ?nd0, ls_holds = ?h0\<rparr>" 0 demo_node0 demo_locks]
        in simp_all)
  moreover have "sem_step False demo_sem demo_locks ?s4 ?s5"
    by (rule demo_sem_lock)
      (use step_create [of "\<lparr>ls_children = [], ls_counter = 1, ls_nodes = ?nd0, ls_holds = ?h0\<rparr>" 1 demo_node1 demo_locks]
        demo_names(2) in \<open>simp_all add: numeral_2_eq_2\<close>)
  moreover have "sem_step False demo_sem demo_locks ?s5 ?s6"
    by (rule demo_sem_lock)
      (use step_check [of "\<lparr>ls_children = [demo_node1], ls_counter = 2, ls_nodes = ?nd1, ls_holds = ?h0\<rparr>" 1 demo_node1 demo_locks]
        demo_predecessor(2) in simp_all)
  moreover have "sem_step False demo_sem demo_locks ?s6 ?s7"
    using sem_read [of ?s6 1 False demo_sem demo_locks] by (simp add: demo_sem_sys_def)
  moreover have "sem_step False demo_sem demo_locks ?s7 ?s8"
    using sem_create_late [of ?s7 1 "[]" demo_sem False demo_locks "''b''"] demo_lease_available
    by (simp add: demo_sem_sys_def)
  moreover have "sem_step False demo_sem demo_locks ?s8 ?s9"
    using sem_create_late [of ?s8 0 "[]" demo_sem False demo_locks "''a''"] demo_lease_available
    by (simp add: demo_sem_sys_def)
  ultimately have "(sem_step False demo_sem demo_locks)\<^sup>*\<^sup>* (demo_sem_sys [] 0 (\<lambda>_. None) (\<lambda>_. False) [] (\<lambda>_. None)) ?s9"
    using demo_run [OF refl refl, of False] by (meson rtranclp.rtrancl_into_rtrancl)
  moreover have "sm_max_leases demo_sem < int (length (ss_leases ?s9))"
    by (simp add: demo_sem_sys_def demo_sem_def semaphore_init_def)
  ultimately show ?thesis by blast
qed

section \<open>The check of the maximum\<close>

text \<open>
  The path counts as assured before the stored number is compared: a semaphore that was refused
  for its number is not checked again by its next \<^verbatim>\<open>acquire\<close>.
\<close>

lemma sem_check_skipped:
  assumes "zk_ensure_path (se_zk env) (sm_path s) w = Some (Inr True, w1)"
    and "zk_get (se_zk env) (sm_path s) w1 = Some (Inr (Some bs, st), w2)"
    and "ebind (decode_utf8 bs) int_of_string = Inr n" and "n \<noteq> sm_max_leases s"
  shows "sem_ensure_path env (s, w) = Some (Inl PyValueError, (s\<lparr>sm_assured_path := True\<rparr>, w2))"
  using assms by (simp add: sem_ensure_path_def check_max_leases_def)

end
