(* ===== verification/Partitioner.thy ===== *)
theory Partitioner
  imports States "HOL-Library.Multiset" "HOL-Library.List_Lexorder" "HOL-Library.Char_ord"
begin

text \<open>
  \<^verbatim>\<open>SetPartitioner\<close> of \<^verbatim>\<open>kazoo/recipe/partitioner.py\<close>: the function that splits the set among
  the members, and the state machine around it. The code of an allocation runs in a thread of
  its own; between two of its blocks that hold the state lock, or acquire a lock of an item,
  every other method may run, so the model has one operation per block.
\<close>

section \<open>Splitting the set\<close>

text \<open>\<^verbatim>\<open>xs[i::n]\<close> for \<open>n > 0\<close>, and \<^verbatim>\<open>xs.index(x)\<close>.\<close>

definition py_slice :: "'a list \<Rightarrow> nat \<Rightarrow> nat \<Rightarrow> 'a list" where
  "py_slice xs i n = map ((!) xs) (List.filter (\<lambda>k. (k - i) mod n = 0) [i..<length xs])"

fun py_index :: "'a list \<Rightarrow> 'a \<Rightarrow> exc + nat" where
  "py_index [] x = Inl PyValueError"
| "py_index (y # ys) x = (if y = x then Inr 0 else ebind (py_index ys x) (\<lambda>i. Inr (Suc i)))"

definition partitioner :: "'m :: linorder \<Rightarrow> 'm list \<Rightarrow> 'a :: linorder list \<Rightarrow> exc + 'a list" where
  "partitioner identifier members partitions =
     (let all_partitions = sort partitions; workers = sort members
      in ebind (py_index workers identifier) (\<lambda>i. Inr (py_slice all_partitions i (length workers))))"

section \<open>The partitioner object\<close>

datatype partition_state = ALLOCATING | ACQUIRED | RELEASE | FAILURE

text \<open>
  A lock object is a number that tells it from the others, its \<^verbatim>\<open>is_acquired\<close>, and the item it
  locks. \<open>pt_func\<close> is the partition function with the identifier and the set given.
\<close>

type_synonym 'a item_lock = "nat \<times> bool \<times> 'a"

record 'a partition =
  pt_state :: partition_state
  pt_state_id :: nat
  pt_func :: "string list \<Rightarrow> exc + 'a list"
  pt_partition_set :: "'a list"
  pt_locks :: "'a item_lock list"
  pt_acquire_event :: bool
  pt_participating :: bool

definition partition_init :: "(string list \<Rightarrow> exc + 'a list) \<Rightarrow> 'a partition" where
  "partition_init func =
     \<lparr>pt_state = ALLOCATING, pt_state_id = 0, pt_func = func, pt_partition_set = [], pt_locks = [],
      pt_acquire_event = False, pt_participating = True\<rparr>"

definition pt_failed :: "'a partition \<Rightarrow> bool" where "pt_failed p \<longleftrightarrow> pt_state p = FAILURE"
definition pt_release :: "'a partition \<Rightarrow> bool" where "pt_release p \<longleftrightarrow> pt_state p = RELEASE"
definition pt_allocating :: "'a partition \<Rightarrow> bool" where "pt_allocating p \<longleftrightarrow> pt_state p = ALLOCATING"
definition pt_acquired :: "'a partition \<Rightarrow> bool" where "pt_acquired p \<longleftrightarrow> pt_state p = ACQUIRED"

lemmas pt_state_defs = pt_failed_def pt_release_def pt_allocating_def pt_acquired_def

definition set_state :: "partition_state \<Rightarrow> 'a partition \<Rightarrow> 'a partition" where
  "set_state s p = p\<lparr>pt_state := s, pt_state_id := pt_state_id p + 1\<rparr>"

text \<open>Leaving the party clears \<^verbatim>\<open>participating\<close> first; its exceptions are dropped.\<close>

definition fail_out :: "'a partition \<Rightarrow> 'a partition" where
  "fail_out p = (set_state FAILURE p)\<lparr>pt_participating := False\<rparr>"

text \<open>\<open>ok\<close> tells which lock objects can be released; the others stay in the list.\<close>

definition pt_release_locks :: "('a item_lock \<Rightarrow> bool) \<Rightarrow> 'a partition \<Rightarrow> 'a partition" where
  "pt_release_locks ok p = p\<lparr>pt_acquire_event := False, pt_locks := List.filter (\<lambda>l. \<not> ok l) (pt_locks p)\<rparr>"

definition pt_finish :: "('a item_lock \<Rightarrow> bool) \<Rightarrow> 'a partition \<Rightarrow> 'a partition" where
  "pt_finish ok p = fail_out (pt_release_locks ok p)"

text \<open>The second component tells whether a new \<^verbatim>\<open>PatientChildrenWatch\<close> is started.\<close>

definition release_set :: "('a item_lock \<Rightarrow> bool) \<Rightarrow> 'a partition \<Rightarrow> 'a partition \<times> bool" where
  "release_set ok p =
     (let p = pt_release_locks ok p
      in if pt_locks p \<noteq> [] then (fail_out p, False)
         else if pt_failed p then (p, False)
         else (set_state ALLOCATING p, True))"

definition abort_lock_acquisition :: "('a item_lock \<Rightarrow> bool) \<Rightarrow> 'a partition \<Rightarrow> 'a partition \<times> bool" where
  "abort_lock_acquisition ok p =
     (let p = pt_release_locks ok p in if pt_locks p \<noteq> [] then (fail_out p, False) else (p, True))"

text \<open>The listener's second component tells whether \<^verbatim>\<open>_fail_out\<close> is spawned.\<close>

definition establish_sessionwatch :: "kazoo_state \<Rightarrow> 'a partition \<Rightarrow> 'a partition \<times> bool" where
  "establish_sessionwatch state p =
     (if pt_failed p then (p, False)
      else if state = LOST then (p, True)
      else if \<not> pt_release p then (set_state RELEASE p, False)
      else (p, False))"

section \<open>An allocation\<close>

text \<open>
  The local variables of \<^verbatim>\<open>_allocate_transition\<close>: the remembered state number, whether the
  children changed since, the partition and the items that are not locked yet; \<open>al_running\<close>
  tells whether the function has not returned (its watch on the children outlives it).
\<close>

record 'a allocation =
  al_state_id :: nat
  al_changed :: bool
  al_set :: "'a list"
  al_todo :: "'a list"
  al_running :: bool

text \<open>
  The first block. \<open>children\<close> is the result of the patient watch (\<^term>\<open>None\<close>: an exception),
  \<open>members\<close> the members of the party. An exception of the partition function ends the thread.
\<close>

definition alloc_begin ::
    "string list option \<Rightarrow> string list \<Rightarrow> 'a partition \<Rightarrow> 'a partition \<times> 'a allocation option" where
  "alloc_begin children members p =
     (if children = None then (fail_out p, None)
      else if \<not> pt_allocating p then (p, None)
      else (p, Some (case pt_func p members of
           Inl _ \<Rightarrow> \<lparr>al_state_id = pt_state_id p, al_changed = False, al_set = [], al_todo = [], al_running = False\<rparr>
         | Inr xs \<Rightarrow> \<lparr>al_state_id = pt_state_id p, al_changed = False, al_set = xs, al_todo = xs, al_running = True\<rparr>)))"

definition alloc_updated :: "'a allocation \<Rightarrow> 'a partition \<Rightarrow> 'a partition \<times> 'a allocation" where
  "alloc_updated al p = (if pt_acquired p then set_state RELEASE p else p, al\<lparr>al_changed := True\<rparr>)"

definition abort_if_needed ::
    "('a item_lock \<Rightarrow> bool) \<Rightarrow> 'a allocation \<Rightarrow> 'a partition \<Rightarrow> bool \<times> 'a partition \<times> bool" where
  "abort_if_needed ok al p =
     (if pt_state_id p = al_state_id al then
        (if al_changed al then (True, abort_lock_acquisition ok p) else (False, p, False))
      else (True, if pt_allocating p \<or> pt_acquired p then set_state RELEASE p else p, False))"

text \<open>
  What one \<^verbatim>\<open>lock.acquire\<close> of a new lock object comes to, and the code up to the next one.
  \<^verbatim>\<open>acquire\<close> returns whether it got the lock; the code goes on in both cases.
\<close>

datatype lock_outcome = Returned nat bool | TimedOut | LockFailed

definition alloc_lock ::
    "('a item_lock \<Rightarrow> bool) \<Rightarrow> lock_outcome \<Rightarrow> 'a allocation \<Rightarrow> 'a partition \<Rightarrow> 'a partition \<times> 'a allocation \<times> bool" where
  "alloc_lock ok outcome al p =
     (case al_todo al of
        [] \<Rightarrow> (p, al, False)
      | x # todo \<Rightarrow>
          (case outcome of
             LockFailed \<Rightarrow> (pt_finish ok p, al\<lparr>al_running := False\<rparr>, False)
           | TimedOut \<Rightarrow>
               (case abort_if_needed ok al p of
                  (ab, p, w) \<Rightarrow> (p, al\<lparr>al_running := \<not> ab\<rparr>, w))
           | Returned n gotten \<Rightarrow>
               (case abort_if_needed ok al (p\<lparr>pt_locks := pt_locks p @ [(n, gotten, x)]\<rparr>) of
                  (ab, p, w) \<Rightarrow> (p, al\<lparr>al_todo := todo, al_running := \<not> ab\<rparr>, w))))"

text \<open>The last block: the transition, or a last look at what changed.\<close>

definition alloc_end ::
    "('a item_lock \<Rightarrow> bool) \<Rightarrow> 'a allocation \<Rightarrow> 'a partition \<Rightarrow> 'a partition \<times> 'a allocation \<times> bool" where
  "alloc_end ok al p =
     (if pt_state_id p = al_state_id al \<and> \<not> al_changed al then
        ((set_state ACQUIRED (p\<lparr>pt_partition_set := al_set al\<rparr>))\<lparr>pt_acquire_event := True\<rparr>,
         al\<lparr>al_running := False\<rparr>, False)
      else case abort_if_needed ok al p of
          (ab, p, w) \<Rightarrow> (if ab then p else fail_out p, al\<lparr>al_running := False\<rparr>, w))"

end
