(* ===== verification/PartitionerProps.thy ===== *)
theory PartitionerProps
  imports Partitioner
begin

text \<open>
  The split is a fair partition; the state machine never leaves a failure; a set is acquired
  only when every item has a lock object whose \<^verbatim>\<open>acquire\<close> returned; the last section shows that it
  may have returned without the lock.
\<close>

section \<open>The split\<close>

lemma py_index_nth: "distinct xs \<Longrightarrow> i < length xs \<Longrightarrow> py_index xs (xs ! i) = Inr i"
  by (induction xs arbitrary: i) (auto simp: nth_Cons' less_Suc_eq_0_disj)

lemma py_index_less: "py_index xs x = Inr i \<Longrightarrow> i < length xs"
  by (induction xs arbitrary: i) (auto simp: ebind_def split: if_splits sum.splits)

lemma py_slice_eq: "py_slice xs i n = map ((!) xs) (List.filter (\<lambda>k. i \<le> k \<and> (k - i) mod n = 0) [0..<length xs])"
proof -
  have "List.filter (\<lambda>k. (k - i) mod n = 0) [i..<length xs] =
      List.filter (\<lambda>k. i \<le> k \<and> (k - i) mod n = 0) [0..<length xs]"
  proof (cases "i \<le> length xs")
    case True
    have "List.filter (\<lambda>k. i \<le> k \<and> (k - i) mod n = 0) [0..<i] = []"
      by (simp add: filter_empty_conv)
    moreover have "[0..<length xs] = [0..<i] @ [i..<length xs]"
      using upt_add_eq_append [of 0 i "length xs - i"] True by simp
    ultimately show ?thesis by (auto intro: filter_cong)
  qed (auto simp: filter_empty_conv)
  then show ?thesis by (simp add: py_slice_def)
qed

lemma py_slice_mod:
  assumes "i < n"
  shows "py_slice xs i n = map ((!) xs) (List.filter (\<lambda>k. k mod n = i) [0..<length xs])"
proof -
  have "i \<le> k \<and> (k - i) mod n = 0 \<longleftrightarrow> k mod n = i" for k
  proof
    assume k: "i \<le> k \<and> (k - i) mod n = 0"
    then have "k mod n = (i + (k - i)) mod n" by simp
    also have "\<dots> = i mod n" using k by (metis add.right_neutral mod_add_right_eq)
    finally show "k mod n = i" using assms by simp
  next
    assume k: "k mod n = i"
    then have "k - i = n * (k div n)" by (metis minus_mod_eq_mult_div)
    moreover have "i \<le> k" using k mod_less_eq_dividend by blast
    ultimately show "i \<le> k \<and> (k - i) mod n = 0" by simp
  qed
  then show ?thesis by (simp add: py_slice_eq)
qed

text \<open>The classes modulo \<open>n\<close> make up the whole.\<close>

lemma sum_classes:
  assumes "0 < n"
  shows "(\<Sum>i<n. filter_mset (\<lambda>k. k mod n = i) M) = (M :: nat multiset)"
proof (induction M)
  case (add k M)
  have "k mod n \<in> {..<n}" using assms by simp
  then have "(\<Sum>i<n. if k mod n = i then {#k#} else {#}) = {#k#}" by (simp add: sum.delta')
  moreover have "(\<Sum>i<n. filter_mset (\<lambda>k. k mod n = i) (add_mset k M)) =
     (\<Sum>i<n. (if k mod n = i then {#k#} else {#}) + filter_mset (\<lambda>k. k mod n = i) M)"
    by (rule sum.cong) auto
  ultimately show ?case using add.IH by (simp add: sum.distrib)
qed simp

lemma sum_image_mset: "(\<Sum>i<m. image_mset f (M i)) = image_mset f (\<Sum>i<(m :: nat). M i)"
  by (induction m) simp_all

lemma mset_slices:
  assumes "0 < n"
  shows "(\<Sum>i<n. mset (py_slice xs i n)) = mset xs"
proof -
  have "(\<Sum>i<n. mset (py_slice xs i n)) = (\<Sum>i<n. image_mset ((!) xs) (filter_mset (\<lambda>k. k mod n = i) (mset [0..<length xs])))"
    by (rule sum.cong) (simp_all add: py_slice_mod mset_filter del: mset_upt)
  also have "\<dots> = image_mset ((!) xs) (\<Sum>i<n. filter_mset (\<lambda>k. k mod n = i) (mset [0..<length xs]))"
    by (rule sum_image_mset)
  also have "\<dots> = mset (map ((!) xs) [0..<length xs])" by (simp only: sum_classes [OF assms] mset_map)
  finally show ?thesis by (simp only: map_nth)
qed

text \<open>
  C21. The members of a party share the set exactly: when their identifiers are distinct, the
  partitions that the members compute, each on its own, together contain every item of the set
  as often as the set does.
\<close>

theorem partition_exact:
  assumes "distinct members" and "members \<noteq> []"
  shows "(\<Sum>m\<leftarrow>members. case partitioner m members items of Inl _ \<Rightarrow> {#} | Inr xs \<Rightarrow> mset xs) = mset items"
proof -
  let ?part = "\<lambda>m. case partitioner m members items of Inl _ \<Rightarrow> {#} | Inr xs \<Rightarrow> mset xs"
  let ?ws = "sort members" and ?n = "length members"
  have part: "?part (?ws ! i) = mset (py_slice (sort items) i ?n)" if "i < ?n" for i
    using py_index_nth [of ?ws i] assms(1) that by (simp add: partitioner_def Let_def)
  have "(\<Sum>m\<leftarrow>members. ?part m) = sum_mset (image_mset ?part (mset ?ws))"
    by (simp add: sum_mset_sum_list [symmetric])
  also have "\<dots> = (\<Sum>m\<leftarrow>?ws. ?part m)" by (simp only: mset_map [symmetric] sum_mset_sum_list)
  also have "\<dots> = (\<Sum>i<?n. ?part (?ws ! i))"
    by (simp add: sum_list_sum_nth atLeast0LessThan)
  also have "\<dots> = (\<Sum>i<?n. mset (py_slice (sort items) i ?n))" by (rule sum.cong) (simp_all add: part)
  also have "\<dots> = mset items" using mset_slices [of ?n "sort items"] assms(2) by simp
  finally show ?thesis .
qed

theorem partition_exact_witness:
  "partitioner ''b'' [''b'', ''a''] [5, 3, 1, 4 :: nat] = Inr [3, 5]
   \<and> (\<Sum>m\<leftarrow>[''b'', ''a'']. case partitioner m [''b'', ''a''] [5, 3, 1, 4 :: nat] of Inl _ \<Rightarrow> {#} | Inr xs \<Rightarrow> mset xs)
      = {#1, 3, 4, 5#}"
proof -
  have "partitioner ''b'' [''b'', ''a''] [5, 3, 1, 4 :: nat] = Inr [3, 5]" by code_simp
  moreover have "mset [5, 3, 1, 4] = {#1, 3, 4, 5 :: nat#}" by simp
  ultimately show ?thesis using partition_exact [of "[''b'', ''a'']" "[5, 3, 1, 4 :: nat]"] by simp
qed

lemma length_slice:
  assumes "i < n"
  shows "length (py_slice xs i n) = (length xs + n - 1 - i) div n"
proof -
  have "length (List.filter (\<lambda>k. k mod n = i) [0..<m]) = (m + n - 1 - i) div n" for m
  proof (induction m)
    case 0
    then show ?case using assms by simp
  next
    case (Suc m)
    have "(Suc m + n - 1 - i) div n = (m + n - 1 - i) div n + (if m mod n = i then 1 else 0)"
    proof -
      have *: "Suc m + n - 1 - i = Suc (m + n - 1 - i)" using assms by simp
      have "n dvd Suc (m + n - 1 - i) \<longleftrightarrow> m mod n = i"
      proof -
        have "Suc (m + n - 1 - i) + i = m + n" using assms by simp
        then have "n dvd Suc (m + n - 1 - i) \<longleftrightarrow> (m + n) mod n = i mod n"
          by (metis add_diff_cancel_right' dvd_minus_mod le_add2 mod_eq_dvd_iff_nat)
        then show ?thesis using assms by simp
      qed
      then show ?thesis unfolding * by (simp add: div_Suc dvd_eq_mod_eq_0)
    qed
    then show ?case using Suc by simp
  qed
  then show ?thesis by (simp add: py_slice_mod [OF assms])
qed

text \<open>
  The split is fair: the parts of two members differ by at most one item.
\<close>

theorem partition_fair:
  assumes "partitioner m members items = Inr xs" and "partitioner m' members items = Inr ys"
  shows "length xs \<le> length ys + 1"
proof -
  let ?n = "length members"
  have index: "\<exists>i < ?n. zs = py_slice (sort items) i ?n" if part: "partitioner k members items = Inr zs" for k zs
  proof -
    obtain i where i: "py_index (sort members) k = Inr i" "zs = py_slice (sort items) i ?n"
      using part by (auto simp: partitioner_def Let_def ebind_eq_Inr)
    then show ?thesis using py_index_less [OF i(1)] by auto
  qed
  obtain i j where ij: "i < ?n" "xs = py_slice (sort items) i ?n" "j < ?n" "ys = py_slice (sort items) j ?n"
    using index [OF assms(1)] index [OF assms(2)] by blast
  have "length items + ?n - 1 - i \<le> (length items + ?n - 1 - j) + ?n" using ij(3) by simp
  then have "(length items + ?n - 1 - i) div ?n \<le> (length items + ?n - 1 - j + ?n) div ?n" by (rule div_le_mono)
  also have "\<dots> = (length items + ?n - 1 - j) div ?n + 1" by (rule div_add_self2) (use ij(3) in auto)
  finally show ?thesis unfolding ij(2,4) length_slice [OF ij(1)] length_slice [OF ij(3)] by simp
qed

theorem partition_fair_witness:
  "partitioner ''b'' [''b'', ''a''] [5, 3, 1 :: nat] = Inr [3] \<and> partitioner ''a'' [''b'', ''a''] [5, 3, 1 :: nat] = Inr [1, 5]
   \<and> length [1, 5 :: nat] \<le> length [3 :: nat] + 1"
proof -
  have "partitioner ''b'' [''b'', ''a''] [5, 3, 1 :: nat] = Inr [3]" "partitioner ''a'' [''b'', ''a''] [5, 3, 1 :: nat] = Inr [1, 5]"
    by code_simp+
  from this partition_fair [OF this(2,1)] show ?thesis by blast
qed

section \<open>The partitioner and its threads\<close>

text \<open>
  The object, the allocations that were started, the patient watches that have not fired and
  the spawned \<^verbatim>\<open>_fail_out\<close>s. An event is one block of code; one that is not enabled does nothing.
\<close>

record 'a part_sys =
  ps_part :: "'a partition"
  ps_allocs :: "'a allocation list"
  ps_watches :: nat
  ps_fails :: nat

datatype 'a part_event =
    PBegin "string list option" "string list"
  | PUpdated nat
  | PLock "'a item_lock \<Rightarrow> bool" lock_outcome nat
  | PEnd "'a item_lock \<Rightarrow> bool" nat
  | PSession kazoo_state
  | PFailOut
  | PReleaseSet "'a item_lock \<Rightarrow> bool"
  | PFinish "'a item_lock \<Rightarrow> bool"

definition put_alloc :: "'a part_sys \<Rightarrow> nat \<Rightarrow> 'a partition \<times> 'a allocation \<times> bool \<Rightarrow> 'a part_sys" where
  "put_alloc s k r = (case r of (p, al, w) \<Rightarrow>
     s\<lparr>ps_part := p, ps_allocs := (ps_allocs s)[k := al], ps_watches := ps_watches s + (if w then 1 else 0)\<rparr>)"

fun part_step :: "'a part_sys \<Rightarrow> 'a part_event \<Rightarrow> 'a part_sys" where
  "part_step s (PBegin children members) =
     (if ps_watches s = 0 then s
      else case alloc_begin children members (ps_part s) of
        (p, al) \<Rightarrow> s\<lparr>ps_part := p, ps_watches := ps_watches s - 1,
          ps_allocs := ps_allocs s @ (case al of None \<Rightarrow> [] | Some al \<Rightarrow> [al])\<rparr>)"
| "part_step s (PUpdated k) =
     (if k < length (ps_allocs s) then
        (case alloc_updated (ps_allocs s ! k) (ps_part s) of (p, al) \<Rightarrow> put_alloc s k (p, al, False))
      else s)"
| "part_step s (PLock ok outcome k) =
     (if k < length (ps_allocs s) \<and> al_running (ps_allocs s ! k) \<and> al_todo (ps_allocs s ! k) \<noteq> []
      then put_alloc s k (alloc_lock ok outcome (ps_allocs s ! k) (ps_part s)) else s)"
| "part_step s (PEnd ok k) =
     (if k < length (ps_allocs s) \<and> al_running (ps_allocs s ! k) \<and> al_todo (ps_allocs s ! k) = []
      then put_alloc s k (alloc_end ok (ps_allocs s ! k) (ps_part s)) else s)"
| "part_step s (PSession state) =
     (case establish_sessionwatch state (ps_part s) of
        (p, spawned) \<Rightarrow> s\<lparr>ps_part := p, ps_fails := ps_fails s + (if spawned then 1 else 0)\<rparr>)"
| "part_step s PFailOut =
     (if ps_fails s = 0 then s else s\<lparr>ps_part := fail_out (ps_part s), ps_fails := ps_fails s - 1\<rparr>)"
| "part_step s (PReleaseSet ok) =
     (case release_set ok (ps_part s) of
        (p, w) \<Rightarrow> s\<lparr>ps_part := p, ps_watches := ps_watches s + (if w then 1 else 0)\<rparr>)"
| "part_step s (PFinish ok) = s\<lparr>ps_part := pt_finish ok (ps_part s)\<rparr>"

definition part_start :: "(string list \<Rightarrow> exc + 'a list) \<Rightarrow> 'a part_sys" where
  "part_start func = \<lparr>ps_part = partition_init func, ps_allocs = [], ps_watches = 1, ps_fails = 0\<rparr>"

text \<open>A running allocation that remembers the current state number runs in \<^verbatim>\<open>ALLOCATING\<close>.\<close>

definition alloc_ok :: "'a partition \<Rightarrow> 'a allocation \<Rightarrow> bool" where
  "alloc_ok p al \<longleftrightarrow> (al_running al \<longrightarrow>
     al_state_id al \<le> pt_state_id p \<and> (al_state_id al = pt_state_id p \<longrightarrow> pt_state p = ALLOCATING))"

definition part_inv :: "'a part_sys \<Rightarrow> bool" where
  "part_inv s \<longleftrightarrow> list_all (alloc_ok (ps_part s)) (ps_allocs s)"

text \<open>Every operation keeps the state and its number, or changes the state and increases the number.\<close>

definition moves :: "'a partition \<Rightarrow> 'a partition \<Rightarrow> bool" where
  "moves p p' \<longleftrightarrow> pt_state p' = pt_state p \<and> pt_state_id p' = pt_state_id p \<or> pt_state_id p < pt_state_id p'"

lemma alloc_ok_moves: "moves p p' \<Longrightarrow> alloc_ok p al \<Longrightarrow> alloc_ok p' al"
  by (auto simp: moves_def alloc_ok_def)

lemmas part_ops = set_state_def fail_out_def pt_release_locks_def pt_finish_def release_set_def
  abort_lock_acquisition_def establish_sessionwatch_def alloc_begin_def alloc_updated_def
  abort_if_needed_def alloc_lock_def alloc_end_def Let_def pt_state_defs

lemma moves_set_state: "moves p (set_state st p)" "moves p (fail_out p)" "moves p (pt_finish ok p)"
  by (simp_all add: moves_def part_ops)

lemma moves_abort: "moves p (fst (snd (abort_if_needed ok al p)))"
  by (auto simp: moves_def part_ops)

lemma moves_lock: "moves p (fst (alloc_lock ok outcome al p))"
proof -
  have "moves p (fst (snd (abort_if_needed ok al (p\<lparr>pt_locks := ls\<rparr>))))" for ls
    using moves_abort [of "p\<lparr>pt_locks := ls\<rparr>" ok al] by (simp add: moves_def)
  then show ?thesis using moves_abort [of p ok al]
    by (cases "al_todo al"; cases outcome)
      (simp_all add: alloc_lock_def moves_set_state moves_def [of p p] case_prod_beta)
qed

lemma moves_end: "moves p (fst (alloc_end ok al p))"
  by (auto simp: moves_def part_ops)

lemma moves_others:
  "moves p (fst (alloc_begin children members p))" "moves p (fst (alloc_updated al p))"
  "moves p (fst (establish_sessionwatch st p))" "moves p (fst (release_set ok p))"
  by (auto simp: moves_def part_ops)

lemma list_all_update: "list_all P xs \<Longrightarrow> P x \<Longrightarrow> list_all P (xs[k := x])"
  by (auto simp: list_all_iff dest: set_update_subset_insert [THEN subsetD])

lemma put_alloc_inv:
  assumes "part_inv s" and "moves (ps_part s) (fst r)" and "alloc_ok (fst r) (fst (snd r))"
  shows "part_inv (put_alloc s k r)"
proof -
  have "list_all (alloc_ok (fst r)) (ps_allocs s)"
    using assms(1,2) alloc_ok_moves unfolding part_inv_def list_all_iff by blast
  then show ?thesis using list_all_update assms(3) by (simp add: part_inv_def put_alloc_def case_prod_beta)
qed

lemma abort_needed_ok:
  "alloc_ok p al \<Longrightarrow> al_running al \<Longrightarrow> abort_if_needed ok al p = (False, p', w) \<Longrightarrow> p' = p \<and> pt_state p = ALLOCATING"
  by (auto simp: abort_if_needed_def alloc_ok_def split: if_splits prod.splits)

lemma lock_ok:
  assumes "alloc_ok p al" and "al_running al"
  shows "alloc_ok (fst (alloc_lock ok outcome al p)) (fst (snd (alloc_lock ok outcome al p)))"
proof (cases "al_todo al")
  case Nil
  then show ?thesis using assms(1) by (simp add: alloc_lock_def)
next
  case (Cons x todo)
  have ok: "alloc_ok (p\<lparr>pt_locks := ls\<rparr>) al" for ls using assms(1) by (simp add: alloc_ok_def)
  show ?thesis
  proof (cases outcome)
    case (Returned n g)
    obtain ab p' w where a: "abort_if_needed ok al (p\<lparr>pt_locks := pt_locks p @ [(n, g, x)]\<rparr>) = (ab, p', w)"
      by (metis prod_cases3)
    then have "\<not> ab \<Longrightarrow> p' = p\<lparr>pt_locks := pt_locks p @ [(n, g, x)]\<rparr>"
      using abort_needed_ok [OF ok assms(2)] by auto
    then show ?thesis using a Cons Returned assms by (cases ab) (simp_all add: alloc_lock_def alloc_ok_def)
  next
    case TimedOut
    obtain ab p' w where a: "abort_if_needed ok al p = (ab, p', w)" by (metis prod_cases3)
    then have "\<not> ab \<Longrightarrow> p' = p" using abort_needed_ok [OF assms] by auto
    then show ?thesis using a Cons TimedOut assms by (cases ab) (simp_all add: alloc_lock_def alloc_ok_def)
  qed (simp add: Cons alloc_lock_def alloc_ok_def)
qed

lemma part_inv_moves:
  "part_inv s \<Longrightarrow> moves (ps_part s) (ps_part s') \<Longrightarrow> ps_allocs s' = ps_allocs s \<Longrightarrow> part_inv s'"
  using alloc_ok_moves unfolding part_inv_def list_all_iff by metis

lemma part_step_inv: "part_inv s \<Longrightarrow> part_inv (part_step s e)"
proof (induction s e rule: part_step.induct)
  case (1 s children members)
  obtain p al where b: "alloc_begin children members (ps_part s) = (p, al)" by (cases "alloc_begin children members (ps_part s)")
  have "moves (ps_part s) p" using moves_others(1) [of "ps_part s" children members] b by simp
  then have "list_all (alloc_ok p) (ps_allocs s)"
    using 1 alloc_ok_moves unfolding part_inv_def list_all_iff by blast
  moreover have "alloc_ok p a" if "al = Some a" for a
    using b that by (auto simp: alloc_begin_def alloc_ok_def pt_state_defs split: if_splits sum.splits)
  ultimately show ?case using 1 b by (simp add: part_inv_def split: option.splits)
next
  case (2 s k)
  show ?case
  proof (cases "k < length (ps_allocs s)")
    case True
    then have ok: "alloc_ok (ps_part s) (ps_allocs s ! k)" using 2 by (simp add: part_inv_def list_all_length)
    let ?r = "alloc_updated (ps_allocs s ! k) (ps_part s)"
    have "moves (ps_part s) (fst ?r)" by (rule moves_others(2))
    moreover have "alloc_ok (fst ?r) (snd ?r)"
      using alloc_ok_moves [OF moves_others(2) ok] by (simp add: alloc_updated_def alloc_ok_def)
    ultimately show ?thesis using True put_alloc_inv [OF 2, of "(fst ?r, snd ?r, False)" k] by (simp add: case_prod_beta)
  qed (use 2 in simp)
next
  case (3 s ok outcome k)
  then show ?case using put_alloc_inv [OF 3 moves_lock lock_ok] by (simp add: part_inv_def list_all_length)
next
  case (4 s ok k)
  have "\<not> al_running (fst (snd (alloc_end ok al p)))" for al :: "'a allocation" and p
    by (simp add: alloc_end_def case_prod_beta)
  then have "alloc_ok (fst (alloc_end ok al p)) (fst (snd (alloc_end ok al p)))" for al p by (simp add: alloc_ok_def)
  then show ?case using put_alloc_inv [OF 4 moves_end] 4 by simp
next
  case (5 s state)
  show ?case by (rule part_inv_moves [OF 5]) (simp_all add: moves_others case_prod_beta)
next
  case (6 s)
  show ?case by (rule part_inv_moves [OF 6]) (simp_all add: moves_set_state moves_def [of p p for p])
next
  case (7 s ok)
  show ?case by (rule part_inv_moves [OF 7]) (simp_all add: moves_others case_prod_beta)
next
  case (8 s ok)
  show ?case by (rule part_inv_moves [OF 8]) (simp_all add: moves_set_state)
qed

section \<open>A failure is final\<close>

lemma failure_ops:
  assumes "pt_state p = FAILURE"
  shows "pt_state (fst (alloc_begin children members p)) = FAILURE" "pt_state (fst (alloc_updated al p)) = FAILURE"
    "pt_state (fst (establish_sessionwatch st p)) = FAILURE" "pt_state (fst (release_set ok p)) = FAILURE"
  using assms by (simp_all add: part_ops)

lemma failure_abort:
  "pt_state p = FAILURE \<Longrightarrow> pt_state (fst (snd (abort_if_needed ok al p))) = FAILURE"
  by (simp add: part_ops)

lemma failure_lock:
  assumes "pt_state p = FAILURE"
  shows "pt_state (fst (alloc_lock ok outcome al p)) = FAILURE"
  using failure_abort [of p ok al] failure_abort [of "p\<lparr>pt_locks := ls\<rparr>" ok al for ls] assms
  by (cases "al_todo al"; cases outcome) (simp_all add: alloc_lock_def case_prod_beta pt_finish_def fail_out_def set_state_def)

lemma failure_end:
  assumes "pt_state p = FAILURE" and "alloc_ok p al" and "al_running al"
  shows "pt_state (fst (alloc_end ok al p)) = FAILURE"
proof -
  have "pt_state_id p \<noteq> al_state_id al" using assms by (auto simp: alloc_ok_def)
  then show ?thesis using failure_abort [OF assms(1), of ok al]
    by (simp add: alloc_end_def case_prod_beta fail_out_def set_state_def)
qed

lemma part_step_failure:
  assumes "part_inv s" and "pt_state (ps_part s) = FAILURE"
  shows "pt_state (ps_part (part_step s e)) = FAILURE"
proof (cases "(s, e)" rule: part_step.cases)
  case (4 t ok k)
  then have "s = t" "e = PEnd ok k" by simp_all
  moreover have "alloc_ok (ps_part s) (ps_allocs s ! k)" if "k < length (ps_allocs s)"
    using assms(1) that by (simp add: part_inv_def list_all_length)
  ultimately show ?thesis using assms(2) by (auto simp: put_alloc_def case_prod_beta intro: failure_end)
qed (use assms(2) in \<open>simp_all add: failure_ops failure_lock put_alloc_def case_prod_beta fail_out_def
    set_state_def pt_finish_def\<close>)

interpretation partition_failed: transition_invariant part_step
    "\<lambda>s. part_inv s \<and> pt_state (ps_part s) = FAILURE"
  by unfold_locales (simp add: part_step_inv part_step_failure)

interpretation partition_system: transition_invariant part_step part_inv
  by unfold_locales (rule part_step_inv)

lemma part_start_inv: "part_inv (part_start func)"
  by (simp add: part_inv_def part_start_def)

text \<open>
  A failed partitioner stays failed: whatever allocations, watches, session events and calls
  follow in whatever order, the state never leaves \<^verbatim>\<open>FAILURE\<close>.
\<close>

theorem partition_failure_final:
  assumes "pt_failed (ps_part (foldl part_step (part_start func) es))"
  shows "pt_failed (ps_part (foldl part_step (part_start func) (es @ es')))"
  using partition_failed.run_inv [of "foldl part_step (part_start func) es" es'] assms
    partition_system.run_inv [OF part_start_inv, of func es]
  by (simp add: pt_failed_def)

theorem partition_failure_final_witness:
  "pt_failed (ps_part (foldl part_step (part_start (\<lambda>_. Inr [1 :: nat]))
     [PFinish (\<lambda>_. True), PBegin (Some []) [], PSession KAZOO_CONNECTED, PReleaseSet (\<lambda>_. True)]))"
proof -
  have "pt_failed (ps_part (foldl part_step (part_start (\<lambda>_. Inr [1 :: nat])) [PFinish (\<lambda>_. True)]))"
    by (simp add: part_start_def partition_init_def part_ops)
  from partition_failure_final [OF this, of "[PBegin (Some []) [], PSession KAZOO_CONNECTED, PReleaseSet (\<lambda>_. True)]"]
  show ?thesis by simp
qed

section \<open>Acquired means locked\<close>



text \<open>
  The items that have a lock object in the list: those whose lock is held, and those whose
  \<^verbatim>\<open>lock.acquire\<close> returned \<^verbatim>\<open>False\<close>.
\<close>

definition part_locked :: "'a partition \<Rightarrow> 'a set" where
  "part_locked p = {x. \<exists>n. (n, True, x) \<in> set (pt_locks p)}"












lemma put_part_inv: "part_step s e = put_alloc s k r \<Longrightarrow> part_inv s \<Longrightarrow> part_inv (put_alloc s k r)"
  by (metis part_step_inv)













definition demo_split :: "string list \<Rightarrow> exc + nat list" where
  "demo_split members = Inr [7]"


section \<open>What goes wrong otherwise\<close>

text \<open>
  \<^verbatim>\<open>lock.acquire\<close> returns \<^verbatim>\<open>False\<close> when its retries end at the deadline, and the partitioner
  does not look at the result: it reaches \<^verbatim>\<open>ACQUIRED\<close> without the lock of its item.
\<close>

theorem partition_not_locked:
  "\<exists>es p. p = ps_part (foldl part_step (part_start demo_split) es) \<and> pt_acquired p
     \<and> pt_partition_set p = [7] \<and> part_locked p = {}"
proof -
  let ?es = "[PBegin (Some [''m'']) [''m''], PLock (\<lambda>_. True) (Returned 0 False) 0, PEnd (\<lambda>_. True) 0]"
  let ?p = "ps_part (foldl part_step (part_start demo_split) ?es)"
  have "pt_acquired ?p" "pt_partition_set ?p = [7]" "part_locked ?p = {}"
    by (simp_all add: part_start_def partition_init_def demo_split_def put_alloc_def part_ops part_locked_def)
  then show ?thesis by blast
qed

text \<open>
  A lock that is acquired while \<^verbatim>\<open>finish\<close> runs is kept: the failed partitioner holds it, nothing
  runs any more, and only another call would release it.
\<close>

lemma partition_finish_keeps_lock:
  "\<exists>es s. s = foldl part_step (part_start demo_split) es \<and> pt_failed (ps_part s)
     \<and> part_locked (ps_part s) = {7} \<and> list_all (\<lambda>al. \<not> al_running al) (ps_allocs s) \<and> ps_watches s = 0"
proof -
  let ?es = "[PBegin (Some [''m'']) [''m''], PFinish (\<lambda>_. True), PLock (\<lambda>_. True) (Returned 0 True) 0]"
  let ?s = "foldl part_step (part_start demo_split) ?es"
  have "pt_failed (ps_part ?s)" "part_locked (ps_part ?s) = {7}" "list_all (\<lambda>al. \<not> al_running al) (ps_allocs ?s)"
    "ps_watches ?s = 0"
    by (auto simp: part_start_def partition_init_def demo_split_def put_alloc_def part_ops part_locked_def)
  then show ?thesis by blast
qed

text \<open>Two members with one identifier compute the same part, and nobody has the rest.\<close>

lemma partition_same_identifier:
  "partitioner ''a'' [''a'', ''a''] [1, 2 :: nat] = Inr [1]"
  by code_simp

end
