(* ===== verification/Watchers.thy ===== *)
theory Watchers
  imports RetryInv States
begin

text \<open>
  \<^verbatim>\<open>kazoo/recipe/watchers.py\<close>: \<^verbatim>\<open>DataWatch\<close> and \<^verbatim>\<open>ChildrenWatch\<close>, which call a function on every
  change of a node, and \<^verbatim>\<open>PatientChildrenWatch\<close>, which waits until the children have settled.
  One run of \<^verbatim>\<open>_get_data\<close> or \<^verbatim>\<open>_get_children\<close> holds the watcher's run lock from its beginning
  to its end, so the runs of one watcher do not overlap.
\<close>

section \<open>Watching data\<close>

text \<open>
  What the watchers use beside the client's operations. The user's function is called with
  three or with two arguments and returns \<^term>\<open>Some False\<close> for Python's \<^verbatim>\<open>False\<close>;
  \<open>we_spawn\<close> starts a run of the watcher in another thread.
\<close>

record 'w watch_env =
  we_zk :: "'w zk"
  we_retry :: retry
  we_func3 :: "bytes option \<Rightarrow> znode_stat option \<Rightarrow> watched_event option \<Rightarrow> ('w, bool option) io"
  we_func2 :: "bytes option \<Rightarrow> znode_stat option \<Rightarrow> ('w, bool option) io"
  we_children1 :: "string list \<Rightarrow> ('w, bool option) io"
  we_children2 :: "string list \<Rightarrow> watched_event option \<Rightarrow> ('w, bool option) io"
  we_add_listener :: "'w \<Rightarrow> 'w"
  we_remove_listener :: "'w \<Rightarrow> 'w"
  we_spawn :: "'w \<Rightarrow> 'w"

text \<open>The watcher's own retry, and \<^verbatim>\<open>_ignore_closed\<close>.\<close>

definition watch_retry :: retry where
  "watch_retry = retry_init None (1 / 10) 2 (2 / 5) 60 True None"

definition ignore_closed :: "('w, unit) io \<Rightarrow> ('w, unit) io" where
  "ignore_closed m = io_catch m (\<lambda>e. e = ConnectionClosedError) (\<lambda>_. io_return ())"

record data_watch =
  dw_path :: string
  dw_stopped :: bool
  dw_version :: "int option"
  dw_ever_called :: bool
  dw_used :: bool

definition data_watch_new :: "string \<Rightarrow> data_watch" where
  "data_watch_new path =
     \<lparr>dw_path = path, dw_stopped = False, dw_version = None, dw_ever_called = False, dw_used = False\<rparr>"

definition log_func_exception ::
    "'w watch_env \<Rightarrow> bytes option \<Rightarrow> znode_stat option \<Rightarrow> watched_event option \<Rightarrow> (data_watch \<times> 'w, unit) io" where
  "log_func_exception env data stat event =
     io_bind (io_modify (\<lambda>d. d\<lparr>dw_ever_called := True\<rparr>)) (\<lambda>_.
     io_bind (io_catch (io_lift (we_func3 env data stat event)) (\<lambda>e. e = PyTypeError)
                (\<lambda>_. io_lift (we_func2 env data stat))) (\<lambda>result.
       if result = Some False then
         io_bind (io_modify (\<lambda>d. d\<lparr>dw_stopped := True\<rparr>)) (\<lambda>_. io_world (we_remove_listener env))
       else io_return ()))"

text \<open>What a run reads: the node, its absence, or an absence that a second look does not confirm.\<close>

datatype data_read = ReadNode "bytes option" znode_stat | ReadNothing | ReadAgain

definition read_data :: "'w watch_env \<Rightarrow> (data_watch \<times> 'w, data_read) io" where
  "read_data env =
     io_bind io_self (\<lambda>d.
       io_lift (io_catch
         (io_bind (io_retry (we_zk env) watch_retry (zk_get_w (we_zk env) (dw_path d))) (\<lambda>r.
            io_return (ReadNode (fst r) (snd r))))
         is_no_node
         (\<lambda>_. io_bind (io_retry (we_zk env) watch_retry (zk_exists_w (we_zk env) (dw_path d))) (\<lambda>stat.
            io_return (if stat = None then ReadNothing else ReadAgain)))))"

definition data_changed ::
    "'w watch_env \<Rightarrow> watched_event option \<Rightarrow> bytes option \<Rightarrow> znode_stat option \<Rightarrow> (data_watch \<times> 'w, unit) io" where
  "data_changed env event data stat =
     io_bind io_self (\<lambda>d.
       let version = map_option mzxid stat in
       io_bind (io_modify (\<lambda>d. d\<lparr>dw_version := version\<rparr>)) (\<lambda>_.
         if dw_version d \<noteq> version \<or> \<not> dw_ever_called d then log_func_exception env data stat event
         else io_return ()))"

definition get_data :: "'w watch_env \<Rightarrow> watched_event option \<Rightarrow> (data_watch \<times> 'w, unit) io" where
  "get_data env event =
     ignore_closed
       (io_bind io_self (\<lambda>d.
          if dw_stopped d then io_return ()
          else io_bind (read_data env) (\<lambda>r. case r of
              ReadNode data stat \<Rightarrow> data_changed env event data (Some stat)
            | ReadNothing \<Rightarrow> data_changed env event None None
            | ReadAgain \<Rightarrow> io_world (we_spawn env))))"

definition data_watcher :: "'w watch_env \<Rightarrow> watched_event \<Rightarrow> (data_watch \<times> 'w, unit) io" where
  "data_watcher env event = get_data env (Some event)"

definition data_session_watcher :: "'w watch_env \<Rightarrow> kazoo_state \<Rightarrow> (data_watch \<times> 'w, unit) io" where
  "data_session_watcher env state =
     (if state = KAZOO_CONNECTED then io_world (we_spawn env) else io_return ())"

text \<open>\<^verbatim>\<open>__init__\<close> with a function, and \<^verbatim>\<open>__call__\<close>.\<close>

definition data_watch_use :: "'w watch_env \<Rightarrow> (data_watch \<times> 'w, unit) io" where
  "data_watch_use env =
     io_bind (io_modify (\<lambda>d. d\<lparr>dw_used := True\<rparr>)) (\<lambda>_.
     io_bind (io_world (we_add_listener env)) (\<lambda>_. get_data env None))"

definition data_watch_call :: "'w watch_env \<Rightarrow> (data_watch \<times> 'w, unit) io" where
  "data_watch_call env =
     io_bind io_self (\<lambda>d. if dw_used d then io_raise KazooException else data_watch_use env)"

section \<open>Watching children\<close>

record children_watch =
  cw_path :: string
  cw_send_event :: bool
  cw_allow_session_lost :: bool
  cw_stopped :: bool
  cw_established :: bool
  cw_prior :: "string list option"
  cw_used :: bool

definition children_watch_new :: "string \<Rightarrow> bool \<Rightarrow> bool \<Rightarrow> children_watch" where
  "children_watch_new path allow_session_lost send_event =
     \<lparr>cw_path = path, cw_send_event = send_event, cw_allow_session_lost = allow_session_lost, cw_stopped = False,
      cw_established = False, cw_prior = None, cw_used = False\<rparr>"

definition call_children ::
    "'w watch_env \<Rightarrow> string list \<Rightarrow> watched_event option \<Rightarrow> (children_watch \<times> 'w, unit) io" where
  "call_children env children event =
     io_bind io_self (\<lambda>c.
     io_bind (io_lift (if cw_send_event c then we_children2 env children event else we_children1 env children)) (\<lambda>result.
       if result = Some False then
         io_bind (io_modify (\<lambda>c. c\<lparr>cw_stopped := True\<rparr>)) (\<lambda>_.
           if cw_allow_session_lost c then io_world (we_remove_listener env) else io_return ())
       else io_return ()))"

definition get_children :: "'w watch_env \<Rightarrow> watched_event option \<Rightarrow> (children_watch \<times> 'w, unit) io" where
  "get_children env event =
     ignore_closed
       (io_bind io_self (\<lambda>c.
          if cw_stopped c then io_return ()
          else io_bind
            (io_catch
               (io_bind (io_lift (io_retry (we_zk env) (we_retry env) (zk_get_children_w (we_zk env) (cw_path c))))
                  (\<lambda>children. io_return (Some children)))
               is_no_node (\<lambda>_. io_return None)) (\<lambda>r. case r of
              None \<Rightarrow> io_modify (\<lambda>c. c\<lparr>cw_stopped := True\<rparr>)
            | Some children \<Rightarrow>
                io_bind (io_modify (\<lambda>c. c\<lparr>cw_established := True\<rparr>)) (\<lambda>_.
                  if \<not> cw_established c \<and> cw_prior c = Some children then io_return ()
                  else io_bind (io_modify (\<lambda>c. c\<lparr>cw_prior := Some children\<rparr>)) (\<lambda>_.
                    call_children env children event)))))"

definition children_watcher :: "'w watch_env \<Rightarrow> watched_event \<Rightarrow> (children_watch \<times> 'w, unit) io" where
  "children_watcher env event =
     (if ev_type event \<noteq> NONE then get_children env (Some event) else io_return ())"

definition children_session_watcher :: "'w watch_env \<Rightarrow> kazoo_state \<Rightarrow> (children_watch \<times> 'w, unit) io" where
  "children_session_watcher env state =
     (if state = LOST \<or> state = SUSPENDED then io_modify (\<lambda>c. c\<lparr>cw_established := False\<rparr>)
      else io_bind io_self (\<lambda>c.
        if state = KAZOO_CONNECTED \<and> \<not> cw_established c \<and> \<not> cw_stopped c then io_world (we_spawn env)
        else io_return ()))"

definition children_watch_use :: "'w watch_env \<Rightarrow> (children_watch \<times> 'w, unit) io" where
  "children_watch_use env =
     io_bind (io_modify (\<lambda>c. c\<lparr>cw_used := True\<rparr>)) (\<lambda>_.
     io_bind io_self (\<lambda>c.
     io_bind (if cw_allow_session_lost c then io_world (we_add_listener env) else io_return ()) (\<lambda>_.
       get_children env None)))"

definition children_watch_call :: "'w watch_env \<Rightarrow> (children_watch \<times> 'w, unit) io" where
  "children_watch_call env =
     io_bind io_self (\<lambda>c. if cw_used c then io_raise KazooException else children_watch_use env)"

section \<open>Waiting until the children have settled\<close>

text \<open>
  An asynchronous result is a number. \<open>pe_get_children k\<close> reads the children and registers the
  watch that sets \<^verbatim>\<open>children_changed\<close> and the result \<open>k\<close>; \<open>pe_set\<close> sets the result of \<^verbatim>\<open>start\<close>.
\<close>

record 'w patient_env =
  pe_zk :: "'w zk"
  pe_retry :: retry
  pe_async :: "'w \<Rightarrow> nat \<times> 'w"
  pe_get_children :: "nat \<Rightarrow> string \<Rightarrow> ('w, string list) io"
  pe_sleep :: "rat \<Rightarrow> ('w, unit) io"
  pe_changed :: "'w \<Rightarrow> bool"
  pe_put_changed :: "bool \<Rightarrow> 'w \<Rightarrow> 'w"
  pe_set_async :: "nat \<Rightarrow> 'w \<Rightarrow> 'w"
  pe_set :: "exc + string list \<times> nat \<Rightarrow> 'w \<Rightarrow> 'w"

definition patient_read :: "'w patient_env \<Rightarrow> string \<Rightarrow> ('w, string list \<times> nat) io" where
  "patient_read env path w =
     (case pe_async env w of (k, w) \<Rightarrow>
        io_bind (io_retry (pe_zk env) (pe_retry env) (pe_get_children env k path)) (\<lambda>children.
          io_return (children, k)) w)"

partial_function (option) patient_loop ::
    "'w patient_env \<Rightarrow> string \<Rightarrow> rat \<Rightarrow> 'w \<Rightarrow> ((exc + string list \<times> nat) \<times> 'w) option" where
  "patient_loop env path time_boundary w =
     io_bind (patient_read env path) (\<lambda>r.
     io_bind (pe_sleep env time_boundary) (\<lambda>_ w.
       if pe_changed env w then patient_loop env path time_boundary (pe_put_changed env False w)
       else io_return r w)) w"

definition patient_start :: "'w patient_env \<Rightarrow> string \<Rightarrow> rat \<Rightarrow> 'w \<Rightarrow> 'w option" where
  "patient_start env path time_boundary w =
     map_option (\<lambda>(r, w). pe_set env r w) (patient_loop env path time_boundary w)"

definition patient_watcher :: "'w patient_env \<Rightarrow> nat \<Rightarrow> 'w \<Rightarrow> 'w" where
  "patient_watcher env k w = pe_set_async env k (pe_put_changed env True w)"

end
