(* ===== verification/WatchersProps.thy ===== *)
theory WatchersProps
  imports Watchers
begin

text \<open>
  What the function of a data watch is called with, as a function of what its runs read; and
  what the patient watch returns.
\<close>

section \<open>The calls of a data watch\<close>

text \<open>
  The reference: of the states that were read, each one whose version differs from that of the
  state before it, until the function returns \<^verbatim>\<open>False\<close>.
\<close>

type_synonym node_state = "bytes option \<times> znode_stat option"

definition state_version :: "node_state \<Rightarrow> int option" where
  "state_version x = map_option mzxid (snd x)"

fun observed :: "data_read \<Rightarrow> node_state list" where
  "observed (ReadNode data stat) = [(data, Some stat)]"
| "observed ReadNothing = [(None, None)]"
| "observed ReadAgain = []"

fun changes :: "int option option \<Rightarrow> node_state list \<Rightarrow> node_state list" where
  "changes prev [] = []"
| "changes prev (x # xs) =
     (if prev = Some (state_version x) then changes prev xs else x # changes (Some (state_version x)) xs)"

fun up_to :: "('a \<Rightarrow> bool) \<Rightarrow> 'a list \<Rightarrow> 'a list" where
  "up_to P [] = []"
| "up_to P (x # xs) = x # (if P x then [] else up_to P xs)"

text \<open>
  A function that accepts the event or, when it has two parameters, refuses a call with three
  before it has done anything, and that returns.
\<close>

definition func_returns :: "'w watch_env \<Rightarrow> bytes option \<Rightarrow> znode_stat option \<Rightarrow> watched_event option
    \<Rightarrow> 'w \<Rightarrow> bool option \<Rightarrow> 'w \<Rightarrow> bool" where
  "func_returns env d st e w r w' \<longleftrightarrow> we_func3 env d st e w = Some (Inr r, w')
     \<or> we_func3 env d st e w = Some (Inl PyTypeError, w) \<and> we_func2 env d st w = Some (Inr r, w')"

text \<open>A world that shows the runs a list of states and records the calls of the function.\<close>

definition watched ::
    "'w watch_env \<Rightarrow> string \<Rightarrow> ('w \<Rightarrow> data_read list) \<Rightarrow> ('w \<Rightarrow> node_state list) \<Rightarrow> (node_state \<Rightarrow> bool) \<Rightarrow> bool" where
  "watched env path obs calls stop \<longleftrightarrow>
     (\<forall>w d st os. obs w = ReadNode d st # os \<longrightarrow>
        (\<exists>w'. zk_get_w (we_zk env) path w = Some (Inr (d, st), w') \<and> obs w' = os \<and> calls w' = calls w))
   \<and> (\<forall>w os. obs w = ReadNothing # os \<longrightarrow>
        (\<exists>w' w''. zk_get_w (we_zk env) path w = Some (Inl (ZkErr NoNodeError), w')
          \<and> zk_exists_w (we_zk env) path w' = Some (Inr None, w'') \<and> obs w'' = os \<and> calls w'' = calls w))
   \<and> (\<forall>w os. obs w = ReadAgain # os \<longrightarrow>
        (\<exists>w' st w''. zk_get_w (we_zk env) path w = Some (Inl (ZkErr NoNodeError), w')
          \<and> zk_exists_w (we_zk env) path w' = Some (Inr (Some st), w'') \<and> obs w'' = os \<and> calls w'' = calls w))
   \<and> (\<forall>d st e w. \<exists>w'. func_returns env d st e w (if stop (d, st) then Some False else None) w'
        \<and> obs w' = obs w \<and> calls w' = calls w @ [(d, st)])
   \<and> (\<forall>w. obs (we_spawn env w) = obs w \<and> calls (we_spawn env w) = calls w)
   \<and> (\<forall>w. obs (we_remove_listener env w) = obs w \<and> calls (we_remove_listener env w) = calls w)"

lemma watch_retry_arm:
  "retry_arm env (retry_reset (retry_copy watch_retry)) w = (retry_reset (retry_copy watch_retry), w)"
  by (simp add: watch_retry_def retry_copy_def retry_reset_def retry_init_def retry_arm_def)

lemma io_retry_watch:
  "func w = Some (Inr x, w') \<Longrightarrow> io_retry zk watch_retry func w = Some (Inr x, w')"
  "func w = Some (Inl (ZkErr NoNodeError), w') \<Longrightarrow> io_retry zk watch_retry func w = Some (Inl (ZkErr NoNodeError), w')"
proof -
  have no: "\<not> retryable (retry_reset (retry_copy watch_retry)) (ZkErr NoNodeError)" by code_simp
  show "func w = Some (Inr x, w') \<Longrightarrow> io_retry zk watch_retry func w = Some (Inr x, w')"
    by (simp add: io_retry_def retry_call_partial_def retry_loop_success [OF watch_retry_arm])
  show "func w = Some (Inl (ZkErr NoNodeError), w') \<Longrightarrow> io_retry zk watch_retry func w = Some (Inl (ZkErr NoNodeError), w')"
    using no by (simp add: io_retry_def retry_call_partial_def retry_loop_raises [OF watch_retry_arm])
qed

lemma read_data_observes:
  assumes "watched env path obs calls stop" and "dw_path d = path" and "obs w = r # os"
  shows "\<exists>w'. read_data env (d, w) = Some (Inr r, (d, w')) \<and> obs w' = os \<and> calls w' = calls w"
proof (cases r)
  case (ReadNode x st)
  then obtain w' where "zk_get_w (we_zk env) path w = Some (Inr (x, st), w')" "obs w' = os" "calls w' = calls w"
    using assms(1,3) unfolding watched_def by blast
  moreover from this(1) have "io_retry (we_zk env) watch_retry (zk_get_w (we_zk env) path) w = Some (Inr (x, st), w')"
    by (rule io_retry_watch(1))
  ultimately show ?thesis using assms(2) ReadNode by (simp add: read_data_def)
next
  case ReadNothing
  then obtain w1 w' where "zk_get_w (we_zk env) path w = Some (Inl (ZkErr NoNodeError), w1)"
    "zk_exists_w (we_zk env) path w1 = Some (Inr None, w')" "obs w' = os" "calls w' = calls w"
    using assms(1,3) unfolding watched_def by blast
  then show ?thesis using assms(2) ReadNothing io_retry_watch(2) [of "zk_get_w (we_zk env) path" w w1 "we_zk env"]
      io_retry_watch(1) [of "zk_exists_w (we_zk env) path" w1 None w' "we_zk env"]
    by (simp add: read_data_def is_no_node_def)
next
  case ReadAgain
  then obtain w1 st w' where "zk_get_w (we_zk env) path w = Some (Inl (ZkErr NoNodeError), w1)"
    "zk_exists_w (we_zk env) path w1 = Some (Inr (Some st), w')" "obs w' = os" "calls w' = calls w"
    using assms(1,3) unfolding watched_def by blast
  then show ?thesis using assms(2) ReadAgain io_retry_watch(2) [of "zk_get_w (we_zk env) path" w w1 "we_zk env"]
      io_retry_watch(1) [of "zk_exists_w (we_zk env) path" w1 "Some st" w' "we_zk env"]
    by (simp add: read_data_def is_no_node_def)
qed

definition last_version :: "data_watch \<Rightarrow> int option option" where
  "last_version d = (if dw_ever_called d then Some (dw_version d) else None)"

lemma data_changed_calls:
  assumes "watched env path obs calls stop" and "dw_path d = path" and "\<not> dw_stopped d"
  shows "\<exists>d' w'. data_changed env e x st (d, w) = Some (Inr (), (d', w')) \<and> obs w' = obs w \<and> dw_path d' = path
    \<and> (if last_version d = Some (state_version (x, st))
       then calls w' = calls w \<and> \<not> dw_stopped d' \<and> last_version d' = last_version d
       else calls w' = calls w @ [(x, st)] \<and> dw_stopped d' = stop (x, st) \<and> last_version d' = Some (state_version (x, st)))"
proof -
  let ?r = "if stop (x, st) then Some False else None"
  obtain w1 where "func_returns env x st e w ?r w1" and w1: "obs w1 = obs w" "calls w1 = calls w @ [(x, st)]"
    using assms(1) unfolding watched_def by metis
  then have func: "io_catch (io_lift (we_func3 env x st e)) (\<lambda>e. e = PyTypeError) (\<lambda>_. io_lift (we_func2 env x st)) (d, w)
      = Some (Inr ?r, (d, w1))" for d :: data_watch
    by (auto simp: func_returns_def io_catch_def io_lift_def)
  have rl: "obs (we_remove_listener env w1) = obs w1" "calls (we_remove_listener env w1) = calls w1"
    using assms(1) unfolding watched_def by blast+
  show ?thesis
    using w1 rl assms(2,3)
    by (auto simp: data_changed_def log_func_exception_def func last_version_def state_version_def Let_def io_bind_def)
qed

lemma get_data_step:
  assumes "watched env path obs calls stop" and "dw_path d = path" and "\<not> dw_stopped d" and "obs w = r # os"
  shows "\<exists>d' w'. get_data env e (d, w) = Some (Inr (), (d', w')) \<and> obs w' = os \<and> dw_path d' = path
    \<and> (case observed r of
         [] \<Rightarrow> calls w' = calls w \<and> \<not> dw_stopped d' \<and> last_version d' = last_version d
       | x # _ \<Rightarrow> if last_version d = Some (state_version x)
           then calls w' = calls w \<and> \<not> dw_stopped d' \<and> last_version d' = last_version d
           else calls w' = calls w @ [x] \<and> dw_stopped d' = stop x \<and> last_version d' = Some (state_version x))"
proof -
  obtain w1 where w1: "read_data env (d, w) = Some (Inr r, (d, w1))" "obs w1 = os" "calls w1 = calls w"
    using read_data_observes [OF assms(1,2,4)] by blast
  show ?thesis
  proof (cases r)
    case (ReadNode x st)
    obtain d' w' where c: "data_changed env e x (Some st) (d, w1) = Some (Inr (), (d', w'))" "obs w' = obs w1" "dw_path d' = path"
      "if last_version d = Some (state_version (x, Some st))
       then calls w' = calls w1 \<and> \<not> dw_stopped d' \<and> last_version d' = last_version d
       else calls w' = calls w1 @ [(x, Some st)] \<and> dw_stopped d' = stop (x, Some st)
         \<and> last_version d' = Some (state_version (x, Some st))"
      using data_changed_calls [OF assms(1-3), of e x "Some st" w1] by (elim exE conjE) (rule that)
    have "get_data env e (d, w) = Some (Inr (), (d', w'))"
      using w1(1) c(1) ReadNode assms(3) by (simp add: get_data_def ignore_closed_def io_catch_def io_bind_def)
    then show ?thesis using c(2-4) w1(2,3) ReadNode by (intro exI [of _ d'] exI [of _ w']) simp
  next
    case ReadNothing
    obtain d' w' where c: "data_changed env e None None (d, w1) = Some (Inr (), (d', w'))" "obs w' = obs w1" "dw_path d' = path"
      "if last_version d = Some (state_version (None, None))
       then calls w' = calls w1 \<and> \<not> dw_stopped d' \<and> last_version d' = last_version d
       else calls w' = calls w1 @ [(None, None)] \<and> dw_stopped d' = stop (None, None)
         \<and> last_version d' = Some (state_version (None, None))"
      using data_changed_calls [OF assms(1-3), of e None None w1] by (elim exE conjE) (rule that)
    have "get_data env e (d, w) = Some (Inr (), (d', w'))"
      using w1(1) c(1) ReadNothing assms(3) by (simp add: get_data_def ignore_closed_def io_catch_def io_bind_def)
    then show ?thesis using c(2-4) w1(2,3) ReadNothing by (intro exI [of _ d'] exI [of _ w']) simp
  next
    case ReadAgain
    have "obs (we_spawn env w1) = obs w1" "calls (we_spawn env w1) = calls w1"
      using assms(1) unfolding watched_def by blast+
    then show ?thesis using w1 ReadAgain assms(2,3)
      by (auto simp: get_data_def ignore_closed_def io_catch_def io_bind_def)
  qed
qed

primrec get_datas :: "'w watch_env \<Rightarrow> watched_event option list \<Rightarrow> (data_watch \<times> 'w, unit) io" where
  "get_datas env [] = io_return ()"
| "get_datas env (e # es) = io_bind (get_data env e) (\<lambda>_. get_datas env es)"

lemma get_datas_stopped: "dw_stopped d \<Longrightarrow> get_datas env es (d, w) = Some (Inr (), (d, w))"
  by (induction es) (simp_all add: get_data_def ignore_closed_def io_bind_def io_catch_def)

lemma get_datas_log:
  assumes "watched env path obs calls stop" and "dw_path d = path" and "\<not> dw_stopped d" and "obs w = rs"
    and "length es = length rs"
  shows "\<exists>d' w'. get_datas env es (d, w) = Some (Inr (), (d', w'))
    \<and> calls w' = calls w @ up_to stop (changes (last_version d) (concat (map observed rs)))"
  using assms(2-)
proof (induction rs arbitrary: es d w)
  case Nil
  then show ?case by simp
next
  case (Cons r rs)
  then obtain e es' where es: "es = e # es'" "length es' = length rs" by (cases es) auto
  obtain d1 w1 where step: "get_data env e (d, w) = Some (Inr (), (d1, w1))" "obs w1 = rs" "dw_path d1 = path"
    "case observed r of
         [] \<Rightarrow> calls w1 = calls w \<and> \<not> dw_stopped d1 \<and> last_version d1 = last_version d
       | x # _ \<Rightarrow> if last_version d = Some (state_version x)
           then calls w1 = calls w \<and> \<not> dw_stopped d1 \<and> last_version d1 = last_version d
           else calls w1 = calls w @ [x] \<and> dw_stopped d1 = stop x \<and> last_version d1 = Some (state_version x)"
    using get_data_step [OF assms(1) Cons.prems(1-3), of e] by (elim exE conjE) (rule that)
  have go: "get_datas env es (d, w) = get_datas env es' (d1, w1)" using step(1) es(1) by simp
  have one: "observed r = [] \<or> (\<exists>x. observed r = [x])" by (cases r) simp_all
  show ?case
  proof (cases "dw_stopped d1")
    case False
    obtain d' w' where "get_datas env es' (d1, w1) = Some (Inr (), (d', w'))"
      "calls w' = calls w1 @ up_to stop (changes (last_version d1) (concat (map observed rs)))"
      using Cons.IH [OF step(3) False step(2) es(2)] by blast
    then show ?thesis using go step(4) one False by (auto split: if_splits)
  next
    case True
    then show ?thesis using go step(4) one get_datas_stopped [OF True, of env es' w1] by (auto split: if_splits)
  qed
qed

text \<open>In versions: the function sees each run of equal versions once.\<close>

lemma changes_versions:
  "map state_version (changes None xs) = remdups_adj (map state_version xs)"
proof -
  have more: "map state_version (changes (Some v) ys) = tl (remdups_adj (v # map state_version ys))" for v ys
    by (induction ys arbitrary: v) (auto simp: remdups_adj_Cons split: list.splits)
  show ?thesis
  proof (cases xs)
    case (Cons a ys)
    then show ?thesis using more [of "state_version a" ys] by (simp add: remdups_adj_Cons')
  qed simp
qed

text \<open>
  C27. A data watch calls a function of two or of three arguments that does not raise for each
  change and for nothing else: of the states that its runs read, one after the other and without
  errors of the connection, it is called with the first and with every one whose version differs
  from the one before, in order and once each, until it returns \<^verbatim>\<open>False\<close>; after that it is never
  called again.
\<close>

theorem data_watch_calls:
  assumes "watched env path obs calls stop" and "length es = length (obs w)"
  shows "\<exists>d' w'. get_datas env es (data_watch_new path, w) = Some (Inr (), (d', w'))
    \<and> calls w' = calls w @ up_to stop (changes None (concat (map observed (obs w))))"
  using get_datas_log [OF assms(1) _ _ refl assms(2), of "data_watch_new path"]
  by (simp add: data_watch_new_def last_version_def)

text \<open>
  A world with a list of states to show and the calls so far; the function has two parameters and
  stops at an absent node.
\<close>

definition demo_watch_env :: "(data_read list \<times> node_state list) watch_env" where
  "demo_watch_env =
     \<lparr>we_zk = zk_refuse\<lparr>
        zk_get_w := (\<lambda>_ (os, cs). case os of
            ReadNode d st # os \<Rightarrow> Some (Inr (d, st), (os, cs)) | _ \<Rightarrow> Some (Inl (ZkErr NoNodeError), (os, cs))),
        zk_exists_w := (\<lambda>_ (os, cs). case os of
            ReadAgain # os \<Rightarrow> Some (Inr (Some blank_stat), (os, cs)) | _ \<Rightarrow> Some (Inr None, (tl os, cs)))\<rparr>,
      we_retry = watch_retry,
      we_func3 = (\<lambda>_ _ _. io_raise PyTypeError),
      we_func2 = (\<lambda>d st (os, cs). Some (Inr (if st = None then Some False else None), (os, cs @ [(d, st)]))), we_children1 = (\<lambda>_. io_return None), we_children2 = (\<lambda>_ _. io_return None),
      we_add_listener = (\<lambda>w. w), we_remove_listener = (\<lambda>w. w), we_spawn = (\<lambda>w. w)\<rparr>"

lemma demo_watched: "watched demo_watch_env path fst snd (\<lambda>x. snd x = None)"
  by (auto simp: watched_def func_returns_def demo_watch_env_def io_raise_def)

theorem data_watch_calls_witness:
  "\<exists>d' w'. get_datas demo_watch_env [None, None, None, None, None]
      (data_watch_new ''/p'',
       ([ReadNode (Some [1]) blank_stat, ReadNode (Some [1]) blank_stat, ReadAgain, ReadNothing, ReadNode None blank_stat], [])) =
        Some (Inr (), (d', w'))
     \<and> snd w' = [(Some [1], Some blank_stat), (None, None)]"
  using data_watch_calls [OF demo_watched, of "[None, None, None, None, None]"
      "([ReadNode (Some [1]) blank_stat, ReadNode (Some [1]) blank_stat, ReadAgain, ReadNothing, ReadNode None blank_stat], [])" "''/p''"]
  by (simp add: state_version_def del: get_datas.simps)

text \<open>
  A function of two or three arguments that raises \<^verbatim>\<open>TypeError\<close> itself is called a second time for
  the same change, with two arguments.
\<close>

lemma data_watch_second_call:
  assumes "we_func3 env data stat event w = Some (Inl PyTypeError, w1)"
    and "we_func2 env data stat w1 = Some (Inr None, w2)"
  shows "log_func_exception env data stat event (d, w) = Some (Inr (), (d\<lparr>dw_ever_called := True\<rparr>, w2))"
  using assms by (simp add: log_func_exception_def io_catch_def io_bind_def)

section \<open>The patient watch\<close>

text \<open>
  The children that \<^verbatim>\<open>PatientChildrenWatch\<close> gives are those of its last look at the server,
  and for the whole time boundary after that look no watch reported a change.
\<close>

theorem patient_quiet:
  assumes "patient_loop env path tb w = Some (Inr r, w')"
  shows "\<exists>w0 w1. patient_read env path w0 = Some (Inr r, w1) \<and> pe_sleep env tb w1 = Some (Inr (), w') \<and> \<not> pe_changed env w'"
proof -
  let ?P = "\<lambda>(env :: 'a patient_env) path tb w (x :: (exc + string list \<times> nat) \<times> 'a). \<forall>r w'. x = (Inr r, w') \<longrightarrow>
    (\<exists>w0 w1. patient_read env path w0 = Some (Inr r, w1) \<and> pe_sleep env tb w1 = Some (Inr (), w') \<and> \<not> pe_changed env w')"
  have "?P env path tb w (Inr r, w')"
  proof (rule patient_loop.raw_induct [where P = ?P, OF _ assms], intro allI impI)
    fix loop and env :: "'a patient_env" and path tb w x r w'
    assume IH: "\<And>env path tb w x. loop env path tb w = Some x \<Longrightarrow> ?P env path tb w x"
      and eq: "io_bind (patient_read env path) (\<lambda>r. io_bind (pe_sleep env tb)
         (\<lambda>_ w. if pe_changed env w then loop env path tb (pe_put_changed env False w) else io_return r w)) w = Some x"
      and x: "x = (Inr r, w')"
    obtain r1 w1 w2 where run: "patient_read env path w = Some (Inr r1, w1)" "pe_sleep env tb w1 = Some (Inr (), w2)"
      "(if pe_changed env w2 then loop env path tb (pe_put_changed env False w2) else io_return r1 w2) = Some (Inr r, w')"
      using eq x by (auto simp: io_bind_eq_Inr)
    show "\<exists>w0 w1. patient_read env path w0 = Some (Inr r, w1) \<and> pe_sleep env tb w1 = Some (Inr (), w') \<and> \<not> pe_changed env w'"
    proof (cases "pe_changed env w2")
      case True
      then have "loop env path tb (pe_put_changed env False w2) = Some (Inr r, w')" using run(3) by simp
      from IH [OF this] show ?thesis by blast
    next
      case False
      then show ?thesis using run by auto
    qed
  qed
  then show ?thesis by simp
qed

text \<open>A world that counts the looks; the first look is followed by a change.\<close>

definition demo_patient_env :: "(nat \<times> bool) patient_env" where
  "demo_patient_env =
     \<lparr>pe_zk = zk_refuse, pe_retry = forever, pe_async = (\<lambda>(n, c). (n, (n + 1, c))),
      pe_get_children = (\<lambda>k _ w. Some (Inr (replicate k ''x''), w)),
      pe_sleep = (\<lambda>_ (n, c). Some (Inr (), (n, n = 1))), pe_changed = snd, pe_put_changed = (\<lambda>b (n, _). (n, b)),
      pe_set_async = (\<lambda>_ w. w), pe_set = (\<lambda>_ w. w)\<rparr>"

theorem patient_quiet_witness:
  "patient_loop demo_patient_env ''/p'' 30 (0, False) = Some (Inr ([''x''], 1), (2, False))
   \<and> (\<exists>w0 w1. patient_read demo_patient_env ''/p'' w0 = Some (Inr ([''x''], 1), w1))"
proof -
  have "io_retry (zk_refuse :: (nat \<times> bool) zk) forever (\<lambda>w. Some (Inr xs, w)) w = Some (Inr xs, w)" for xs :: "string list" and w
    by (rule io_retry_forever(1)) (simp_all add: zk_refuse_def)
  then have read: "patient_read demo_patient_env ''/p'' (n, c) = Some (Inr (replicate n ''x'', n), (n + 1, c))" for n c
    by (simp add: patient_read_def demo_patient_env_def io_bind_def)
  have env: "pe_sleep demo_patient_env t (n, c) = Some (Inr (), (n, n = 1))" "pe_changed demo_patient_env w = snd w"
    "pe_put_changed demo_patient_env b (n, c) = (n, b)" for t n c w b
    by (simp_all add: demo_patient_env_def)
  have run: "patient_loop demo_patient_env ''/p'' 30 (0, False) = Some (Inr ([''x''], 1), (2, False))"
    by (subst patient_loop.simps, simp add: read env io_bind_def)
      (subst patient_loop.simps, simp add: read env io_bind_def numeral_2_eq_2)
  with patient_quiet [OF run] show ?thesis by blast
qed

end
