(* ===== verification/Cache.thy ===== *)
theory Cache
  imports World Paths States "HOL-Library.List_Lexorder" "HOL-Library.Char_ord"
begin

text \<open>
  \<^verbatim>\<open>kazoo/recipe/cache.py\<close>: the tree cache. The nodes are objects that refer to each other, so
  they live in a store and a reference is a number; the root is number 0. One operation is what
  runs in one go: a task of the background thread, a watch event, a session event, an answer
  that arrives, a call of the user.
\<close>

section \<open>The objects\<close>

datatype cache_state = LATENT | STARTED | CACHE_CLOSED
datatype tree_node_state = PENDING | LIVE | DEAD

datatype tree_event_type =
    NODE_ADDED | NODE_UPDATED | NODE_REMOVED
  | CONNECTION_SUSPENDED | CONNECTION_RECONNECTED | CONNECTION_LOST | INITIALIZED

type_synonym node_data = "string \<times> bytes option \<times> znode_stat"
type_synonym tree_event = "tree_event_type \<times> node_data option"

record tree_node =
  tn_path :: string
  tn_parent :: "nat option"
  tn_depth :: nat
  tn_children :: "(string \<times> nat) list"
  tn_state :: tree_node_state
  tn_data :: "node_data option"

datatype tree_method = TGet | TGetChildren | TExists

datatype tree_answer =
    GetAnswer "exc + bytes option \<times> znode_stat"
  | ChildrenAnswer "exc + string list"
  | ExistsAnswer "exc + znode_stat option"

fun answer_method :: "tree_answer \<Rightarrow> tree_method" where
  "answer_method (GetAnswer _) = TGet"
| "answer_method (ChildrenAnswer _) = TGetChildren"
| "answer_method (ExistsAnswer _) = TExists"

datatype cache_task =
    CreatedTask nat
  | ReconnectedTask nat
  | ResultTask nat string tree_answer
  | PublishTask tree_event
  | StopTask

text \<open>
  The cache with its store. \<open>tc_calls\<close> are the asynchronous calls of the client that are not
  answered, \<open>tc_unwatched\<close> the nodes whose watch was taken out of the client's tables,
  \<open>tc_delivered\<close> what the listeners were called with, \<open>tc_faults\<close> the exceptions that
  \<^verbatim>\<open>handle_exception\<close> took.
\<close>

record cache =
  tc_nodes :: "nat \<Rightarrow> tree_node"
  tc_next :: nat
  tc_state :: cache_state
  tc_outstanding :: int
  tc_initialized :: bool
  tc_running :: bool
  tc_queue :: "cache_task list"
  tc_calls :: "(nat \<times> tree_method \<times> string) list"
  tc_unwatched :: "nat list"
  tc_listeners :: "nat list"
  tc_delivered :: "(nat \<times> tree_event) list"
  tc_faults :: "exc list"

definition tree_node_new :: "string \<Rightarrow> (nat \<times> nat) option \<Rightarrow> tree_node" where
  "tree_node_new path parent =
     \<lparr>tn_path = path, tn_parent = map_option fst parent,
      tn_depth = (case parent of None \<Rightarrow> 0 | Some (_, depth) \<Rightarrow> depth + 1),
      tn_children = [], tn_state = PENDING, tn_data = None\<rparr>"

definition cache_init :: "string \<Rightarrow> cache" where
  "cache_init path =
     \<lparr>tc_nodes = (\<lambda>_. tree_node_new path None), tc_next = 1, tc_state = LATENT, tc_outstanding = 0,
      tc_initialized = False, tc_running = False, tc_queue = [], tc_calls = [], tc_unwatched = [],
      tc_listeners = [], tc_delivered = [], tc_faults = []\<rparr>"

definition put_node :: "nat \<Rightarrow> (tree_node \<Rightarrow> tree_node) \<Rightarrow> cache \<Rightarrow> cache" where
  "put_node n f s = s\<lparr>tc_nodes := (tc_nodes s)(n := f (tc_nodes s n))\<rparr>"

definition in_background :: "cache_task \<Rightarrow> cache \<Rightarrow> cache" where
  "in_background task s = s\<lparr>tc_queue := tc_queue s @ [task]\<rparr>"

definition publish_event :: "tree_event \<Rightarrow> cache \<Rightarrow> cache" where
  "publish_event event s = (if tc_state s = CACHE_CLOSED then s else in_background (PublishTask event) s)"

definition do_publish_event :: "tree_event \<Rightarrow> cache \<Rightarrow> cache" where
  "do_publish_event event s = s\<lparr>tc_delivered := tc_delivered s @ map (\<lambda>l. (l, event)) (tc_listeners s)\<rparr>"

section \<open>The nodes\<close>

definition call_client :: "tree_method \<Rightarrow> nat \<Rightarrow> cache \<Rightarrow> cache" where
  "call_client method n s =
     s\<lparr>tc_outstanding := tc_outstanding s + 1, tc_calls := tc_calls s @ [(n, method, tn_path (tc_nodes s n))]\<rparr>"

definition refresh :: "nat \<Rightarrow> cache \<Rightarrow> cache" where
  "refresh n s = call_client TGetChildren n (call_client TGet n s)"

definition on_created :: "nat \<Rightarrow> cache \<Rightarrow> cache" where
  "on_created n s = refresh n s"

definition reset_watchers_of :: "nat \<Rightarrow> cache \<Rightarrow> cache" where
  "reset_watchers_of n s = s\<lparr>tc_unwatched := tc_unwatched s @ [n]\<rparr>"

text \<open>
  The recursions over the tree are bounded by a depth; the number of nodes is enough, because a
  child is always younger than its parent.
\<close>

primrec on_reconnected :: "nat \<Rightarrow> nat \<Rightarrow> cache \<Rightarrow> cache" where
  "on_reconnected 0 n s = s"
| "on_reconnected (Suc d) n s =
     (let s = refresh n s in foldl (\<lambda>s c. on_reconnected d (snd c) s) s (tn_children (tc_nodes s n)))"

definition deleted_self :: "nat \<Rightarrow> node_data option \<Rightarrow> cache \<Rightarrow> cache" where
  "deleted_self n old_data s =
     (if tc_state s = CACHE_CLOSED then reset_watchers_of n s
      else
        let old_state = tn_state (tc_nodes s n);
            s = put_node n (\<lambda>x. x\<lparr>tn_state := DEAD\<rparr>) s;
            s = (if old_state = LIVE then publish_event (NODE_REMOVED, old_data) s else s)
        in case tn_parent (tc_nodes s n) of
             None \<Rightarrow> call_client TExists n s
           | Some p \<Rightarrow>
               let child = drop (length (tn_path (tc_nodes s p)) + 1) (tn_path (tc_nodes s n)) in
               if map_of (tn_children (tc_nodes s p)) child = Some n then
                 reset_watchers_of n
                   (put_node p (\<lambda>x. x\<lparr>tn_children := List.filter (\<lambda>e. fst e \<noteq> child) (tn_children x)\<rparr>) s)
               else s)"

primrec on_deleted :: "nat \<Rightarrow> nat \<Rightarrow> cache \<Rightarrow> cache" where
  "on_deleted 0 n s = s"
| "on_deleted (Suc d) n s =
     (let node = tc_nodes s n;
          s = put_node n (\<lambda>x. x\<lparr>tn_children := [], tn_data := None\<rparr>) s;
          s = foldl (\<lambda>s c. on_deleted d (snd c) s) s (tn_children node)
      in deleted_self n (tn_data node) s)"

definition node_deleted :: "nat \<Rightarrow> cache \<Rightarrow> cache" where
  "node_deleted n s = on_deleted (tc_next s) n s"

section \<open>Answers and watch events\<close>

definition add_child :: "nat \<Rightarrow> string \<Rightarrow> cache \<Rightarrow> string \<Rightarrow> cache" where
  "add_child n path s child =
     (if map_of (tn_children (tc_nodes s n)) child = None then
        (let c = tc_next s;
             s = s\<lparr>tc_next := c + 1,
                   tc_nodes := (tc_nodes s)(c := tree_node_new (path_join path [child]) (Some (n, tn_depth (tc_nodes s n))))\<rparr>;
             s = put_node n (\<lambda>x. x\<lparr>tn_children := tn_children x @ [(child, c)]\<rparr>) s
         in on_created c s)
      else s)"

definition data_arrived :: "nat \<Rightarrow> string \<Rightarrow> bytes option \<Rightarrow> znode_stat \<Rightarrow> cache \<Rightarrow> cache" where
  "data_arrived n path data stat s =
     (let node = tc_nodes s n;
          s = put_node n (\<lambda>x. x\<lparr>tn_data := Some (path, data, stat), tn_state := LIVE\<rparr>) s
      in if tn_state node = LIVE then
           (if (case tn_data node of None \<Rightarrow> True | Some (_, _, old) \<Rightarrow> mzxid old \<noteq> mzxid stat)
            then publish_event (NODE_UPDATED, Some (path, data, stat)) s else s)
         else publish_event (NODE_ADDED, Some (path, data, stat)) s)"

definition apply_answer :: "nat \<Rightarrow> string \<Rightarrow> tree_answer \<Rightarrow> cache \<Rightarrow> exc + cache" where
  "apply_answer n path answer s =
     (case answer of
        ExistsAnswer r \<Rightarrow>
          if tn_parent (tc_nodes s n) \<noteq> None then Inl PyAssertionError
          else Inr (case r of
              Inr (Some _) \<Rightarrow>
                on_created n (if tn_state (tc_nodes s n) = DEAD then put_node n (\<lambda>x. x\<lparr>tn_state := PENDING\<rparr>) s else s)
            | _ \<Rightarrow> s)
      | ChildrenAnswer r \<Rightarrow>
          Inr (case r of
              Inr children \<Rightarrow> foldl (add_child n path) s (sort children)
            | Inl e \<Rightarrow> if is_no_node e then node_deleted n s else s)
      | GetAnswer r \<Rightarrow>
          Inr (case r of
              Inr (data, stat) \<Rightarrow> data_arrived n path data stat s
            | Inl e \<Rightarrow> if is_no_node e then node_deleted n s else s))"

definition answer_done :: "cache \<Rightarrow> cache" where
  "answer_done s =
     (let s = s\<lparr>tc_outstanding := tc_outstanding s - 1\<rparr>
      in if tc_outstanding s = 0 \<and> \<not> tc_initialized s
         then publish_event (INITIALIZED, None) (s\<lparr>tc_initialized := True\<rparr>) else s)"

definition process_result :: "nat \<Rightarrow> string \<Rightarrow> tree_answer \<Rightarrow> cache \<Rightarrow> exc + cache" where
  "process_result n path answer s = ebind (apply_answer n path answer s) (\<lambda>s. Inr (answer_done s))"

text \<open>\<^verbatim>\<open>handle_exception\<close>: the fault listeners get the exception, the thread goes on.\<close>

definition handled :: "cache \<Rightarrow> exc + cache \<Rightarrow> cache" where
  "handled s r = (case r of Inl e \<Rightarrow> s\<lparr>tc_faults := tc_faults s @ [e]\<rparr> | Inr s' \<Rightarrow> s')"

definition process_watch :: "nat \<Rightarrow> event_type \<Rightarrow> cache \<Rightarrow> cache" where
  "process_watch n ev s = handled s (case ev of
       CREATED \<Rightarrow> if tn_parent (tc_nodes s n) \<noteq> None then Inl PyAssertionError else Inr (on_created n s)
     | DELETED \<Rightarrow> Inr (node_deleted n s)
     | CHANGED \<Rightarrow> Inr (call_client TGet n s)
     | CHILD \<Rightarrow> Inr (call_client TGetChildren n s)
     | NONE \<Rightarrow> Inr s)"

text \<open>An answer to a call: the client's callback puts the processing on the queue.\<close>

definition answer_call :: "nat \<Rightarrow> tree_answer \<Rightarrow> cache \<Rightarrow> cache" where
  "answer_call k answer s =
     (if k < length (tc_calls s) then
        (case tc_calls s ! k of (n, method, path) \<Rightarrow>
           if method = answer_method answer
           then in_background (ResultTask n path answer)
                  (s\<lparr>tc_calls := take k (tc_calls s) @ drop (Suc k) (tc_calls s)\<rparr>)
           else s)
      else s)"

section \<open>The cache\<close>

text \<open>One turn of \<^verbatim>\<open>_do_background\<close>.\<close>

definition do_background :: "cache \<Rightarrow> cache" where
  "do_background s =
     (if \<not> tc_running s then s
      else case tc_queue s of
        [] \<Rightarrow> s
      | task # queue \<Rightarrow>
          let s = s\<lparr>tc_queue := queue\<rparr> in
          (case task of
             StopTask \<Rightarrow> s\<lparr>tc_running := False\<rparr>
           | CreatedTask n \<Rightarrow> on_created n s
           | ReconnectedTask n \<Rightarrow> on_reconnected (tc_next s) n s
           | ResultTask n path answer \<Rightarrow> handled s (process_result n path answer s)
           | PublishTask event \<Rightarrow> do_publish_event event s))"

text \<open>\<open>ensured\<close> is the outcome of \<^verbatim>\<open>ensure_path\<close>.\<close>

definition cache_start :: "exc + bool \<Rightarrow> bool \<Rightarrow> cache \<Rightarrow> (exc + unit) \<times> cache" where
  "cache_start ensured is_connected s =
     (if tc_state s \<noteq> LATENT then (Inl KazooException, s)
      else
        let s = s\<lparr>tc_state := STARTED, tc_running := True\<rparr> in
        case ensured of
          Inl e \<Rightarrow> (Inl e, s)
        | Inr _ \<Rightarrow> (Inr (), if is_connected then in_background (CreatedTask 0) s else s))"

definition cache_close :: "cache \<Rightarrow> cache" where
  "cache_close s =
     (if tc_state s = STARTED
      then node_deleted 0 (in_background StopTask (s\<lparr>tc_state := CACHE_CLOSED\<rparr>))
      else s)"

definition cache_listen :: "nat \<Rightarrow> cache \<Rightarrow> cache" where
  "cache_listen l s = s\<lparr>tc_listeners := tc_listeners s @ [l]\<rparr>"

definition cache_session_watcher :: "kazoo_state \<Rightarrow> cache \<Rightarrow> cache" where
  "cache_session_watcher state s =
     (case state of
        SUSPENDED \<Rightarrow> publish_event (CONNECTION_SUSPENDED, None) s
      | KAZOO_CONNECTED \<Rightarrow> publish_event (CONNECTION_RECONNECTED, None) (in_background (ReconnectedTask 0) s)
      | LOST \<Rightarrow> publish_event (CONNECTION_LOST, None) (s\<lparr>tc_initialized := False\<rparr>))"

section \<open>Looking up\<close>

fun walk :: "cache \<Rightarrow> nat \<Rightarrow> string list \<Rightarrow> nat option" where
  "walk s n [] = Some n"
| "walk s n (name # names) =
     (case map_of (tn_children (tc_nodes s n)) name of None \<Rightarrow> None | Some c \<Rightarrow> walk s c names)"

definition cache_find_node :: "cache \<Rightarrow> string \<Rightarrow> exc + nat option" where
  "cache_find_node s path =
     (let root = tn_path (tc_nodes s 0) in
      if \<not> starts_with path root then Inl PyValueError
      else
        let stripped = rstrip slash (lstrip slash (drop (length root) path))
        in Inr (walk s 0 (List.filter (\<lambda>p. p \<noteq> []) (split_on slash stripped))))"

definition cache_get_data :: "cache \<Rightarrow> string \<Rightarrow> node_data option \<Rightarrow> exc + node_data option" where
  "cache_get_data s path dflt =
     ebind (cache_find_node s path) (\<lambda>n. Inr (case n of None \<Rightarrow> dflt | Some n \<Rightarrow> tn_data (tc_nodes s n)))"

definition cache_get_children :: "cache \<Rightarrow> string \<Rightarrow> string set option \<Rightarrow> exc + string set option" where
  "cache_get_children s path dflt =
     ebind (cache_find_node s path) (\<lambda>n. Inr (case n of
        None \<Rightarrow> dflt | Some n \<Rightarrow> Some (fst ` set (tn_children (tc_nodes s n)))))"

end
