(* ===== verification/CacheRefine.thy ===== *)
theory CacheRefine
  imports CacheProps
begin

text \<open>
  The tree cache as a copy of the server's tree: when nothing changes on the server, a cache
  that has settled holds exactly the nodes of the subtree, with their data and children, whatever
  the order of the answers.
\<close>

section \<open>A server that does not change\<close>

record server_tree =
  srv_node :: "string \<Rightarrow> (bytes option \<times> znode_stat) option"
  srv_kids :: "string \<Rightarrow> string set"

text \<open>The path of the node that a list of names leads to, and whether it is there.\<close>

fun tree_path :: "string \<Rightarrow> string list \<Rightarrow> string" where
  "tree_path p [] = p"
| "tree_path p (k # ks) = tree_path (path_join p [k]) ks"

fun tree_has :: "server_tree \<Rightarrow> string \<Rightarrow> string list \<Rightarrow> bool" where
  "tree_has srv p [] \<longleftrightarrow> True"
| "tree_has srv p (k # ks) \<longleftrightarrow> k \<in> srv_kids srv p \<and> tree_has srv (path_join p [k]) ks"

text \<open>The root exists, and a listed child does.\<close>

definition server_tree_ok :: "server_tree \<Rightarrow> string \<Rightarrow> bool" where
  "server_tree_ok srv path \<longleftrightarrow> srv_node srv path \<noteq> None
     \<and> (\<forall>p k. srv_node srv p \<noteq> None \<longrightarrow> k \<in> srv_kids srv p \<longrightarrow> srv_node srv (path_join p [k]) \<noteq> None)"

definition truthful :: "server_tree \<Rightarrow> string \<Rightarrow> tree_answer \<Rightarrow> bool" where
  "truthful srv p answer = (case answer of
      GetAnswer r \<Rightarrow> (case r of Inl _ \<Rightarrow> False | Inr d \<Rightarrow> srv_node srv p = Some d)
    | ChildrenAnswer r \<Rightarrow> (case r of Inl _ \<Rightarrow> False | Inr ks \<Rightarrow> set ks = srv_kids srv p)
    | ExistsAnswer r \<Rightarrow> False)"

text \<open>A run without changes: no watch fires, the answers are true, in any order.\<close>

definition quiet_event :: "server_tree \<Rightarrow> cache \<Rightarrow> cache_event \<Rightarrow> bool" where
  "quiet_event srv s e = (case e of
      CAnswer k answer \<Rightarrow> k < length (tc_calls s) \<longrightarrow> truthful srv (snd (snd (tc_calls s ! k))) answer
    | CWatch _ _ \<Rightarrow> False
    | CClose \<Rightarrow> False
    | _ \<Rightarrow> True)"

fun quiet_run :: "server_tree \<Rightarrow> cache \<Rightarrow> cache_event list \<Rightarrow> bool" where
  "quiet_run srv s [] \<longleftrightarrow> True"
| "quiet_run srv s (e # es) \<longleftrightarrow> quiet_event srv s e \<and> quiet_run srv (cache_step s e) es"

section \<open>What is known and what is asked for\<close>

text \<open>
  A node is asked for its data or children while a call or its answer is under way, and the root
  also while its creation waits.
\<close>

fun task_asks :: "cache_task \<Rightarrow> (nat \<times> tree_method) set" where
  "task_asks (ResultTask n _ answer) = {(n, answer_method answer)}"
| "task_asks (CreatedTask n) = {(n, TGet), (n, TGetChildren)}"
| "task_asks _ = {}"

definition asks :: "cache \<Rightarrow> (nat \<times> tree_method) set" where
  "asks s = (\<lambda>(n, m, _). (n, m)) ` set (tc_calls s) \<union> (\<Union>t \<in> set (tc_queue s). task_asks t)"

definition known :: "server_tree \<Rightarrow> tree_node \<Rightarrow> tree_method \<Rightarrow> bool" where
  "known srv x m = (case m of
      TGet \<Rightarrow> tn_data x = map_option (Pair (tn_path x)) (srv_node srv (tn_path x))
    | TGetChildren \<Rightarrow> fst ` set (tn_children x) = srv_kids srv (tn_path x)
    | TExists \<Rightarrow> True)"

fun call_true :: "cache \<Rightarrow> nat \<times> tree_method \<times> string \<Rightarrow> bool" where
  "call_true s (n, m, p) \<longleftrightarrow> n < tc_next s \<and> p = tn_path (tc_nodes s n) \<and> m \<noteq> TExists"

fun task_true :: "server_tree \<Rightarrow> cache \<Rightarrow> cache_task \<Rightarrow> bool" where
  "task_true srv s (ResultTask n p answer) \<longleftrightarrow> n < tc_next s \<and> p = tn_path (tc_nodes s n) \<and> truthful srv p answer"
| "task_true srv s (CreatedTask n) \<longleftrightarrow> n < tc_next s"
| "task_true srv s (ReconnectedTask n) \<longleftrightarrow> n < tc_next s"
| "task_true srv s (PublishTask _) \<longleftrightarrow> True"
| "task_true srv s StopTask \<longleftrightarrow> False"

definition copy_node :: "server_tree \<Rightarrow> cache \<Rightarrow> nat \<Rightarrow> bool" where
  "copy_node srv s n \<longleftrightarrow> srv_node srv (tn_path (tc_nodes s n)) \<noteq> None
     \<and> (\<forall>(k, c) \<in> set (tn_children (tc_nodes s n)). c < tc_next s \<and> k \<in> srv_kids srv (tn_path (tc_nodes s n))
          \<and> tn_path (tc_nodes s c) = path_join (tn_path (tc_nodes s n)) [k])"

text \<open>\<open>H\<close> are the questions whose answer is just being applied.\<close>

definition copy_inv :: "server_tree \<Rightarrow> string \<Rightarrow> (nat \<times> tree_method) set \<Rightarrow> cache \<Rightarrow> bool" where
  "copy_inv srv path H s \<longleftrightarrow> 0 < tc_next s \<and> tn_path (tc_nodes s 0) = path
     \<and> (\<forall>c \<in> set (tc_calls s). call_true s c) \<and> (\<forall>t \<in> set (tc_queue s). task_true srv s t)
     \<and> (\<forall>n < tc_next s. copy_node srv s n)
     \<and> (\<forall>n < tc_next s. \<forall>m. known srv (tc_nodes s n) m \<or> (n, m) \<in> asks s \<union> H)"

text \<open>The tree itself does not change in most steps.\<close>

lemma copy_frame:
  assumes "copy_inv srv path H s" and "tc_next s' = tc_next s" and "tc_nodes s' = tc_nodes s"
    and "\<And>c. c \<in> set (tc_calls s') \<Longrightarrow> call_true s c" and "\<And>t. t \<in> set (tc_queue s') \<Longrightarrow> task_true srv s t"
    and "asks s \<union> H \<subseteq> asks s' \<union> H'"
  shows "copy_inv srv path H' s'"
proof -
  have call: "call_true s' c = call_true s c" for c using assms(2,3) by (cases c) simp
  have task: "task_true srv s' t = task_true srv s t" for t using assms(2,3) by (cases t) simp_all
  have node: "copy_node srv s' n = copy_node srv s n" for n using assms(2,3) by (simp add: copy_node_def)
  show ?thesis using assms unfolding copy_inv_def call task node assms(2,3) by blast
qed

lemma copy_calls: "copy_inv srv path H s \<Longrightarrow> c \<in> set (tc_calls s) \<Longrightarrow> call_true s c"
  by (simp add: copy_inv_def)

lemma copy_tasks: "copy_inv srv path H s \<Longrightarrow> t \<in> set (tc_queue s) \<Longrightarrow> task_true srv s t"
  by (simp add: copy_inv_def)

lemma asks_simps [simp]:
  "asks (call_client m n s) = insert (n, m) (asks s)" "asks (in_background t s) = asks s \<union> task_asks t"
  "asks (s\<lparr>tc_outstanding := i\<rparr>) = asks s" "asks (s\<lparr>tc_initialized := b\<rparr>) = asks s"
  "asks (s\<lparr>tc_delivered := ds\<rparr>) = asks s" "asks (s\<lparr>tc_listeners := ls\<rparr>) = asks s"
  "asks (s\<lparr>tc_nodes := ns\<rparr>) = asks s" "asks (s\<lparr>tc_next := k\<rparr>) = asks s" "asks (put_node n f s) = asks s"
  by (auto simp: asks_def call_client_def in_background_def put_node_def)

lemma copy_child:
  assumes "copy_inv srv path H s" and "n < tc_next s" and "(k, c) \<in> set (tn_children (tc_nodes s n))"
  shows "c < tc_next s \<and> k \<in> srv_kids srv (tn_path (tc_nodes s n)) \<and> tn_path (tc_nodes s c) = path_join (tn_path (tc_nodes s n)) [k]"
proof -
  have "copy_node srv s n" using assms(1,2) by (simp add: copy_inv_def)
  then show ?thesis using assms(3) unfolding copy_node_def by blast
qed

lemma copy_call_client:
  assumes "copy_inv srv path (insert (n, m) H) s" and "n < tc_next s" and "m \<noteq> TExists"
  shows "copy_inv srv path H (call_client m n s)"
proof (rule copy_frame [OF assms(1)])
  show "call_true s c" if "c \<in> set (tc_calls (call_client m n s))" for c
  proof (cases "c \<in> set (tc_calls s)")
    case False
    then have "c = (n, m, tn_path (tc_nodes s n))" using that by (simp add: call_client_def)
    then show ?thesis using assms(2,3) by simp
  qed (use copy_calls [OF assms(1)] in simp)
qed (use copy_tasks [OF assms(1)] in \<open>auto simp: call_client_def asks_simps(1) [unfolded call_client_def]\<close>)

lemma copy_mono: "copy_inv srv path H s \<Longrightarrow> H \<subseteq> H' \<Longrightarrow> copy_inv srv path H' s"
  unfolding copy_inv_def by blast

lemma copy_refresh:
  assumes "copy_inv srv path ({(n, TGet), (n, TGetChildren)} \<union> H) s" and "n < tc_next s"
  shows "copy_inv srv path H (refresh n s)"
  unfolding refresh_def using assms by (intro copy_call_client) simp_all

lemma copy_background:
  assumes "copy_inv srv path H s" and "task_true srv s t"
  shows "copy_inv srv path H (in_background t s)"
proof (rule copy_frame [OF assms(1)])
  show "task_true srv s t'" if "t' \<in> set (tc_queue (in_background t s))" for t'
    using that assms(2) copy_tasks [OF assms(1)] by (auto simp: in_background_def)
  show "call_true s c" if "c \<in> set (tc_calls (in_background t s))" for c
    using that copy_calls [OF assms(1)] by (simp add: in_background_def)
qed (auto simp: in_background_def asks_simps(2) [unfolded in_background_def])

lemma copy_publish: "copy_inv srv path H s \<Longrightarrow> copy_inv srv path H (publish_event e s)"
  by (simp add: publish_event_def copy_background)

lemma copy_same:
  assumes "copy_inv srv path H s"
  shows "copy_inv srv path H (s\<lparr>tc_outstanding := i\<rparr>)" and "copy_inv srv path H (s\<lparr>tc_initialized := b\<rparr>)"
    and "copy_inv srv path H (s\<lparr>tc_delivered := ds\<rparr>)" and "copy_inv srv path H (s\<lparr>tc_listeners := ls\<rparr>)"
proof -
  have frame: "copy_inv srv path H s'"
    if "tc_next s' = tc_next s" "tc_nodes s' = tc_nodes s" "tc_calls s' = tc_calls s" "tc_queue s' = tc_queue s" "asks s' = asks s"
    for s'
    by (rule copy_frame [OF assms]) (use that copy_calls [OF assms] copy_tasks [OF assms] in auto)
  show "copy_inv srv path H (s\<lparr>tc_outstanding := i\<rparr>)" and "copy_inv srv path H (s\<lparr>tc_initialized := b\<rparr>)"
    and "copy_inv srv path H (s\<lparr>tc_delivered := ds\<rparr>)" and "copy_inv srv path H (s\<lparr>tc_listeners := ls\<rparr>)"
    by (rule frame; simp)+
qed

section \<open>Applying an answer\<close>

lemma copy_data_arrived:
  assumes "copy_inv srv path (insert (n, TGet) H) s" and "n < tc_next s"
    and "srv_node srv (tn_path (tc_nodes s n)) = Some (d, st)"
  shows "copy_inv srv path H (data_arrived n (tn_path (tc_nodes s n)) d st s)"
proof -
  let ?p = "tn_path (tc_nodes s n)"
  let ?s = "put_node n (\<lambda>x. x\<lparr>tn_data := Some (?p, d, st), tn_state := LIVE\<rparr>) s"
  have path: "tn_path (tc_nodes ?s k) = tn_path (tc_nodes s k)" "tn_children (tc_nodes ?s k) = tn_children (tc_nodes s k)"
    "tc_next ?s = tc_next s" "tc_calls ?s = tc_calls s" "tc_queue ?s = tc_queue s" for k
    by (simp_all add: put_node_def)
  have call: "call_true ?s c = call_true s c" for c by (cases c) (simp add: path)
  have task: "task_true srv ?s t = task_true srv s t" for t by (cases t) (simp_all add: path)
  have node: "copy_node srv ?s k = copy_node srv s k" for k by (simp add: copy_node_def path)
  have "known srv (tc_nodes ?s k) m \<longleftrightarrow> known srv (tc_nodes s k) m \<or> (k, m) = (n, TGet)" for k m
    using assms(3) by (cases m) (auto simp: known_def put_node_def)
  then have "copy_inv srv path H ?s"
    using assms(1) unfolding copy_inv_def call task node path asks_simps by blast
  then show ?thesis by (simp add: data_arrived_def Let_def copy_publish)
qed

text \<open>A child that the server lists is entered and asked for.\<close>

definition child_names :: "cache \<Rightarrow> nat \<Rightarrow> string set" where
  "child_names s n = fst ` set (tn_children (tc_nodes s n))"

lemma copy_add_child:
  assumes ok: "server_tree_ok srv path" and inv: "copy_inv srv path H s" and n: "n < tc_next s"
    and k: "k \<in> srv_kids srv (tn_path (tc_nodes s n))"
  defines "s' \<equiv> add_child n (tn_path (tc_nodes s n)) s k"
  shows "copy_inv srv path H s' \<and> n < tc_next s' \<and> tn_path (tc_nodes s' n) = tn_path (tc_nodes s n)
    \<and> child_names s' n = insert k (child_names s n)"
proof (cases "map_of (tn_children (tc_nodes s n)) k")
  case (Some c)
  then have "k \<in> child_names s n" by (force simp: child_names_def dest: map_of_SomeD)
  then show ?thesis using Some inv n by (auto simp: s'_def add_child_def)
next
  case None
  let ?c = "tc_next s" let ?p = "tn_path (tc_nodes s n)"
  let ?new = "tree_node_new (path_join ?p [k]) (Some (n, tn_depth (tc_nodes s n)))"
  let ?s1 = "s\<lparr>tc_next := ?c + 1, tc_nodes := (tc_nodes s)(?c := ?new)\<rparr>"
  define s2 where "s2 = put_node n (\<lambda>x. x\<lparr>tn_children := tn_children x @ [(k, ?c)]\<rparr>) ?s1"
  have s': "s' = refresh ?c s2" using None by (simp add: s'_def s2_def add_child_def Let_def on_created_def)
  have path: "tn_path (tc_nodes s2 i) = (if i = ?c then path_join ?p [k] else tn_path (tc_nodes s i))"
    "tn_data (tc_nodes s2 i) = (if i = ?c then None else tn_data (tc_nodes s i))"
    "tn_children (tc_nodes s2 i) = (if i = ?c then [] else if i = n then tn_children (tc_nodes s n) @ [(k, ?c)] else tn_children (tc_nodes s i))"
    "tc_next s2 = Suc ?c" "tc_calls s2 = tc_calls s" "tc_queue s2 = tc_queue s" for i
    using n by (simp_all add: s2_def put_node_def tree_node_new_def del: path_join.simps)
  have call: "call_true s c \<Longrightarrow> call_true s2 c" for c by (cases c) (simp add: path del: path_join.simps)
  have task: "task_true srv s t \<Longrightarrow> task_true srv s2 t" for t by (cases t) (simp_all add: path del: path_join.simps)
  have pn: "srv_node srv ?p \<noteq> None" using inv n by (simp add: copy_inv_def copy_node_def)
  then have "srv_node srv (path_join ?p [k]) \<noteq> None" using ok k unfolding server_tree_ok_def by blast
  then have node_c: "copy_node srv s2 ?c" by (simp add: copy_node_def path del: path_join.simps)
  have node: "copy_node srv s2 i" if "i < ?c" for i
  proof -
    have old: "copy_node srv s i" using inv that by (simp add: copy_inv_def)
    have "c < ?c" if "(k', c) \<in> set (tn_children (tc_nodes s i))" for k' c
      using old that unfolding copy_node_def by blast
    then show ?thesis using old that n k unfolding copy_node_def
      by (fastforce simp: path simp del: path_join.simps split: if_splits)
  qed
  have asks2: "asks s2 = asks s" by (simp add: s2_def)
  have old: "known srv (tc_nodes s2 i) m" if "known srv (tc_nodes s i) m" "i < ?c" for i m
    using that n k by (cases m) (auto simp: known_def path simp del: path_join.simps)
  have "known srv (tc_nodes s2 i) m \<or> (i, m) \<in> asks s2 \<union> ({(?c, TGet), (?c, TGetChildren)} \<union> H)" if "i < Suc ?c" for i m
  proof (cases "i = ?c")
    case True
    then show ?thesis by (cases m) (simp_all add: known_def)
  next
    case False
    then have i: "i < ?c" using that by simp
    then have "known srv (tc_nodes s i) m \<or> (i, m) \<in> asks s \<union> H" using inv unfolding copy_inv_def by blast
    then show ?thesis using old [OF _ i] asks2 by blast
  qed
  then have "copy_inv srv path ({(?c, TGet), (?c, TGetChildren)} \<union> H) s2"
    using inv call task node node_c n unfolding copy_inv_def path less_Suc_eq by auto
  then have "copy_inv srv path H s'" unfolding s' by (rule copy_refresh) (simp add: path)
  then show ?thesis using n by (simp add: s' path child_names_def del: path_join.simps)
qed

lemma copy_add_children:
  assumes "server_tree_ok srv path" and "copy_inv srv path H s" and "n < tc_next s"
    and "set ks \<subseteq> srv_kids srv (tn_path (tc_nodes s n))"
  defines "s' \<equiv> foldl (add_child n (tn_path (tc_nodes s n))) s ks"
  shows "copy_inv srv path H s' \<and> n < tc_next s' \<and> tn_path (tc_nodes s' n) = tn_path (tc_nodes s n)
    \<and> child_names s' n = set ks \<union> child_names s n"
  using assms(2-4) unfolding s'_def
proof (induction ks arbitrary: s)
  case (Cons k ks)
  let ?s = "add_child n (tn_path (tc_nodes s n)) s k"
  have step: "copy_inv srv path H ?s" "n < tc_next ?s" "tn_path (tc_nodes ?s n) = tn_path (tc_nodes s n)"
    "child_names ?s n = insert k (child_names s n)"
    using copy_add_child [OF assms(1) Cons.prems(1,2), of k] Cons.prems(3) by simp_all
  show ?case using Cons.IH [OF step(1,2)] Cons.prems(3) step(3,4) by simp
qed simp

lemma copy_children_arrived:
  assumes "server_tree_ok srv path" and "copy_inv srv path (insert (n, TGetChildren) H) s" and "n < tc_next s"
    and "set ks = srv_kids srv (tn_path (tc_nodes s n))"
  shows "copy_inv srv path H (foldl (add_child n (tn_path (tc_nodes s n))) s ks)"
proof -
  let ?s = "foldl (add_child n (tn_path (tc_nodes s n))) s ks"
  have s': "copy_inv srv path (insert (n, TGetChildren) H) ?s" "n < tc_next ?s"
    "tn_path (tc_nodes ?s n) = tn_path (tc_nodes s n)" "child_names ?s n = set ks \<union> child_names s n"
    using copy_add_children [OF assms(1-3)] assms(4) by simp_all
  have "child_names s n \<subseteq> srv_kids srv (tn_path (tc_nodes s n))"
    using copy_child [OF assms(2,3)] unfolding child_names_def by auto
  then have "known srv (tc_nodes ?s n) TGetChildren"
    using s' assms(4) by (simp add: known_def child_names_def sup.absorb1)
  then show ?thesis using s'(1) unfolding copy_inv_def by blast
qed

lemma copy_answer:
  assumes "server_tree_ok srv path" and "copy_inv srv path {(n, answer_method answer)} s"
    and "task_true srv s (ResultTask n p answer)"
  obtains s' where "apply_answer n p answer s = Inr s'" and "copy_inv srv path {} s'"
proof (cases answer)
  case (GetAnswer r)
  then obtain d st where r: "r = Inr (d, st)" and "srv_node srv p = Some (d, st)"
    using assms(3) by (cases r) (auto simp: truthful_def)
  then have "copy_inv srv path {} (data_arrived n p d st s)"
    using copy_data_arrived [of srv path n "{}" s d st] assms(2,3) GetAnswer by simp
  then show ?thesis using that GetAnswer r by (simp add: apply_answer_def)
next
  case (ChildrenAnswer r)
  then obtain ks where r: "r = Inr ks" and "set ks = srv_kids srv p"
    using assms(3) by (cases r) (auto simp: truthful_def)
  then have "copy_inv srv path {} (foldl (add_child n p) s (sort ks))"
    using copy_children_arrived [of srv path n "{}" s "sort ks"] assms ChildrenAnswer by simp
  then show ?thesis using that ChildrenAnswer r by (simp add: apply_answer_def)
qed (use assms(3) in \<open>simp add: truthful_def\<close>)

lemma copy_answer_done: "copy_inv srv path H s \<Longrightarrow> copy_inv srv path H (answer_done s)"
  by (simp add: answer_done_def Let_def copy_publish copy_same)

section \<open>The steps\<close>

lemma nodes_on_reconnected: "tc_nodes (on_reconnected d n s) = tc_nodes s \<and> tc_next (on_reconnected d n s) = tc_next s"
proof (induction d arbitrary: n s)
  case (Suc d)
  have "tc_nodes (foldl (\<lambda>s c. on_reconnected d (snd c) s) s' cs) = tc_nodes s'
      \<and> tc_next (foldl (\<lambda>s c. on_reconnected d (snd c) s) s' cs) = tc_next s'" for s' and cs :: "(string \<times> nat) list"
    by (rule foldl_keeps [where P = "\<lambda>t. tc_nodes t = tc_nodes s' \<and> tc_next t = tc_next s'"]) (simp_all add: Suc)
  then show ?case by (simp add: Let_def)
qed simp

lemma copy_reconnected: "copy_inv srv path H s \<Longrightarrow> n < tc_next s \<Longrightarrow> copy_inv srv path H (on_reconnected d n s)"
proof (induction d arbitrary: n s)
  case (Suc d)
  let ?kids = "tn_children (tc_nodes s n)"
  have kids: "snd c < tc_next s" if "c \<in> set ?kids" for c
    using copy_child [OF Suc.prems, of "fst c" "snd c"] that by simp
  have ref: "copy_inv srv path H (refresh n s)"
    using copy_refresh [OF copy_mono [OF Suc.prems(1)] Suc.prems(2)] by blast
  have "copy_inv srv path H (foldl (\<lambda>s c. on_reconnected d (snd c) s) (refresh n s) ?kids)
      \<and> tc_next (foldl (\<lambda>s c. on_reconnected d (snd c) s) (refresh n s) ?kids) = tc_next s"
  proof (rule foldl_keeps [where P = "\<lambda>t. copy_inv srv path H t \<and> tc_next t = tc_next s"])
    show "copy_inv srv path H (refresh n s) \<and> tc_next (refresh n s) = tc_next s" using ref by simp
    fix u c assume "copy_inv srv path H u \<and> tc_next u = tc_next s" "c \<in> set ?kids"
    then show "copy_inv srv path H (on_reconnected d (snd c) u) \<and> tc_next (on_reconnected d (snd c) u) = tc_next s"
      using Suc.IH kids nodes_on_reconnected by simp
  qed
  then show ?case by (simp add: Let_def)
qed simp

lemma copy_pop:
  assumes "copy_inv srv path {} s" and "tc_queue s = t # q"
  shows "copy_inv srv path (task_asks t) (s\<lparr>tc_queue := q\<rparr>)"
proof (rule copy_frame [OF assms(1)])
  show "asks s \<union> {} \<subseteq> asks (s\<lparr>tc_queue := q\<rparr>) \<union> task_asks t"
    by (simp add: asks_def assms(2) Un_ac)
qed (use assms copy_calls [OF assms(1)] copy_tasks [OF assms(1)] in auto)

lemma copy_do_background:
  assumes "server_tree_ok srv path" and "copy_inv srv path {} s"
  shows "copy_inv srv path {} (do_background s)"
proof (cases "tc_running s \<and> tc_queue s \<noteq> []")
  case True
  then obtain t q where q: "tc_queue s = t # q" by (cases "tc_queue s") auto
  let ?s = "s\<lparr>tc_queue := q\<rparr>"
  note pop = copy_pop [OF assms(2) q]
  have "task_true srv s t" using copy_tasks [OF assms(2)] q by simp
  then have t: "task_true srv ?s t" by (cases t) simp_all
  show ?thesis
  proof (cases t)
    case (ResultTask n p answer)
    obtain s' where "apply_answer n p answer ?s = Inr s'" and "copy_inv srv path {} s'"
      using copy_answer [OF assms(1), of n answer ?s p] pop t ResultTask by auto
    then show ?thesis using True q ResultTask
      by (simp add: do_background_def process_result_def handled_def copy_answer_done)
  next
    case (CreatedTask n)
    then show ?thesis using True q pop t copy_refresh [of srv path n "{}" ?s]
      by (simp add: do_background_def on_created_def)
  next
    case (ReconnectedTask n)
    then show ?thesis using True q pop t copy_reconnected [of srv path "{}" ?s] by (simp add: do_background_def)
  next
    case (PublishTask e)
    then show ?thesis using True q pop copy_same(3) [of srv path "{}" ?s]
      by (simp add: do_background_def do_publish_event_def)
  qed (use t in simp)
qed (use assms(2) in \<open>auto simp: do_background_def\<close>)

lemma set_remove_at: "k < length xs \<Longrightarrow> set xs = insert (xs ! k) (set (take k xs @ drop (Suc k) xs))"
  using arg_cong [OF id_take_nth_drop [of k xs], of set] by simp

lemma copy_answer_call:
  assumes "copy_inv srv path {} s" and "quiet_event srv s (CAnswer k answer)"
  shows "copy_inv srv path {} (answer_call k answer s)"
proof (cases "k < length (tc_calls s) \<and> fst (snd (tc_calls s ! k)) = answer_method answer")
  case True
  obtain n m p where c: "tc_calls s ! k = (n, m, p)" by (cases "tc_calls s ! k")
  let ?calls = "take k (tc_calls s) @ drop (Suc k) (tc_calls s)"
  let ?s = "in_background (ResultTask n p answer) (s\<lparr>tc_calls := ?calls\<rparr>)"
  have calls: "set (tc_calls s) = insert (n, m, p) (set ?calls)" using set_remove_at [of k "tc_calls s"] True c by simp
  then have call: "call_true s (n, m, p)" using copy_calls [OF assms(1)] by blast
  have "copy_inv srv path {} ?s"
  proof (rule copy_frame [OF assms(1)])
    show "call_true s c" if "c \<in> set (tc_calls ?s)" for c
      using that copy_calls [OF assms(1)] calls by (simp add: in_background_def)
    show "task_true srv s t" if "t \<in> set (tc_queue ?s)" for t
      using that copy_tasks [OF assms(1)] call assms(2) True c by (auto simp: in_background_def quiet_event_def)
    show "asks s \<union> {} \<subseteq> asks ?s \<union> {}" using True c unfolding asks_simps by (auto simp: asks_def calls)
  qed (simp_all add: in_background_def)
  then show ?thesis using True c by (simp add: answer_call_def)
next
  case False
  then have "answer_call k answer s = s" by (auto simp: answer_call_def split: prod.splits)
  then show ?thesis using assms by simp
qed

lemma copy_session: "copy_inv srv path {} s \<Longrightarrow> copy_inv srv path {} (cache_session_watcher state s)"
  by (cases state) (simp_all add: cache_session_watcher_def copy_publish copy_same copy_background copy_inv_def [of srv path "{}" s])

lemma copy_step:
  assumes "server_tree_ok srv path" and "copy_inv srv path {} s" and "quiet_event srv s e"
  shows "copy_inv srv path {} (cache_step s e)"
  using assms copy_do_background [OF assms(1,2)] copy_answer_call [OF assms(2)] copy_session [OF assms(2)] copy_same(4) [OF assms(2)]
  by (cases e) (simp_all add: cache_listen_def quiet_event_def [of srv s "CWatch _ _"] quiet_event_def [of srv s CClose])

lemma copy_run:
  "server_tree_ok srv path \<Longrightarrow> copy_inv srv path {} s \<Longrightarrow> quiet_run srv s es \<Longrightarrow> copy_inv srv path {} (foldl cache_step s es)"
  by (induction es arbitrary: s) (simp_all add: copy_step)

lemma copy_start:
  assumes "server_tree_ok srv path"
  shows "copy_inv srv path {} (snd (cache_start (Inr b) True (cache_init path)))"
proof -
  let ?s = "snd (cache_start (Inr b) True (cache_init path))"
  have "known srv (tc_nodes ?s 0) m \<or> (0, m) \<in> asks ?s" for m
    by (cases m) (simp_all add: cache_start_def cache_init_def in_background_def asks_def known_def Let_def)
  moreover have "copy_node srv ?s 0" "tc_next ?s = 1" "tc_calls ?s = []" "tc_queue ?s = [CreatedTask 0]" "tn_path (tc_nodes ?s 0) = path"
    using assms by (simp_all add: server_tree_ok_def copy_node_def cache_start_def cache_init_def in_background_def tree_node_new_def Let_def)
  ultimately show ?thesis unfolding copy_inv_def by simp
qed

section \<open>A settled cache\<close>

lemma settled_known:
  assumes "copy_inv srv path {} s" and "tc_calls s = []" and "tc_queue s = []" and "n < tc_next s"
  shows "known srv (tc_nodes s n) m"
proof -
  have "asks s = {}" using assms(2,3) by (simp add: asks_def)
  then show ?thesis using assms(1,4) unfolding copy_inv_def by auto
qed

lemma walk_settled:
  assumes "copy_inv srv path {} s" and "tc_calls s = []" and "tc_queue s = []" and "n < tc_next s"
  shows "case walk s n ks of
      None \<Rightarrow> \<not> tree_has srv (tn_path (tc_nodes s n)) ks
    | Some c \<Rightarrow> tree_has srv (tn_path (tc_nodes s n)) ks \<and> c < tc_next s \<and> tn_path (tc_nodes s c) = tree_path (tn_path (tc_nodes s n)) ks"
  using assms(4)
proof (induction ks arbitrary: n)
  case (Cons k ks)
  have kids: "fst ` set (tn_children (tc_nodes s n)) = srv_kids srv (tn_path (tc_nodes s n))"
    using settled_known [OF assms(1-3) Cons.prems, of TGetChildren] by (simp add: known_def)
  show ?case
  proof (cases "map_of (tn_children (tc_nodes s n)) k")
    case None
    then have "k \<notin> srv_kids srv (tn_path (tc_nodes s n))" using kids by (simp add: map_of_eq_None_iff)
    then show ?thesis using None by simp
  next
    case (Some c)
    then have c: "c < tc_next s" "k \<in> srv_kids srv (tn_path (tc_nodes s n))" "tn_path (tc_nodes s c) = path_join (tn_path (tc_nodes s n)) [k]"
      using copy_child [OF assms(1) Cons.prems map_of_SomeD] by blast+
    then show ?thesis using Cons.IH [OF c(1)] Some by (simp del: path_join.simps split: option.splits)
  qed
qed simp

text \<open>The path of a query is taken apart into the names it was made of.\<close>

lemma cache_find_node_eq:
  "cache_find_node s path =
     (if starts_with path (tn_path (tc_nodes s 0))
      then Inr (walk s 0 (path_comps (drop (length (tn_path (tc_nodes s 0))) path))) else Inl PyValueError)"
proof -
  have "List.filter (\<lambda>p. p \<noteq> []) (split_on slash (rstrip slash (lstrip slash x))) = path_comps x" for x
  proof -
    have "path_comps (rstrip slash (lstrip slash x)) = path_comps x" by simp
    then show ?thesis by (simp add: path_comps_def)
  qed
  then show ?thesis by (simp add: cache_find_node_def Let_def)
qed

definition names_ok :: "string list \<Rightarrow> bool" where
  "names_ok ks \<longleftrightarrow> list_all (\<lambda>k. k \<noteq> '''' \<and> slash \<notin> set k) ks"

lemma join_name:
  "k \<noteq> '''' \<Longrightarrow> slash \<notin> set k \<Longrightarrow> path_join p [k] = p @ (if p = '''' \<or> ends_with p ''/'' then '''' else ''/'') @ k"
  by (cases k) auto

lemma tree_path_comps:
  "names_ok ks \<Longrightarrow> \<exists>t. tree_path p ks = p @ t \<and> path_comps t = ks \<and> (p \<noteq> '''' \<and> \<not> ends_with p ''/'' \<longrightarrow> t = '''' \<or> hd t = slash)"
proof (induction ks arbitrary: p)
  case (Cons k ks)
  then have k: "k \<noteq> ''''" "slash \<notin> set k" and ks: "names_ok ks" by (simp_all add: names_ok_def)
  let ?p = "path_join p [k]"
  obtain u where u: "?p = p @ u @ k" "u = [] \<or> u = [slash]" "p \<noteq> '''' \<and> \<not> ends_with p ''/'' \<longrightarrow> u = [slash]"
    using join_name [OF k, of p] by auto
  have "last k \<noteq> slash" using last_in_set [OF k(1)] k(2) by metis
  then have "?p \<noteq> ''''" "\<not> ends_with ?p ''/''"
    using k u(1) by (auto simp: ends_with_singleton simp del: path_join.simps)
  then obtain t where t: "tree_path ?p ks = ?p @ t" "path_comps t = ks" "t = '''' \<or> hd t = slash"
    using Cons.IH [OF ks] by blast
  have "path_comps (k @ t) = k # ks"
    using t(2,3) k by (cases t) (auto simp: path_comps_def split_on_no_sep split_on_append_sep)
  then have "path_comps (u @ k @ t) = k # ks" using u(2) by auto
  then show ?case using t(1) u by (intro exI [of _ "u @ k @ t"]) auto
qed simp

text \<open>
  C23. The cache is a copy of the server's tree. When nothing changes on the server, a cache
  that is started and has nothing left to do answers every query with what the server holds: a
  node that exists with its data and the names of its children, and nothing for any other path,
  in whatever order the answers, the background tasks and the session events came.
\<close>

theorem cache_refines_server:
  assumes "server_tree_ok srv path" and "s = foldl cache_step (snd (cache_start (Inr b) True (cache_init path))) es"
    and "quiet_run srv (snd (cache_start (Inr b) True (cache_init path))) es"
    and "tc_calls s = []" and "tc_queue s = []" and "names_ok ks" and "p = tree_path path ks"
  shows "cache_get_data s p None = Inr (if tree_has srv path ks then map_option (Pair p) (srv_node srv p) else None)
    \<and> cache_get_children s p None = Inr (if tree_has srv path ks then Some (srv_kids srv p) else None)"
proof -
  have inv: "copy_inv srv path {} s" using copy_run [OF assms(1) copy_start [OF assms(1)] assms(3)] assms(2) by simp
  then have root: "tn_path (tc_nodes s 0) = path" "0 < tc_next s" by (simp_all add: copy_inv_def)
  obtain t where "p = path @ t" "path_comps t = ks" using tree_path_comps [OF assms(6)] assms(7) by blast
  then have find: "cache_find_node s p = Inr (walk s 0 ks)" by (simp add: cache_find_node_eq root)
  note walk = walk_settled [OF inv assms(4,5) root(2), of ks]
  note known = settled_known [OF inv assms(4,5)]
  show ?thesis
  proof (cases "walk s 0 ks")
    case None
    then show ?thesis using walk find root by (simp add: cache_get_data_def cache_get_children_def)
  next
    case (Some c)
    then have c: "tree_has srv path ks" "c < tc_next s" "tn_path (tc_nodes s c) = p" using walk root assms(7) by simp_all
    then show ?thesis using known [OF c(2), of TGet] known [OF c(2), of TGetChildren] Some find
      by (simp add: cache_get_data_def cache_get_children_def known_def)
  qed
qed

text \<open>A server with a node and its child; the child is read before its parent's data arrive.\<close>

definition demo_tree_server :: server_tree where
  "demo_tree_server =
     \<lparr>srv_node = (\<lambda>p. if p = ''/r'' then Some (Some [1], blank_stat) else if p = ''/r/c'' then Some (Some [2], blank_stat) else None),
      srv_kids = (\<lambda>p. if p = ''/r'' then {''c''} else {})\<rparr>"

definition demo_quiet :: "cache_event list" where
  "demo_quiet = [CBackground, CAnswer 1 (listed [''c'']), CBackground, CAnswer 2 (listed []), CAnswer 1 (got [2]), CAnswer 0 (got [1])]
     @ replicate 8 CBackground"

theorem cache_refines_server_witness:
  "cache_get_data (foldl cache_step (snd (cache_start (Inr True) True (cache_init ''/r''))) demo_quiet) ''/r/c'' None =
     Inr (Some (''/r/c'', Some [2], blank_stat))"
proof -
  let ?s0 = "snd (cache_start (Inr True) True (cache_init ''/r''))"
  have "server_tree_ok demo_tree_server ''/r''" by (simp add: server_tree_ok_def demo_tree_server_def ends_with_singleton)
  moreover have "quiet_run demo_tree_server ?s0 demo_quiet" by code_simp
  moreover have "tc_calls (foldl cache_step ?s0 demo_quiet) = []" "tc_queue (foldl cache_step ?s0 demo_quiet) = []"
    by code_simp+
  moreover have "names_ok [''c'']" "''/r/c'' = tree_path ''/r'' [''c'']" by code_simp+
  moreover have "tree_has demo_tree_server ''/r'' [''c'']"
    "srv_node demo_tree_server ''/r/c'' = Some (Some [2], blank_stat)" by code_simp+
  ultimately show ?thesis
    using cache_refines_server [OF _ refl, of demo_tree_server "''/r''" True demo_quiet "[''c'']" "''/r/c''"]
    by (simp only: if_True simp_thms option.map prod.inject)
qed

end
