(* ===== verification/Barrier.thy ===== *)
theory Barrier
  imports RetryInv States "HOL-Library.List_Lexorder" "HOL-Library.Char_ord"
begin

text \<open>
  \<^verbatim>\<open>kazoo/recipe/barrier.py\<close>: \<^verbatim>\<open>Barrier\<close>, which is closed while its node exists, and
  \<^verbatim>\<open>DoubleBarrier\<close>, whose members enter together and leave together.
\<close>

section \<open>Waiting for a watch\<close>

text \<open>
  A watch is registered by the operation before and fires once. \<open>be_first_event\<close> waits for it:
  the event that came, or \<^term>\<open>None\<close> when the time was up before. The callback sets the
  \<^verbatim>\<open>threading.Event\<close> only for one type of event; after another one nothing sets it any more.
\<close>

record 'w barrier_env =
  be_zk :: "'w zk"
  be_retry :: retry
  be_first_event :: "string \<Rightarrow> rat option \<Rightarrow> ('w, event_type option) io"

definition io_block :: "('w, 'a) io" where
  "io_block w = None"

definition wait_event :: "'w barrier_env \<Rightarrow> string \<Rightarrow> event_type \<Rightarrow> rat option \<Rightarrow> ('w, bool) io" where
  "wait_event env path wanted timeout =
     io_bind (be_first_event env path timeout) (\<lambda>ev.
       if ev = Some wanted then io_return True
       else if timeout = None then io_block
       else io_return False)"

section \<open>Barrier\<close>

definition barrier_create :: "'w barrier_env \<Rightarrow> string \<Rightarrow> ('w, unit) io" where
  "barrier_create env path =
     io_bind (io_retry (be_zk env) (be_retry env) (zk_ensure_path (be_zk env) path)) (\<lambda>_. io_return ())"

definition barrier_remove :: "'w barrier_env \<Rightarrow> string \<Rightarrow> ('w, bool) io" where
  "barrier_remove env path =
     io_catch
       (io_bind (io_retry (be_zk env) (be_retry env) (zk_delete (be_zk env) path)) (\<lambda>_. io_return True))
       is_no_node (\<lambda>_. io_return False)"

definition barrier_wait :: "'w barrier_env \<Rightarrow> string \<Rightarrow> rat option \<Rightarrow> ('w, bool) io" where
  "barrier_wait env path timeout =
     io_bind (zk_exists_w (be_zk env) path) (\<lambda>st.
       if st = None then io_return True else wait_event env path DELETED timeout)"

section \<open>DoubleBarrier\<close>

record double_barrier =
  db_path :: string
  db_num_clients :: int
  db_identifier :: string
  db_participating :: bool
  db_assured_path :: bool
  db_node_name :: string
  db_create_path :: string

text \<open>\<open>host_pid\<close> is the default identifier, \<open>uuid\<close> the fresh hexadecimal name.\<close>

definition double_barrier_init :: "string \<Rightarrow> int \<Rightarrow> string option \<Rightarrow> string \<Rightarrow> string \<Rightarrow> double_barrier" where
  "double_barrier_init path num_clients identifier host_pid uuid =
     \<lparr>db_path = path, db_num_clients = num_clients,
      db_identifier = (case identifier of None \<Rightarrow> host_pid | Some i \<Rightarrow> if i = '''' then host_pid else i),
      db_participating = False, db_assured_path = False, db_node_name = uuid, db_create_path = path @ ''/'' @ uuid\<rparr>"

text \<open>Whether a member that sees the children has to wait for the others.\<close>

definition enter_waits :: "int \<Rightarrow> string list \<Rightarrow> bool" where
  "enter_waits num_clients children \<longleftrightarrow> int (length children) < num_clients"

definition db_inner_enter :: "'w barrier_env \<Rightarrow> (double_barrier \<times> 'w, bool) io" where
  "db_inner_enter env =
     io_bind io_self (\<lambda>b.
     io_bind (if db_assured_path b then io_return ()
              else io_bind (io_lift (zk_ensure_path (be_zk env) (db_path b))) (\<lambda>_.
                io_modify (\<lambda>b. b\<lparr>db_assured_path := True\<rparr>))) (\<lambda>_.
     io_bind (io_catch
         (io_bind (io_lift (zk_create (be_zk env) (db_create_path b) (encode_utf8 (db_identifier b)) True False False))
            (\<lambda>_. io_return ()))
         is_node_exists (\<lambda>_. io_return ())) (\<lambda>_.
     io_bind (io_lift (zk_exists_w (be_zk env) (db_path b @ ''/'' @ ''ready''))) (\<lambda>_.
     io_bind (io_lift (zk_get_children (be_zk env) (db_path b))) (\<lambda>children.
     io_bind (if enter_waits (db_num_clients b) children
              then io_bind (io_lift (wait_event env (db_path b @ ''/'' @ ''ready'') CREATED None)) (\<lambda>_. io_return ())
              else io_bind (io_lift (zk_ensure_path (be_zk env) (db_path b @ ''/ready''))) (\<lambda>_. io_return ())) (\<lambda>_.
       io_return True))))))"

definition db_cleanup :: "'w barrier_env \<Rightarrow> (double_barrier \<times> 'w, unit) io" where
  "db_cleanup env =
     io_bind io_self (\<lambda>b.
       io_catch (io_lift (io_retry (be_zk env) (be_retry env) (zk_delete (be_zk env) (db_create_path b))))
         is_no_node (\<lambda>_. io_return ()))"

definition db_enter :: "'w barrier_env \<Rightarrow> (double_barrier \<times> 'w, unit) io" where
  "db_enter env =
     io_catch
       (io_bind (io_retry_self (be_zk env) (retry_copy (be_retry env)) (db_inner_enter env)) (\<lambda>_.
          io_modify (\<lambda>b. b\<lparr>db_participating := True\<rparr>)))
       is_kazoo_exception
       (\<lambda>_. io_bind (db_cleanup env) (\<lambda>_. io_modify (\<lambda>b. b\<lparr>db_participating := False\<rparr>)))"

text \<open>What a leaving member does about the sorted children.\<close>

datatype leave_action =
    LeaveDone
  | LeaveLast
  | AwaitHighest string
  | DeleteAndAwait string

definition leave_decision :: "string \<Rightarrow> string list \<Rightarrow> leave_action" where
  "leave_decision node_name children =
     (if children = [] then LeaveDone
      else if length children = 1 \<and> hd children = node_name then LeaveLast
      else let children = sort children in
        if node_name = hd children then AwaitHighest (last children) else DeleteAndAwait (hd children))"

definition await_deleted :: "'w barrier_env \<Rightarrow> double_barrier \<Rightarrow> string \<Rightarrow> ('w, unit) io" where
  "await_deleted env b child =
     io_bind (zk_exists_w (be_zk env) (db_path b @ ''/'' @ child)) (\<lambda>st.
       if st = None then io_return ()
       else io_bind (wait_event env (db_path b @ ''/'' @ child) DELETED None) (\<lambda>_. io_return ()))"

partial_function (option) leave_loop ::
    "'w barrier_env \<Rightarrow> double_barrier \<Rightarrow> 'w \<Rightarrow> ((exc + bool) \<times> 'w) option" where
  "leave_loop env b w =
     io_bind (zk_get_children (be_zk env) (db_path b)) (\<lambda>children w.
       case leave_decision (db_node_name b) children of
         LeaveDone \<Rightarrow> io_return True w
       | LeaveLast \<Rightarrow> io_bind (zk_delete (be_zk env) (db_create_path b)) (\<lambda>_. io_return True) w
       | AwaitHighest child \<Rightarrow> io_bind (await_deleted env b child) (\<lambda>_. leave_loop env b) w
       | DeleteAndAwait child \<Rightarrow>
           io_bind (zk_delete (be_zk env) (db_create_path b)) (\<lambda>_.
           io_bind (await_deleted env b child) (\<lambda>_. leave_loop env b)) w) w"

definition db_inner_leave :: "'w barrier_env \<Rightarrow> double_barrier \<Rightarrow> ('w, bool) io" where
  "db_inner_leave env b =
     io_bind (io_catch (zk_delete (be_zk env) (db_path b @ ''/ready'')) is_no_node (\<lambda>_. io_return ())) (\<lambda>_.
       leave_loop env b)"

definition db_leave :: "'w barrier_env \<Rightarrow> (double_barrier \<times> 'w, unit) io" where
  "db_leave env =
     io_bind io_self (\<lambda>b.
     io_bind (io_catch
         (io_bind (io_lift (io_retry (be_zk env) (be_retry env) (db_inner_leave env b))) (\<lambda>_. io_return ()))
         is_kazoo_exception (\<lambda>_. db_cleanup env)) (\<lambda>_.
       io_modify (\<lambda>b. b\<lparr>db_participating := False\<rparr>)))"

section \<open>Members of a double barrier\<close>

text \<open>
  The barrier and its members as one system: between two requests of a member any other may
  act, the session of a member may end, and a member that leaves may delete \<^verbatim>\<open>ready\<close>. The watch
  of a member is armed for the creation of \<^verbatim>\<open>ready\<close> only when the node was absent at its
  \<^verbatim>\<open>exists\<close>; \<open>ds_event\<close> is the member's \<^verbatim>\<open>threading.Event\<close>, a new one in every try.

  \<open>Inside\<close> is a member whose \<^verbatim>\<open>enter\<close> returned with \<^verbatim>\<open>participating\<close> set. A request that fails
  either lets the retry run \<^verbatim>\<open>_inner_enter\<close> again (\<open>DRetry\<close>), or it ends \<^verbatim>\<open>enter\<close> (\<open>DGiveUp\<close>): the
  exception is swallowed, the node is removed if that succeeds, and \<^verbatim>\<open>enter\<close> returns with
  \<^verbatim>\<open>participating\<close> false (\<open>GaveUp\<close>), after which it may be called again. A member that waits makes
  no request and cannot fail.
\<close>

datatype db_phase = Outside | Registered | Watching | Waiting | Opening | Inside | GaveUp

record db_sys =
  ds_live :: "nat \<Rightarrow> bool"
  ds_joined :: "nat \<Rightarrow> bool"
  ds_ready :: bool
  ds_armed :: "nat \<Rightarrow> bool"
  ds_event :: "nat \<Rightarrow> bool"
  ds_phase :: "nat \<Rightarrow> db_phase"

datatype db_event =
    DRegister nat | DWatch nat | DLook nat | DOpen nat | DWake nat | DExpire nat | DUnready
  | DRetry nat | DGiveUp bool nat | DEnterAgain nat

definition db_requesting :: "db_phase \<Rightarrow> bool" where
  "db_requesting p \<longleftrightarrow> p = Outside \<or> p = Registered \<or> p = Watching \<or> p = Opening"

definition db_children :: "(nat \<Rightarrow> string) \<Rightarrow> nat \<Rightarrow> db_sys \<Rightarrow> string list" where
  "db_children names n s = map names (List.filter (ds_live s) [0..<n]) @ (if ds_ready s then [''ready''] else [])"

definition to_phase :: "nat \<Rightarrow> db_phase \<Rightarrow> db_sys \<Rightarrow> db_sys" where
  "to_phase i p s = s\<lparr>ds_phase := (ds_phase s)(i := p)\<rparr>"

fun db_step :: "(nat \<Rightarrow> string) \<Rightarrow> nat \<Rightarrow> int \<Rightarrow> db_sys \<Rightarrow> db_event \<Rightarrow> db_sys" where
  "db_step names n num s (DRegister i) =
     (if i < n \<and> ds_phase s i = Outside
      then to_phase i Registered (s\<lparr>ds_live := (ds_live s)(i := True), ds_joined := (ds_joined s)(i := True)\<rparr>)
      else s)"
| "db_step names n num s (DWatch i) =
     (if ds_phase s i = Registered
      then to_phase i Watching (s\<lparr>ds_armed := (ds_armed s)(i := \<not> ds_ready s), ds_event := (ds_event s)(i := False)\<rparr>)
      else s)"
| "db_step names n num s (DLook i) =
     (if ds_phase s i = Watching
      then to_phase i (if enter_waits num (db_children names n s) then Waiting else Opening) s
      else s)"
| "db_step names n num s (DOpen i) =
     (if ds_phase s i = Opening
      then to_phase i Inside
             (if ds_ready s then s
              else s\<lparr>ds_ready := True, ds_event := (\<lambda>j. ds_event s j \<or> ds_armed s j), ds_armed := (\<lambda>_. False)\<rparr>)
      else s)"
| "db_step names n num s (DWake i) = (if ds_phase s i = Waiting \<and> ds_event s i then to_phase i Inside s else s)"
| "db_step names n num s (DExpire i) = s\<lparr>ds_live := (ds_live s)(i := False)\<rparr>"
| "db_step names n num s DUnready = s\<lparr>ds_ready := False\<rparr>"
| "db_step names n num s (DRetry i) = (if db_requesting (ds_phase s i) then to_phase i Outside s else s)"
| "db_step names n num s (DGiveUp cleaned i) =
     (if db_requesting (ds_phase s i)
      then to_phase i GaveUp (if cleaned then s\<lparr>ds_live := (ds_live s)(i := False)\<rparr> else s)
      else s)"
| "db_step names n num s (DEnterAgain i) = (if ds_phase s i = GaveUp then to_phase i Outside s else s)"

definition db_start :: "bool \<Rightarrow> db_sys" where
  "db_start ready =
     \<lparr>ds_live = (\<lambda>_. False), ds_joined = (\<lambda>_. False), ds_ready = ready, ds_armed = (\<lambda>_. False),
      ds_event = (\<lambda>_. False), ds_phase = (\<lambda>_. Outside)\<rparr>"

text \<open>How many members have registered.\<close>

definition db_joined :: "nat \<Rightarrow> db_sys \<Rightarrow> nat" where
  "db_joined n s = length (List.filter (ds_joined s) [0..<n])"

text \<open>Somebody has seen enough members: \<^verbatim>\<open>ready\<close> is there, or about to be, or a member is past it.\<close>

definition db_opened :: "db_sys \<Rightarrow> bool" where
  "db_opened s \<longleftrightarrow> ds_ready s \<or> (\<exists>i. ds_phase s i = Opening \<or> ds_phase s i = Inside \<or> ds_event s i)"

definition db_inv :: "nat \<Rightarrow> int \<Rightarrow> db_sys \<Rightarrow> bool" where
  "db_inv n num s \<longleftrightarrow> (\<forall>i. ds_live s i \<longrightarrow> ds_joined s i) \<and> (db_opened s \<longrightarrow> num \<le> int (db_joined n s))"

lemma filter_length_mono: "(\<And>x. P x \<Longrightarrow> Q x) \<Longrightarrow> length (List.filter P xs) \<le> length (List.filter Q xs)"
  by (induction xs) (auto simp: le_SucI)

lemma db_joined_mono: "(\<And>i. ds_joined s i \<Longrightarrow> ds_joined s' i) \<Longrightarrow> db_joined n s \<le> db_joined n s'"
  unfolding db_joined_def by (rule filter_length_mono)

lemma db_look_joined:
  assumes "db_inv n num s" and "\<not> enter_waits num (db_children names n s)"
  shows "num \<le> int (db_joined n s)"
proof (cases "ds_ready s")
  case False
  then have "length (db_children names n s) \<le> db_joined n s"
    using assms(1) unfolding db_children_def db_joined_def db_inv_def by (simp add: filter_length_mono)
  then show ?thesis using assms(2) by (simp add: enter_waits_def)
qed (use assms(1) in \<open>auto simp: db_inv_def db_opened_def\<close>)

lemma db_step_joined: "ds_joined s i \<Longrightarrow> ds_joined (db_step names n num s e) i"
  by (cases e) (simp_all add: to_phase_def)

lemma db_step_live: "(\<And>i. ds_live s i \<Longrightarrow> ds_joined s i) \<Longrightarrow> ds_live (db_step names n num s e) i \<Longrightarrow> ds_joined (db_step names n num s e) i"
  by (cases e) (auto simp: to_phase_def split: if_splits)

lemma db_step_opened:
  "db_opened (db_step names n num s e) \<Longrightarrow> db_opened s \<or> \<not> enter_waits num (db_children names n s)"
  by (cases e) (auto simp: db_opened_def to_phase_def split: if_splits)

lemma db_step_inv:
  assumes "db_inv n num s"
  shows "db_inv n num (db_step names n num s e)"
proof -
  have "db_joined n s \<le> db_joined n (db_step names n num s e)" by (rule db_joined_mono) (rule db_step_joined)
  then have "num \<le> int (db_joined n (db_step names n num s e))" if "db_opened (db_step names n num s e)"
    using db_step_opened [OF that] db_look_joined [OF assms, of names] assms unfolding db_inv_def by linarith
  then show ?thesis using assms db_step_live [of s] by (simp add: db_inv_def)
qed

interpretation double_barrier: transition_invariant "db_step names n num" "db_inv n num" for names n num
  by unfold_locales (rule db_step_inv)

text \<open>A member whose watch was not armed is never woken.\<close>

definition db_stuck :: "nat \<Rightarrow> db_sys \<Rightarrow> bool" where
  "db_stuck i s \<longleftrightarrow> ds_phase s i = Waiting \<and> \<not> ds_armed s i \<and> \<not> ds_event s i"

interpretation stuck_member: transition_invariant "db_step names n num" "db_stuck i" for names n num i
proof unfold_locales
  fix s e assume "db_stuck i s"
  then show "db_stuck i (db_step names n num s e)"
    by (cases e) (auto simp: db_stuck_def to_phase_def db_requesting_def)
qed

text \<open>A look at the children that shows that everybody else has left.\<close>

definition saw_empty :: "'w barrier_env \<Rightarrow> double_barrier \<Rightarrow> bool" where
  "saw_empty env b \<longleftrightarrow> (\<exists>w0 w1 children. zk_get_children (be_zk env) (db_path b) w0 = Some (Inr children, w1)
     \<and> (children = [] \<or> children = [db_node_name b]))"

lemma leave_decision_over:
  "leave_decision name children = LeaveDone \<Longrightarrow> children = []"
  "leave_decision name children = LeaveLast \<Longrightarrow> children = [name]"
  by (cases children; auto simp: leave_decision_def Let_def split: if_splits)+

lemma leave_loop_saw_empty: "leave_loop env b w = Some (Inr r, w') \<Longrightarrow> saw_empty env b"
proof -
  let ?P = "\<lambda>(env :: 'a barrier_env) b (w :: 'a) (x :: (exc + bool) \<times> 'a). (\<exists>r. fst x = Inr r) \<longrightarrow> saw_empty env b"
  assume loop: "leave_loop env b w = Some (Inr r, w')"
  have "?P env b w (Inr r, w')"
  proof (rule leave_loop.raw_induct [where P = ?P, OF _ loop], intro impI)
    fix loop and env :: "'a barrier_env" and b w x
    assume IH: "\<And>env b w x. loop env b w = Some x \<Longrightarrow> ?P env b w x"
      and eq: "io_bind (zk_get_children (be_zk env) (db_path b)) (\<lambda>children w.
       case leave_decision (db_node_name b) children of
         LeaveDone \<Rightarrow> io_return True w
       | LeaveLast \<Rightarrow> io_bind (zk_delete (be_zk env) (db_create_path b)) (\<lambda>_. io_return True) w
       | AwaitHighest child \<Rightarrow> io_bind (await_deleted env b child) (\<lambda>_. loop env b) w
       | DeleteAndAwait child \<Rightarrow>
           io_bind (zk_delete (be_zk env) (db_create_path b)) (\<lambda>_.
           io_bind (await_deleted env b child) (\<lambda>_. loop env b)) w) w = Some x"
      and "\<exists>r. fst x = Inr r"
    then obtain r w' where x: "x = (Inr r, w')" by (cases x) auto
    have again: "saw_empty env b" if "loop env b w2 = Some (Inr r, w')" for w2
      using IH [OF that] by simp
    obtain children w1 where get: "zk_get_children (be_zk env) (db_path b) w = Some (Inr children, w1)"
      using eq x by (auto simp: io_bind_eq_Inr)
    show "saw_empty env b"
    proof (cases "leave_decision (db_node_name b) children")
      case LeaveDone
      then show ?thesis using get leave_decision_over(1) unfolding saw_empty_def by blast
    next
      case LeaveLast
      then show ?thesis using get leave_decision_over(2) unfolding saw_empty_def by blast
    next
      case (AwaitHighest child)
      then show ?thesis using eq x get again by (auto simp: io_bind_eq_Inr)
    next
      case (DeleteAndAwait child)
      then show ?thesis using eq x get again by (auto simp: io_bind_eq_Inr)
    qed
  qed
  then show ?thesis by simp
qed

section \<open>What the barriers guarantee\<close>

text \<open>
  C25. No member passes a double barrier before enough members have joined: in the first use of a
  barrier that starts without the node \<^verbatim>\<open>ready\<close>, a member participates (its \<^verbatim>\<open>enter\<close> returned with
  \<^verbatim>\<open>participating\<close> set) only if at least \<^verbatim>\<open>num_clients\<close> members have registered, however the
  members' requests, their failures and retries, expiring sessions and leaving members
  interleave. An \<^verbatim>\<open>enter\<close> that swallowed an exception returns too, without participating.
\<close>

theorem double_barrier_holds:
  assumes "s = foldl (db_step names n num) (db_start False) es" and "ds_phase s i = Inside"
  shows "num \<le> int (db_joined n s)"
proof -
  have "db_inv n num s"
    unfolding assms(1) by (rule double_barrier.run_inv) (simp add: db_inv_def db_opened_def db_start_def)
  then show ?thesis using assms(2) by (auto simp: db_inv_def db_opened_def)
qed

definition demo_members :: "nat \<Rightarrow> string" where
  "demo_members i = (if i = 0 then ''a0'' else ''b1'')"

definition demo_enter :: "db_event list" where
  "demo_enter = [DRegister 0, DWatch 0, DLook 0, DRegister 1, DRetry 1, DRegister 1, DGiveUp True 1, DEnterAgain 1,
     DRegister 1, DWatch 1, DLook 1, DOpen 1, DWake 0]"

theorem double_barrier_holds_witness:
  "ds_phase (foldl (db_step demo_members 2 2) (db_start False) demo_enter) 0 = Inside
   \<and> (2 :: int) \<le> int (db_joined 2 (foldl (db_step demo_members 2 2) (db_start False) demo_enter))"
proof -
  have "ds_phase (foldl (db_step demo_members 2 2) (db_start False) demo_enter) 0 = Inside" by code_simp
  then show ?thesis using double_barrier_holds [OF refl, of demo_members 2 2 demo_enter 0] by blast
qed

text \<open>
  A node \<^verbatim>\<open>ready\<close> that members which did not leave properly left behind breaks the next use
  of the barrier: it counts as a member, so the last member but one passes, and a member that
  came before waits for a creation that does not come, whatever happens afterwards.
\<close>

theorem double_barrier_stale_ready:
  "let s = foldl (db_step demo_members 2 3) (db_start True)
             [DRegister 0, DWatch 0, DLook 0, DRegister 1, DWatch 1, DLook 1, DOpen 1] in
   ds_phase s 1 = Inside \<and> db_joined 2 s = 2 \<and> ds_phase (foldl (db_step demo_members 2 3) s es) 0 = Waiting"
proof -
  let ?s = "foldl (db_step demo_members 2 3) (db_start True)
             [DRegister 0, DWatch 0, DLook 0, DRegister 1, DWatch 1, DLook 1, DOpen 1]"
  have s: "ds_phase ?s 1 = Inside" "db_joined 2 ?s = 2" "db_stuck 0 ?s" by code_simp+
  have "ds_phase (foldl (db_step demo_members 2 3) ?s es) 0 = Waiting"
    using stuck_member.run_inv [OF s(3)] unfolding db_stuck_def by blast
  with s(1,2) show ?thesis unfolding Let_def by blast
qed

text \<open>
  \<^verbatim>\<open>_inner_leave\<close> succeeds only when everybody has left: the last look at the children
  showed none, or only the node of the member itself.
\<close>

theorem double_barrier_leave:
  assumes "db_inner_leave env b w = Some (Inr r, w')"
  shows "\<exists>w0 w1 children. zk_get_children (be_zk env) (db_path b) w0 = Some (Inr children, w1)
    \<and> (children = [] \<or> children = [db_node_name b])"
proof -
  obtain w1 where "leave_loop env b w1 = Some (Inr r, w')"
    using assms by (auto simp: db_inner_leave_def io_bind_eq_Inr)
  from leave_loop_saw_empty [OF this] show ?thesis by (simp add: saw_empty_def)
qed

text \<open>A world of the nodes below the barrier; when a member waits for a node, its session ends.\<close>

definition demo_leave_env :: "string list barrier_env" where
  "demo_leave_env =
     \<lparr>be_zk = zk_refuse\<lparr>zk_get_children := (\<lambda>_ w. Some (Inr w, w)),
        zk_delete := (\<lambda>p w. if drop 3 p \<in> set w then Some (Inr (), removeAll (drop 3 p) w) else Some (Inl (ZkErr NoNodeError), w)),
        zk_exists_w := (\<lambda>p w. Some (Inr (if drop 3 p \<in> set w then Some blank_stat else None), w))\<rparr>,
      be_retry = forever,
      be_first_event = (\<lambda>p t w. Some (Inr (Some DELETED), removeAll (drop 3 p) w))\<rparr>"

definition demo_barrier :: "string \<Rightarrow> double_barrier" where
  "demo_barrier name = double_barrier_init ''/b'' 3 None ''h'' name"

lemma demo_leave_simps:
  "zk_get_children (be_zk demo_leave_env) p w = Some (Inr w, w)"
  "zk_delete (be_zk demo_leave_env) p w =
     (if drop 3 p \<in> set w then Some (Inr (), removeAll (drop 3 p) w) else Some (Inl (ZkErr NoNodeError), w))"
  "zk_exists_w (be_zk demo_leave_env) p w = Some (Inr (if drop 3 p \<in> set w then Some blank_stat else None), w)"
  "be_first_event demo_leave_env p t w = Some (Inr (Some DELETED), removeAll (drop 3 p) w)"
  "zk_retry (be_zk demo_leave_env) = still_env" "be_retry demo_leave_env = forever"
  by (simp_all add: demo_leave_env_def zk_refuse_def)

lemma demo_barrier_simps:
  "db_path (demo_barrier name) = ''/b''" "db_node_name (demo_barrier name) = name"
  "db_create_path (demo_barrier name) = ''/b/'' @ name"
  by (simp_all add: demo_barrier_def double_barrier_init_def)

theorem double_barrier_leave_witness:
  "db_inner_leave demo_leave_env (demo_barrier ''b1'') [''b1''] = Some (Inr True, [])
   \<and> (\<exists>w0 w1 children. zk_get_children (be_zk demo_leave_env) ''/b'' w0 = Some (Inr children, w1)
        \<and> (children = [] \<or> children = [''b1'']))"
proof -
  have run: "db_inner_leave demo_leave_env (demo_barrier ''b1'') [''b1''] = Some (Inr True, [])"
    by (simp add: db_inner_leave_def io_catch_def io_bind_def demo_leave_simps demo_barrier_simps is_no_node_def)
      (subst leave_loop.simps, simp add: io_bind_def demo_leave_simps demo_barrier_simps leave_decision_def)
  from double_barrier_leave [OF this] run show ?thesis by (simp add: demo_barrier_simps)
qed

text \<open>
  A member that has deleted its node deletes it again when it looks at the children again:
  the second deletion raises \<^verbatim>\<open>NoNodeError\<close> and \<^verbatim>\<open>leave\<close> returns while another member is
  still inside. It happens when the member with the lowest name loses its session.
\<close>

theorem double_barrier_leaves_early:
  "\<exists>b. db_leave demo_leave_env (demo_barrier ''b1'', [''a0'', ''b1'', ''c2'']) = Some (Inr (), (b, [''c2''])) \<and> \<not> db_participating b"
proof -
  have first: "leave_decision ''b1'' [''a0'', ''b1'', ''c2''] = DeleteAndAwait ''a0''" by code_simp
  have again: "leave_decision ''b1'' [''c2''] = DeleteAndAwait ''c2''" by code_simp
  have second: "leave_loop demo_leave_env (demo_barrier ''b1'') [''c2''] = Some (Inl (ZkErr NoNodeError), [''c2''])"
    by (subst leave_loop.simps) (simp add: again io_bind_def demo_leave_simps demo_barrier_simps)
  have loop: "leave_loop demo_leave_env (demo_barrier ''b1'') [''a0'', ''b1'', ''c2''] = Some (Inl (ZkErr NoNodeError), [''c2''])"
    by (subst leave_loop.simps)
      (simp add: first second io_bind_def await_deleted_def wait_event_def demo_leave_simps demo_barrier_simps)
  have leave: "db_inner_leave demo_leave_env (demo_barrier ''b1'') [''a0'', ''b1'', ''c2''] = Some (Inl (ZkErr NoNodeError), [''c2''])"
    by (simp add: db_inner_leave_def io_catch_def io_bind_def demo_leave_simps demo_barrier_simps is_no_node_def loop)
  have no: "\<not> retryable forever (ZkErr NoNodeError)" by code_simp
  have "io_retry (be_zk demo_leave_env) forever (db_inner_leave demo_leave_env (demo_barrier ''b1'')) [''a0'', ''b1'', ''c2''] =
      Some (Inl (ZkErr NoNodeError), [''c2''])"
    by (rule io_retry_forever(2)) (simp_all add: demo_leave_simps leave no)
  moreover have "io_retry (be_zk demo_leave_env) forever (zk_delete (be_zk demo_leave_env) ''/b/b1'') [''c2''] =
      Some (Inl (ZkErr NoNodeError), [''c2''])"
    by (rule io_retry_forever(2)) (simp_all add: demo_leave_simps no)
  ultimately show ?thesis
    by (simp add: db_leave_def db_cleanup_def io_catch_def io_bind_def io_self_def io_lift_def io_modify_def demo_leave_simps
        demo_barrier_simps is_no_node_def)
qed

end
