(* ===== verification/Party.thy ===== *)
theory Party
  imports RetryInv
begin

text \<open>
  \<^verbatim>\<open>kazoo/recipe/party.py\<close>: the members of a party are ephemeral nodes below one path. A
  \<^verbatim>\<open>Party\<close> keeps a member's identifier as the node's data, a \<^verbatim>\<open>ShallowParty\<close> as a part of
  the node's name.
\<close>

section \<open>The base class\<close>

record party =
  pa_path :: string
  pa_data :: bytes
  pa_ensured_path :: bool
  pa_participating :: bool
  pa_node :: string
  pa_create_path :: string

text \<open>The base class, to which the constructors of the two parties add the node.\<close>

definition base_party_init :: "string \<Rightarrow> string option \<Rightarrow> string \<Rightarrow> party" where
  "base_party_init path identifier node =
     \<lparr>pa_path = path, pa_data = encode_utf8 (case identifier of None \<Rightarrow> '''' | Some i \<Rightarrow> i),
      pa_ensured_path = False, pa_participating = False, pa_node = node, pa_create_path = path @ ''/'' @ node\<rparr>"

definition party_ensure_parent :: "'w zk \<Rightarrow> (party \<times> 'w, unit) io" where
  "party_ensure_parent zk =
     io_bind io_self (\<lambda>p.
       if pa_ensured_path p then io_return ()
       else io_bind (io_lift (zk_ensure_path zk (pa_path p))) (\<lambda>_.
         io_modify (\<lambda>p. p\<lparr>pa_ensured_path := True\<rparr>)))"

definition party_inner_join :: "'w zk \<Rightarrow> (party \<times> 'w, unit) io" where
  "party_inner_join zk =
     io_bind (party_ensure_parent zk) (\<lambda>_.
     io_bind io_self (\<lambda>p.
       io_catch
         (io_bind (io_lift (zk_create zk (pa_create_path p) (pa_data p) True False False)) (\<lambda>_.
            io_modify (\<lambda>p. p\<lparr>pa_participating := True\<rparr>)))
         is_node_exists (\<lambda>_. io_modify (\<lambda>p. p\<lparr>pa_participating := True\<rparr>))))"

definition party_join :: "'w zk \<Rightarrow> retry \<Rightarrow> (party \<times> 'w, unit) io" where
  "party_join zk r = io_retry_self zk (retry_copy r) (party_inner_join zk)"

definition party_inner_leave :: "'w zk \<Rightarrow> (party \<times> 'w, bool) io" where
  "party_inner_leave zk =
     io_bind io_self (\<lambda>p.
       io_catch (io_bind (io_lift (zk_delete zk (pa_create_path p))) (\<lambda>_. io_return True))
         is_no_node (\<lambda>_. io_return False))"

definition party_leave :: "'w zk \<Rightarrow> retry \<Rightarrow> (party \<times> 'w, bool) io" where
  "party_leave zk r =
     io_bind (io_modify (\<lambda>p. p\<lparr>pa_participating := False\<rparr>)) (\<lambda>_.
       io_retry_self zk (retry_copy r) (party_inner_leave zk))"

definition base_party_children :: "'w zk \<Rightarrow> retry \<Rightarrow> (party \<times> 'w, string list) io" where
  "base_party_children zk r =
     io_bind io_self (\<lambda>p. io_lift (io_retry zk r (zk_get_children zk (pa_path p))))"

section \<open>Party\<close>

fun contains :: "string \<Rightarrow> string \<Rightarrow> bool" where
  "contains sub [] \<longleftrightarrow> sub = []"
| "contains sub (c # s) \<longleftrightarrow> starts_with (c # s) sub \<or> contains sub s"

definition party_init :: "string \<Rightarrow> string option \<Rightarrow> string \<Rightarrow> party" where
  "party_init path identifier uuid = base_party_init path identifier (uuid @ ''__party__'')"

definition party_children :: "'w zk \<Rightarrow> retry \<Rightarrow> (party \<times> 'w, string list) io" where
  "party_children zk r =
     io_bind (base_party_children zk r) (\<lambda>children.
       io_return (List.filter (contains ''__party__'') children))"

text \<open>\<^verbatim>\<open>__len__\<close>, for both classes; \<open>children\<close> is the class's \<^verbatim>\<open>_get_children\<close>.\<close>

definition party_len :: "'w zk \<Rightarrow> (party \<times> 'w, string list) io \<Rightarrow> (party \<times> 'w, int) io" where
  "party_len zk children =
     io_bind (party_ensure_parent zk) (\<lambda>_. io_bind children (\<lambda>cs. io_return (int (length cs))))"

definition party_identifier :: "'w zk \<Rightarrow> retry \<Rightarrow> string \<Rightarrow> (party \<times> 'w, string list) io" where
  "party_identifier zk r child =
     io_bind io_self (\<lambda>p.
       io_catch
         (io_bind (io_lift (io_retry zk r (zk_get zk (pa_path p @ ''/'' @ child)))) (\<lambda>res.
            case fst res of
              None \<Rightarrow> io_raise PyAttributeError
            | Some d \<Rightarrow> io_bind (io_sum (decode_utf8 d)) (\<lambda>s. io_return [s])))
         is_no_node (\<lambda>_. io_return []))"

text \<open>The whole iteration.\<close>

definition party_iter :: "'w zk \<Rightarrow> retry \<Rightarrow> (party \<times> 'w, string list) io" where
  "party_iter zk r =
     io_bind (party_ensure_parent zk) (\<lambda>_.
     io_bind (party_children zk r) (\<lambda>children.
     io_bind (io_map (party_identifier zk r) children) (\<lambda>ids.
       io_return (concat ids))))"

section \<open>ShallowParty\<close>

text \<open>\<open>s.find("-")\<close> gives -1 when the character is absent, so the slice is the whole name.\<close>

definition shallow_name :: "string \<Rightarrow> string" where
  "shallow_name child =
     (if CHR ''-'' \<in> set child then drop (length (takeWhile (\<lambda>c. c \<noteq> CHR ''-'') child) + 1) child else child)"

definition shallow_party_init :: "string \<Rightarrow> string option \<Rightarrow> string \<Rightarrow> exc + party" where
  "shallow_party_init path identifier uuid =
     (let p = base_party_init path identifier '''' in
      ebind (decode_utf8 (pa_data p)) (\<lambda>i. Inr (base_party_init path identifier (join_with ''-'' [uuid, i]))))"

definition shallow_party_iter :: "'w zk \<Rightarrow> retry \<Rightarrow> (party \<times> 'w, string list) io" where
  "shallow_party_iter zk r =
     io_bind (party_ensure_parent zk) (\<lambda>_.
     io_bind (base_party_children zk r) (\<lambda>children.
       io_return (map shallow_name children)))"

section \<open>What a party shows\<close>

text \<open>
  The server as the party sees it: the nodes below the path, by name, with their data. Nobody
  else changes them during the call.
\<close>

definition party_server :: "'w zk \<Rightarrow> string \<Rightarrow> ('w \<Rightarrow> (string \<times> bytes) list) \<Rightarrow> bool" where
  "party_server zk path nodes \<longleftrightarrow>
     (\<forall>ns. env_keeps (zk_retry zk) (\<lambda>w. nodes w = ns))
   \<and> (\<forall>w. \<exists>w'. zk_ensure_path zk path w = Some (Inr True, w') \<and> nodes w' = nodes w)
   \<and> (\<forall>w. \<exists>w'. zk_get_children zk path w = Some (Inr (map fst (nodes w)), w') \<and> nodes w' = nodes w)
   \<and> (\<forall>w child d. map_of (nodes w) child = Some d \<longrightarrow>
        (\<exists>st w'. zk_get zk (path @ ''/'' @ child) w = Some (Inr (Some d, st), w') \<and> nodes w' = nodes w))
   \<and> (\<forall>w name d. map_of (nodes w) name = None \<longrightarrow>
        (\<exists>w'. zk_create zk (path @ ''/'' @ name) d True False False w = Some (Inr (path @ ''/'' @ name), w')
          \<and> nodes w' = nodes w @ [(name, d)]))
   \<and> (\<forall>w name d. map_of (nodes w) name \<noteq> None \<longrightarrow>
        (\<exists>w'. zk_create zk (path @ ''/'' @ name) d True False False w = Some (Inl (ZkErr NodeExistsError), w')
          \<and> nodes w' = nodes w))
   \<and> (\<forall>w name. \<exists>w'. zk_delete zk (path @ ''/'' @ name) w =
          Some (if map_of (nodes w) name = None then Inl (ZkErr NoNodeError) else Inr (), w')
        \<and> nodes w' = List.filter (\<lambda>e. fst e \<noteq> name) (nodes w))"

text \<open>The identifiers of the members among the nodes.\<close>

definition is_member :: "string \<times> bytes \<Rightarrow> bool" where
  "is_member e = contains ''__party__'' (fst e)"

definition member_ids :: "(string \<times> bytes) list \<Rightarrow> string list" where
  "member_ids ns = map (\<lambda>e. map byte_char (snd e)) (List.filter is_member ns)"

lemma contains_append: "contains sub (u @ sub @ v)"
proof (induction u)
  case Nil
  then show ?case by (cases sub; cases v) (simp_all add: starts_with_iff)
qed simp

lemma party_serverD:
  assumes "party_server zk path nodes"
  shows "env_keeps (zk_retry zk) (\<lambda>w. nodes w = ns)"
    and "\<exists>w'. zk_ensure_path zk path w = Some (Inr True, w') \<and> nodes w' = nodes w"
    and "\<exists>w'. zk_get_children zk path w = Some (Inr (map fst (nodes w)), w') \<and> nodes w' = nodes w"
    and "map_of (nodes w) child = Some d \<Longrightarrow>
        \<exists>st w'. zk_get zk (path @ ''/'' @ child) w = Some (Inr (Some d, st), w') \<and> nodes w' = nodes w"
    and "map_of (nodes w) name = None \<Longrightarrow> \<exists>w'. zk_create zk (path @ ''/'' @ name) d True False False w = Some (Inr (path @ ''/'' @ name), w')
          \<and> nodes w' = nodes w @ [(name, d)]"
    and "map_of (nodes w) name \<noteq> None \<Longrightarrow> \<exists>w'. zk_create zk (path @ ''/'' @ name) d True False False w = Some (Inl (ZkErr NodeExistsError), w')
          \<and> nodes w' = nodes w"
    and "\<exists>w'. zk_delete zk (path @ ''/'' @ name) w =
          Some (if map_of (nodes w) name = None then Inl (ZkErr NoNodeError) else Inr (), w')
        \<and> nodes w' = List.filter (\<lambda>e. fst e \<noteq> name) (nodes w)"
  using assms unfolding party_server_def by metis+

lemma party_ensure_runs:
  assumes "party_server zk path nodes" and "pa_path p = path"
  shows "\<exists>w'. party_ensure_parent zk (p, w) = Some (Inr (), (p\<lparr>pa_ensured_path := True\<rparr>, w')) \<and> nodes w' = nodes w"
proof (cases "pa_ensured_path p")
  case True
  then show ?thesis by (intro exI [of _ w]) (simp add: party_ensure_parent_def io_bind_def)
next
  case False
  obtain w' where "zk_ensure_path zk path w = Some (Inr True, w')" "nodes w' = nodes w"
    using party_serverD(2) [OF assms(1)] by blast
  then show ?thesis using False assms(2) by (simp add: party_ensure_parent_def io_bind_def)
qed

lemma party_children_run:
  assumes "party_server zk path nodes" and "pa_path p = path"
  shows "\<exists>w'. party_children zk r (p, w) = Some (Inr (map fst (List.filter is_member (nodes w))), (p, w')) \<and> nodes w' = nodes w"
proof -
  obtain xs w' where "io_retry zk r (zk_get_children zk path) w = Some (Inr xs, w')" "xs = map fst (nodes w) \<and> nodes w' = nodes w"
    using io_retry_total [where P = "\<lambda>v. nodes v = nodes w" and func = "zk_get_children zk path" and w = w and r = r
        and Q = "\<lambda>xs w'. xs = map fst (nodes w) \<and> nodes w' = nodes w", OF party_serverD(1) [OF assms(1)] refl]
      party_serverD(3) [OF assms(1)] by metis
  moreover have "List.filter (contains ''__party__'') (map fst ns) = map fst (List.filter is_member ns)"
    for ns :: "(string \<times> bytes) list"
    by (simp add: filter_map is_member_def [abs_def] comp_def)
  ultimately show ?thesis using assms(2) by (simp add: party_children_def base_party_children_def io_bind_def)
qed

lemma party_identifier_run:
  assumes "party_server zk path nodes" and "pa_path p = path" and "map_of (nodes w) child = Some d" and "utf8_ok d"
  shows "\<exists>w'. party_identifier zk r child (p, w) = Some (Inr [map byte_char d], (p, w')) \<and> nodes w' = nodes w"
proof -
  let ?get = "zk_get zk (path @ ''/'' @ child)"
  have "\<exists>x v'. ?get v = Some (Inr x, v') \<and> (fst x = Some d \<and> nodes v' = nodes w)" if "nodes v = nodes w" for v
    using party_serverD(4) [OF assms(1), of v child d] assms(3) that by fastforce
  then obtain x w' where "io_retry zk r ?get w = Some (Inr x, w')" "fst x = Some d \<and> nodes w' = nodes w"
    using io_retry_total [where P = "\<lambda>v. nodes v = nodes w" and func = ?get and w = w and r = r
        and Q = "\<lambda>x w'. fst x = Some d \<and> nodes w' = nodes w", OF party_serverD(1) [OF assms(1)] refl] by blast
  then show ?thesis using assms(2,4) by (simp add: party_identifier_def io_bind_def io_catch_def decode_utf8_def)
qed

lemma party_identifiers_run:
  assumes "party_server zk path nodes" and "pa_path p = path"
  shows "list_all (\<lambda>e. map_of (nodes w) (fst e) = Some (snd e) \<and> utf8_ok (snd e)) es \<Longrightarrow>
    \<exists>w'. io_map (party_identifier zk r) (map fst es) (p, w) = Some (Inr (map (\<lambda>e. [map byte_char (snd e)]) es), (p, w')) \<and> nodes w' = nodes w"
proof (induction es arbitrary: w)
  case (Cons e es)
  obtain w1 where w1: "party_identifier zk r (fst e) (p, w) = Some (Inr [map byte_char (snd e)], (p, w1))" "nodes w1 = nodes w"
    using party_identifier_run [OF assms, of w "fst e" "snd e" r] Cons.prems by auto
  then obtain w2 where "io_map (party_identifier zk r) (map fst es) (p, w1) = Some (Inr (map (\<lambda>e. [map byte_char (snd e)]) es), (p, w2))"
    "nodes w2 = nodes w"
    using Cons.IH [of w1] Cons.prems by auto
  then show ?case using w1 by (simp add: io_bind_def)
qed simp

lemma party_iter_run:
  assumes "party_server zk path nodes" and "pa_path p = path" and "distinct (map fst (nodes w))"
    and "list_all (\<lambda>e. utf8_ok (snd e)) (List.filter is_member (nodes w))"
  shows "\<exists>w'. party_iter zk r (p, w) = Some (Inr (member_ids (nodes w)), (p\<lparr>pa_ensured_path := True\<rparr>, w')) \<and> nodes w' = nodes w"
proof -
  let ?p = "p\<lparr>pa_ensured_path := True\<rparr>" and ?es = "List.filter is_member (nodes w)"
  have p: "pa_path ?p = path" using assms(2) by simp
  obtain w1 where w1: "party_ensure_parent zk (p, w) = Some (Inr (), (?p, w1))" "nodes w1 = nodes w"
    using party_ensure_runs [OF assms(1,2)] by blast
  obtain w2 where w2: "party_children zk r (?p, w1) = Some (Inr (map fst ?es), (?p, w2))" "nodes w2 = nodes w"
    using party_children_run [OF assms(1) p, of r w1] w1(2) by auto
  have "map_of (nodes w) (fst e) = Some (snd e)" if "e \<in> set (nodes w)" for e
    using map_of_is_SomeI [of "nodes w" "fst e" "snd e"] that assms(3) by simp
  then have "list_all (\<lambda>e. map_of (nodes w2) (fst e) = Some (snd e) \<and> utf8_ok (snd e)) ?es"
    using assms(4) w2(2) by (auto simp: list_all_iff)
  from party_identifiers_run [OF assms(1) p this] obtain w3 where
    "io_map (party_identifier zk r) (map fst ?es) (?p, w2) = Some (Inr (map (\<lambda>e. [map byte_char (snd e)]) ?es), (?p, w3))"
    "nodes w3 = nodes w" using w2(2) by auto
  moreover have "concat (map (\<lambda>e. [map byte_char (snd e)]) es) = map (\<lambda>e. map byte_char (snd e)) es" for es :: "(string \<times> bytes) list"
    by (induction es) simp_all
  ultimately show ?thesis using w1 w2 by (simp add: party_iter_def io_bind_def member_ids_def)
qed

lemma party_inner_join_runs:
  assumes "party_server zk path nodes" and "pa_path p = path" and "pa_create_path p = path @ ''/'' @ pa_node p"
    and "map_of (nodes w) (pa_node p) = None"
  shows "\<exists>w'. party_inner_join zk (p, w) = Some (Inr (), (p\<lparr>pa_ensured_path := True, pa_participating := True\<rparr>, w'))
    \<and> nodes w' = nodes w @ [(pa_node p, pa_data p)]"
proof -
  obtain w1 where w1: "party_ensure_parent zk (p, w) = Some (Inr (), (p\<lparr>pa_ensured_path := True\<rparr>, w1))" "nodes w1 = nodes w"
    using party_ensure_runs [OF assms(1,2)] by blast
  obtain w2 where "zk_create zk (path @ ''/'' @ pa_node p) (pa_data p) True False False w1 = Some (Inr (path @ ''/'' @ pa_node p), w2)"
    "nodes w2 = nodes w @ [(pa_node p, pa_data p)]"
    using party_serverD(5) [OF assms(1), of w1 "pa_node p"] assms(4) w1(2) by auto
  then show ?thesis using w1 assms(3) by (simp add: party_inner_join_def io_bind_def io_catch_def)
qed

lemma party_join_runs:
  assumes "party_server zk path nodes" and "pa_path p = path" and "pa_create_path p = path @ ''/'' @ pa_node p"
    and "map_of (nodes w) (pa_node p) = None"
  shows "\<exists>w'. party_join zk r (p, w) = Some (Inr (), (p\<lparr>pa_ensured_path := True, pa_participating := True\<rparr>, w'))
    \<and> nodes w' = nodes w @ [(pa_node p, pa_data p)]"
proof -
  let ?P = "\<lambda>(q, v). q = p \<and> nodes v = nodes w"
  let ?Q = "\<lambda>(_ :: unit) (q, v). q = p\<lparr>pa_ensured_path := True, pa_participating := True\<rparr> \<and> nodes v = nodes w @ [(pa_node p, pa_data p)]"
  have keeps: "env_keeps (zk_retry zk) (\<lambda>v. ?P (q, v))" for q
    using party_serverD(1) [OF assms(1), of "nodes w"] by (auto simp: env_keeps_def)
  have "\<exists>x qv'. party_inner_join zk qv = Some (Inr x, qv') \<and> ?Q x qv'" if start: "?P qv" for qv
  proof -
    obtain v where qv: "qv = (p, v)" "nodes v = nodes w" using start by (cases qv) auto
    then show ?thesis using party_inner_join_runs [OF assms(1-3), of v] assms(4) by auto
  qed
  from io_retry_self_total [where P = ?P and Q = ?Q and func = "party_inner_join zk" and r = "retry_copy r", OF keeps _ this]
  show ?thesis by (fastforce simp: party_join_def)
qed

lemma party_leave_runs:
  assumes "party_server zk path nodes" and "pa_path p = path" and "pa_create_path p = path @ ''/'' @ pa_node p"
  shows "\<exists>w'. party_leave zk r (p, w) = Some (Inr (map_of (nodes w) (pa_node p) \<noteq> None), (p\<lparr>pa_participating := False\<rparr>, w'))
    \<and> nodes w' = List.filter (\<lambda>e. fst e \<noteq> pa_node p) (nodes w)"
proof -
  let ?p = "p\<lparr>pa_participating := False\<rparr>"
  let ?P = "\<lambda>(q, v). q = ?p \<and> nodes v = nodes w"
  let ?Q = "\<lambda>b (q, v). b = (map_of (nodes w) (pa_node p) \<noteq> None) \<and> q = ?p \<and> nodes v = List.filter (\<lambda>e. fst e \<noteq> pa_node p) (nodes w)"
  have keeps: "env_keeps (zk_retry zk) (\<lambda>v. ?P (q, v))" for q
    using party_serverD(1) [OF assms(1), of "nodes w"] by (auto simp: env_keeps_def)
  have "\<exists>x qv'. party_inner_leave zk qv = Some (Inr x, qv') \<and> ?Q x qv'" if start: "?P qv" for qv
  proof -
    obtain v where qv: "qv = (?p, v)" "nodes v = nodes w" using start by (cases qv) auto
    obtain v' where "zk_delete zk (path @ ''/'' @ pa_node p) v =
          Some (if map_of (nodes v) (pa_node p) = None then Inl (ZkErr NoNodeError) else Inr (), v')"
      "nodes v' = List.filter (\<lambda>e. fst e \<noteq> pa_node p) (nodes v)" using party_serverD(7) [OF assms(1)] by blast
    then show ?thesis using qv assms(3) by (simp add: party_inner_leave_def io_bind_def io_catch_def is_no_node_def)
  qed
  from io_retry_self_total [where P = ?P and Q = ?Q and func = "party_inner_leave zk" and r = "retry_copy r", OF keeps _ this]
  have "\<exists>x sw'. io_retry_self zk (retry_copy r) (party_inner_leave zk) (?p, w) = Some (Inr x, sw') \<and> ?Q x sw'" by simp
  then show ?thesis by (auto simp: party_leave_def io_bind_def)
qed

text \<open>
  A member that joins is shown with its identifier after the members that were there, and
  when it leaves the party is as it was before: the iteration gives the identifiers of exactly
  the members, nodes of other kinds left out.
\<close>

theorem party_join_leave:
  assumes "party_server zk path nodes" and "p = party_init path (Some i) uuid" and "pystr i"
    and "map_of (nodes w) (pa_node p) = None" and "distinct (map fst (nodes w))"
    and "list_all (\<lambda>e. utf8_ok (snd e)) (List.filter is_member (nodes w))"
  shows "\<exists>p1 w1 w2 p3 w3. party_join zk r (p, w) = Some (Inr (), (p1, w1)) \<and> pa_participating p1
    \<and> party_iter zk r (p1, w1) = Some (Inr (member_ids (nodes w) @ [i]), (p1, w2))
    \<and> party_leave zk r (p1, w2) = Some (Inr True, (p3, w3)) \<and> nodes w3 = nodes w"
proof -
  let ?e = "(pa_node p, pa_data p)"
  have p: "pa_path p = path" "pa_create_path p = path @ ''/'' @ pa_node p" "pa_data p = encode_utf8 i"
    "contains ''__party__'' (pa_node p)"
    using contains_append [of "''__party__''" uuid "[]"] by (simp_all add: assms(2) party_init_def base_party_init_def)
  let ?p1 = "p\<lparr>pa_ensured_path := True, pa_participating := True\<rparr>"
  obtain w1 where w1: "party_join zk r (p, w) = Some (Inr (), (?p1, w1))" "nodes w1 = nodes w @ [?e]"
    using party_join_runs [OF assms(1) p(1,2) assms(4)] by blast
  have "pa_node p \<notin> fst ` set (nodes w)" using assms(4) by (simp add: map_of_eq_None_iff)
  moreover have ids: "member_ids (nodes w1) = member_ids (nodes w) @ [i]"
    using p(3,4) w1(2) by (simp add: member_ids_def is_member_def encode_utf8_def comp_def)
  moreover have "utf8_ok (pa_data p)" using assms(3) p(3) by (simp add: pystr_def)
  ultimately have "distinct (map fst (nodes w1))" "list_all (\<lambda>e. utf8_ok (snd e)) (List.filter is_member (nodes w1))"
    using assms(5,6) w1(2) by simp_all
  moreover have "?p1\<lparr>pa_ensured_path := True\<rparr> = ?p1" by simp
  ultimately obtain w2 where w2: "party_iter zk r (?p1, w1) = Some (Inr (member_ids (nodes w) @ [i]), (?p1, w2))" "nodes w2 = nodes w1"
    using party_iter_run [OF assms(1), of ?p1 w1 r] p(1) ids by auto
  have "map_of (nodes w2) (pa_node p) \<noteq> None" by (simp add: w2(2) w1(2) map_of_eq_None_iff)
  moreover have "\<forall>e \<in> set (nodes w). fst e \<noteq> pa_node p" using \<open>pa_node p \<notin> fst ` set (nodes w)\<close> by force
  then have "List.filter (\<lambda>e. fst e \<noteq> pa_node p) (nodes w2) = nodes w" by (simp add: w2(2) w1(2) filter_id_conv)
  ultimately obtain w3 where "party_leave zk r (?p1, w2) = Some (Inr True, (?p1\<lparr>pa_participating := False\<rparr>, w3))" "nodes w3 = nodes w"
    using party_leave_runs [OF assms(1), of ?p1 r w2] p(1,2) by auto
  with w1 w2 show ?thesis
    by (intro exI [of _ ?p1] exI [of _ w1] exI [of _ w2] exI [of _ "?p1\<lparr>pa_participating := False\<rparr>"] exI [of _ w3]) simp
qed

text \<open>A server that is the list of the nodes.\<close>

definition demo_party_zk :: "(string \<times> bytes) list zk" where
  "demo_party_zk = zk_refuse\<lparr>zk_get_children := (\<lambda>_ w. Some (Inr (map fst w), w)),
     zk_get := (\<lambda>p w. Some (case map_of w (drop 3 p) of None \<Rightarrow> Inl (ZkErr NoNodeError) | Some d \<Rightarrow> Inr (Some d, blank_stat), w)),
     zk_create := (\<lambda>p d _ _ _ w. if map_of w (drop 3 p) = None then Some (Inr p, w @ [(drop 3 p, d)])
        else Some (Inl (ZkErr NodeExistsError), w)),
     zk_delete := (\<lambda>p w. Some (if map_of w (drop 3 p) = None then Inl (ZkErr NoNodeError) else Inr (),
        List.filter (\<lambda>e. fst e \<noteq> drop 3 p) w))\<rparr>"

lemma demo_party_server: "party_server demo_party_zk ''/p'' (\<lambda>w. w)"
  by (simp add: party_server_def demo_party_zk_def zk_refuse_def io_return_def)

theorem party_join_leave_witness:
  "\<exists>p1 w1 w2. party_join demo_party_zk forever (party_init ''/p'' (Some ''me'') ''u1'', [(''u0__party__'', [97]), (''other'', [])]) =
       Some (Inr (), (p1, w1))
     \<and> party_iter demo_party_zk forever (p1, w1) = Some (Inr [''a'', ''me''], (p1, w2))"
proof -
  have "member_ids [(''u0__party__'', [97]), (''other'', [])] = [''a'']" by code_simp
  moreover have "pystr ''me''" "map_of [(''u0__party__'', [97 :: byte]), (''other'', [])] (pa_node (party_init ''/p'' (Some ''me'') ''u1'')) = None"
    "distinct (map fst [(''u0__party__'', [97 :: byte]), (''other'', [])])"
    "list_all (\<lambda>e. utf8_ok (snd e)) (List.filter is_member [(''u0__party__'', [97]), (''other'', [])])" by code_simp+
  ultimately show ?thesis
    using party_join_leave [OF demo_party_server refl, where i = "''me''" and uuid = "''u1''" and r = forever
        and w = "[(''u0__party__'', [97]), (''other'', [])]"]
    by (metis append_Cons append_Nil)
qed

text \<open>
  A shallow party reads back the identifiers that its members put into their nodes' names:
  what the iteration cuts out of a member's node is its identifier, dashes in it included.
\<close>

theorem shallow_party_roundtrip:
  assumes "CHR ''-'' \<notin> set uuid" and "pystr i"
  shows "\<exists>p. shallow_party_init path (Some i) uuid = Inr p \<and> shallow_name (pa_node p) = i"
proof -
  have "takeWhile (\<lambda>c. c \<noteq> CHR ''-'') (uuid @ ''-'' @ i) = uuid"
    using assms(1) by (subst takeWhile_append2) auto
  then show ?thesis using assms(2)
    by (auto simp: shallow_party_init_def base_party_init_def shallow_name_def Let_def)
qed

theorem shallow_party_roundtrip_witness:
  "\<exists>p. shallow_party_init ''/p'' (Some ''host-1'') ''c0ffee'' = Inr p \<and> shallow_name (pa_node p) = ''host-1''"
  by (rule shallow_party_roundtrip) code_simp+

end
