(* ===== verification/IoLogic.thy ===== *)
theory IoLogic
  imports RetryInv
begin

text \<open>
  Triples for computations: \<open>io_sat P m Q\<close> says that a run of \<open>m\<close> which starts in \<open>P\<close> and
  returns or raises ends in \<open>Q\<close>. One rule per construct of the computations.
\<close>

definition io_sat :: "('w \<Rightarrow> bool) \<Rightarrow> ('w, 'a) io \<Rightarrow> (exc + 'a \<Rightarrow> 'w \<Rightarrow> bool) \<Rightarrow> bool" where
  "io_sat P m Q \<longleftrightarrow> (\<forall>w r w'. P w \<longrightarrow> m w = Some (r, w') \<longrightarrow> Q r w')"

named_theorems io_rules \<open>introduction rules for triples\<close>

lemma io_satI: "(\<And>w r w'. P w \<Longrightarrow> m w = Some (r, w') \<Longrightarrow> Q r w') \<Longrightarrow> io_sat P m Q"
  by (simp add: io_sat_def)

lemma io_satD: "io_sat P m Q \<Longrightarrow> P w \<Longrightarrow> m w = Some (r, w') \<Longrightarrow> Q r w'"
  unfolding io_sat_def by blast

lemma io_sat_weaken: "io_sat P m Q \<Longrightarrow> (\<And>w. P' w \<Longrightarrow> P w) \<Longrightarrow> (\<And>r w. Q r w \<Longrightarrow> Q' r w) \<Longrightarrow> io_sat P' m Q'"
  unfolding io_sat_def by blast

lemma io_sat_bind [io_rules]:
  assumes "\<And>x. io_sat (R x) (f x) Q" and "io_sat P m (case_sum (\<lambda>e. Q (Inl e)) R)"
  shows "io_sat P (io_bind m f) Q"
proof (rule io_satI)
  fix w r w' assume P: "P w" and run: "io_bind m f w = Some (r, w')"
  from run show "Q r w'"
  proof (cases rule: io_bind_cases)
    case (raised e)
    then show ?thesis using io_satD [OF assms(2) P] by fastforce
  next
    case (returned x w1)
    then have "R x w1" using io_satD [OF assms(2) P] by fastforce
    then show ?thesis using io_satD [OF assms(1)] returned(2) by blast
  qed
qed

lemma io_sat_catch [io_rules]:
  assumes "\<And>e. p e \<Longrightarrow> io_sat (H e) (h e) Q"
    and "io_sat P m (case_sum (\<lambda>e w. if p e then H e w else Q (Inl e) w) (\<lambda>x. Q (Inr x)))"
  shows "io_sat P (io_catch m p h) Q"
proof (rule io_satI)
  fix w r w' assume P: "P w" and run: "io_catch m p h w = Some (r, w')"
  from run show "Q r w'"
  proof (cases rule: io_catch_cases)
    case (caught e w1)
    then have "H e w1" using io_satD [OF assms(2) P] by fastforce
    then show ?thesis using io_satD [OF assms(1)] caught(2,3) by blast
  next
    case passed
    then show ?thesis using io_satD [OF assms(2) P] by (cases r) fastforce+
  qed
qed

lemma io_sat_finally [io_rules]:
  assumes "\<And>r. io_sat (R r) f (\<lambda>s w. case s of Inl e \<Rightarrow> Q (Inl e) w | Inr _ \<Rightarrow> Q r w)" and "io_sat P m R"
  shows "io_sat P (io_finally m f) Q"
proof (rule io_satI)
  fix w r w' assume P: "P w" and run: "io_finally m f w = Some (r, w')"
  obtain r1 w1 where m: "m w = Some (r1, w1)" using run by (cases "m w") (auto simp: io_finally_def)
  obtain s w2 where f: "f w1 = Some (s, w2)" using run m by (cases "f w1") (auto simp: io_finally_def)
  have "case s of Inl e \<Rightarrow> Q (Inl e) w2 | Inr _ \<Rightarrow> Q r1 w2"
    using io_satD [OF assms(1) _ f] io_satD [OF assms(2) P m] by blast
  then show "Q r w'" using run m f by (cases s) (auto simp: io_finally_def)
qed

lemma io_sat_prims [io_rules]:
  "(\<And>w. P w \<Longrightarrow> Q (Inr x) w) \<Longrightarrow> io_sat P (io_return x) Q"
  "(\<And>w. P w \<Longrightarrow> Q (Inl e) w) \<Longrightarrow> io_sat P (io_raise e) Q"
  "(\<And>w. P w \<Longrightarrow> Q r w) \<Longrightarrow> io_sat P (io_sum r) Q"
  by (auto simp: io_sat_def io_sum_def split: sum.splits)

lemma io_sat_object [io_rules]:
  "(\<And>s w. S (s, w) \<Longrightarrow> T (Inr s) (s, w)) \<Longrightarrow> io_sat S io_self T"
  "(\<And>s w. S (s, w) \<Longrightarrow> T (Inr ()) (g s, w)) \<Longrightarrow> io_sat S (io_modify g) T"
  "(\<And>s w. S (s, w) \<Longrightarrow> T (Inr ()) (s, h w)) \<Longrightarrow> io_sat S (io_world h) T"
  "(\<And>s w. S (s, w) \<Longrightarrow> T (Inr (k w)) (s, w)) \<Longrightarrow> io_sat S (io_ask k) T"
  by (auto simp: io_sat_def io_self_def io_modify_def io_world_def io_ask_def)

lemma io_sat_lift [io_rules]:
  "(\<And>s w r w'. S (s, w) \<Longrightarrow> m w = Some (r, w') \<Longrightarrow> T r (s, w')) \<Longrightarrow> io_sat S (io_lift m) T"
  by (auto simp: io_sat_def io_lift_def)

lemma io_sat_if [io_rules]:
  "(b \<Longrightarrow> io_sat P m Q) \<Longrightarrow> (\<not> b \<Longrightarrow> io_sat P n Q) \<Longrightarrow> io_sat P (if b then m else n) Q"
  by simp

lemma io_sat_option [io_rules]:
  "(x = None \<Longrightarrow> io_sat P m Q) \<Longrightarrow> (\<And>y. x = Some y \<Longrightarrow> io_sat P (f y) Q) \<Longrightarrow> io_sat P (case x of None \<Rightarrow> m | Some y \<Rightarrow> f y) Q"
  by (cases x) simp_all

text \<open>
  A retry ends as a run of the function ended, one that started where the failed runs before it
  and the waits had led, or it gives up; without a bound it does not give up.
\<close>

definition unbounded :: "'w retry_env \<Rightarrow> retry \<Rightarrow> bool" where
  "unbounded env r \<longleftrightarrow> env_interrupt env = None \<and> max_tries r = None \<and> deadline r = None \<and> cur_stoptime r = None"

lemma unbounded_arm: "unbounded env r \<Longrightarrow> retry_arm env r w = (r, w)"
  by (simp add: unbounded_def retry_arm_def)

lemma unbounded_failure:
  "unbounded env r \<Longrightarrow> \<exists>r' w'. retry_failure env r w = (Inr (), r', w') \<and> unbounded env r'"
  by (simp add: unbounded_def retry_failure_def past_deadline_def retry_wait_def Let_def split: prod.splits)

lemma retry_failure_gives_up: "retry_failure env r w = (Inl e, r', w') \<Longrightarrow> is_retry_failed e"
  by (auto simp: retry_failure_def Let_def split: if_splits prod.splits bool.splits)

definition retry_outcome :: "('w \<Rightarrow> bool) \<Rightarrow> ('w, 'a) io \<Rightarrow> bool \<Rightarrow> exc + 'a \<Rightarrow> 'w \<Rightarrow> bool" where
  "retry_outcome P func bounded res w' \<longleftrightarrow>
     (\<exists>w0. P w0 \<and> func w0 = Some (res, w')) \<or> (bounded \<and> P w' \<and> (\<exists>e. res = Inl e \<and> is_retry_failed e))"

lemma retry_loop_outcome:
  fixes func :: "'w \<Rightarrow> ((exc + 'a) \<times> 'w) option"
  assumes env: "env_keeps env P" and func: "\<And>w e w'. P w \<Longrightarrow> func w = Some (Inl e, w') \<Longrightarrow> P w'"
    and "P w" and run: "retry_loop env func r w = Some (res, r', w')"
  shows "retry_outcome P func (\<not> unbounded env r) res w'"
proof -
  let ?P = "\<lambda>(env' :: 'w retry_env) (func' :: 'w \<Rightarrow> ((exc + 'a) \<times> 'w) option) (r :: retry) w (x :: (exc + 'a) \<times> retry \<times> 'w).
    env' = env \<longrightarrow> func' = func \<longrightarrow> P w \<longrightarrow> retry_outcome P func (\<not> unbounded env r) (fst x) (snd (snd x))"
  have "?P env func r w (res, r', w')"
  proof (rule retry_loop.raw_induct [where P = ?P, OF _ run], intro impI)
    fix loop :: "'w retry_env \<Rightarrow> ('w \<Rightarrow> ((exc + 'a) \<times> 'w) option) \<Rightarrow> retry \<Rightarrow> 'w \<Rightarrow> ((exc + 'a) \<times> retry \<times> 'w) option"
      and env' and func' :: "'w \<Rightarrow> ((exc + 'a) \<times> 'w) option" and r w x
    assume IH: "\<And>env func r w x. loop env func r w = Some x \<Longrightarrow> ?P env func r w x"
      and eq: "(case retry_arm env' r w of (r, w) \<Rightarrow>
       (case func' w of
          None \<Rightarrow> None
        | Some (Inr x, w) \<Rightarrow> Some (Inr x, r, w)
        | Some (Inl e, w) \<Rightarrow>
            if e = ConnectionClosedError then Some (Inl e, r, w)
            else if retryable r e then
              (case retry_failure env' r w of
                 (Inl e', r, w) \<Rightarrow> Some (Inl e', r, w)
               | (Inr u, r, w) \<Rightarrow> loop env' func' r w)
            else Some (Inl e, r, w))) = Some x"
      and same: "env' = env" "func' = func" and w: "P w"
    obtain r1 w1 where arm: "retry_arm env r w = (r1, w1)" by fastforce
    have w1: "P w1" by (rule retry_arm_keeps [OF env w arm])
    obtain out w2 where out: "func w1 = Some (out, w2)" using eq arm same by (auto split: option.splits)
    obtain fail r2 w3 where fail: "retry_failure env r1 w2 = (fail, r2, w3)" by (metis prod_cases3)
    show "retry_outcome P func (\<not> unbounded env r) (fst x) (snd (snd x))"
    proof (cases "\<exists>e. out = Inl e \<and> e \<noteq> ConnectionClosedError \<and> retryable r1 e")
      case True
      then have "P w2" using func w1 out by blast
      then have w3: "P w3" by (rule retry_failure_keeps [OF env _ fail])
      show ?thesis
      proof (cases fail)
        case (Inl e)
        have "\<not> unbounded env r"
        proof
          assume u: "unbounded env r"
          then have "r1 = r" using unbounded_arm arm by (metis prod.inject)
          then show False using unbounded_failure [OF u, of w2] fail Inl by auto
        qed
        then show ?thesis using eq same arm out True fail Inl w3 retry_failure_gives_up [of env r1 w2 e r2 w3]
          by (auto simp: retry_outcome_def)
      next
        case (Inr u)
        have "unbounded env r \<Longrightarrow> unbounded env r2"
          using unbounded_arm [of env r w] arm unbounded_failure [of env r w2] fail by auto
        moreover have "loop env func r2 w3 = Some x" using eq same arm out True fail Inr by auto
        ultimately have "retry_outcome P func (\<not> unbounded env r2) (fst x) (snd (snd x))" using IH w3 by simp
        then show ?thesis using \<open>unbounded env r \<Longrightarrow> unbounded env r2\<close> unfolding retry_outcome_def by blast
      qed
    next
      case False
      then have "fst x = out \<and> snd (snd x) = w2" using eq same arm out by (cases out) (auto split: if_splits)
      then show ?thesis using w1 out by (auto simp: retry_outcome_def)
    qed
  qed
  then show ?thesis using assms(3) by simp
qed

lemma io_retry_self_outcome:
  fixes P :: "'s \<times> 'w \<Rightarrow> bool"
  assumes "\<And>s. env_keeps (zk_retry zk) (\<lambda>w. P (s, w))" and "\<And>w e w'. P w \<Longrightarrow> func w = Some (Inl e, w') \<Longrightarrow> P w'"
    and "P sw" and "io_retry_self zk r func sw = Some (res, sw')"
  shows "retry_outcome P func (\<not> unbounded (zk_retry zk) (retry_reset r)) res sw'"
proof -
  let ?env = "lift_env (zk_retry zk) :: ('s \<times> 'w) retry_env"
  obtain r' where loop: "retry_loop ?env func (retry_reset r) sw = Some (res, r', sw')"
    using assms(4) by (auto simp: io_retry_self_def retry_call_partial_def)
  have "unbounded ?env (retry_reset r) = unbounded (zk_retry zk) (retry_reset r)"
    by (simp add: unbounded_def lift_env_def)
  moreover have "retry_outcome P func (\<not> unbounded ?env (retry_reset r)) res sw'"
    by (rule retry_loop_outcome [where P = P and func = func, OF env_keeps_lift _ assms(3) loop]) (fact assms(1), fact assms(2))
  ultimately show ?thesis by simp
qed

lemma io_sat_retry_self:
  assumes "io_sat P func (case_sum (\<lambda>e w. P w \<and> Q (Inl e) w) (\<lambda>x. Q (Inr x)))"
    and "\<And>s. env_keeps (zk_retry zk) (\<lambda>w. P (s, w))" and "unbounded (zk_retry zk) (retry_reset r)"
  shows "io_sat P (io_retry_self zk r func) Q"
proof (rule io_satI)
  fix sw res sw' assume P: "P sw" and run: "io_retry_self zk r func sw = Some (res, sw')"
  have fail: "P sw'" if "P sw" "func sw = Some (Inl e, sw')" for sw e sw' using io_satD [OF assms(1) that] by simp
  have "retry_outcome P func (\<not> unbounded (zk_retry zk) (retry_reset r)) res sw'"
    by (rule io_retry_self_outcome [where P = P and func = func, OF assms(2) _ P run]) (fact fail)
  then obtain sw0 where "P sw0" "func sw0 = Some (res, sw')" using assms(3) unfolding retry_outcome_def by blast
  then show "Q res sw'" using io_satD [OF assms(1), of sw0 res sw'] by (cases res) simp_all
qed

section \<open>Invariants\<close>

text \<open>\<open>io_keeps E I m\<close>: the computation keeps \<open>I\<close>, and what it raises is in \<open>E\<close>.\<close>

definition io_keeps :: "(exc \<Rightarrow> bool) \<Rightarrow> ('w \<Rightarrow> bool) \<Rightarrow> ('w, 'a) io \<Rightarrow> bool" where
  "io_keeps E I m \<longleftrightarrow> io_sat I m (\<lambda>r w. I w \<and> (case r of Inl e \<Rightarrow> E e | Inr _ \<Rightarrow> True))"

named_theorems keeps_rules \<open>introduction rules for invariants of computations\<close>

lemma io_keepsD:
  "io_keeps E I m \<Longrightarrow> I w \<Longrightarrow> m w = Some (r, w') \<Longrightarrow> I w'"
  "io_keeps E I m \<Longrightarrow> I w \<Longrightarrow> m w = Some (Inl e, w') \<Longrightarrow> E e"
  by (auto simp: io_keeps_def dest: io_satD)

lemma keeps_bind [keeps_rules]: "io_keeps E I m \<Longrightarrow> (\<And>x. io_keeps E I (f x)) \<Longrightarrow> io_keeps E I (io_bind m f)"
  unfolding io_keeps_def
  by (rule io_sat_bind [where R = "\<lambda>_. I"], blast) (erule io_sat_weaken, auto split: sum.splits)

lemma keeps_catch [keeps_rules]:
  "io_keeps (\<lambda>e. p e \<or> E e) I m \<Longrightarrow> (\<And>e. p e \<Longrightarrow> io_keeps E I (h e)) \<Longrightarrow> io_keeps E I (io_catch m p h)"
  unfolding io_keeps_def
  by (rule io_sat_catch [where H = "\<lambda>_. I"], blast) (erule io_sat_weaken, auto split: sum.splits)

lemma keeps_finally [keeps_rules]:
  assumes "io_keeps E I m" and "io_keeps E I f"
  shows "io_keeps E I (io_finally m f)"
  unfolding io_keeps_def
proof (rule io_sat_finally)
  show "io_sat I m (\<lambda>r w. I w \<and> (case r of Inl e \<Rightarrow> E e | Inr _ \<Rightarrow> True))" using assms(1) by (simp add: io_keeps_def)
  show "io_sat (\<lambda>w. I w \<and> (case r of Inl e \<Rightarrow> E e | Inr _ \<Rightarrow> True)) f (\<lambda>s w. case s of
      Inl e \<Rightarrow> I w \<and> (case Inl e of Inl e \<Rightarrow> E e | Inr _ \<Rightarrow> True)
    | Inr _ \<Rightarrow> I w \<and> (case r of Inl e \<Rightarrow> E e | Inr _ \<Rightarrow> True))" for r
  proof (rule io_satI)
    fix w s w' assume pre: "I w \<and> (case r of Inl e \<Rightarrow> E e | Inr _ \<Rightarrow> True)" and run: "f w = Some (s, w')"
    note post = io_keepsD [OF assms(2) conjunct1 [OF pre]]
    show "case s of Inl e \<Rightarrow> I w' \<and> (case Inl e of Inl e \<Rightarrow> E e | Inr _ \<Rightarrow> True)
        | Inr _ \<Rightarrow> I w' \<and> (case r of Inl e \<Rightarrow> E e | Inr _ \<Rightarrow> True)"
      using post(1) [OF run] post(2) [of _ w'] run pre by (cases s) simp_all
  qed
qed

lemma keeps_prims [keeps_rules]:
  "io_keeps E I (io_return x)" "E e \<Longrightarrow> io_keeps E I (io_raise e)"
  by (auto simp: io_keeps_def io_sat_def)

lemma keeps_object [keeps_rules]:
  "io_keeps E J io_self"
  "(\<And>s w. J (s, w) \<Longrightarrow> J (g s, w)) \<Longrightarrow> io_keeps E J (io_modify g)"
  "(\<And>s w. J (s, w) \<Longrightarrow> J (s, h w)) \<Longrightarrow> io_keeps E J (io_world h)"
  "io_keeps E J (io_ask k)"
  by (auto simp: io_keeps_def io_sat_def io_self_def io_modify_def io_world_def io_ask_def)

lemma keeps_lift:
  "(\<And>w w'. io_keeps E (\<lambda>_. True) m) \<Longrightarrow> (\<And>s w w'. J (s, w) \<Longrightarrow> J (s, w')) \<Longrightarrow> io_keeps E J (io_lift m)"
  by (fastforce simp: io_keeps_def io_sat_def io_lift_def)

lemma keeps_if [keeps_rules]:
  "(b \<Longrightarrow> io_keeps E I m) \<Longrightarrow> (\<not> b \<Longrightarrow> io_keeps E I n) \<Longrightarrow> io_keeps E I (if b then m else n)"
  by simp

lemma keeps_option [keeps_rules]:
  "(x = None \<Longrightarrow> io_keeps E I m) \<Longrightarrow> (\<And>y. x = Some y \<Longrightarrow> io_keeps E I (f y)) \<Longrightarrow>
   io_keeps E I (case x of None \<Rightarrow> m | Some y \<Rightarrow> f y)"
  by (cases x) simp_all

lemma keeps_weaken: "io_keeps E I m \<Longrightarrow> (\<And>e. E e \<Longrightarrow> E' e) \<Longrightarrow> io_keeps E' I m"
  by (auto simp: io_keeps_def io_sat_def split: sum.splits)

lemma keeps_retry_self:
  assumes "io_keeps E I func" and "\<And>s. env_keeps (zk_retry zk) (\<lambda>w. I (s, w))" and "\<And>e. is_retry_failed e \<Longrightarrow> E e"
  shows "io_keeps E I (io_retry_self zk r func)"
  unfolding io_keeps_def
proof (rule io_satI)
  fix sw res sw' assume I: "I sw" and run: "io_retry_self zk r func sw = Some (res, sw')"
  have fail: "I sw'" if "I sw" "func sw = Some (Inl e, sw')" for sw e sw' by (rule io_keepsD(1) [OF assms(1) that])
  have "retry_outcome I func (\<not> unbounded (zk_retry zk) (retry_reset r)) res sw'"
    by (rule io_retry_self_outcome [where P = I and func = func, OF assms(2) _ I run]) (fact fail)
  then show "I sw' \<and> (case res of Inl e \<Rightarrow> E e | Inr _ \<Rightarrow> True)"
    unfolding retry_outcome_def
  proof (elim disjE exE conjE)
    fix sw0 assume "I sw0" "func sw0 = Some (res, sw')"
    then show ?thesis using io_keepsD [OF assms(1), of sw0] by (cases res) auto
  qed (simp add: assms(3))
qed

end
