(* ===== verification/Election.thy ===== *)
theory Election
  imports Lock IoLogic
begin

text \<open>
  \<^verbatim>\<open>Lock\<close> as a context manager, and \<^verbatim>\<open>kazoo/recipe/election.py\<close>, which runs the leader's
  function inside it.
\<close>

section \<open>The lock as a context manager\<close>

text \<open>\<^verbatim>\<open>__enter__\<close> does not look at what \<^verbatim>\<open>acquire\<close> returns.\<close>

definition lock_enter :: "'w lock_env \<Rightarrow> (lock \<times> 'w, unit) io" where
  "lock_enter env = io_bind (acquire env True None True) (\<lambda>_. io_return ())"

definition lock_exit :: "'w lock_env \<Rightarrow> retry \<Rightarrow> (lock \<times> 'w, unit) io" where
  "lock_exit env command_retry = io_bind (release env command_retry) (\<lambda>_. io_return ())"

definition with_lock :: "'w lock_env \<Rightarrow> retry \<Rightarrow> (lock \<times> 'w, 'a) io \<Rightarrow> (lock \<times> 'w, 'a) io" where
  "with_lock env command_retry body =
     io_bind (lock_enter env) (\<lambda>_. io_finally body (lock_exit env command_retry))"

section \<open>Election\<close>

definition election_init :: "string \<Rightarrow> bytes \<Rightarrow> string \<Rightarrow> lock" where
  "election_init uuid data path = lock_init [] uuid data path"

text \<open>\<open>func\<close> is \<^term>\<open>None\<close> for an object that is not callable.\<close>

definition election_run :: "'w lock_env \<Rightarrow> retry \<Rightarrow> ('w, unit) io option \<Rightarrow> (lock \<times> 'w, unit) io" where
  "election_run env command_retry func =
     (case func of
        None \<Rightarrow> io_raise PyValueError
      | Some f \<Rightarrow>
          io_catch (with_lock env command_retry (io_lift f)) (\<lambda>e. e = CancelledError) (\<lambda>_. io_return ()))"

definition election_cancel :: "'w lock_env \<Rightarrow> (lock \<times> 'w, unit) io" where
  "election_cancel env = lock_cancel env"

definition election_contenders :: "'w lock_env \<Rightarrow> (lock \<times> 'w, string list) io" where
  "election_contenders env = contenders env"

section \<open>The body of the block runs while the lock is held\<close>

text \<open>
  What is relied on: a blocking acquire of the method lock succeeds, the client's operations and
  the wait do not raise the retry's own exception, a deletion is not cancelled, and the lock's retry is the one of
  \<^verbatim>\<open>__init__\<close>, without bounds.
\<close>

definition not_given_up :: "exc \<Rightarrow> bool" where
  "not_given_up e \<longleftrightarrow> \<not> is_retry_failed e"

definition plain_env :: "'w lock_env \<Rightarrow> bool" where
  "plain_env env \<longleftrightarrow>
     (\<forall>w b w'. le_method_lock env True None w = Some (Inr b, w') \<longrightarrow> b)
   \<and> (\<forall>path. io_keeps not_given_up (\<lambda>_. True) (zk_ensure_path (le_zk env) path))
   \<and> (\<forall>path. io_keeps not_given_up (\<lambda>_. True) (zk_get_children (le_zk env) path))
   \<and> (\<forall>path d e s m. io_keeps not_given_up (\<lambda>_. True) (zk_create (le_zk env) path d e s m))
   \<and> (\<forall>path. io_keeps not_given_up (\<lambda>_. True) (zk_get_w (le_zk env) path))
   \<and> (\<forall>t. io_keeps not_given_up (\<lambda>_. True) (le_wait env t))
   \<and> (\<forall>path. io_keeps (\<lambda>e. e \<noteq> CancelledError) (\<lambda>_. True) (zk_delete (le_zk env) path))
   \<and> env_interrupt (zk_retry (le_zk env)) = None
   \<and> max_tries (le_retry env) = None"

lemma io_bind_self: "io_bind io_self f (s, w) = f s (s, w)"
  by simp

definition unlocked :: "lock \<times> 'w \<Rightarrow> bool" where
  "unlocked lw \<longleftrightarrow> \<not> lk_is_acquired (fst lw)"

lemma unlocked_env: "env_keeps env (\<lambda>w. unlocked (l, w))"
  by (simp add: env_keeps_def unlocked_def)

lemma keeps_step:
  assumes "plain_env env"
  shows "io_keeps not_given_up unlocked (io_lift (zk_ensure_path (le_zk env) path))"
    and "io_keeps not_given_up unlocked (io_lift (zk_get_children (le_zk env) path))"
    and "io_keeps not_given_up unlocked (io_lift (zk_create (le_zk env) path d e s m))"
    and "io_keeps not_given_up unlocked (io_lift (zk_get_w (le_zk env) path))"
    and "io_keeps not_given_up unlocked (io_lift (le_wait env t))"
  using assms by (auto intro!: keeps_lift simp: plain_env_def unlocked_def)

lemma keeps_answer: "(\<And>e. r = Inl e \<Longrightarrow> E e) \<Longrightarrow> io_keeps E I (case r of Inl e \<Rightarrow> io_raise e | Inr x \<Rightarrow> io_return x)"
  by (cases r) (simp_all add: keeps_prims)

lemma get_predecessor_error: "get_predecessor p q cs n = Inl e \<Longrightarrow> not_given_up e"
  by (simp add: get_predecessor_def Let_def not_given_up_def split: if_splits)

lemma keeps_predecessor:
  assumes "plain_env env"
  shows "io_keeps not_given_up unlocked (lock_predecessor env node)"
  unfolding lock_predecessor_def
  by (intro keeps_rules keeps_step [OF assms] keeps_answer) (rule get_predecessor_error)

lemma keeps_find_node:
  assumes "plain_env env"
  shows "io_keeps not_given_up unlocked (lock_find_node env)"
  unfolding lock_find_node_def by (intro keeps_rules keeps_step [OF assms])

lemma keeps_ensure_path:
  assumes "plain_env env"
  shows "io_keeps not_given_up unlocked (lock_ensure_path env)"
  unfolding lock_ensure_path_def by (intro keeps_rules keeps_step [OF assms]) (simp add: unlocked_def)

lemma keeps_wait_predecessor:
  assumes "plain_env env"
  shows "io_keeps not_given_up unlocked (wait_predecessor env p t)"
proof -
  have "io_keeps (\<lambda>e. is_no_node e \<or> not_given_up e) unlocked (io_lift (zk_get_w (le_zk env) p))"
    by (rule keeps_weaken [OF keeps_step(4) [OF assms]]) simp
  then have get: "io_keeps not_given_up unlocked
      (io_catch (io_bind (io_lift (zk_get_w (le_zk env) p)) (\<lambda>_. io_return True)) is_no_node (\<lambda>_. io_return False))"
    by (intro keeps_rules)
  show ?thesis
    unfolding wait_predecessor_def
    by (intro keeps_bind keeps_finally get keeps_step(5) [OF assms] keeps_if keeps_prims keeps_object)
      (simp_all add: unlocked_def not_given_up_def)
qed

text \<open>What an attempt to acquire ends in while the lock is not held: never a plain refusal.\<close>

definition attempt_ends :: "exc + bool \<Rightarrow> lock \<times> 'w \<Rightarrow> bool" where
  "attempt_ends r lw \<longleftrightarrow> unlocked lw \<and> (case r of Inl e \<Rightarrow> not_given_up e | Inr b \<Rightarrow> b)"

lemma lock_loop_ends:
  assumes "plain_env env"
  shows "io_sat unlocked (lock_loop env node True timeout) attempt_ends"
proof (rule io_satI)
  fix lw r lw' assume start: "unlocked lw" and run: "lock_loop env node True timeout lw = Some (r, lw')"
  let ?P = "\<lambda>(env' :: 'a lock_env) (node :: string) blocking (timeout :: rat option) lw (x :: (exc + bool) \<times> lock \<times> 'a).
    env' = env \<longrightarrow> blocking \<longrightarrow> unlocked lw \<longrightarrow> attempt_ends (fst x) (snd x)"
  have "?P env node True timeout lw (r, lw')"
  proof (rule lock_loop.raw_induct [where P = ?P, OF _ run], intro impI)
    fix loop and env' :: "'a lock_env" and node blocking timeout lw x
    assume IH: "\<And>env node blocking timeout lw x. loop env node blocking timeout lw = Some x \<Longrightarrow> ?P env node blocking timeout lw x"
      and eq: "io_bind (io_world (le_clear env')) (\<lambda>_.
     io_bind (io_ask (le_cancelled env')) (\<lambda>cancelled lw.
       if cancelled then io_raise CancelledError lw
       else io_bind (lock_predecessor env' node) (\<lambda>predecessor lw.
           case predecessor of
             None \<Rightarrow> io_return True lw
           | Some p \<Rightarrow>
               if \<not> blocking then io_return False lw
               else io_bind io_self (\<lambda>l.
                   io_bind (wait_predecessor env' (lk_path l @ ''/'' @ p) timeout) (\<lambda>_.
                     loop env' node blocking timeout)) lw) lw)) lw = Some x"
      and env: "env' = env" and blocking and lw: "unlocked lw"
    obtain l w where lw_eq: "lw = (l, w)" by (cases lw)
    let ?w1 = "le_clear env w"
    have one: "unlocked (l, ?w1)" using lw lw_eq by (simp add: unlocked_def)
    obtain r lw' where x: "x = (r, lw')" by (cases x)
    have "blocking = True" using \<open>blocking\<close> by simp
    show "attempt_ends (fst x) (snd x)"
    proof (cases "le_cancelled env ?w1")
      case True
      then show ?thesis using eq env lw_eq one x by (auto simp: io_bind_def attempt_ends_def not_given_up_def)
    next
      case False
      then have step: "io_bind (lock_predecessor env node) (\<lambda>predecessor lw.
           case predecessor of
             None \<Rightarrow> io_return True lw
           | Some p \<Rightarrow> io_bind io_self (\<lambda>l. io_bind (wait_predecessor env (lk_path l @ ''/'' @ p) timeout) (\<lambda>_.
                     loop env node blocking timeout)) lw) (l, ?w1) = Some (r, lw')"
        unfolding \<open>blocking = True\<close> using eq [unfolded env \<open>blocking = True\<close> not_True_eq_False if_False lw_eq] x by simp
      from step show ?thesis
      proof (cases rule: io_bind_cases)
        case (raised e)
        then show ?thesis using io_keepsD [OF keeps_predecessor [OF assms] one] x by (auto simp: attempt_ends_def)
      next
        case (returned predecessor lw2)
        have two: "unlocked lw2" by (rule io_keepsD(1) [OF keeps_predecessor [OF assms] one returned(1)])
        show ?thesis
        proof (cases predecessor)
          case None
          then show ?thesis using returned(2) two x by (auto simp: attempt_ends_def)
        next
          case (Some p)
          then have "io_bind (wait_predecessor env (lk_path (fst lw2) @ ''/'' @ p) timeout) (\<lambda>_. loop env node blocking timeout) lw2 = Some (r, lw')"
            using returned(2) by (cases lw2) (simp add: io_bind_def)
          then show ?thesis
          proof (cases rule: io_bind_cases)
            case (raised e)
            then show ?thesis using io_keepsD [OF keeps_wait_predecessor [OF assms] two] x by (auto simp: attempt_ends_def)
          next
            case (returned u lw3)
            have "unlocked lw3" by (rule io_keepsD(1) [OF keeps_wait_predecessor [OF assms] two returned(1)])
            then show ?thesis using IH [OF returned(2)] x \<open>blocking\<close> by simp
          qed
        qed
      qed
    qed
  qed
  then show "attempt_ends r lw'" using start by simp
qed

lemma inner_acquire_ends:
  assumes "plain_env env"
  shows "io_sat unlocked (inner_acquire env True timeout ephemeral) attempt_ends"
proof (rule io_satI)
  fix lw r lw' assume start: "unlocked lw" and run: "inner_acquire env True timeout ephemeral lw = Some (r, lw')"
  obtain l w where lw: "lw = (l, w)" by (cases lw)
  let ?prepare = "io_bind (if lk_assured_path l then io_return () else lock_ensure_path env) (\<lambda>_.
         io_bind (if lk_create_tried l then lock_find_node env
                  else io_bind (io_modify (\<lambda>l. l\<lparr>lk_create_tried := True\<rparr>)) (\<lambda>_. io_return None)) (\<lambda>node.
         io_bind (case node of
             Some n \<Rightarrow> io_return n
           | None \<Rightarrow>
               io_bind (io_lift (zk_create (le_zk env) (lk_path l @ ''/'' @ lk_prefix l) (lk_data l)
                                   ephemeral True False)) (\<lambda>created.
                 io_return (drop (length (lk_path l) + 1) created))) (\<lambda>node.
         io_bind (io_modify (\<lambda>l. l\<lparr>lk_node := Some node\<rparr>)) (\<lambda>_. io_return node))))"
  have keeps: "io_keeps not_given_up unlocked ?prepare"
    by (intro keeps_bind keeps_if keeps_option keeps_prims keeps_object keeps_step [OF assms]
        keeps_ensure_path [OF assms] keeps_find_node [OF assms]) (simp_all add: unlocked_def)
  have "io_bind ?prepare (\<lambda>node. lock_loop env node True timeout) lw = Some (r, lw')"
    using run start unfolding inner_acquire_def lw by (simp add: unlocked_def io_bind_def [of io_self])
  then show "attempt_ends r lw'"
  proof (cases rule: io_bind_cases)
    case (raised e)
    then show ?thesis using io_keepsD [OF keeps start] by (auto simp: attempt_ends_def)
  next
    case (returned node lw1)
    then show ?thesis using io_satD [OF lock_loop_ends [OF assms] io_keepsD(1) [OF keeps start returned(1)]] by blast
  qed
qed

lemma keeps_cleanup: "io_keeps (\<lambda>_. True) unlocked (best_effort_cleanup env)"
proof -
  have any: "io_keeps (\<lambda>_. True) unlocked (io_lift m)" for m :: "('a, 'b) io"
    by (rule keeps_lift) (simp_all add: io_keeps_def io_sat_def unlocked_def split: sum.splits)
  have "io_keeps (\<lambda>e. is_kazoo_exception e \<or> True) unlocked
      (io_bind io_self (\<lambda>l.
        io_bind (case lk_node l of Some n \<Rightarrow> io_return (Some n) | None \<Rightarrow> lock_find_node env) (\<lambda>node.
          case node of Some n \<Rightarrow> delete_node env n | None \<Rightarrow> io_return ())))"
    unfolding lock_find_node_def delete_node_def
    by (intro keeps_bind keeps_option keeps_prims keeps_object keeps_lift) (simp_all add: io_keeps_def io_sat_def unlocked_def split: sum.splits)
  then show ?thesis unfolding best_effort_cleanup_def by (intro keeps_catch keeps_prims)
qed

text \<open>An acquire that blocks without a time limit ends with the lock, or raises without it.\<close>

definition acquire_ends :: "exc + bool \<Rightarrow> lock \<times> 'w \<Rightarrow> bool" where
  "acquire_ends r lw \<longleftrightarrow> (case r of Inl _ \<Rightarrow> unlocked lw | Inr b \<Rightarrow> b \<and> \<not> unlocked lw)"

lemma acquire_locked_ends:
  assumes "plain_env env"
  shows "io_sat unlocked (acquire_locked env True None True) acquire_ends"
proof (rule io_satI)
  fix lw r lw' assume start: "unlocked lw" and run: "acquire_locked env True None True lw = Some (r, lw')"
  obtain l w where lw: "lw = (l, w)" and l: "\<not> lk_is_acquired l" using start by (cases lw) (simp add: unlocked_def)
  let ?retry = "(retry_copy (le_retry env))\<lparr>deadline := None\<rparr>"
  let ?run = "io_retry_self (le_zk env) ?retry (inner_acquire env True None True)"
  let ?give_up = "\<lambda>e. if is_retry_failed e then io_return False
               else io_bind (if lk_is_acquired l then io_return ()
                             else io_bind (best_effort_cleanup env) (\<lambda>_. io_world (le_uncancel env)))
                      (\<lambda>_. io_raise e)"
  have unbounded: "unbounded (zk_retry (le_zk env)) (retry_reset ?retry)"
    using assms by (simp add: unbounded_def plain_env_def retry_reset_def retry_copy_def retry_init_def)
  have tried: "io_sat unlocked ?run attempt_ends"
    by (rule io_sat_retry_self [OF io_sat_weaken [OF inner_acquire_ends [OF assms]] unlocked_env unbounded])
      (auto simp: attempt_ends_def split: sum.splits)
  have give_up: "io_keeps (\<lambda>_. True) unlocked
      (io_bind (if lk_is_acquired l then io_return () else io_bind (best_effort_cleanup env) (\<lambda>_. io_world (le_uncancel env)))
         (\<lambda>_. io_raise e :: (lock \<times> 'a, bool) io))" for e
    by (intro keeps_bind keeps_if keeps_cleanup keeps_object keeps_prims) (simp_all add: unlocked_def)
  have "io_bind (io_catch ?run is_kazoo_exception ?give_up)
       (\<lambda>gotten.
          io_bind (if gotten then io_modify (\<lambda>l. l\<lparr>lk_is_acquired := True\<rparr>) else io_return ()) (\<lambda>_.
          io_bind (if \<not> gotten \<and> \<not> lk_is_acquired l then best_effort_cleanup env else io_return ()) (\<lambda>_.
            io_return gotten))) lw = Some (r, lw')"
    using run unfolding acquire_locked_def lw io_bind_self .
  then show "acquire_ends r lw'"
  proof (cases rule: io_bind_cases)
    case (raised e)
    from raised(1) show ?thesis
    proof (cases rule: io_catch_cases)
      case (caught e1 lw1)
      have "unlocked lw1" "not_given_up e1" using io_satD [OF tried start caught(1)] by (simp_all add: attempt_ends_def)
      then have "unlocked lw'" using caught(3) io_keepsD(1) [OF give_up] by (simp add: not_given_up_def)
      then show ?thesis using raised(2) by (simp add: acquire_ends_def)
    next
      case passed
      then show ?thesis using io_satD [OF tried start] raised(2) by (auto simp: attempt_ends_def acquire_ends_def)
    qed
  next
    case (returned gotten lw1)
    from returned(1) have "gotten"
    proof (cases rule: io_catch_cases)
      case (caught e1 lw2)
      have "not_given_up e1" using io_satD [OF tried start caught(1)] by (simp add: attempt_ends_def)
      then show ?thesis using caught(3) by (auto simp: not_given_up_def io_bind_eq_Inr)
    next
      case passed
      then show ?thesis using io_satD [OF tried start] by (auto simp: attempt_ends_def)
    qed
    then show ?thesis using returned(2) by (cases lw1) (auto simp: io_bind_def io_modify_def acquire_ends_def unlocked_def)
  qed
qed

lemma acquire_blocking_ends:
  assumes "plain_env env"
  shows "io_sat unlocked (acquire env True None True) acquire_ends"
proof (rule io_satI)
  fix lw r lw' assume start: "unlocked lw" and run: "acquire env True None True lw = Some (r, lw')"
  from run [unfolded acquire_def] show "acquire_ends r lw'"
  proof (cases rule: io_bind_cases)
    case (raised e)
    then show ?thesis using start by (auto simp: io_lift_def acquire_ends_def unlocked_def)
  next
    case (returned locked lw1)
    then obtain w1 where "le_method_lock env True None (snd lw) = Some (Inr locked, w1)" "lw1 = (fst lw, w1)"
      by (auto simp: io_lift_def)
    then have locked and one: "unlocked lw1" using assms start by (auto simp: plain_env_def unlocked_def)
    then have fin: "io_finally (acquire_locked env True None True) (io_world (le_method_unlock env)) lw1 = Some (r, lw')"
      using returned(2) by simp
    then obtain r2 lw2 where "acquire_locked env True None True lw1 = Some (r2, lw2)"
      by (cases "acquire_locked env True None True lw1") (auto simp: io_finally_def)
    then show ?thesis using io_satD [OF acquire_locked_ends [OF assms] one] fin
      by (cases lw2) (auto simp: io_finally_def io_world_def acquire_ends_def unlocked_def split: sum.splits)
  qed
qed

lemma inner_release_unlocks:
  assumes "inner_release env lw = Some (Inr b, lw')"
  shows "unlocked lw'"
  using assms by (cases lw) (auto simp: inner_release_def unlocked_def io_bind_eq_Inr io_self_def io_modify_def split: if_splits)

lemma release_unlocks:
  assumes "release env r lw = Some (Inr b, lw')"
  shows "unlocked lw'"
proof -
  obtain lw0 where "inner_release env lw0 = Some (Inr b, lw')"
    by (rule io_retry_self_succeeds [where P = "\<lambda>_. True" and func = "inner_release env", OF _ _ _ assms [unfolded release_def]])
      (simp_all add: env_keeps_def)
  then show ?thesis by (rule inner_release_unlocks)
qed

lemma release_not_cancelled:
  assumes "plain_env env"
  shows "io_keeps (\<lambda>e. e \<noteq> CancelledError) (\<lambda>_. True) (release env r)"
proof -
  have "io_keeps (\<lambda>e. e \<noteq> CancelledError) (\<lambda>_. True) (io_lift (zk_delete (le_zk env) path) :: (lock \<times> 'a, unit) io)" for path
    using assms by (intro keeps_lift) (simp_all add: plain_env_def)
  then have delete: "io_keeps (\<lambda>e. e \<noteq> CancelledError) (\<lambda>_. True) (delete_node env n)" for n
    unfolding delete_node_def by (intro keeps_bind keeps_object)
  have "io_keeps (\<lambda>e. is_no_node e \<or> e \<noteq> CancelledError) (\<lambda>_. True)
      (case n of Some n \<Rightarrow> delete_node env n | None \<Rightarrow> io_raise PyTypeError)" for n
    by (intro keeps_option keeps_prims keeps_weaken [OF delete]) simp_all
  then have "io_keeps (\<lambda>e. e \<noteq> CancelledError) (\<lambda>_. True) (inner_release env)"
    unfolding inner_release_def by (intro keeps_bind keeps_if keeps_catch keeps_prims keeps_object) simp_all
  then show ?thesis
    unfolding release_def by (rule keeps_retry_self) (auto simp: env_keeps_def)
qed

text \<open>
  C26. The leader's function runs only while its contender holds the lock: a run of the election
  either never gets the lock, and then the function is not called and a cancellation counts as a
  normal end; or it is the acquire, one call of the function from the world in which the lock was
  got, with the lock held, and the release from the world that the function left, and nothing
  else. An error of the release is raised, else that of the function, unless it is a cancellation;
  a normal end means that the lock was released.
\<close>

theorem election_run_leads:
  assumes "plain_env env" and "\<not> lk_is_acquired l" and "election_run env r (Some func) (l, w) = Some (res, (l', w'))"
  shows "(\<exists>e. acquire env True None True (l, w) = Some (Inl e, (l', w')) \<and> \<not> lk_is_acquired l'
            \<and> res = (if e = CancelledError then Inr () else Inl e))
    \<or> (\<exists>l1 w1 out w2 released. acquire env True None True (l, w) = Some (Inr True, (l1, w1)) \<and> lk_is_acquired l1
            \<and> func w1 = Some (out, w2) \<and> lock_exit env r (l1, w2) = Some (released, (l', w'))
            \<and> res = (case released of Inl e \<Rightarrow> Inl e | Inr _ \<Rightarrow> if out = Inl CancelledError then Inr () else out)
            \<and> (res = Inr () \<longrightarrow> \<not> lk_is_acquired l'))"
proof -
  have start: "unlocked (l, w)" using assms(2) by (simp add: unlocked_def)
  have run: "io_catch (with_lock env r (io_lift func)) (\<lambda>e. e = CancelledError) (\<lambda>_. io_return ()) (l, w) = Some (res, (l', w'))"
    using assms(3) by (simp add: election_run_def)
  then obtain r0 where lock: "with_lock env r (io_lift func) (l, w) = Some (r0, (l', w'))"
    and res: "res = (if r0 = Inl CancelledError then Inr () else r0)"
  proof (cases rule: io_catch_cases)
    case (caught e lw1)
    then show ?thesis using that [of "Inl CancelledError"] by auto
  next
    case passed
    then show ?thesis using that [of res] by (cases "res = Inl CancelledError") auto
  qed
  from lock [unfolded with_lock_def lock_enter_def io_bind_assoc] show ?thesis
  proof (cases rule: io_bind_cases)
    case (raised e)
    then show ?thesis using io_satD [OF acquire_blocking_ends [OF assms(1)] start raised(1)] res
      by (auto simp: acquire_ends_def unlocked_def)
  next
    case (returned b lw1)
    obtain l1 w1 where lw1: "lw1 = (l1, w1)" by (cases lw1)
    have held: "b" "lk_is_acquired l1"
      using io_satD [OF acquire_blocking_ends [OF assms(1)] start returned(1)] lw1 by (simp_all add: acquire_ends_def unlocked_def)
    have fin: "io_finally (io_lift func) (lock_exit env r) (l1, w1) = Some (r0, (l', w'))" using returned(2) lw1 by simp
    then obtain out w2 where func: "func w1 = Some (out, w2)" by (cases "func w1") (auto simp: io_finally_def io_lift_def)
    then obtain x lw3 where exit: "lock_exit env r (l1, w2) = Some (x, lw3)"
      using fin by (cases "lock_exit env r (l1, w2)") (auto simp: io_finally_def)
    have end_world: "lw3 = (l', w')" and r0: "r0 = (case x of Inl e \<Rightarrow> Inl e | Inr _ \<Rightarrow> out)"
      using fin func exit by (auto simp: io_finally_def split: sum.splits)
    have not_cancelled: "x \<noteq> Inl CancelledError"
    proof
      assume "x = Inl CancelledError"
      then have "release env r (l1, w2) = Some (Inl CancelledError, lw3)"
        using exit by (auto simp: lock_exit_def elim!: io_bind_cases)
      then show False using io_keepsD(2) [OF release_not_cancelled [OF assms(1)]] by blast
    qed
    have result: "res = (case x of Inl e \<Rightarrow> Inl e | Inr _ \<Rightarrow> if out = Inl CancelledError then Inr () else out)"
      using res r0 not_cancelled by (auto split: sum.splits)
    have "\<not> lk_is_acquired l'" if normal: "res = Inr ()"
    proof -
      obtain u where "x = Inr u" using normal result by (cases x) auto
      then have "unlocked lw3" using exit release_unlocks by (auto simp: lock_exit_def io_bind_eq_Inr)
      then show ?thesis using end_world by (simp add: unlocked_def)
    qed
    moreover have "acquire env True None True (l, w) = Some (Inr True, (l1, w1))" using returned(1) lw1 held(1) by simp
    moreover have "lock_exit env r (l1, w2) = Some (x, (l', w'))" using exit end_world by simp
    ultimately show ?thesis using held(2) func result by blast
  qed
qed

text \<open>A world of the contenders' nodes below \<^verbatim>\<open>/e\<close>, and whether the leader's function has run.\<close>

definition demo_election_env :: "(string list \<times> bool) lock_env" where
  "demo_election_env =
     \<lparr>le_zk = zk_refuse\<lparr>zk_create := (\<lambda>p _ _ _ _ (ns, b). Some (Inr (p @ ''0000000000''), (ns @ [drop 3 p @ ''0000000000''], b))),
        zk_get_children := (\<lambda>_ (ns, b). Some (Inr ns, (ns, b))),
        zk_delete := (\<lambda>p (ns, b). Some (Inr (), (removeAll (drop 3 p) ns, b)))\<rparr>,
      le_retry = forever, le_clear = (\<lambda>w. w), le_wait = (\<lambda>_. io_return True), le_cancelled = (\<lambda>_. False),
      le_uncancel = (\<lambda>w. w), le_cancel = (\<lambda>w. w), le_add_listener = (\<lambda>w. w), le_remove_listener = (\<lambda>w. w),
      le_method_lock = (\<lambda>_ _. io_return True), le_method_unlock = (\<lambda>w. w)\<rparr>"

lemma demo_election_simps:
  "zk_create (le_zk demo_election_env) p d e s m (ns, b) = Some (Inr (p @ ''0000000000''), (ns @ [drop 3 p @ ''0000000000''], b))"
  "zk_get_children (le_zk demo_election_env) p (ns, b) = Some (Inr ns, (ns, b))"
  "zk_delete (le_zk demo_election_env) p (ns, b) = Some (Inr (), (removeAll (drop 3 p) ns, b))"
  "zk_ensure_path (le_zk demo_election_env) p w = Some (Inr True, w)"
  "zk_retry (le_zk demo_election_env) = still_env" "le_retry demo_election_env = forever"
  "le_clear demo_election_env w = w" "le_cancelled demo_election_env w = False"
  "le_method_lock demo_election_env x t w = Some (Inr True, w)" "le_method_unlock demo_election_env w = w"
  by (simp_all add: demo_election_env_def zk_refuse_def)

lemma demo_election_plain: "plain_env demo_election_env"
  unfolding plain_env_def io_keeps_def io_sat_def
  by (auto simp: demo_election_env_def zk_refuse_def io_raise_def io_return_def not_given_up_def still_env_def)

definition demo_leader :: "(string list \<times> bool, unit) io" where
  "demo_leader w = Some (Inr (), (fst w, True))"

abbreviation demo_contender :: lock where
  "demo_contender \<equiv> election_init ''u'' [] ''/e''"

lemma demo_inner_acquire:
  "\<exists>l. inner_acquire demo_election_env True None True (demo_contender, ([], False)) =
     Some (Inr True, (l, ([''u__lock__0000000000''], False))) \<and> lk_path l = ''/e'' \<and> lk_node l = Some ''u__lock__0000000000''"
proof -
  have first: "get_predecessor [''__lock__''] ''u__lock__'' [''u__lock__0000000000''] ''u__lock__0000000000'' = Inr None"
    by code_simp
  show ?thesis
    by (simp add: inner_acquire_def election_init_def lock_init_def lock_new_def lock_ensure_path_def demo_election_simps io_bind_def)
      (subst lock_loop.simps, simp add: lock_predecessor_def demo_election_simps first io_bind_def)
qed

theorem election_run_leads_witness:
  "\<exists>l l1 ns. election_run demo_election_env forever (Some demo_leader) (demo_contender, ([], False)) = Some (Inr (), (l, ([], True)))
    \<and> acquire demo_election_env True None True (demo_contender, ([], False)) = Some (Inr True, (l1, (ns, False)))
    \<and> lk_is_acquired l1 \<and> \<not> lk_is_acquired l"
proof -
  let ?held = "[''u__lock__0000000000'']"
  obtain l where inner: "inner_acquire demo_election_env True None True (demo_contender, ([], False)) = Some (Inr True, (l, (?held, False)))"
    and l: "lk_path l = ''/e''" "lk_node l = Some ''u__lock__0000000000''"
    using demo_inner_acquire by blast
  let ?l1 = "l\<lparr>lk_is_acquired := True\<rparr>" and ?l2 = "l\<lparr>lk_is_acquired := False, lk_node := None\<rparr>"
  have retry: "forever\<lparr>deadline := None\<rparr> = forever" by (simp add: forever_def retry_init_def)
  have free: "\<not> lk_is_acquired demo_contender" by (simp add: election_init_def lock_init_def lock_new_def)
  have "io_retry_self (le_zk demo_election_env) forever (inner_acquire demo_election_env True None True) (demo_contender, ([], False)) =
      Some (Inr True, (l, (?held, False)))"
    by (rule io_retry_self_forever(1)) (simp_all add: demo_election_simps inner)
  then have acq: "acquire demo_election_env True None True (demo_contender, ([], False)) = Some (Inr True, (?l1, (?held, False)))"
    by (simp add: acquire_def acquire_locked_def demo_election_simps retry free io_bind_def io_catch_def io_finally_def)
  have "inner_release demo_election_env (?l1, (?held, True)) = Some (Inr True, (?l2, ([], True)))"
    using l by (simp add: inner_release_def delete_node_def demo_election_simps io_bind_def io_catch_def)
  then have "release demo_election_env forever (?l1, (?held, True)) = Some (Inr True, (?l2, ([], True)))"
    unfolding release_def forever_simps by (rule io_retry_self_forever(1) [rotated]) (simp add: demo_election_simps)
  then have run: "election_run demo_election_env forever (Some demo_leader) (demo_contender, ([], False)) = Some (Inr (), (?l2, ([], True)))"
    using acq by (simp add: election_run_def with_lock_def lock_enter_def lock_exit_def demo_leader_def io_bind_def io_catch_def io_finally_def)
  from election_run_leads [OF demo_election_plain free run] acq run show ?thesis
    by (intro exI [of _ ?l2] exI [of _ ?l1] exI [of _ ?held]) auto
qed

end
