(* ===== verification/Hosts.thy ===== *)
theory Hosts
  imports Session PyInt
begin

text \<open>
  \<^verbatim>\<open>kazoo/hosts.py\<close>: the host string or host list of a client, taken apart into addresses
  and the chroot; and what \<^verbatim>\<open>KazooClient.set_hosts\<close> makes of it. \<^verbatim>\<open>urllib.parse.urlsplit\<close>
  is modelled for what the code asks of it, the host name and the port of \<^verbatim>\<open>xxx://host:port\<close>,
  for ASCII strings (as in Python 3.9; later versions also validate a bracketed address).
\<close>

section \<open>Splitting a URL\<close>

text \<open>\<^verbatim>\<open>s.partition(c)\<close>: what stands before the first \<open>c\<close>, and what stands behind it if there is one.\<close>

definition partition_at :: "char \<Rightarrow> string \<Rightarrow> string \<times> string" where
  "partition_at c s = (takeWhile (\<lambda>x. x \<noteq> c) s, tl (dropWhile (\<lambda>x. x \<noteq> c) s))"

text \<open>Line ends and tabs are taken out of the URL; the authority ends at a slash, \<open>?\<close> or \<open>#\<close>.\<close>

definition url_netloc :: "string \<Rightarrow> exc + string" where
  "url_netloc s =
     (let url = List.filter (\<lambda>c. (of_char c :: nat) \<notin> {9, 10, 13}) s;
          netloc = takeWhile (\<lambda>c. c \<noteq> CHR ''/'' \<and> c \<noteq> CHR ''?'' \<and> c \<noteq> CHR ''#'') url
      in if (CHR ''['' \<in> set netloc) \<noteq> (CHR '']'' \<in> set netloc) then Inl PyValueError else Inr netloc)"

definition host_info :: "string \<Rightarrow> string \<times> string" where
  "host_info netloc =
     (let hostinfo = rev (takeWhile (\<lambda>c. c \<noteq> CHR ''@'') (rev netloc)) in
      if CHR ''['' \<in> set hostinfo then
        (let (hostname, after) = partition_at (CHR '']'') (snd (partition_at (CHR ''['') hostinfo))
         in (hostname, snd (partition_at (CHR '':'') after)))
      else partition_at (CHR '':'') hostinfo)"

definition ascii_lower :: "char \<Rightarrow> char" where
  "ascii_lower c = (if (65 :: nat) \<le> of_char c \<and> (of_char c :: nat) \<le> 90 then char_of (of_char c + 32 :: nat) else c)"

text \<open>The zone of an IPv6 address keeps its case.\<close>

definition url_hostname :: "string \<Rightarrow> string option" where
  "url_hostname netloc =
     (let hostname = fst (host_info netloc) in
      if hostname = [] then None
      else Some (map ascii_lower (takeWhile (\<lambda>c. c \<noteq> CHR ''%'') hostname) @ dropWhile (\<lambda>c. c \<noteq> CHR ''%'') hostname))"

definition url_port :: "string \<Rightarrow> exc + int option" where
  "url_port netloc =
     (let port = snd (host_info netloc) in
      if port = [] then Inr None
      else ebind (int_of_string port) (\<lambda>p. if 0 \<le> p \<and> p \<le> 65535 then Inr (Some p) else Inl PyValueError))"

section \<open>The hosts\<close>

definition collect_host :: "string \<Rightarrow> exc + (string \<times> int)" where
  "collect_host host_port =
     ebind (url_netloc host_port) (\<lambda>netloc.
       case url_hostname netloc of
         None \<Rightarrow> Inl PyValueError
       | Some host \<Rightarrow>
           ebind (url_port netloc) (\<lambda>p.
             Inr (py_strip host, case p of Some p \<Rightarrow> if p \<noteq> 0 then p else 2181 | None \<Rightarrow> 2181)))"

definition collect_hosts :: "string + string list \<Rightarrow> exc + (string \<times> int) list \<times> string option" where
  "collect_hosts hosts =
     (case hosts of
        Inr hs \<Rightarrow>
          if hs = [] then Inl PyIndexError
          else if starts_with (py_strip (last hs)) ''/''
          then ebind (emap collect_host (butlast hs)) (\<lambda>result. Inr (result, Some (last hs)))
          else ebind (emap collect_host hs) (\<lambda>result. Inr (result, None))
      | Inl s \<Rightarrow>
          let (host_ports, chroot) = partition_at slash s in
          ebind (emap collect_host (split_on (CHR '','') host_ports)) (\<lambda>result.
            Inr (result, if chroot = '''' then None else Some (slash # chroot))))"

definition client_set_hosts :: "string + string list \<Rightarrow> bool option \<Rightarrow> client \<Rightarrow> (exc + unit) \<times> client" where
  "client_set_hosts hosts randomize_hosts c =
     (case collect_hosts hosts of
        Inl e \<Rightarrow> (Inl e, case randomize_hosts of Some r \<Rightarrow> c\<lparr>c_randomize := r\<rparr> | None \<Rightarrow> c)
      | Inr collected \<Rightarrow> set_hosts collected randomize_hosts c)"

section \<open>A host string is read as it was written\<close>

text \<open>The characters of a host name or an address in lower case.\<close>

definition host_char :: "char \<Rightarrow> bool" where
  "host_char c \<longleftrightarrow> (let n = of_char c :: nat in
     97 \<le> n \<and> n \<le> 122 \<or> 48 \<le> n \<and> n \<le> 57 \<or> c = CHR ''.'' \<or> c = CHR ''-'' \<or> c = CHR ''_'' \<or> c = CHR '':'')"

definition host_ok :: "string \<times> int \<Rightarrow> bool" where
  "host_ok hp \<longleftrightarrow> fst hp \<noteq> [] \<and> list_all host_char (fst hp) \<and> 0 < snd hp \<and> snd hp \<le> 65535"

text \<open>An address with colons stands in brackets; the port 2181 may be left out.\<close>

definition format_host :: "bool \<Rightarrow> string \<times> int \<Rightarrow> string" where
  "format_host short hp =
     (if CHR '':'' \<in> set (fst hp) then ''['' @ fst hp @ '']'' else fst hp)
     @ (if short \<and> snd hp = 2181 then '''' else '':'' @ repr_int (snd hp))"

definition format_hosts :: "bool \<Rightarrow> (string \<times> int) list \<Rightarrow> string \<Rightarrow> string" where
  "format_hosts short hps chroot = join_with '','' (map (format_host short) hps) @ (if chroot = '''' then '''' else slash # chroot)"

lemma host_char_not:
  assumes "host_char c"
  shows "c \<noteq> slash" "c \<noteq> CHR ''?''" "c \<noteq> CHR ''#''" "c \<noteq> CHR ''@''" "c \<noteq> CHR ''[''" "c \<noteq> CHR '']''"
    "c \<noteq> CHR '',''" "c \<noteq> CHR ''%''" "(of_char c :: nat) \<notin> {9, 10, 13}" "ascii_lower c = c" "ascii_solid c"
  using assms by (auto simp: host_char_def ascii_lower_def py_space_def ascii_solid_def Let_def)

lemma port_char: "0 \<le> i \<Longrightarrow> list_all (\<lambda>c. host_char c \<and> c \<noteq> CHR '':'') (repr_int i)"
  using nat_digits_digits [of "nat i"] by (auto simp: repr_int_def list_all_iff py_digit_def host_char_def Let_def)

definition plain_char :: "char \<Rightarrow> bool" where
  "plain_char c \<longleftrightarrow> host_char c \<or> c = CHR ''['' \<or> c = CHR '']''"

lemma plain_char_not:
  assumes "plain_char c"
  shows "c \<noteq> slash" "c \<noteq> CHR ''?''" "c \<noteq> CHR ''#''" "c \<noteq> CHR ''@''" "c \<noteq> CHR '',''" "(of_char c :: nat) \<notin> {9, 10, 13}"
  using assms host_char_not [of c] by (auto simp: plain_char_def)

lemma format_host_plain: "host_ok hp \<Longrightarrow> list_all plain_char (format_host short hp)"
  using port_char [of "snd hp"] by (auto simp: format_host_def host_ok_def list_all_iff plain_char_def host_char_def)

lemma set_join_with: "c \<in> set (join_with sep xs) \<Longrightarrow> c \<in> set sep \<or> (\<exists>x \<in> set xs. c \<in> set x)"
  by (induction sep xs rule: join_with.induct) auto

lemma takeWhile_all: "list_all P s \<Longrightarrow> takeWhile P s = s"
  by (induction s) simp_all

lemma partition_at_found: "c \<notin> set u \<Longrightarrow> partition_at c (u @ c # v) = (u, v)"
  by (induction u) (auto simp: partition_at_def)

lemma partition_at_absent: "c \<notin> set u \<Longrightarrow> partition_at c u = (u, [])"
  by (induction u) (auto simp: partition_at_def)

lemma url_netloc_plain:
  assumes "list_all plain_char s" and "(CHR ''['' \<in> set s) = (CHR '']'' \<in> set s)"
  shows "url_netloc s = Inr s"
proof -
  have "List.filter (\<lambda>c. (of_char c :: nat) \<notin> {9, 10, 13}) s = s"
    using assms(1) plain_char_not(6) by (simp add: list_all_iff filter_id_conv)
  moreover have "takeWhile (\<lambda>c. c \<noteq> CHR ''/'' \<and> c \<noteq> CHR ''?'' \<and> c \<noteq> CHR ''#'') s = s"
    using assms(1) plain_char_not(1-3) by (intro takeWhile_all) (auto simp: list_all_iff)
  ultimately show ?thesis using assms(2) by (simp only: url_netloc_def Let_def) simp
qed

lemma host_info_format:
  assumes "host_ok (h, p)"
  shows "host_info (format_host short (h, p)) = (h, if short \<and> p = 2181 then [] else repr_int p)"
proof -
  let ?s = "format_host short (h, p)" and ?port = "if short \<and> p = 2181 then [] else CHR '':'' # repr_int p"
  have h: "\<forall>c \<in> set h. host_char c" and p: "0 < p" using assms by (simp_all add: host_ok_def list_all_iff)
  have port: "snd (partition_at (CHR '':'') ?port) = (if short \<and> p = 2181 then [] else repr_int p)"
    by (simp add: partition_at_def)
  have whole: "rev (takeWhile (\<lambda>c. c \<noteq> CHR ''@'') (rev ?s)) = ?s"
    using format_host_plain [OF assms, of short] plain_char_not(4)
    by (subst takeWhile_all) (auto simp: list_all_iff)
  have brackets: "CHR ''['' \<notin> set h" "CHR '']'' \<notin> set h" using h host_char_not(5,6) by blast+
  have no: "CHR ''['' \<notin> set (repr_int p)" using port_char [of p] p host_char_not(5) by (auto simp: list_all_iff)
  show ?thesis
  proof (cases "CHR '':'' \<in> set h")
    case True
    then have s: "?s = CHR ''['' # h @ CHR '']'' # ?port" by (simp add: format_host_def)
    have "partition_at (CHR ''['') ?s = ([], h @ CHR '']'' # ?port)"
      unfolding s using partition_at_found [of "CHR ''[''" "[]"] by simp
    moreover have "partition_at (CHR '']'') (h @ CHR '']'' # ?port) = (h, ?port)" using partition_at_found brackets(2) .
    ultimately show ?thesis using port unfolding host_info_def Let_def whole by (simp add: s)
  next
    case False
    then have s: "?s = h @ ?port" by (simp add: format_host_def)
    have "CHR ''['' \<notin> set ?s" using brackets no by (simp add: s)
    moreover have "partition_at (CHR '':'') ?s = (h, if short \<and> p = 2181 then [] else repr_int p)"
      using partition_at_found [OF False, of "repr_int p"] partition_at_absent [OF False] by (simp add: s)
    ultimately show ?thesis unfolding host_info_def Let_def whole by simp
  qed
qed

lemma collect_host_format:
  assumes "host_ok (h, p)"
  shows "collect_host (format_host short (h, p)) = Inr (h, p)"
proof -
  let ?s = "format_host short (h, p)"
  have h: "h \<noteq> []" "\<forall>c \<in> set h. host_char c" and p: "0 < p" "p \<le> 65535" using assms by (simp_all add: host_ok_def list_all_iff)
  have "CHR ''['' \<notin> set h" "CHR '']'' \<notin> set h" using h(2) host_char_not(5,6) by blast+
  moreover have "CHR ''['' \<notin> set (repr_int p)" "CHR '']'' \<notin> set (repr_int p)"
    using port_char [of p] p host_char_not(5,6) by (auto simp: list_all_iff)
  ultimately have net: "url_netloc ?s = Inr ?s"
    by (intro url_netloc_plain format_host_plain [OF assms]) (simp add: format_host_def)
  have zone: "takeWhile (\<lambda>c. c \<noteq> CHR ''%'') h = h" using h(2) host_char_not(8) by (intro takeWhile_all) (auto simp: list_all_iff)
  then have "dropWhile (\<lambda>c. c \<noteq> CHR ''%'') h = []" by (metis append_self_conv takeWhile_dropWhile_id)
  moreover have "map ascii_lower h = h" using h(2) host_char_not(10) by (simp add: map_idI)
  ultimately have host: "url_hostname ?s = Some h" using h(1) zone by (simp only: url_hostname_def host_info_format [OF assms] fst_conv Let_def) simp
  have "ascii_solid (hd h)" "ascii_solid (last h)" using h host_char_not(11) by auto
  then have "py_strip h = h" by (rule py_strip_id [OF h(1)])
  moreover have "url_port ?s = Inr (if short \<and> p = 2181 then None else Some p)"
    using p repr_int_ends(1) [of p] by (simp add: url_port_def host_info_format [OF assms] Let_def)
  ultimately show ?thesis using net host p by (simp add: collect_host_def)
qed

text \<open>
  C35. A host string is read as it was written: the addresses with their ports, the port 2181
  for an address that has none, addresses with colons in brackets, and the chroot behind the
  first slash.
\<close>

theorem collect_hosts_roundtrip:
  assumes "hps \<noteq> []" and "list_all host_ok hps"
  shows "collect_hosts (Inl (format_hosts short hps chroot)) = Inr (hps, if chroot = '''' then None else Some (slash # chroot))"
proof -
  let ?hosts = "join_with '','' (map (format_host short) hps)"
  have plain: "list_all plain_char (format_host short hp)" if "hp \<in> set hps" for hp
    using assms(2) that by (intro format_host_plain) (simp add: list_all_iff)
  have "c \<noteq> slash" if "c \<in> set ?hosts" for c
  proof -
    have "c = CHR '','' \<or> (\<exists>x \<in> set (map (format_host short) hps). c \<in> set x)"
      using set_join_with [OF that] by simp
    then show ?thesis using plain plain_char_not(1) by (auto simp: list_all_iff)
  qed
  then have slash: "slash \<notin> set ?hosts" by blast
  have "partition_at slash (format_hosts short hps chroot) = (?hosts, chroot)"
    using partition_at_found [OF slash] partition_at_absent [OF slash] by (simp add: format_hosts_def)
  moreover have "split_on (CHR '','') ?hosts = map (format_host short) hps"
    using assms(1) plain plain_char_not(5) by (intro split_on_join_with) (auto simp: list_all_iff)
  moreover have "emap collect_host (map (format_host short) hps) = Inr hps"
    using emap_Inr [of hps "\<lambda>x. collect_host (format_host short x)" "\<lambda>x. x"] assms(2)
    by (auto simp: emap_map list_all_iff collect_host_format)
  ultimately show ?thesis by (simp add: collect_hosts_def)
qed

theorem collect_hosts_roundtrip_witness:
  "format_hosts True [(''zk1.local'', 2181), (''::1'', 2182)] ''app'' = ''zk1.local,[::1]:2182/app''
   \<and> collect_hosts (Inl ''zk1.local,[::1]:2182/app'') = Inr ([(''zk1.local'', 2181), (''::1'', 2182)], Some ''/app'')"
proof -
  have f: "format_hosts True [(''zk1.local'', 2181), (''::1'', 2182)] ''app'' = ''zk1.local,[::1]:2182/app''" by code_simp
  have "list_all host_ok [(''zk1.local'', 2181), (''::1'', 2182)]" by code_simp
  with collect_hosts_roundtrip [of "[(''zk1.local'', 2181), (''::1'', 2182)]" True "''app''"] f show ?thesis by simp
qed

text \<open>The chroot of a host list is its last element as it stands, and an empty list raises.\<close>

lemma collect_hosts_list:
  "collect_hosts (Inr []) = Inl PyIndexError"
  "collect_hosts (Inr [''a:1'', '' /x '']) = Inr ([(''a'', 1)], Some '' /x '')"
  by (simp add: collect_hosts_def) code_simp

end
