(* ===== verification/Sasl.thy ===== *)
theory Sasl
  imports Xids Hosts "HOL-Library.Multiset"
begin

text \<open>
  What \<^verbatim>\<open>ConnectionHandler\<close> does around a connection: expanding the host names, starting,
  stopping and closing, and the SASL exchange.
\<close>

section \<open>The hosts\<close>

text \<open>
  \<open>resolve\<close> is \<^verbatim>\<open>getaddrinfo\<close>: the addresses, or \<^term>\<open>None\<close> for a \<^verbatim>\<open>gaierror\<close>; \<open>shuffle\<close> is
  \<^verbatim>\<open>random.shuffle\<close>.
\<close>

definition expand_host :: "(string \<Rightarrow> int \<Rightarrow> (string \<times> int) list option) \<Rightarrow> string \<times> int \<Rightarrow> (string \<times> string \<times> int) list" where
  "expand_host resolve hp =
     (case resolve (py_strip (fst hp)) (snd hp) of
        None \<Rightarrow> []
      | Some rhosts \<Rightarrow> map (\<lambda>(ip, port). (py_strip (fst hp), ip, port)) rhosts)"

definition expand_client_hosts ::
    "(string \<Rightarrow> int \<Rightarrow> (string \<times> int) list option)
      \<Rightarrow> ((string \<times> string \<times> int) list \<Rightarrow> (string \<times> string \<times> int) list) \<Rightarrow> client \<Rightarrow> (string \<times> string \<times> int) list" where
  "expand_client_hosts resolve shuffle c =
     (let host_ports = concat (map (expand_host resolve) (c_hosts c))
      in if c_randomize c then shuffle host_ports else host_ports)"

section \<open>Starting, stopping and closing\<close>

text \<open>The events of the handler and what it holds: the socket pair and the thread.\<close>

record conn_life =
  cl_closed :: bool
  cl_stopped :: bool
  cl_sockets :: bool
  cl_routine :: bool

definition conn_life_init :: conn_life where
  "conn_life_init = \<lparr>cl_closed = True, cl_stopped = True, cl_sockets = False, cl_routine = False\<rparr>"

definition conn_start :: "conn_life \<Rightarrow> (exc + unit) \<times> conn_life" where
  "conn_start s =
     (let s = (if cl_closed s then s\<lparr>cl_sockets := True, cl_closed := False\<rparr> else s)
      in if cl_routine s then (Inl PyException, s) else (Inr (), s\<lparr>cl_routine := True\<rparr>))"

text \<open>The thread sets and clears the event itself.\<close>

definition conn_running :: "conn_life \<Rightarrow> conn_life" where
  "conn_running s = s\<lparr>cl_stopped := False\<rparr>"

definition conn_ended :: "conn_life \<Rightarrow> conn_life" where
  "conn_ended s = s\<lparr>cl_stopped := True\<rparr>"

text \<open>\<^verbatim>\<open>join\<close> returns when the thread has ended, so the event is set then.\<close>

definition conn_life_stop :: "conn_life \<Rightarrow> bool \<times> conn_life" where
  "conn_life_stop s =
     (let s = (if cl_routine s then (conn_ended s)\<lparr>cl_routine := False\<rparr> else s) in (cl_stopped s, s))"

definition conn_life_close :: "conn_life \<Rightarrow> (exc + unit) \<times> conn_life" where
  "conn_life_close s =
     (if \<not> cl_stopped s then (Inl PyException, s)
      else (Inr (), s\<lparr>cl_closed := True, cl_sockets := False\<rparr>))"

section \<open>The SASL exchange\<close>

text \<open>
  The library's client (\<^verbatim>\<open>puresasl\<close>): its state, whether it is complete, and one step, which
  answers a challenge or raises one of three kinds of exceptions.
\<close>

datatype sasl_error = SaslLibError | SaslProtocolError | SaslOtherError

record 's sasl_lib =
  sl_complete :: "'s \<Rightarrow> bool"
  sl_process :: "bytes option \<Rightarrow> 's \<Rightarrow> (sasl_error + bytes option) \<times> 's"

definition sasl_exception :: "sasl_error \<Rightarrow> exc" where
  "sasl_exception e = (case e of SaslLibError \<Rightarrow> SASLException | _ \<Rightarrow> ZkErr AuthFailedError)"

definition sasl_host :: "string \<Rightarrow> string \<Rightarrow> string" where
  "sasl_host mechanism host = (if mechanism = ''DIGEST-MD5'' then ''zk-sasl-md5'' else host)"

definition sasl_answer :: "int \<Rightarrow> exc + reply_header \<times> bytes \<times> nat \<Rightarrow> client \<Rightarrow> (exc + bytes option) \<times> client" where
  "sasl_answer xid reply c =
     (case reply of
        Inl e \<Rightarrow> (Inl e, c)
      | Inr (header, buffer, offset) \<Rightarrow>
          if rh_xid header \<noteq> xid then (Inl PyRuntimeError, c)
          else
            let c = (if rh_zxid header > 0 then c\<lparr>c_last_zxid := rh_zxid header\<rparr> else c) in
            if rh_err header \<noteq> 0 then (ebind (EXCEPTIONS (rh_err header)) (\<lambda>klass. Inl (ZkErr klass)), c)
            else (ebind (read_buffer buffer offset) (\<lambda>(challenge, _). Inr challenge), c))"

text \<open>
  The loop, for the replies that come; when there is none in time, \<^verbatim>\<open>_read_header\<close> raises
  the handler's time-out.
\<close>

fun sasl_loop :: "'s sasl_lib \<Rightarrow> (bytes \<Rightarrow> exc + unit) \<Rightarrow> (exc + reply_header \<times> bytes \<times> nat) list \<Rightarrow> 's \<Rightarrow> bytes option
    \<Rightarrow> int \<Rightarrow> conn \<Rightarrow> client \<Rightarrow> (exc + unit) \<times> 's \<times> conn \<times> client" where
  "sasl_loop lib write replies st challenge xid n c =
     (if sl_complete lib st then (Inr (), st, n, c)
      else case sl_process lib challenge st of
        (Inl e, st) \<Rightarrow> (Inl (sasl_exception e), st, n, c)
      | (Inr response, st) \<Rightarrow>
          if sl_complete lib st \<and> (response = None \<or> response = Some []) then (Inr (), st, n, c)
          else
            let response = (case response of None \<Rightarrow> [] | Some r \<Rightarrow> r);
                xid = next_xid xid
            in case submit write (SASL (Some response)) (Some xid) n of
                (Inl e, n) \<Rightarrow> (Inl e, st, n, c)
              | (Inr _, n) \<Rightarrow>
                  (case replies of
                     [] \<Rightarrow> (Inl HandlerTimeout, st, n, c)
                   | reply # rest \<Rightarrow>
                       (case sasl_answer xid reply c of
                          (Inl e, c) \<Rightarrow> (Inl e, st, n, c)
                        | (Inr challenge, c) \<Rightarrow> sasl_loop lib write rest st challenge xid n c)))"

declare sasl_loop.simps [simp del]

text \<open>
  \<^verbatim>\<open>_authenticate_with_sasl\<close>; there is no library when \<^verbatim>\<open>puresasl\<close> is not installed. The options
  are a dictionary; \<open>sl_new\<close> is the construction of the library's client for a host.
\<close>

definition sasl_options_set :: "(string \<times> string) list \<Rightarrow> (string \<times> string) list" where
  "sasl_options_set options =
     (if ''service'' \<in> set (map fst options) then options else options @ [(''service'', ''zookeeper'')])"

definition sasl_client :: "(string \<Rightarrow> (string \<times> string) list \<Rightarrow> exc + 's) \<Rightarrow> (string \<times> string) list \<Rightarrow> string \<Rightarrow> exc + 's" where
  "sasl_client sl_new options host =
     (let options = sasl_options_set options in
      case map_of options ''mechanism'' of
        None \<Rightarrow> Inl PyKeyError
      | Some mechanism \<Rightarrow> sl_new (sasl_host mechanism host) options)"

definition sasl_exchange :: "('s sasl_lib \<times> (string \<Rightarrow> (string \<times> string) list \<Rightarrow> exc + 's)) option \<Rightarrow> (string \<times> string) list
    \<Rightarrow> string \<Rightarrow> (bytes \<Rightarrow> exc + unit) \<Rightarrow> (exc + reply_header \<times> bytes \<times> nat) list
    \<Rightarrow> conn \<Rightarrow> client \<Rightarrow> (exc + unit) \<times> conn \<times> client" where
  "sasl_exchange puresasl options host write replies n c =
     (case puresasl of
        None \<Rightarrow> (Inl SASLException, n, c)
      | Some (lib, sl_new) \<Rightarrow>
          (case sasl_client sl_new options host of
             Inl e \<Rightarrow> (Inl e, n, c)
           | Inr st \<Rightarrow> (case sasl_loop lib write replies st None 0 n c of (res, _, n, c) \<Rightarrow> (res, n, c))))"

text \<open>Whatever the library raises ends the session: the client's state becomes \<^verbatim>\<open>AUTH_FAILED\<close>.\<close>

lemma sasl_exception_outcome:
  "attempt_outcome lst (Inl (sasl_exception e)) r c = (Inr STOP_CONNECTING, retry_reset r, session_callback lst AUTH_FAILED c)"
  by (cases e) (simp_all add: attempt_outcome_def sasl_exception_def)

section \<open>Which addresses are tried\<close>

lemma set_expand_host:
  "(h, ip, port) \<in> set (expand_host resolve hp)
   \<longleftrightarrow> h = py_strip (fst hp) \<and> (\<exists>rhosts. resolve h (snd hp) = Some rhosts \<and> (ip, port) \<in> set rhosts)"
  by (cases "resolve (py_strip (fst hp)) (snd hp)") (auto simp: expand_host_def)

text \<open>
  A host that does not resolve is skipped and does not keep the client from the others:
  whatever the order in which \<^verbatim>\<open>random.shuffle\<close> leaves the list, an address is tried if and only
  if it is an address of one of the hosts, and as often.
\<close>

theorem expand_client_hosts_complete:
  assumes "\<And>xs. mset (shuffle xs) = mset xs"
  shows "mset (expand_client_hosts resolve shuffle c) = (\<Sum>hp \<leftarrow> c_hosts c. mset (expand_host resolve hp))
    \<and> ((h, ip, port) \<in> set (expand_client_hosts resolve shuffle c)
       \<longleftrightarrow> (\<exists>hp \<in> set (c_hosts c). h = py_strip (fst hp)
             \<and> (\<exists>rhosts. resolve h (snd hp) = Some rhosts \<and> (ip, port) \<in> set rhosts)))"
proof -
  have m: "mset (expand_client_hosts resolve shuffle c) = mset (concat (map (expand_host resolve) (c_hosts c)))"
    using assms by (simp add: expand_client_hosts_def Let_def)
  then have "set (expand_client_hosts resolve shuffle c) = set (concat (map (expand_host resolve) (c_hosts c)))"
    by (rule mset_eq_setD)
  moreover have "mset (concat (map f xs)) = (\<Sum>x \<leftarrow> xs. mset (f x))" for f :: "string \<times> int \<Rightarrow> (string \<times> string \<times> int) list" and xs
    by (induction xs) simp_all
  ultimately show ?thesis using m by (auto simp: set_expand_host)
qed

theorem expand_client_hosts_complete_witness:
  "let c = (client_init [(''a'', 1), (''b'', 2), ('' c'', 3)] '''' 10000 False None)\<lparr>c_randomize := True\<rparr>;
       resolve = (\<lambda>h p. if h = ''b'' then None else Some [(''10.0.0.'' @ h, p)])
   in expand_client_hosts resolve rev c = [(''c'', ''10.0.0.c'', 3), (''a'', ''10.0.0.a'', 1)]
      \<and> mset (expand_client_hosts resolve rev c) = (\<Sum>hp \<leftarrow> c_hosts c. mset (expand_host resolve hp))"
proof -
  let ?c = "(client_init [(''a'', 1), (''b'', 2), ('' c'', 3)] '''' 10000 False None)\<lparr>c_randomize := True\<rparr>"
  let ?resolve = "\<lambda>h p. if h = ''b'' then None else Some [(''10.0.0.'' @ h, p)]"
  have "expand_client_hosts ?resolve rev ?c = [(''c'', ''10.0.0.c'', 3), (''a'', ''10.0.0.a'', 1)]" by code_simp
  moreover have "mset (expand_client_hosts ?resolve rev ?c) = (\<Sum>hp \<leftarrow> c_hosts ?c. mset (expand_host ?resolve hp))"
    by (rule conjunct1 [OF expand_client_hosts_complete [of rev ?resolve ?c "''a''" "''10.0.0.a''" 1]]) simp
  ultimately show ?thesis by (simp only: Let_def)
qed

section \<open>The life of a connection\<close>

datatype life_event = LifeStart | LifeRun | LifeEnd | LifeStop | LifeClose

text \<open>The thread runs after it was started, and only once.\<close>

definition life_step :: "conn_life \<Rightarrow> life_event \<Rightarrow> conn_life" where
  "life_step s e = (case e of
     LifeStart \<Rightarrow> snd (conn_start s)
   | LifeRun \<Rightarrow> (if cl_routine s then conn_running s else s)
   | LifeEnd \<Rightarrow> conn_ended s
   | LifeStop \<Rightarrow> snd (conn_life_stop s)
   | LifeClose \<Rightarrow> snd (conn_life_close s))"

definition life_inv :: "conn_life \<Rightarrow> bool" where
  "life_inv s \<longleftrightarrow> cl_sockets s = (\<not> cl_closed s) \<and> (\<not> cl_stopped s \<longrightarrow> cl_routine s)"

lemmas life_defs = conn_start_def conn_running_def conn_ended_def conn_life_stop_def conn_life_close_def

interpretation conn_life: transition_invariant life_step life_inv
  by unfold_locales (auto simp: life_inv_def life_step_def life_defs Let_def split: life_event.splits)

text \<open>
  Whatever the order of the calls, the wake-up sockets are held exactly while the connection
  is not closed; and after a stop the connection can be closed, which releases them, and started
  again, with a new pair.
\<close>

theorem conn_life_restartable:
  "let s = foldl life_step conn_life_init es;
       (stopped, s1) = conn_life_stop s;
       (closed, s2) = conn_life_close s1;
       (started, s3) = conn_start s2
   in cl_sockets s = (\<not> cl_closed s) \<and> stopped \<and> closed = Inr () \<and> \<not> cl_sockets s2 \<and> started = Inr ()
      \<and> cl_sockets s3 \<and> cl_routine s3"
proof -
  have "life_inv (foldl life_step conn_life_init es)"
    by (rule conn_life.run_inv) (simp add: life_inv_def conn_life_init_def)
  then show ?thesis by (auto simp: life_inv_def life_defs Let_def)
qed

text \<open>
  A close right after the start is not refused, since the thread clears the event only when it
  runs: it then runs without its sockets.
\<close>

lemma conn_close_races:
  "let s = foldl life_step conn_life_init [LifeStart, LifeClose, LifeRun]
   in cl_routine s \<and> \<not> cl_stopped s \<and> cl_closed s \<and> \<not> cl_sockets s"
  by (simp add: life_step_def life_defs conn_life_init_def Let_def)

section \<open>A successful exchange\<close>

text \<open>The \<open>k\<close>-th request and its answer.\<close>

definition sasl_round :: "int \<Rightarrow> bytes \<Rightarrow> exc + reply_header \<times> bytes \<times> nat \<Rightarrow> bool" where
  "sasl_round xid frame reply \<longleftrightarrow>
     (\<exists>r header buffer offset. submit_bytes (SASL (Some r)) (Some xid) = Inr frame
        \<and> reply = Inr (header, buffer, offset) \<and> rh_xid header = xid \<and> rh_err header = 0)"

lemma sasl_answer_ok:
  assumes "sasl_answer xid reply c = (Inr ch, c')"
  obtains header buffer offset where "reply = Inr (header, buffer, offset)" "rh_xid header = xid" "rh_err header = 0"
  using assms by (auto simp: sasl_answer_def Let_def ebind_def split: sum.splits prod.splits if_splits)

lemma submit_ok:
  assumes "submit write request xid n = (Inr u, n')"
  shows "\<exists>frame. submit_bytes request xid = Inr frame \<and> n' = n\<lparr>n_written := n_written n @ [frame]\<rparr>"
  using assms by (auto simp: submit_def split: sum.splits)

lemma sasl_loop_rounds:
  assumes "sasl_loop lib write replies st ch (int x) n c = (Inr (), st', n', c')" and "x + length replies < 2147483647"
  shows "sl_complete lib st' \<and> (\<exists>frames. n_written n' = n_written n @ frames \<and> length frames \<le> length replies
    \<and> (\<forall>i < length frames. sasl_round (int (x + i + 1)) (frames ! i) (replies ! i)))"
  using assms
proof (induction replies arbitrary: st ch x n c)
  case Nil
  then show ?case
    by (auto simp: sasl_loop.simps [of lib "write" "[]"] Let_def split: if_splits prod.splits sum.splits)
next
  case (Cons reply rest)
  have xid: "next_xid (int x) = int (x + 1)" using Cons.prems(2) by (simp add: next_xid_def)
  show ?case
  proof (cases "n' = n \<and> sl_complete lib st'")
    case True
    then show ?thesis by auto
  next
    case False
    then obtain r n1 ch1 c1 st1 where s: "submit write (SASL (Some r)) (Some (int (x + 1))) n = (Inr (), n1)"
      and a: "sasl_answer (int (x + 1)) reply c = (Inr ch1, c1)"
      and l: "sasl_loop lib write rest st1 ch1 (int (x + 1)) n1 c1 = (Inr (), st', n', c')"
      using Cons.prems(1) unfolding sasl_loop.simps [of lib "write" "reply # rest"] xid Let_def
      by (auto split: if_splits prod.splits sum.splits)
    obtain frame where f: "submit_bytes (SASL (Some r)) (Some (int (x + 1))) = Inr frame"
      and n1: "n_written n1 = n_written n @ [frame]" using submit_ok [OF s] by auto
    have answered: "sasl_round (int (x + 1)) frame reply"
      by (rule sasl_answer_ok [OF a]) (use f in \<open>auto simp: sasl_round_def\<close>)
    have rest: "sl_complete lib st' \<and> (\<exists>frames. n_written n' = n_written n1 @ frames \<and> length frames \<le> length rest
        \<and> (\<forall>i < length frames. sasl_round (int (x + 1 + i + 1)) (frames ! i) (rest ! i)))"
      using Cons.IH [OF l] Cons.prems(2) by simp
    then obtain frames where frames: "n_written n' = n_written n @ frame # frames" "length frames \<le> length rest"
      "\<And>i. i < length frames \<Longrightarrow> sasl_round (int (x + 1 + i + 1)) (frames ! i) (rest ! i)"
      using n1 by auto
    have "sasl_round (int (x + i + 1)) ((frame # frames) ! i) ((reply # rest) ! i)" if "i < length (frame # frames)" for i
      using that answered frames(3) [of "i - 1"] by (cases i) (simp_all add: algebra_simps)
    with frames rest show ?thesis by (intro conjI exI [of _ "frame # frames"]) auto
  qed
qed

text \<open>
  C30. The connection is taken for authenticated only when the library's client is complete, and
  then every frame that was written is a SASL request with the next number, counted from one, which
  the server answered under that number without an error.
\<close>

theorem sasl_exchange_authenticated:
  assumes "sasl_exchange puresasl options host write replies n c = (Inr (), n', c')" and "length replies < 2147483647"
  shows "\<exists>lib sl_new st st' frames. puresasl = Some (lib, sl_new) \<and> sasl_client sl_new options host = Inr st
    \<and> fst (snd (sasl_loop lib write replies st None 0 n c)) = st' \<and> sl_complete lib st'
    \<and> n_written n' = n_written n @ frames \<and> length frames \<le> length replies
    \<and> (\<forall>i < length frames. sasl_round (int (i + 1)) (frames ! i) (replies ! i))"
proof -
  obtain lib sl_new st st' where p: "puresasl = Some (lib, sl_new)" "sasl_client sl_new options host = Inr st"
    and l: "sasl_loop lib write replies st None (int 0) n c = (Inr (), st', n', c')"
    using assms(1) by (auto simp: sasl_exchange_def split: option.splits prod.splits sum.splits)
  then show ?thesis using sasl_loop_rounds [OF l] assms(2) by fastforce
qed

text \<open>A library that answers one challenge and is complete then.\<close>

definition demo_sasl :: "nat sasl_lib" where
  "demo_sasl = \<lparr>sl_complete = (\<lambda>st. st = 2),
     sl_process = (\<lambda>challenge st. if st = 1 \<and> challenge \<noteq> Some [7] then (Inl SaslLibError, st) else (Inr (Some [5]), st + 1))\<rparr>"

theorem sasl_exchange_authenticated_witness:
  "\<exists>replies n' c'. sasl_exchange (Some (demo_sasl, \<lambda>h os. if h = ''zk-sasl-md5'' then Inr 0 else Inl PyKeyError)) [(''mechanism'', ''DIGEST-MD5'')] ''zk1'' (\<lambda>_. Inr ()) replies demo_conn demo_client = (Inr (), n', c')
     \<and> c_last_zxid c' = 9 \<and> length (n_written n') = 2
     \<and> sasl_round 1 (n_written n' ! 0) (replies ! 0) \<and> sasl_round 2 (n_written n' ! 1) (replies ! 1)"
proof -
  let ?replies = "[Inr (\<lparr>rh_xid = 1, rh_zxid = 9, rh_err = 0\<rparr>, [0, 0, 0, 1, 7], 0),
    Inr (\<lparr>rh_xid = 2, rh_zxid = 0, rh_err = 0\<rparr>, [255, 255, 255, 255], 0)]"
  let ?run = "sasl_exchange (Some (demo_sasl, \<lambda>h os. if h = ''zk-sasl-md5'' then Inr 0 else Inl PyKeyError)) [(''mechanism'', ''DIGEST-MD5'')] ''zk1'' (\<lambda>_. Inr ()) ?replies demo_conn demo_client"
  have run: "fst ?run = Inr () \<and> length (n_written (fst (snd ?run))) = 2 \<and> c_last_zxid (snd (snd ?run)) = 9" by code_simp
  obtain res n' c' where n': "?run = (res, n', c')" by (cases ?run)
  with run have "res = Inr ()" and len: "length (n_written n') = 2" and c: "c_last_zxid c' = 9" by simp_all
  with n' have ok: "?run = (Inr (), n', c')" by simp
  obtain frames where "n_written n' = n_written demo_conn @ frames"
    "\<forall>i < length frames. sasl_round (int (i + 1)) (frames ! i) (?replies ! i)"
    using sasl_exchange_authenticated [OF ok] by auto
  moreover have "n_written demo_conn = []" by (simp add: demo_conn_def)
  ultimately have "sasl_round (int (0 + 1)) (n_written n' ! 0) (?replies ! 0)" "sasl_round (int (1 + 1)) (n_written n' ! 1) (?replies ! 1)"
    using len by (metis append_Nil zero_less_numeral, metis append_Nil one_less_numeral_iff semiring_norm(76))
  then have "sasl_round 1 (n_written n' ! 0) (?replies ! 0)" "sasl_round 2 (n_written n' ! 1) (?replies ! 1)" by simp_all
  with ok c len show ?thesis by blast
qed

end
