(* ===== verification/ClientSetup.thy ===== *)
theory ClientSetup
  imports Sasl
begin

text \<open>
  \<^verbatim>\<open>KazooClient.__init__\<close>: the arguments, what is made of them, and the errors; credentials
  that are added later; closing and restarting.
\<close>

section \<open>The retry objects\<close>

text \<open>
  A \<^verbatim>\<open>KazooRetry\<close> with its sleep function and its interrupt; functions are known by their
  identity.
\<close>

datatype interrupt = NoInterrupt | StoppedInterrupt | UserInterrupt nat

record kazoo_retry =
  kr_retry :: retry
  kr_sleep :: nat
  kr_interrupt :: interrupt

text \<open>The keyword arguments of its constructor; those that are not given have their defaults.\<close>

record retry_params =
  rp_max_tries :: "int option option"
  rp_delay :: "rat option"
  rp_backoff :: "rat option"
  rp_max_jitter :: "rat option"
  rp_max_delay :: "rat option"
  rp_ignore_expire :: "bool option"
  rp_sleep_func :: "nat option"
  rp_deadline :: "rat option option"
  rp_interrupt :: "interrupt option"
  rp_unknown :: "string list"

definition no_params :: retry_params where
  "no_params = \<lparr>rp_max_tries = None, rp_delay = None, rp_backoff = None, rp_max_jitter = None, rp_max_delay = None,
     rp_ignore_expire = None, rp_sleep_func = None, rp_deadline = None, rp_interrupt = None, rp_unknown = []\<rparr>"

definition or_default :: "'a \<Rightarrow> 'a option \<Rightarrow> 'a" where
  "or_default d x = (case x of None \<Rightarrow> d | Some y \<Rightarrow> y)"

text \<open>\<open>time_sleep\<close> is the identity of \<^verbatim>\<open>time.sleep\<close>.\<close>

definition time_sleep :: nat where "time_sleep = 0"

definition kazoo_retry_new :: "retry_params \<Rightarrow> exc + kazoo_retry" where
  "kazoo_retry_new p =
     (if rp_unknown p \<noteq> [] then Inl PyTypeError
      else Inr \<lparr>kr_retry = retry_init (or_default (Some 1) (rp_max_tries p)) (or_default (1/10) (rp_delay p))
                  (or_default 2 (rp_backoff p)) (or_default (2/5) (rp_max_jitter p)) (or_default 60 (rp_max_delay p))
                  (or_default True (rp_ignore_expire p)) (or_default None (rp_deadline p)),
                kr_sleep = or_default time_sleep (rp_sleep_func p),
                kr_interrupt = or_default NoInterrupt (rp_interrupt p)\<rparr>)"

definition kazoo_retry_copy :: "kazoo_retry \<Rightarrow> kazoo_retry" where
  "kazoo_retry_copy k = k\<lparr>kr_retry := retry_copy (kr_retry k)\<rparr>"

text \<open>A retry argument: a dictionary, an object, or a value of another type, which is passed over.\<close>

datatype retry_arg = RetryDict retry_params | RetryObject kazoo_retry | RetryIgnored

definition retry_of :: "retry_arg \<Rightarrow> exc + kazoo_retry option" where
  "retry_of a =
     (case a of
        RetryDict p \<Rightarrow> ebind (kazoo_retry_new p) (\<lambda>k. Inr (Some k))
      | RetryObject k \<Rightarrow> Inr (Some k)
      | RetryIgnored \<Rightarrow> Inr None)"

text \<open>The deprecated keyword arguments of the client, and the names of further ones.\<close>

record legacy_params =
  lp_max_retries :: "int option option"
  lp_retry_delay :: "rat option"
  lp_retry_backoff :: "rat option"
  lp_retry_max_delay :: "rat option"
  lp_unknown :: "string list"

definition no_legacy :: legacy_params where
  "no_legacy = \<lparr>lp_max_retries = None, lp_retry_delay = None, lp_retry_backoff = None, lp_retry_max_delay = None, lp_unknown = []\<rparr>"

definition legacy_retry :: "nat \<Rightarrow> legacy_params \<Rightarrow> exc + kazoo_retry" where
  "legacy_retry sleep_func l =
     kazoo_retry_new (no_params\<lparr>rp_sleep_func := Some sleep_func,
       rp_max_tries := Some (or_default None (lp_max_retries l)),
       rp_delay := Some (or_default (1/10) (lp_retry_delay l)),
       rp_backoff := Some (or_default 2 (lp_retry_backoff l)),
       rp_max_delay := Some (or_default 3600 (lp_retry_max_delay l))\<rparr>)"

text \<open>What is left of the keyword arguments once the known ones are taken out.\<close>

definition legacy_left :: "bool \<Rightarrow> legacy_params \<Rightarrow> bool" where
  "legacy_left popped l \<longleftrightarrow>
     lp_unknown l \<noteq> []
     \<or> (\<not> popped \<and> (lp_max_retries l \<noteq> None \<or> lp_retry_delay l \<noteq> None \<or> lp_retry_backoff l \<noteq> None \<or> lp_retry_max_delay l \<noteq> None))"

definition same_sleep :: "nat \<Rightarrow> kazoo_retry option \<Rightarrow> exc + unit" where
  "same_sleep sleep_func k =
     (case k of Some k \<Rightarrow> if kr_sleep k \<noteq> sleep_func then Inl ConfigurationError else Inr () | None \<Rightarrow> Inr ())"

definition client_retries :: "nat \<Rightarrow> retry_arg \<Rightarrow> retry_arg \<Rightarrow> legacy_params \<Rightarrow> exc + kazoo_retry \<times> kazoo_retry \<times> bool" where
  "client_retries sleep_func connection_retry command_retry kwargs =
     ebind (retry_of connection_retry) (\<lambda>conn_retry.
     ebind (retry_of command_retry) (\<lambda>retry.
     ebind (same_sleep sleep_func conn_retry) (\<lambda>_.
     ebind (same_sleep sleep_func retry) (\<lambda>_.
       ebind (case conn_retry of Some k \<Rightarrow> Inr k | None \<Rightarrow> legacy_retry sleep_func kwargs) (\<lambda>k.
       ebind (case retry of Some r \<Rightarrow> Inr r | None \<Rightarrow> legacy_retry sleep_func kwargs) (\<lambda>r.
         Inr (k, r, conn_retry = None \<or> retry = None)))))))"

section \<open>Legacy SASL credentials\<close>

text \<open>
  The loop over the credentials, in the order in which the set gives them; empty options count
  as none.
\<close>

fun legacy_sasl :: "(string \<times> string) list \<Rightarrow> (string \<times> string) list option \<Rightarrow> exc + (string \<times> string) list option" where
  "legacy_sasl [] sasl_options = Inr sasl_options"
| "legacy_sasl ((scheme, auth) # rest) sasl_options =
     (if scheme \<noteq> ''sasl'' then legacy_sasl rest sasl_options
      else if sasl_options \<noteq> None \<and> sasl_options \<noteq> Some [] then Inl ConfigurationError
      else case split_on (CHR '':'') auth of
          [username, password] \<Rightarrow>
            legacy_sasl rest (Some [(''username'', username), (''password'', password), (''mechanism'', ''DIGEST-MD5''),
              (''service'', ''zookeeper''), (''principal'', ''zk-sasl-md5'')])
        | _ \<Rightarrow> Inl PyValueError)"

section \<open>The client\<close>

record client_args =
  ca_hosts :: "string + string list"
  ca_timeout :: rat
  ca_client_id :: "(int \<times> bytes) option"
  ca_handler_is_class :: bool
  ca_sleep_func :: nat
  ca_default_acl :: "acl list option"
  ca_auth_data :: "(string \<times> string) list"
  ca_sasl_options :: "(string \<times> string) list option"
  ca_read_only :: bool
  ca_randomize_hosts :: bool
  ca_connection_retry :: retry_arg
  ca_command_retry :: retry_arg
  ca_kwargs :: legacy_params

text \<open>
  The client's state with what stays of the arguments: \<open>cc_conn_retry\<close> is the copy that the
  connection gets.
\<close>

record client_config =
  cc_client :: client
  cc_default_acl :: "acl list option"
  cc_auth_data :: "(string \<times> string) list"
  cc_sasl_options :: "(string \<times> string) list option"
  cc_conn_retry :: kazoo_retry
  cc_retry :: kazoo_retry

text \<open>\<^verbatim>\<open>int(timeout * 1000)\<close> cuts towards zero.\<close>

definition milliseconds :: "rat \<Rightarrow> int" where
  "milliseconds t = (if 0 \<le> t then \<lfloor>t * 1000\<rfloor> else \<lceil>t * 1000\<rceil>)"

text \<open>A set, as the list of its elements without repetition.\<close>

definition client_new :: "client_args \<Rightarrow> exc + client_config" where
  "client_new a =
     (if ca_handler_is_class a then Inl ConfigurationError
      else
        let c = (client_init [] '''' (milliseconds (ca_timeout a)) (ca_read_only a) (ca_client_id a))
                  \<lparr>c_chroot := None, c_randomize := ca_randomize_hosts a\<rparr>;
            auth_data = remdups (ca_auth_data a)
        in case client_set_hosts (ca_hosts a) None c of
             (Inl e, _) \<Rightarrow> Inl e
           | (Inr _, c) \<Rightarrow>
               ebind (client_retries (ca_sleep_func a) (ca_connection_retry a) (ca_command_retry a) (ca_kwargs a))
                 (\<lambda>(conn_retry, retry, popped).
               ebind (legacy_sasl auth_data (ca_sasl_options a)) (\<lambda>sasl_options.
                 if legacy_left popped (ca_kwargs a) then Inl PyTypeError
                 else Inr \<lparr>cc_client = c, cc_default_acl = ca_default_acl a,
                        cc_auth_data = List.filter (\<lambda>(scheme, auth). scheme \<noteq> ''sasl'') auth_data,
                        cc_sasl_options = sasl_options,
                        cc_conn_retry = kazoo_retry_copy (conn_retry\<lparr>kr_interrupt := StoppedInterrupt\<rparr>),
                        cc_retry = retry\<rparr>)))"

section \<open>Credentials that are added later\<close>

text \<open>\<^term>\<open>None\<close> stands for an argument that is no string.\<close>

definition add_auth_async :: "bool option \<Rightarrow> nat \<Rightarrow> string option \<Rightarrow> string option \<Rightarrow> client_config
    \<Rightarrow> (exc + nat) \<times> client_config" where
  "add_auth_async write_sock i scheme credential cc =
     (case (scheme, credential) of
        (Some s, Some a) \<Rightarrow>
          (Inr i, cc\<lparr>cc_auth_data := List.insert (s, a) (cc_auth_data cc),
                     cc_client := snd (call write_sock (Req (Auth 0 s a)) i (cc_client cc))\<rparr>)
      | _ \<Rightarrow> (Inl PyTypeError, cc))"

text \<open>\<open>later\<close> is the result when the wait for it ends.\<close>

definition add_auth :: "bool option \<Rightarrow> nat \<Rightarrow> string option \<Rightarrow> string option \<Rightarrow> response async_result \<Rightarrow> client_config
    \<Rightarrow> (exc + response option) \<times> client_config" where
  "add_auth write_sock i scheme credential later cc =
     (case add_auth_async write_sock i scheme credential cc of
        (Inl e, cc) \<Rightarrow> (Inl e, cc)
      | (Inr i, cc) \<Rightarrow> (ar_get True (c_results (cc_client cc) i) later, cc))"

section \<open>Restarting\<close>

text \<open>\<^verbatim>\<open>restart\<close>: with the arguments of \<^verbatim>\<open>stop\<close> and \<^verbatim>\<open>start\<close>.\<close>

definition client_restart :: "(int \<Rightarrow> client \<Rightarrow> bool \<times> client) \<Rightarrow> (client \<Rightarrow> (exc + unit) \<times> client)
    \<Rightarrow> (client \<Rightarrow> client) \<Rightarrow> exc + unit \<Rightarrow> (client \<Rightarrow> (exc + unit) \<times> client)
    \<Rightarrow> (client \<Rightarrow> (exc + bool) \<times> client) \<Rightarrow> client \<Rightarrow> (exc + unit) \<times> client" where
  "client_restart conn_stop start_conn wait sent conn_close exists_root c =
     (case client_stop conn_stop sent c of
        (Inl e, c) \<Rightarrow> (Inl e, c)
      | (Inr _, c) \<Rightarrow> client_start conn_stop start_conn wait sent conn_close exists_root c)"

section \<open>A new client\<close>

lemma client_set_hosts_frame:
  assumes "client_set_hosts hosts None c = (Inr (), c')" and "c_chroot c = None"
  obtains h x where "c' = c\<lparr>c_hosts := h, c_chroot := Some x\<rparr>"
  using assms by (auto simp: client_set_hosts_def set_hosts_def Let_def split: sum.splits if_splits)

lemma retries_sleep:
  assumes "client_retries sleep_func ca cb l = Inr (k, r, popped)"
  shows "kr_sleep k = sleep_func \<and> kr_sleep r = sleep_func"
  using assms
  by (auto simp: client_retries_def same_sleep_def legacy_retry_def kazoo_retry_new_def or_default_def no_params_def ebind_def
      split: sum.splits option.splits if_splits)

text \<open>\<open>new_client a c\<close>: the client is closed, stopped and lost, and nothing waits or is watched in it.\<close>

definition new_client :: "client_args \<Rightarrow> client \<Rightarrow> bool" where
  "new_client a c \<longleftrightarrow> client_state c = CLOSED \<and> c_kstate c = LOST \<and> \<not> Session.connected c \<and> client_id c = None
     \<and> c_stopped c \<and> c_queue c = [] \<and> c_pending c = []
     \<and> c_data_watchers c = [] \<and> c_child_watchers c = [] \<and> c_listeners c = [] \<and> c_last_zxid c = 0
     \<and> c_session_id c = map_option fst (ca_client_id a)
     \<and> c_session_passwd c = Some (case ca_client_id a of Some (_, pw) \<Rightarrow> pw | None \<Rightarrow> replicate 16 0)
     \<and> c_session_timeout c = milliseconds (ca_timeout a) \<and> c_read_only c = ca_read_only a
     \<and> c_chroot c \<noteq> None"

definition config_ok :: "client_args \<Rightarrow> client_config \<Rightarrow> bool" where
  "config_ok a cc \<longleftrightarrow> new_client a (cc_client cc) \<and> session_ok (cc_client cc)
     \<and> kr_sleep (cc_retry cc) = ca_sleep_func a \<and> kr_sleep (cc_conn_retry cc) = ca_sleep_func a
     \<and> kr_interrupt (cc_conn_retry cc) = StoppedInterrupt \<and> attempts (kr_retry (cc_conn_retry cc)) = 0
     \<and> set (cc_auth_data cc) = {d \<in> set (ca_auth_data a). fst d \<noteq> ''sasl''} \<and> distinct (cc_auth_data cc)"

lemma client_init_new:
  "new_client a (client_init [] [] (milliseconds (ca_timeout a)) (ca_read_only a) (ca_client_id a)
      \<lparr>c_randomize := r, c_hosts := h, c_chroot := Some x\<rparr>)"
  by (cases "ca_client_id a") (auto simp: new_client_def client_init_def client_reset_def reset_watchers_eq
      reset_session_def client_state_def Session.connected_def client_id_def Let_def)

text \<open>
  C28. A client that is constructed is well-formed, whatever the arguments: it is closed, stopped
  and lost, with nothing queued, pending or watched, and holds the session it was given, if any;
  both retries sleep with the handler's function, the connection's retry is fresh and is
  interrupted by the stop of the client, and the credentials that are sent to the server are
  those that were given, each once, without the SASL ones.
\<close>

theorem client_new_ok:
  assumes "client_new a = Inr cc"
  shows "config_ok a cc"
proof -
  let ?c = "(client_init [] '''' (milliseconds (ca_timeout a)) (ca_read_only a) (ca_client_id a))
    \<lparr>c_chroot := None, c_randomize := ca_randomize_hosts a\<rparr>"
  obtain c conn_retry retry popped sasl where hosts: "client_set_hosts (ca_hosts a) None ?c = (Inr (), c)"
    and retries: "client_retries (ca_sleep_func a) (ca_connection_retry a) (ca_command_retry a) (ca_kwargs a) = Inr (conn_retry, retry, popped)"
    and cc: "cc = \<lparr>cc_client = c, cc_default_acl = ca_default_acl a,
      cc_auth_data = List.filter (\<lambda>(scheme, auth). scheme \<noteq> ''sasl'') (remdups (ca_auth_data a)), cc_sasl_options = sasl,
      cc_conn_retry = kazoo_retry_copy (conn_retry\<lparr>kr_interrupt := StoppedInterrupt\<rparr>), cc_retry = retry\<rparr>"
    using assms unfolding client_new_def Let_def ebind_def by (auto split: if_splits prod.splits sum.splits)
  have "\<exists>h x. c = ?c\<lparr>c_hosts := h, c_chroot := Some x\<rparr>" by (rule client_set_hosts_frame [OF hosts]) auto
  then obtain h x where c: "c = ?c\<lparr>c_hosts := h, c_chroot := Some x\<rparr>" by blast
  have "session_ok c" using client_init_ok c by (simp add: session_ok_def in_closed_state_def)
  moreover have "new_client a c" using client_init_new c by simp
  moreover have "set (cc_auth_data cc) = {d \<in> set (ca_auth_data a). fst d \<noteq> ''sasl''}" "distinct (cc_auth_data cc)"
    by (auto simp: cc)
  ultimately show ?thesis
    using retries_sleep [OF retries] cc
    by (simp add: config_ok_def kazoo_retry_copy_def retry_copy_def retry_init_def Let_def)
qed

definition demo_args :: client_args where
  "demo_args = \<lparr>ca_hosts = Inl ''zk1:2182/app'', ca_timeout = 10, ca_client_id = None, ca_handler_is_class = False,
     ca_sleep_func = 0, ca_default_acl = None, ca_auth_data = [(''digest'', ''u:p''), (''sasl'', ''me:secret'')],
     ca_sasl_options = None, ca_read_only = False, ca_randomize_hosts = True, ca_connection_retry = RetryIgnored,
     ca_command_retry = RetryDict (no_params\<lparr>rp_max_tries := Some (Some 3)\<rparr>), ca_kwargs = no_legacy\<rparr>"

theorem client_new_ok_witness:
  "\<exists>cc. client_new demo_args = Inr cc \<and> cc_auth_data cc = [(''digest'', ''u:p'')] \<and> c_hosts (cc_client cc) = [(''zk1'', 2182)]
     \<and> c_chroot (cc_client cc) = Some ''/app'' \<and> config_ok demo_args cc"
proof -
  have r: "case client_new demo_args of Inl _ \<Rightarrow> False | Inr cc \<Rightarrow> cc_auth_data cc = [(''digest'', ''u:p'')]
      \<and> c_hosts (cc_client cc) = [(''zk1'', 2182)] \<and> c_chroot (cc_client cc) = Some ''/app''"
    by code_simp
  then obtain cc where cc: "client_new demo_args = Inr cc" by (cases "client_new demo_args") simp_all
  with client_new_ok [OF cc] r show ?thesis by simp
qed

text \<open>
  The deprecated SASL credential among the authentication data configures the client like
  the SASL options that it stands for.
\<close>

theorem client_new_legacy_sasl:
  assumes "ca_sasl_options a = None \<or> ca_sasl_options a = Some []"
    and "CHR '':'' \<notin> set username" and "CHR '':'' \<notin> set password"
    and "ca_auth_data a = pre @ (''sasl'', username @ '':'' @ password) # post"
    and "''sasl'' \<notin> fst ` set (pre @ post)"
  shows "client_new a = client_new (a\<lparr>ca_auth_data := pre @ post,
      ca_sasl_options := Some [(''username'', username), (''password'', password), (''mechanism'', ''DIGEST-MD5''),
        (''service'', ''zookeeper''), (''principal'', ''zk-sasl-md5'')]\<rparr>)"
proof -
  let ?cred = "(''sasl'', username @ '':'' @ password)"
  have none: "legacy_sasl xs opts = Inr opts" if "''sasl'' \<notin> fst ` set xs" for xs opts
    using that by (induction xs opts rule: legacy_sasl.induct) auto
  have split: "split_on (CHR '':'') (username @ '':'' @ password) = [username, password]"
    using split_on_join_with [of "[username, password]" "CHR '':''"] assms(2,3) by auto
  have one: "legacy_sasl (xs @ ?cred # ys) (ca_sasl_options a) = legacy_sasl (xs @ ys)
      (Some [(''username'', username), (''password'', password), (''mechanism'', ''DIGEST-MD5''),
        (''service'', ''zookeeper''), (''principal'', ''zk-sasl-md5'')])" if "''sasl'' \<notin> fst ` set (xs @ ys)" for xs ys
    using that assms(1) none by (induction xs) (auto simp: split [simplified])
  have "?cred \<notin> set pre" "?cred \<notin> set post" using assms(5) by force+
  then have dups: "\<exists>xs ys. remdups (pre @ ?cred # post) = xs @ ?cred # ys \<and> remdups (pre @ post) = xs @ ys"
    by (induction pre) (auto 0 4 intro: exI [of _ "[]"] Cons_eq_appendI)
  then obtain xs ys where xy: "remdups (pre @ ?cred # post) = xs @ ?cred # ys" "remdups (pre @ post) = xs @ ys" by blast
  then have "''sasl'' \<notin> fst ` set (xs @ ys)" using assms(5) by (metis set_remdups)
  from one [OF this] show ?thesis using xy assms(4) by (simp add: client_new_def Let_def split: sum.split prod.split cong: if_cong)
qed

theorem client_new_legacy_sasl_witness:
  "client_new demo_args = client_new (demo_args\<lparr>ca_auth_data := [(''digest'', ''u:p'')],
     ca_sasl_options := Some [(''username'', ''me''), (''password'', ''secret''), (''mechanism'', ''DIGEST-MD5''),
       (''service'', ''zookeeper''), (''principal'', ''zk-sasl-md5'')]\<rparr>)"
  using client_new_legacy_sasl [of demo_args "''me''" "''secret''" "[(''digest'', ''u:p'')]" "[]"]
  by (simp add: demo_args_def)

text \<open>A password with a colon in a legacy credential makes the construction fail.\<close>

lemma legacy_sasl_colon: "legacy_sasl [(''sasl'', ''me:se:cret'')] None = Inl PyValueError"
  by code_simp

section \<open>Credentials are sent again\<close>

lemma send_auths_written:
  assumes "send_auths write auths n c = (Inr (), n', c')"
  shows "\<exists>frames. n_written n' = n_written n @ frames
    \<and> list_all2 (\<lambda>((scheme, auth), _) frame. submit_bytes (Auth 0 scheme auth) (Some AUTH_XID) = Inr frame) auths frames"
  using assms
proof (induction "write" auths n c arbitrary: n' c' rule: send_auths.induct)
  case (2 "write" scheme auth reply auths n c)
  obtain n1 zxid where s: "submit write (Auth 0 scheme auth) (Some AUTH_XID) n = (Inr (), n1)"
    and r: "ebind (guard_socket reply) (invoke_header AUTH_XID) = Inr zxid"
    and rest: "send_auths write auths n1 (case zxid of Some z \<Rightarrow> c\<lparr>c_last_zxid := z\<rparr> | None \<Rightarrow> c) = (Inr (), n', c')"
    using 2(2) by (auto split: prod.splits sum.splits)
  obtain frame where "submit_bytes (Auth 0 scheme auth) (Some AUTH_XID) = Inr frame" "n_written n1 = n_written n @ [frame]"
    using submit_ok [OF s] by auto
  moreover obtain frames where "n_written n' = n_written n1 @ frames"
    "list_all2 (\<lambda>((scheme, auth), _) frame. submit_bytes (Auth 0 scheme auth) (Some AUTH_XID) = Inr frame) auths frames"
    using "2.IH" [OF s [symmetric] refl r rest] by auto
  ultimately show ?case by (intro exI [of _ "frame # frames"]) simp
qed simp

text \<open>
  C31. A credential that is added once is sent on every later connection, also when the request
  that carried it failed: a connection that is established has written an authentication request
  for it.
\<close>

theorem added_auth_resent:
  assumes "add_auth_async write_sock i (Some scheme) (Some credential) cc = (r, cc')"
    and "mset (map fst (ce_auths env)) = mset (cc_auth_data cc')"
    and "connect lst env hostip port n c = (Inr timeouts, n', c')"
  shows "\<exists>frame \<in> set (n_written n'). submit_bytes (Auth 0 scheme credential) (Some AUTH_XID) = Inr frame"
proof -
  have "(scheme, credential) \<in> set (cc_auth_data cc')" using assms(1) by (auto simp: add_auth_async_def)
  then have "(scheme, credential) \<in> fst ` set (ce_auths env)" using mset_eq_setD [OF assms(2)] by simp
  then obtain reply where mem: "((scheme, credential), reply) \<in> set (ce_auths env)" by force
  obtain n1 c1 c2 where "send_auths (ce_write env) (ce_auths env) n1 c1 = (Inr (), n', c2)"
    using assms(3) by (auto simp: connect_def Let_def split: sum.splits prod.splits if_splits)
  then obtain frames where "n_written n' = n_written n1 @ frames"
    "list_all2 (\<lambda>((scheme, auth), _) frame. submit_bytes (Auth 0 scheme auth) (Some AUTH_XID) = Inr frame) (ce_auths env) frames"
    using send_auths_written by blast
  with mem show ?thesis by (fastforce simp: in_set_conv_nth list_all2_conv_all_nth)
qed

text \<open>On a closed client the request fails at once, and the credential is sent with the next connection.\<close>

theorem added_auth_resent_witness:
  "\<exists>cc' env n' c' frame. add_auth_async (Some True) 0 (Some ''digest'') (Some ''v:q'')
       \<lparr>cc_client = client_init [] '''' 10000 False None, cc_default_acl = None, cc_auth_data = [], cc_sasl_options = None,
         cc_conn_retry = undefined, cc_retry = undefined\<rparr> = (Inr 0, cc')
     \<and> ar_outcome (c_results (cc_client cc') 0) = Inl ConnectionClosedError
     \<and> connect (\<lambda>_ _. Inr False) env ''10.0.0.1'' 2181 demo_conn
         ((client_init [(''a'', 2181)] [] 10000 False None)\<lparr>c_state := CONNECTING\<rparr>) = (Inr (20000 / 3, 10000), n', c')
     \<and> frame \<in> set (n_written n') \<and> submit_bytes (Auth 0 ''digest'' ''v:q'') (Some AUTH_XID) = Inr frame"
proof -
  let ?cc = "\<lparr>cc_client = client_init [] '''' 10000 False None, cc_default_acl = None, cc_auth_data = [], cc_sasl_options = None,
         cc_conn_retry = undefined, cc_retry = undefined\<rparr>"
  let ?env = "\<lparr>ce_create = (\<lambda>_. Inr ()), ce_write = (\<lambda>_. Inr ()),
        ce_reply = Inr [0,0,0,0, 0,0,39,16, 0,0,0,0,0,0,0,77, 0,0,0,2,1,2, 0], ce_sasl = None,
        ce_auths = [((''digest'', ''v:q''), Inr \<lparr>rh_xid = -4, rh_zxid = 5, rh_err = 0\<rparr>)], ce_now = 0\<rparr>"
  let ?c = "(client_init [(''a'', 2181)] [] 10000 False None)\<lparr>c_state := CONNECTING\<rparr>"
  let ?add = "add_auth_async (Some True) 0 (Some ''digest'') (Some ''v:q'') ?cc"
  let ?run = "connect (\<lambda>_ _. Inr False) ?env ''10.0.0.1'' 2181 demo_conn ?c"
  have run: "fst ?run = Inr (20000 / 3, 10000)" by code_simp
  have c: "c_state (client_init [] '''' 10000 False None) = CLOSED" by (simp add: client_init_def client_reset_def reset_watchers_eq reset_session_def Let_def)
  obtain cc' where add: "?add = (Inr 0, cc')" and "cc_auth_data cc' = [(''digest'', ''v:q'')]"
    and res: "ar_outcome (c_results (cc_client cc') 0) = Inl ConnectionClosedError"
    using c by (simp add: add_auth_async_def call_def call_check_def ar_outcome_def)
  then have m: "mset (map fst (ce_auths ?env)) = mset (cc_auth_data cc')" by simp
  obtain n' c' where ok: "?run = (Inr (20000 / 3, 10000), n', c')" using run by (metis prod.collapse)
  from added_auth_resent [OF add m ok] obtain frame where "frame \<in> set (n_written n')"
    "submit_bytes (Auth 0 ''digest'' ''v:q'') (Some AUTH_XID) = Inr frame" by blast
  with add res ok show ?thesis by blast
qed

end
