(* ===== verification/Commands.thy ===== *)
theory Commands
  imports World ClientSetup
begin

text \<open>
  The four-letter commands (\<^verbatim>\<open>KazooClient.command\<close>) and what \<^verbatim>\<open>server_version\<close> reads from the
  answer to \<^verbatim>\<open>envi\<close>. Digits beyond ASCII are not taken for digits.
\<close>

section \<open>Decoding with replacement\<close>

text \<open>How much of an ill-formed sequence is replaced by one U+FFFD: its longest well-formed start.\<close>

definition utf8_subpart :: "bytes \<Rightarrow> nat" where
  "utf8_subpart bs =
     (case bs of
        b # c # r \<Rightarrow>
          if 0xE0 \<le> b \<and> b \<le> 0xEF \<and> utf8_cont c \<and> (b = 0xE0 \<longrightarrow> 0xA0 \<le> c) \<and> (b = 0xED \<longrightarrow> c \<le> 0x9F) then 2
          else if 0xF0 \<le> b \<and> b \<le> 0xF4 \<and> utf8_cont c \<and> (b = 0xF0 \<longrightarrow> 0x90 \<le> c) \<and> (b = 0xF4 \<longrightarrow> c \<le> 0x8F)
          then (case r of d # _ \<Rightarrow> if utf8_cont d then 3 else 2 | [] \<Rightarrow> 2)
          else 1
      | _ \<Rightarrow> 1)"

lemma utf8_subpart_pos: "0 < utf8_subpart bs"
  by (auto simp: utf8_subpart_def split: list.splits)

function decode_replace :: "bytes \<Rightarrow> string" where
  "decode_replace bs =
     (if bs = [] then []
      else case utf8_char bs of
          Some n \<Rightarrow> map byte_char (take n bs) @ decode_replace (drop n bs)
        | None \<Rightarrow> [CHR 0xEF, CHR 0xBF, CHR 0xBD] @ decode_replace (drop (utf8_subpart bs) bs))"
  by pat_completeness auto
termination
  by (relation "measure length") (auto dest: utf8_char_pos simp: utf8_subpart_pos)

declare decode_replace.simps [simp del]

section \<open>Lines\<close>

text \<open>\<^verbatim>\<open>str.splitlines\<close>: the line ends of Unicode, as UTF-8 bytes.\<close>

definition line_break :: "string \<Rightarrow> nat option" where
  "line_break s =
     (if starts_with s [CHR 0x0D, CHR 0x0A] then Some 2
      else if s \<noteq> [] \<and> (of_char (hd s) :: nat) \<in> {10, 11, 12, 13, 28, 29, 30} then Some 1
      else if starts_with s [CHR 0xC2, CHR 0x85] then Some 2
      else if starts_with s [CHR 0xE2, CHR 0x80, CHR 0xA8] \<or> starts_with s [CHR 0xE2, CHR 0x80, CHR 0xA9] then Some 3
      else None)"

fun next_line :: "string \<Rightarrow> string \<times> string" where
  "next_line [] = ([], [])"
| "next_line (c # s) =
     (case line_break (c # s) of
        Some n \<Rightarrow> ([], drop n (c # s))
      | None \<Rightarrow> (case next_line s of (line, rest) \<Rightarrow> (c # line, rest)))"

lemma line_break_pos: "line_break s = Some n \<Longrightarrow> 0 < n"
  by (auto simp: line_break_def split: if_splits)

lemma next_line_rest: "length (snd (next_line s)) \<le> length s - 1"
proof (induction s)
  case (Cons c s)
  show ?case
  proof (cases "line_break (c # s)")
    case (Some n)
    then show ?thesis using line_break_pos [OF Some] by simp
  next
    case None
    then show ?thesis using Cons.IH by (auto split: prod.split)
  qed
qed simp

function splitlines :: "string \<Rightarrow> string list" where
  "splitlines s = (if s = [] then [] else fst (next_line s) # splitlines (snd (next_line s)))"
  by pat_completeness auto
termination
proof (relation "measure length", goal_cases)
  case (2 s)
  then show ?case using next_line_rest [of s] by (cases s) auto
qed simp

declare splitlines.simps [simp del]

section \<open>The commands\<close>

text \<open>
  \<open>cm_live\<close> is the client's flag, \<open>cm_socket\<close> the peer of the connection's socket, if there is
  one; \<open>cm_exchange\<close> opens a connection to it, sends the command and receives at most 8192 bytes.
\<close>

record 'w command_env =
  cm_live :: "'w \<Rightarrow> bool"
  cm_socket :: "'w \<Rightarrow> (exc + string \<times> int) option"
  cm_exchange :: "string \<times> int \<Rightarrow> bytes \<Rightarrow> ('w, bytes) io"

definition command :: "'w command_env \<Rightarrow> bytes \<Rightarrow> ('w, string) io" where
  "command env cmd w =
     (if \<not> cm_live env w then io_raise (ZkErr ConnectionLoss) w
      else case cm_socket env w of
          None \<Rightarrow> io_raise PyAssertionError w
        | Some peer \<Rightarrow>
            io_bind (io_sum peer) (\<lambda>peer.
            io_bind (cm_exchange env peer cmd) (\<lambda>result. io_return (decode_replace result))) w)"

definition envi_line :: "(string \<rightharpoonup> string) \<Rightarrow> string \<Rightarrow> (string \<rightharpoonup> string)" where
  "envi_line data line =
     (if CHR ''='' \<in> set line then
        (let (k, v) = partition_at (CHR ''='') line; k = py_strip k; v = py_strip v
         in if k \<noteq> [] then data(k \<mapsto> v) else data)
      else data)"

definition version_digits :: "string \<Rightarrow> string" where
  "version_digits v = takeWhile (\<lambda>c. py_digit c \<or> c = CHR ''.'') v"

definition parse_version :: "string \<Rightarrow> int list option" where
  "parse_version data =
     (let data_parsed = foldl envi_line Map.empty (splitlines data);
          v = (case data_parsed ''zookeeper.version'' of Some v \<Rightarrow> v | None \<Rightarrow> '''')
      in case emap int_of_string (split_on (CHR ''.'') (version_digits v)) of Inl _ \<Rightarrow> None | Inr digits \<Rightarrow> Some digits)"

definition try_fetch :: "'w command_env \<Rightarrow> ('w, int list option) io" where
  "try_fetch env = io_bind (command env (encode_utf8 ''envi'')) (\<lambda>data. io_return (parse_version data))"

definition version_valid :: "int list option \<Rightarrow> bool" where
  "version_valid v \<longleftrightarrow> (case v of Some digits \<Rightarrow> length digits > 1 | None \<Rightarrow> False)"

fun version_tries :: "'w command_env \<Rightarrow> nat \<Rightarrow> ('w, int list) io" where
  "version_tries env 0 = io_raise KazooException"
| "version_tries env (Suc n) =
     io_bind (try_fetch env) (\<lambda>v. if version_valid v then io_return (the v) else version_tries env n)"

text \<open>One try, and \<open>retries\<close> more.\<close>

definition server_version :: "'w command_env \<Rightarrow> int \<Rightarrow> ('w, int list) io" where
  "server_version env retries = version_tries env (Suc (nat retries))"

section \<open>Reading the version\<close>

definition plain_line :: "string \<Rightarrow> bool" where
  "plain_line l \<longleftrightarrow> list_all (\<lambda>c. (of_char c :: nat) < 128 \<and> (of_char c :: nat) \<notin> {10, 11, 12, 13, 28, 29, 30}) l"

lemma plain_line_break:
  assumes "plain_line (c # l)"
  shows "line_break (c # s) = None"
proof -
  have c: "(of_char c :: nat) < 128" "(of_char c :: nat) \<notin> {10, 11, 12, 13, 28, 29, 30}"
    using assms unfolding plain_line_def list.pred_inject by blast+
  have "c \<noteq> CHR 0x0D" using c(2) by (rule contrapos_nn) simp
  moreover have "c \<noteq> CHR 0xC2" using c(1) by (rule contrapos_pn) simp
  moreover have "c \<noteq> CHR 0xE2" using c(1) by (rule contrapos_pn) simp
  ultimately show ?thesis using c(2) by (simp only: line_break_def starts_with_def) simp
qed

lemma next_line_plain: "plain_line l \<Longrightarrow> next_line (l @ CHR 0x0A # s) = (l, s)"
proof (induction l)
  case Nil
  show ?case by (simp add: line_break_def starts_with_def)
next
  case (Cons c l)
  have "plain_line l" using Cons.prems by (simp add: plain_line_def)
  then show ?case using Cons.IH plain_line_break [OF Cons.prems] by simp
qed

lemma splitlines_plain:
  assumes "list_all plain_line ls"
  shows "splitlines (concat (map (\<lambda>l. l @ [CHR 0x0A]) ls)) = ls"
  using assms
proof (induction ls)
  case (Cons l ls)
  then show ?case using next_line_plain [of l] by (subst splitlines.simps) simp
qed (simp add: splitlines.simps)

lemma strip_left_ascii:
  assumes "list_all (\<lambda>c. (of_char c :: nat) < 128) s" and "\<And>p. p \<in> set seqs \<Longrightarrow> p \<noteq> [] \<and> (of_char (hd p) :: nat) \<ge> 128"
  shows "strip_left seqs s = dropWhile py_space s"
  using assms(1)
proof (induction s)
  case (Cons c s)
  show ?case
  proof (cases "py_space c")
    case False
    have "strip_left seqs (c # s) = c # s"
      using False Cons.prems assms(2) by (intro strip_left_id) (force simp: ascii_solid_def)+
    then show ?thesis using False by simp
  qed (use Cons in simp)
qed simp

lemma wide_spaces_wide: "p \<in> set wide_spaces \<Longrightarrow> p \<noteq> [] \<and> (of_char (hd p) :: nat) \<ge> 128 \<and> (of_char (last p) :: nat) \<ge> 128"
  by (auto simp: wide_spaces_def)

lemma py_strip_ascii:
  assumes "list_all (\<lambda>c. (of_char c :: nat) < 128) s"
  shows "py_strip s = rev (dropWhile py_space (rev (dropWhile py_space s)))"
proof -
  have "strip_left wide_spaces s = dropWhile py_space s" by (rule strip_left_ascii [OF assms]) (use wide_spaces_wide in blast)
  moreover have "strip_left (map rev wide_spaces) (rev (dropWhile py_space s)) = dropWhile py_space (rev (dropWhile py_space s))"
    using assms by (intro strip_left_ascii) (auto simp: list_all_iff hd_rev dest: set_dropWhileD wide_spaces_wide)
  ultimately show ?thesis by (simp add: py_strip_def)
qed

lemma plain_line_ascii: "plain_line l \<Longrightarrow> list_all (\<lambda>c. (of_char c :: nat) < 128) l"
  by (auto simp: plain_line_def list_all_iff)

text \<open>\<open>envi_key l\<close>: the name that a line defines.\<close>

definition envi_key :: "string \<Rightarrow> string option" where
  "envi_key l = (if CHR ''='' \<in> set l then Some (py_strip (fst (partition_at (CHR ''='') l))) else None)"

lemma envi_lines_other:
  "list_all (\<lambda>l. envi_key l \<noteq> Some k) ls \<Longrightarrow> foldl envi_line m ls k = m k"
  by (induction ls arbitrary: m) (auto simp: envi_line_def envi_key_def Let_def split: prod.splits)

definition version_text :: "int list \<Rightarrow> string" where
  "version_text ns = join_with ''.'' (map repr_int ns)"

lemma version_text_chars:
  assumes "ns \<noteq> []" and "list_all (\<lambda>n. 0 \<le> n) ns"
  shows "list_all (\<lambda>c. py_digit c \<or> c = CHR ''.'') (version_text ns)" "py_digit (hd (version_text ns))"
    "py_digit (last (version_text ns))" "version_text ns \<noteq> []"
proof -
  have d: "list_all py_digit (repr_int n)" "repr_int n \<noteq> []" if "0 \<le> n" for n
    using that nat_digits_digits nat_digits_not_Nil by (simp_all add: repr_int_def)
  then have e: "py_digit (hd (repr_int n))" "py_digit (last (repr_int n))" if "0 \<le> n" for n
    using that by (simp_all add: list_all_iff)
  show "version_text ns \<noteq> []" "py_digit (hd (version_text ns))" "py_digit (last (version_text ns))"
    "list_all (\<lambda>c. py_digit c \<or> c = CHR ''.'') (version_text ns)"
    using assms unfolding version_text_def
    by (induction ns rule: induct_list012) (use d e in \<open>auto simp: list_all_iff\<close>)
qed

lemma version_digits_text:
  assumes "ns \<noteq> []" and "list_all (\<lambda>n. 0 \<le> n) ns" and "plain_line rest"
    and "rest = [] \<or> (\<not> py_digit (hd rest) \<and> hd rest \<noteq> CHR ''.'')"
  shows "version_digits (py_strip (version_text ns @ rest)) = version_text ns"
proof -
  note v = version_text_chars [OF assms(1,2)]
  have ascii: "list_all (\<lambda>c. (of_char c :: nat) < 128) (version_text ns @ rest)"
    using v(1) plain_line_ascii [OF assms(3)] by (auto simp: list_all_iff py_digit_def)
  have "dropWhile py_space (version_text ns @ rest) = version_text ns @ rest"
    using v(2,4) py_digit_not(1) by (cases "version_text ns") auto
  moreover have "dropWhile py_space (rev rest @ rev (version_text ns)) = dropWhile py_space (rev rest) @ rev (version_text ns)"
    using v(3,4) py_digit_not(1) by (cases "rev (version_text ns)") (auto simp: dropWhile_append last_rev hd_rev [symmetric])
  ultimately have strip: "py_strip (version_text ns @ rest) = version_text ns @ rev (dropWhile py_space (rev rest))"
    using py_strip_ascii [OF ascii] by simp
  define w where "w = rev (dropWhile py_space (rev rest))"
  obtain r where "rest = w @ r" unfolding w_def by (metis rev_append rev_rev_ident takeWhile_dropWhile_id)
  then have "takeWhile (\<lambda>c. py_digit c \<or> c = CHR ''.'') w = []" using assms(4) by (cases w) auto
  then show ?thesis using v(1) strip by (simp add: version_digits_def list_all_iff takeWhile_append2 flip: w_def)
qed

lemma parse_version_line:
  assumes "ns \<noteq> []" and "list_all (\<lambda>n. 0 \<le> n) ns" and "plain_line rest"
    and "rest = [] \<or> (\<not> py_digit (hd rest) \<and> hd rest \<noteq> CHR ''.'')"
    and "list_all plain_line pre" and "list_all plain_line post"
    and "list_all (\<lambda>l. envi_key l \<noteq> Some ''zookeeper.version'') post"
  shows "parse_version (concat (map (\<lambda>l. l @ [CHR 0x0A]) (pre @ [''zookeeper.version='' @ version_text ns @ rest] @ post))) = Some ns"
proof -
  let ?line = "''zookeeper.version='' @ version_text ns @ rest"
  note v = version_text_chars [OF assms(1,2)]
  have "plain_line ?line" using assms(3) v(1) by (auto simp: plain_line_def list_all_iff py_digit_def)
  then have lines: "splitlines (concat (map (\<lambda>l. l @ [CHR 0x0A]) (pre @ [?line] @ post))) = pre @ [?line] @ post"
    using assms(5,6) by (intro splitlines_plain) simp
  have p: "partition_at (CHR ''='') ?line = (''zookeeper.version'', version_text ns @ rest)"
    using partition_at_found [of "CHR ''=''" "''zookeeper.version''" "version_text ns @ rest"] by simp
  have k: "py_strip ''zookeeper.version'' = ''zookeeper.version''" by (rule py_strip_id) (simp_all add: ascii_solid_def py_space_def)
  have "envi_line m ?line ''zookeeper.version'' = Some (py_strip (version_text ns @ rest))" for m
    using p k unfolding envi_line_def Let_def by simp
  then have "foldl envi_line Map.empty (pre @ [?line] @ post) ''zookeeper.version'' = Some (py_strip (version_text ns @ rest))"
    using envi_lines_other [OF assms(7)] by simp
  moreover have "emap int_of_string (split_on (CHR ''.'') (version_text ns)) = Inr ns"
  proof -
    have "CHR ''.'' \<notin> set (repr_int n)" if "0 \<le> n" for n
      using that nat_digits_digits [of "nat n"] by (auto simp: repr_int_def list_all_iff py_digit_def)
    then have "split_on (CHR ''.'') (version_text ns) = map repr_int ns"
      using assms(1,2) unfolding version_text_def by (intro split_on_join_with) (auto simp: list_all_iff)
    then show ?thesis by (simp add: emap_map emap_Inr [of ns _ "\<lambda>n. n"])
  qed
  ultimately show ?thesis
    unfolding parse_version_def Let_def lines using version_digits_text [OF assms(1-4)] by simp
qed

section \<open>The tries\<close>

text \<open>A connected client whose server gives the listed answers, one to each command.\<close>

definition answering :: "bytes list command_env" where
  "answering = \<lparr>cm_live = (\<lambda>_. True), cm_socket = (\<lambda>_. Some (Inr (''10.0.0.1'', 2181))),
     cm_exchange = (\<lambda>peer cmd w. case w of [] \<Rightarrow> Some (Inl PyOSError, []) | b # w \<Rightarrow> Some (Inr b, w))\<rparr>"

definition usable :: "bytes \<Rightarrow> bool" where
  "usable answer \<longleftrightarrow> version_valid (parse_version (decode_replace answer))"

lemma try_fetch_answering:
  "try_fetch answering (b # w) = Some (Inr (parse_version (decode_replace b)), w)"
  by (simp add: try_fetch_def command_def answering_def io_bind_def)

lemma version_tries_bad:
  "list_all (\<lambda>b. \<not> usable b) bads \<Longrightarrow>
   version_tries answering (length bads + n) (bads @ w) = version_tries answering n w"
  by (induction bads) (simp_all add: io_bind_def try_fetch_answering usable_def)

lemma decode_replace_ascii:
  "list_all (\<lambda>c. (of_char c :: nat) < 128) s \<Longrightarrow> decode_replace (encode_utf8 s) = s"
proof (induction s)
  case (Cons c s)
  have "char_byte c \<le> 0x7F" using Cons.prems by (simp add: char_byte_def word_le_nat_alt unat_of_nat)
  then show ?case using Cons by (simp add: encode_utf8_def decode_replace.simps [of "_ # _"] utf8_char_def)
qed (simp add: encode_utf8_def decode_replace.simps)

text \<open>The answer to \<^verbatim>\<open>envi\<close>, one definition on each line.\<close>

definition envi_answer :: "string list \<Rightarrow> int list \<Rightarrow> string \<Rightarrow> string list \<Rightarrow> bytes" where
  "envi_answer pre ns rest post =
     encode_utf8 (concat (map (\<lambda>l. l @ [CHR 0x0A]) (pre @ [''zookeeper.version='' @ version_text ns @ rest] @ post)))"

text \<open>
  C36. The version is read as the server wrote it, whatever stands around it on its line and in
  the other lines, and a truncated or unusable answer costs one of the retries; when all answers
  are unusable, the operation raises after exactly one try more than the retries.
\<close>

theorem server_version_reads:
  assumes "2 \<le> length ns" and "list_all (\<lambda>n. 0 \<le> n) ns" and "plain_line rest"
    and "rest = [] \<or> (\<not> py_digit (hd rest) \<and> hd rest \<noteq> CHR ''.'')"
    and "list_all plain_line pre" and "list_all plain_line post"
    and "list_all (\<lambda>l. envi_key l \<noteq> Some ''zookeeper.version'') post"
    and "list_all (\<lambda>b. \<not> usable b) bads"
  shows "(int (length bads) \<le> retries \<longrightarrow>
        server_version answering retries (bads @ [envi_answer pre ns rest post] @ later) = Some (Inr ns, later))
    \<and> (length bads = Suc (nat retries) \<longrightarrow> server_version answering retries (bads @ later) = Some (Inl KazooException, later))"
proof (intro conjI impI)
  let ?good = "envi_answer pre ns rest post"
  let ?text = "concat (map (\<lambda>l. l @ [CHR 0x0A]) (pre @ [''zookeeper.version='' @ version_text ns @ rest] @ post))"
  have ns: "ns \<noteq> []" using assms(1) by auto
  have "list_all (\<lambda>c. (of_char c :: nat) < 128) (version_text ns)"
    using version_text_chars(1) [OF ns assms(2)] by (auto simp: list_all_iff py_digit_def)
  then have "list_all (\<lambda>c. (of_char c :: nat) < 128) ?text"
    using assms(3,5,6) plain_line_ascii by (auto simp: list_all_iff)
  then have good: "parse_version (decode_replace ?good) = Some ns"
    unfolding envi_answer_def using parse_version_line [OF ns assms(2-7)] by (simp only: decode_replace_ascii)
  assume le: "int (length bads) \<le> retries"
  then obtain m where m: "Suc (nat retries) = length bads + Suc m" by (metis add_Suc_right le_Suc_ex le_nat_iff of_nat_0_le_iff order_trans)
  have "version_valid (Some ns)" using assms(1) by (simp add: version_valid_def)
  then show "server_version answering retries (bads @ [?good] @ later) = Some (Inr ns, later)"
    unfolding server_version_def m version_tries_bad [OF assms(8)] by (simp add: io_bind_def try_fetch_answering good)
next
  assume "length bads = Suc (nat retries)"
  then show "server_version answering retries (bads @ later) = Some (Inl KazooException, later)"
    using version_tries_bad [OF assms(8), of 0 later] by (simp add: server_version_def io_raise_def)
qed

text \<open>An answer that is cut after the major version is not usable, and one cut after a dot.\<close>

theorem server_version_reads_witness:
  "server_version answering 3 ([encode_utf8 ''zookeeper.version=3.'', envi_answer [''Environment:''] [3, 4, 6] ''-1569965, built on 02/20/2014'' [''host.name=zk1'']])
     = Some (Inr [3, 4, 6], [])
   \<and> server_version answering 0 [encode_utf8 ''zookeeper.version=3.''] = Some (Inl KazooException, [])"
proof -
  have bad: "list_all (\<lambda>b. \<not> usable b) [encode_utf8 ''zookeeper.version=3.'']" by code_simp
  have "plain_line ''-1569965, built on 02/20/2014''" "list_all plain_line [''Environment:'']" "list_all plain_line [''host.name=zk1'']"
    by (simp_all add: plain_line_def)
  moreover have "list_all (\<lambda>l. envi_key l \<noteq> Some ''zookeeper.version'') [''host.name=zk1'']" by code_simp
  ultimately show ?thesis
    using server_version_reads [of "[3, 4, 6]" "''-1569965, built on 02/20/2014''" "[''Environment:'']" "[''host.name=zk1'']" "[encode_utf8 ''zookeeper.version=3.'']" 3 "[]"]
      server_version_reads [of "[3, 4, 6]" "''-1569965, built on 02/20/2014''" "[''Environment:'']" "[''host.name=zk1'']" "[encode_utf8 ''zookeeper.version=3.'']" 0 "[]"] bad
    by (simp add: py_digit_def)
qed

end
