(* ===== verification/GreenHandlers.thy ===== *)
theory GreenHandlers
  imports Handlers
begin

text \<open>
  \<^verbatim>\<open>kazoo/handlers/eventlet.py\<close> and \<^verbatim>\<open>kazoo/handlers/gevent.py\<close>, statement by statement between
  two switches of their cooperative threads. Their queues come from those libraries and are
  parameters; what is relied on, that a queue is first in, first out, is the locale \<open>fifo_queue\<close>.
  The results of the gevent handler are gevent's own, so it has no completion queue.
\<close>

section \<open>The queues\<close>

text \<open>\<open>ql_get\<close> gives \<^term>\<open>None\<close> when \<^verbatim>\<open>get\<close> would wait.\<close>

record 'q queue_lib =
  ql_new :: 'q
  ql_put :: "work \<Rightarrow> 'q \<Rightarrow> 'q"
  ql_get :: "'q \<Rightarrow> (work \<times> 'q) option"

locale fifo_queue =
  fixes lib :: "'q queue_lib" and items :: "'q \<Rightarrow> work list"
  assumes items_new: "items (ql_new lib) = []"
    and items_put: "items (ql_put lib x q) = items q @ [x]"
    and items_get: "ql_get lib q = None \<longleftrightarrow> items q = []" "ql_get lib q = Some (x, q') \<Longrightarrow> items q = x # items q'"
begin

lemma get_cases:
  obtains (empty) "ql_get lib q = None" "items q = []"
  | (item) x q' where "ql_get lib q = Some (x, q')" "items q = x # items q'"
  using items_get by (cases "ql_get lib q") fastforce+

lemma get_Cons: "items q = x # xs \<Longrightarrow> \<exists>q'. ql_get lib q = Some (x, q') \<and> items q' = xs"
  using get_cases [of q] by (metis list.distinct(1) list.inject)

end

text \<open>The queues of the threading handler are such queues.\<close>

definition thread_queue :: "work list queue_lib" where
  "thread_queue = \<lparr>ql_new = [], ql_put = (\<lambda>x q. q @ [x]), ql_get = (\<lambda>q. case q of [] \<Rightarrow> None | x # q \<Rightarrow> Some (x, q))\<rparr>"

interpretation thread_queue: fifo_queue thread_queue "\<lambda>q. q"
  by unfold_locales (auto simp: thread_queue_def split: list.splits)

section \<open>The eventlet handler\<close>

text \<open>
  \<open>ev_workers\<close> is the list that \<^verbatim>\<open>stop\<close> pops, \<open>ev_completion_workers\<close> and \<open>ev_callback_workers\<close>
  are the green threads that run. \<^verbatim>\<open>start\<close> does not switch. \<^verbatim>\<open>stop\<close> takes no lock, so several may
  run at once: each pops a worker, puts its sentinel and waits for it, and at the end clears the
  flag. What a stop does after its wait is possible here also before: the queues do not depend on it.
\<close>

datatype ev_worker = CompletionWorker | CallbackWorker

record 'q ev_handler =
  ev_callback_queue :: 'q
  ev_completion_queue :: 'q
  ev_workers :: "ev_worker list"
  ev_started :: bool
  ev_completion_workers :: nat
  ev_callback_workers :: nat
  ev_ran_completion :: "work list"
  ev_ran_watch :: "work list"
  ev_ran_directly :: "work list"

definition ev_init :: "'q queue_lib \<Rightarrow> 'q ev_handler" where
  "ev_init lib = \<lparr>ev_callback_queue = ql_new lib, ev_completion_queue = ql_new lib, ev_workers = [], ev_started = False,
     ev_completion_workers = 0, ev_callback_workers = 0, ev_ran_completion = [], ev_ran_watch = [], ev_ran_directly = []\<rparr>"

definition ev_start :: "'q ev_handler \<Rightarrow> 'q ev_handler" where
  "ev_start h =
     (if ev_started h then h
      else h\<lparr>ev_workers := ev_workers h @ [CompletionWorker, CallbackWorker], ev_started := True,
             ev_completion_workers := ev_completion_workers h + 1, ev_callback_workers := ev_callback_workers h + 1\<rparr>)"

text \<open>The workers are popped from the end of the list.\<close>

definition ev_stop_worker :: "'q queue_lib \<Rightarrow> 'q ev_handler \<Rightarrow> 'q ev_handler" where
  "ev_stop_worker lib h =
     (case rev (ev_workers h) of
        [] \<Rightarrow> h
      | CompletionWorker # ws \<Rightarrow>
          h\<lparr>ev_workers := rev ws, ev_completion_queue := ql_put lib STOP (ev_completion_queue h)\<rparr>
      | CallbackWorker # ws \<Rightarrow>
          h\<lparr>ev_workers := rev ws, ev_callback_queue := ql_put lib STOP (ev_callback_queue h)\<rparr>)"

definition ev_stopped :: "'q ev_handler \<Rightarrow> 'q ev_handler" where
  "ev_stopped h = (if ev_workers h = [] then h\<lparr>ev_started := False\<rparr> else h)"

definition ev_dispatch_callback :: "'q queue_lib \<Rightarrow> watch_callback \<Rightarrow> 'q ev_handler \<Rightarrow> 'q ev_handler" where
  "ev_dispatch_callback lib callback h =
     h\<lparr>ev_callback_queue := ql_put lib (RunWatch callback) (ev_callback_queue h)\<rparr>"

text \<open>A callback of an asynchronous result, on a running and on a stopped handler.\<close>

definition ev_do_callback :: "'q queue_lib \<Rightarrow> nat \<Rightarrow> nat \<Rightarrow> 'q ev_handler \<Rightarrow> 'q ev_handler" where
  "ev_do_callback lib i callback h =
     (if ev_started h then h\<lparr>ev_completion_queue := ql_put lib (RunCompletion callback i) (ev_completion_queue h)\<rparr>
      else h\<lparr>ev_ran_directly := ev_ran_directly h @ [RunCompletion callback i]\<rparr>)"

text \<open>One turn of each worker's loop; an exception of the callback is logged, the sentinel ends it.\<close>

definition ev_turn_completion :: "'q queue_lib \<Rightarrow> 'q ev_handler \<Rightarrow> 'q ev_handler" where
  "ev_turn_completion lib h =
     (if ev_completion_workers h = 0 then h
      else case ql_get lib (ev_completion_queue h) of
          None \<Rightarrow> h
        | Some (cb, q) \<Rightarrow>
            if cb = STOP then h\<lparr>ev_completion_queue := q, ev_completion_workers := ev_completion_workers h - 1\<rparr>
            else h\<lparr>ev_completion_queue := q, ev_ran_completion := ev_ran_completion h @ [cb]\<rparr>)"

definition ev_turn_callback :: "'q queue_lib \<Rightarrow> 'q ev_handler \<Rightarrow> 'q ev_handler" where
  "ev_turn_callback lib h =
     (if ev_callback_workers h = 0 then h
      else case ql_get lib (ev_callback_queue h) of
          None \<Rightarrow> h
        | Some (cb, q) \<Rightarrow>
            if cb = STOP then h\<lparr>ev_callback_queue := q, ev_callback_workers := ev_callback_workers h - 1\<rparr>
            else h\<lparr>ev_callback_queue := q, ev_ran_watch := ev_ran_watch h @ [cb]\<rparr>)"

datatype ev_event =
    EvStart | EvStopWorker | EvStopped | EvCompletion nat nat | EvDispatch watch_callback
  | EvTurnCompletion | EvTurnCallback

fun ev_step :: "'q queue_lib \<Rightarrow> 'q ev_handler \<Rightarrow> ev_event \<Rightarrow> 'q ev_handler" where
  "ev_step lib h EvStart = ev_start h"
| "ev_step lib h EvStopWorker = ev_stop_worker lib h"
| "ev_step lib h EvStopped = ev_stopped h"
| "ev_step lib h (EvCompletion i callback) = ev_do_callback lib i callback h"
| "ev_step lib h (EvDispatch callback) = ev_dispatch_callback lib callback h"
| "ev_step lib h EvTurnCompletion = ev_turn_completion lib h"
| "ev_step lib h EvTurnCallback = ev_turn_callback lib h"

section \<open>The gevent handler\<close>

text \<open>\<open>ge_next\<close> is what the holder of \<^verbatim>\<open>_state_change\<close> does next.\<close>

datatype ge_holder = GeNoHolder | GeSpawn | GePutStop | GeJoin

record 'q ge_handler =
  ge_callback_queue :: 'q
  ge_running :: bool
  ge_next :: ge_holder
  ge_worker :: bool
  ge_ran_watch :: "work list"

definition ge_init :: "'q queue_lib \<Rightarrow> 'q ge_handler" where
  "ge_init lib = \<lparr>ge_callback_queue = ql_new lib, ge_running = False, ge_next = GeNoHolder, ge_worker = False, ge_ran_watch = []\<rparr>"

definition ge_begin_start :: "'q ge_handler \<Rightarrow> 'q ge_handler" where
  "ge_begin_start h =
     (if ge_next h = GeNoHolder \<and> \<not> ge_running h then h\<lparr>ge_running := True, ge_next := GeSpawn\<rparr> else h)"

definition ge_begin_stop :: "'q ge_handler \<Rightarrow> 'q ge_handler" where
  "ge_begin_stop h =
     (if ge_next h = GeNoHolder \<and> ge_running h then h\<lparr>ge_running := False, ge_next := GePutStop\<rparr> else h)"

definition ge_holder_step :: "'q queue_lib \<Rightarrow> 'q ge_handler \<Rightarrow> 'q ge_handler" where
  "ge_holder_step lib h =
     (case ge_next h of
        GeNoHolder \<Rightarrow> h
      | GeSpawn \<Rightarrow> h\<lparr>ge_worker := True, ge_next := GeNoHolder\<rparr>
      | GePutStop \<Rightarrow> h\<lparr>ge_callback_queue := ql_put lib STOP (ge_callback_queue h), ge_next := GeJoin\<rparr>
      | GeJoin \<Rightarrow> if ge_worker h then h else h\<lparr>ge_callback_queue := ql_new lib, ge_next := GeNoHolder\<rparr>)"

definition ge_dispatch_callback :: "'q queue_lib \<Rightarrow> watch_callback \<Rightarrow> 'q ge_handler \<Rightarrow> 'q ge_handler" where
  "ge_dispatch_callback lib callback h =
     h\<lparr>ge_callback_queue := ql_put lib (RunWatch callback) (ge_callback_queue h)\<rparr>"

definition ge_turn_callback :: "'q queue_lib \<Rightarrow> 'q ge_handler \<Rightarrow> 'q ge_handler" where
  "ge_turn_callback lib h =
     (if \<not> ge_worker h then h
      else case ql_get lib (ge_callback_queue h) of
          None \<Rightarrow> h
        | Some (func, q) \<Rightarrow>
            if func = STOP then h\<lparr>ge_callback_queue := q, ge_worker := False\<rparr>
            else h\<lparr>ge_callback_queue := q, ge_ran_watch := ge_ran_watch h @ [func]\<rparr>)"

datatype ge_event = GeStart | GeStop | GeHolder | GeDispatch watch_callback | GeTurn

fun ge_step :: "'q queue_lib \<Rightarrow> 'q ge_handler \<Rightarrow> ge_event \<Rightarrow> 'q ge_handler" where
  "ge_step lib h GeStart = ge_begin_start h"
| "ge_step lib h GeStop = ge_begin_stop h"
| "ge_step lib h GeHolder = ge_holder_step lib h"
| "ge_step lib h (GeDispatch callback) = ge_dispatch_callback lib callback h"
| "ge_step lib h GeTurn = ge_turn_callback lib h"

section \<open>What happens to the callbacks\<close>

text \<open>
  With eventlet the queues are kept: what is queued besides sentinels will be run by a worker of
  this start or of the next. With gevent the queue is replaced as in the threading handler.
\<close>

definition pending_items :: "work list \<Rightarrow> work list" where
  "pending_items q = List.filter (\<lambda>x. x \<noteq> STOP) q"

lemma pending_items_simps [simp]:
  "pending_items [] = []" "pending_items (x # q) = (if x = STOP then pending_items q else x # pending_items q)"
  "pending_items (q @ r) = pending_items q @ pending_items r"
  by (simp_all add: pending_items_def)

fun ev_given :: "ev_event \<Rightarrow> work list" where
  "ev_given (EvDispatch callback) = [RunWatch callback]"
| "ev_given _ = []"

fun ev_completed :: "'q ev_handler \<Rightarrow> ev_event \<Rightarrow> work list" where
  "ev_completed h (EvCompletion i callback) = (if ev_started h then [RunCompletion callback i] else [])"
| "ev_completed h _ = []"

fun ge_on_time :: "'q ge_handler \<Rightarrow> ge_event \<Rightarrow> work list" where
  "ge_on_time h (GeDispatch callback) = (if ge_next h = GeJoin then [] else [RunWatch callback])"
| "ge_on_time h _ = []"

definition ge_due :: "('q \<Rightarrow> work list) \<Rightarrow> 'q ge_handler \<Rightarrow> work list" where
  "ge_due items h = (if ge_next h \<noteq> GeJoin then items (ge_callback_queue h)
     else if ge_worker h then before_stop (items (ge_callback_queue h)) else [])"

definition ge_ok :: "('q \<Rightarrow> work list) \<Rightarrow> 'q ge_handler \<Rightarrow> bool" where
  "ge_ok items h \<longleftrightarrow>
     (ge_next h = GeNoHolder \<longrightarrow> ge_worker h = ge_running h) \<and> (ge_next h = GeSpawn \<longrightarrow> ge_running h)
   \<and> (ge_next h = GePutStop \<longrightarrow> ge_worker h) \<and> (ge_next h \<in> {GePutStop, GeJoin} \<longrightarrow> \<not> ge_running h)
   \<and> (ge_next h = GeJoin \<and> ge_worker h \<longrightarrow> STOP \<in> set (items (ge_callback_queue h)))
   \<and> (ge_next h \<noteq> GeJoin \<longrightarrow> STOP \<notin> set (items (ge_callback_queue h)))"

context fifo_queue begin

lemmas items_simps = items_new items_put

lemma ev_step_seen:
  "ev_ran_watch (ev_step lib h e) @ pending_items (items (ev_callback_queue (ev_step lib h e))) =
     (ev_ran_watch h @ pending_items (items (ev_callback_queue h))) @ ev_given e"
proof (cases e)
  case EvTurnCallback
  then show ?thesis by (cases rule: get_cases [of "ev_callback_queue h"]) (auto simp: ev_turn_callback_def)
next
  case EvTurnCompletion
  then show ?thesis by (cases "ql_get lib (ev_completion_queue h)") (auto simp: ev_turn_completion_def)
qed (auto simp: ev_start_def ev_stop_worker_def ev_stopped_def ev_do_callback_def ev_dispatch_callback_def items_simps
    split: list.splits ev_worker.splits)

lemma ev_step_completed:
  "ev_ran_completion (ev_step lib h e) @ pending_items (items (ev_completion_queue (ev_step lib h e))) =
     (ev_ran_completion h @ pending_items (items (ev_completion_queue h))) @ ev_completed h e"
proof (cases e)
  case EvTurnCallback
  then show ?thesis by (cases "ql_get lib (ev_callback_queue h)") (auto simp: ev_turn_callback_def)
next
  case EvTurnCompletion
  then show ?thesis by (cases rule: get_cases [of "ev_completion_queue h"]) (auto simp: ev_turn_completion_def)
qed (auto simp: ev_start_def ev_stop_worker_def ev_stopped_def ev_do_callback_def ev_dispatch_callback_def items_simps
    split: list.splits ev_worker.splits)

lemma ge_step_ok:
  assumes "ge_ok items h"
  shows "ge_ok items (ge_step lib h e)"
proof (cases e)
  case GeHolder
  then show ?thesis using assms by (cases "ge_next h") (auto simp: ge_ok_def ge_holder_step_def items_simps)
next
  case GeTurn
  then show ?thesis using assms
    by (cases "ge_next h"; cases rule: get_cases [of "ge_callback_queue h"]) (auto simp: ge_ok_def ge_turn_callback_def)
qed (use assms in \<open>auto simp: ge_ok_def ge_begin_start_def ge_begin_stop_def ge_dispatch_callback_def items_simps\<close>)

lemma ge_step_seen:
  assumes "ge_ok items h"
  shows "ge_ran_watch (ge_step lib h e) @ ge_due items (ge_step lib h e) = (ge_ran_watch h @ ge_due items h) @ ge_on_time h e"
proof (cases e)
  case GeHolder
  then show ?thesis using assms by (cases "ge_next h") (auto simp: ge_ok_def ge_due_def ge_holder_step_def items_simps)
next
  case GeTurn
  then show ?thesis using assms
    by (cases "ge_next h"; cases rule: get_cases [of "ge_callback_queue h"]) (auto simp: ge_ok_def ge_due_def ge_turn_callback_def)
qed (use assms in \<open>auto simp: ge_ok_def ge_due_def ge_begin_start_def ge_begin_stop_def ge_dispatch_callback_def items_simps\<close>)

end

sublocale fifo_queue \<subseteq> ev_watches: logged_machine "ev_step lib" "\<lambda>_. True" "\<lambda>_. ev_given"
    "\<lambda>h. ev_ran_watch h @ pending_items (items (ev_callback_queue h))"
  by unfold_locales (simp_all only: ev_step_seen)

sublocale fifo_queue \<subseteq> ev_completions: logged_machine "ev_step lib" "\<lambda>_. True" ev_completed
    "\<lambda>h. ev_ran_completion h @ pending_items (items (ev_completion_queue h))"
  by unfold_locales (simp_all only: ev_step_completed)

sublocale fifo_queue \<subseteq> ge_watches: logged_machine "ge_step lib" "ge_ok items" ge_on_time
    "\<lambda>h. ge_ran_watch h @ ge_due items h"
  by unfold_locales (rule ge_step_ok ge_step_seen; assumption)+

context fifo_queue begin

lemma init_seen:
  "ev_ran_watch (ev_init lib) @ pending_items (items (ev_callback_queue (ev_init lib))) = []"
  "ev_ran_completion (ev_init lib) @ pending_items (items (ev_completion_queue (ev_init lib))) = []"
  "ge_ok items (ge_init lib)" "ge_ran_watch (ge_init lib) @ ge_due items (ge_init lib) = []"
  by (simp_all add: ev_init_def ge_init_def ge_ok_def ge_due_def items_simps)

lemma ev_run_watches:
  "ev_ran_watch (foldl (ev_step lib) (ev_init lib) es)
     @ pending_items (items (ev_callback_queue (foldl (ev_step lib) (ev_init lib) es))) = concat (map ev_given es)"
  using ev_watches.run_seen [OF TrueI, of "ev_init lib" es] init_seen(1) by (simp add: run_given_all)

lemma ev_run_completions:
  "ev_ran_completion (foldl (ev_step lib) (ev_init lib) es)
     @ pending_items (items (ev_completion_queue (foldl (ev_step lib) (ev_init lib) es)))
   = run_given (ev_step lib) ev_completed (ev_init lib) es"
  using ev_completions.run_seen [OF TrueI, of "ev_init lib" es] init_seen(2) by simp

lemma ge_run_watches:
  "ge_ran_watch (foldl (ge_step lib) (ge_init lib) gs) @ ge_due items (foldl (ge_step lib) (ge_init lib) gs)
   = run_given (ge_step lib) ge_on_time (ge_init lib) gs"
  using ge_watches.run_seen [OF init_seen(3), of gs] init_seen(4) by simp

lemma ge_run_ok: "ge_ok items (foldl (ge_step lib) (ge_init lib) gs)"
  by (rule ge_watches.run_inv [OF init_seen(3)])

lemma ge_join_ends:
  assumes "ge_worker h \<longrightarrow> STOP \<in> set (items (ge_callback_queue h))" and "ge_next h = GeJoin"
  shows "ge_next (foldl (ge_step lib) h (replicate (length (items (ge_callback_queue h))) GeTurn @ [GeHolder])) = GeNoHolder"
  using assms
proof (induction "items (ge_callback_queue h)" arbitrary: h)
  case Nil
  then show ?case by (simp add: ge_holder_step_def)
next
  case (Cons x xs)
  obtain q where q: "ql_get lib (ge_callback_queue h) = Some (x, q)" "items q = xs"
    using get_Cons [OF Cons.hyps(2) [symmetric]] by blast
  show ?case
  proof (cases "ge_worker h")
    case False
    then have "foldl (ge_step lib) h (replicate n GeTurn) = h" for n by (induction n) (simp_all add: ge_turn_callback_def)
    then show ?thesis using False Cons.prems(2) by (simp add: ge_holder_step_def)
  next
    case True
    let ?h = "ge_turn_callback lib h"
    have turn: "?h = (if x = STOP then h\<lparr>ge_callback_queue := q, ge_worker := False\<rparr>
        else h\<lparr>ge_callback_queue := q, ge_ran_watch := ge_ran_watch h @ [x]\<rparr>)"
      using True q(1) by (simp add: ge_turn_callback_def)
    have "xs = items (ge_callback_queue ?h)" "ge_next ?h = GeJoin"
      "ge_worker ?h \<longrightarrow> STOP \<in> set (items (ge_callback_queue ?h))"
      using Cons.prems True q(2) Cons.hyps(2) [symmetric] by (auto simp: turn)
    then show ?thesis using Cons.hyps(1) [of ?h] Cons.hyps(2) [symmetric] by simp
  qed
qed

end

text \<open>
  C29. The other handlers run the callbacks in the order in which they were dispatched, each once,
  in every interleaving of the statements of start and stop with dispatches and workers, over queues
  that are first in, first out. Eventlet loses none: what has run and what is queued is all that was
  dispatched, and all completions that were queued. Gevent loses exactly those that are dispatched
  while \<^verbatim>\<open>stop\<close> waits for the worker, and that wait ends after as many turns as there are items.
\<close>

theorem green_handlers_run_in_order:
  assumes "fifo_queue lib items" and "ev = foldl (ev_step lib) (ev_init lib) es" and "ge = foldl (ge_step lib) (ge_init lib) gs"
  shows "ev_ran_watch ev @ pending_items (items (ev_callback_queue ev)) = concat (map ev_given es)
    \<and> ev_ran_completion ev @ pending_items (items (ev_completion_queue ev)) = run_given (ev_step lib) ev_completed (ev_init lib) es
    \<and> ge_ran_watch ge @ ge_due items ge = run_given (ge_step lib) ge_on_time (ge_init lib) gs
    \<and> (ge_next ge = GeJoin \<longrightarrow>
         ge_next (foldl (ge_step lib) ge (replicate (length (items (ge_callback_queue ge))) GeTurn @ [GeHolder])) = GeNoHolder)"
proof (intro conjI impI)
  assume join: "ge_next ge = GeJoin"
  then have "ge_worker ge \<longrightarrow> STOP \<in> set (items (ge_callback_queue ge))"
    using fifo_queue.ge_run_ok [OF assms(1), of gs] by (simp add: assms(3) ge_ok_def)
  then show "ge_next (foldl (ge_step lib) ge (replicate (length (items (ge_callback_queue ge))) GeTurn @ [GeHolder])) = GeNoHolder"
    using join by (rule fifo_queue.ge_join_ends [OF assms(1)])
qed (unfold assms(2,3), rule fifo_queue.ev_run_watches [OF assms(1)], rule fifo_queue.ev_run_completions [OF assms(1)],
    rule fifo_queue.ge_run_watches [OF assms(1)])

text \<open>
  A callback that is dispatched while the stop waits: eventlet keeps it for the next start, gevent
  drops it.
\<close>

definition demo_ev_events :: "ev_event list" where
  "demo_ev_events = [EvDispatch (demo_callback 1), EvStart, EvCompletion 4 5, EvStopWorker, EvDispatch (demo_callback 2),
     EvTurnCallback, EvTurnCallback, EvStopWorker, EvTurnCompletion, EvTurnCompletion, EvStopped]"

definition demo_ge_events :: "ge_event list" where
  "demo_ge_events = [GeDispatch (demo_callback 1), GeStart, GeHolder, GeStop, GeHolder, GeDispatch (demo_callback 2)]"

theorem green_handlers_run_in_order_witness:
  "(let ev = foldl (ev_step thread_queue) (ev_init thread_queue) demo_ev_events in
      ev_ran_watch ev = [RunWatch (demo_callback 1)] \<and> ev_callback_queue ev = [RunWatch (demo_callback 2)]
      \<and> ev_ran_completion ev = [RunCompletion 5 4])
   \<and> (let ge = foldl (ge_step thread_queue) (ge_init thread_queue) (demo_ge_events @ replicate 3 GeTurn @ [GeHolder]) in
      ge_ran_watch ge = [RunWatch (demo_callback 1)] \<and> ge_callback_queue ge = [])"
proof -
  let ?ev = "foldl (ev_step thread_queue) (ev_init thread_queue) demo_ev_events"
  let ?gs = "demo_ge_events @ replicate 3 GeTurn @ [GeHolder]"
  let ?ge = "foldl (ge_step thread_queue) (ge_init thread_queue) ?gs"
  have "ev_callback_queue ?ev = [RunWatch (demo_callback 2)]" "ev_completion_queue ?ev = []" by code_simp+
  moreover have "ge_callback_queue ?ge = []" "ge_next ?ge = GeNoHolder" by code_simp+
  moreover have "concat (map ev_given demo_ev_events) = [RunWatch (demo_callback 1), RunWatch (demo_callback 2)]"
    "run_given (ev_step thread_queue) ev_completed (ev_init thread_queue) demo_ev_events = [RunCompletion 5 4]"
    "run_given (ge_step thread_queue) ge_on_time (ge_init thread_queue) ?gs = [RunWatch (demo_callback 1)]" by code_simp+
  ultimately show ?thesis
    using green_handlers_run_in_order [OF thread_queue.fifo_queue_axioms refl refl, of demo_ev_events ?gs]
    by (simp add: ge_due_def)
qed

end
