(* ===== verification/DateTime.thy ===== *)
theory DateTime
  imports PyInt
begin

text \<open>
  What the leases use of Python's \<^verbatim>\<open>datetime\<close>: dates and times, \<^verbatim>\<open>strftime\<close> and \<^verbatim>\<open>strptime\<close> with
  the format \<^verbatim>\<open>%Y-%m-%dT%H:%M:%S\<close>. A \<^verbatim>\<open>datetime\<close> is the number of microseconds since the
  beginning of the year one.
\<close>

section \<open>The calendar\<close>

definition is_leap :: "int \<Rightarrow> bool" where
  "is_leap y \<longleftrightarrow> y mod 4 = 0 \<and> (y mod 100 \<noteq> 0 \<or> y mod 400 = 0)"

definition month_lengths :: "int \<Rightarrow> int list" where
  "month_lengths y = [31, if is_leap y then 29 else 28, 31, 30, 31, 30, 31, 31, 30, 31, 30, 31]"

definition days_before_year :: "int \<Rightarrow> int" where
  "days_before_year y = (y - 1) * 365 + (y - 1) div 4 - (y - 1) div 100 + (y - 1) div 400"

definition ymd_ordinal :: "int \<Rightarrow> int \<Rightarrow> int \<Rightarrow> int" where
  "ymd_ordinal y m d = days_before_year y + sum_list (take (nat (m - 1)) (month_lengths y)) + d"

fun find_month :: "int list \<Rightarrow> int \<Rightarrow> int \<Rightarrow> int \<times> int" where
  "find_month [] m n = (m, n + 1)"
| "find_month (l # ls) m n = (if n < l then (m, n + 1) else find_month ls (m + 1) (n - l))"

text \<open>The year of a day and the number of the day in it, from cycles of 400, 100, 4 and one years.\<close>

definition year_day :: "int \<Rightarrow> int \<times> int" where
  "year_day n =
     (let n400 = n div 146097; n = n mod 146097;
          n100 = n div 36524; n = n mod 36524;
          n4 = n div 1461; n = n mod 1461;
          n1 = n div 365; n = n mod 365;
          year = n400 * 400 + n100 * 100 + n4 * 4 + n1 + 1
      in if n1 = 4 \<or> n100 = 4 then (year - 1, 365) else (year, n))"

definition ordinal_ymd :: "int \<Rightarrow> int \<times> int \<times> int" where
  "ordinal_ymd ordinal =
     (case year_day (ordinal - 1) of (y, n) \<Rightarrow> (case find_month (month_lengths y) 1 n of (m, d) \<Rightarrow> (y, m, d)))"

section \<open>Dates and times\<close>

definition second :: int where "second = 1000000"

definition date_time :: "int \<Rightarrow> int \<Rightarrow> int \<Rightarrow> int \<Rightarrow> int \<Rightarrow> int \<Rightarrow> exc + int" where
  "date_time y m d hh mm ss =
     (if 1 \<le> y \<and> y \<le> 9999 \<and> 1 \<le> m \<and> m \<le> 12 \<and> 1 \<le> d \<and> d \<le> month_lengths y ! nat (m - 1)
         \<and> 0 \<le> hh \<and> hh < 24 \<and> 0 \<le> mm \<and> mm < 60 \<and> 0 \<le> ss \<and> ss < 60
      then Inr ((((ymd_ordinal y m d - 1) * 24 + hh) * 60 + mm) * 60 * second + ss * second)
      else Inl PyValueError)"

text \<open>A sum outside the years 1 to 9999 raises \<^verbatim>\<open>OverflowError\<close>.\<close>

definition max_date_time :: int where "max_date_time = 3652059 * 86400 * second"

definition add_duration :: "int \<Rightarrow> int \<Rightarrow> exc + int" where
  "add_duration t duration =
     (if 0 \<le> t + duration \<and> t + duration < max_date_time then Inr (t + duration) else Inl PyOverflowError)"

text \<open>The C library writes the year without padding.\<close>

definition two_digits :: "int \<Rightarrow> string" where
  "two_digits n = zero_pad 2 (nat n)"

definition strftime :: "int \<Rightarrow> string" where
  "strftime t =
     (let s = t div second mod 86400; (y, m, d) = ordinal_ymd (t div second div 86400 + 1)
      in repr_int y @ ''-'' @ two_digits m @ ''-'' @ two_digits d @ ''T''
         @ two_digits (s div 3600) @ '':'' @ two_digits (s div 60 mod 60) @ '':'' @ two_digits (s mod 60))"

text \<open>
  A field of the format: its digits, one or two, and the values that its pattern admits; the
  pattern of the day also takes a space and a digit.
\<close>

definition date_field :: "nat set \<Rightarrow> nat \<Rightarrow> nat \<Rightarrow> string \<Rightarrow> int option" where
  "date_field lens lo hi s =
     (if length s \<in> lens \<and> list_all py_digit s \<and> lo \<le> digits_value s \<and> digits_value s \<le> hi
      then Some (int (digits_value s)) else None)"

definition day_field :: "string \<Rightarrow> int option" where
  "day_field s =
     (case s of
        [c, e] \<Rightarrow> if c = CHR '' '' then date_field {1} 1 9 [e] else date_field {2} 1 31 s
      | _ \<Rightarrow> date_field {1} 1 9 s)"

definition cut_at :: "char set \<Rightarrow> string \<Rightarrow> string \<times> string" where
  "cut_at cs s = (takeWhile (\<lambda>c. c \<notin> cs) s, tl (dropWhile (\<lambda>c. c \<notin> cs) s))"

text \<open>The pattern ignores case; a date that does not exist, and the seconds 60 and 61, raise.\<close>

definition strptime :: "string \<Rightarrow> exc + int" where
  "strptime text0 =
     (let (ys, r) = cut_at {CHR ''-''} text0;
          (ms, r) = cut_at {CHR ''-''} r;
          (ds, r) = cut_at {CHR ''T'', CHR ''t''} r;
          (hs, r) = cut_at {CHR '':''} r;
          (mins, secs) = cut_at {CHR '':''} r
      in case (date_field {4} 0 9999 ys, date_field {1, 2} 1 12 ms, day_field ds,
               date_field {1, 2} 0 23 hs, date_field {1, 2} 0 59 mins, date_field {1, 2} 0 61 secs) of
           (Some y, Some m, Some d, Some hh, Some mm, Some ss) \<Rightarrow> date_time y m d hh mm ss
         | _ \<Rightarrow> Inl PyValueError)"

section \<open>The calendar is read back\<close>

lemma find_month_sum:
  "0 \<le> n \<Longrightarrow> n < sum_list ls \<Longrightarrow> list_all (\<lambda>l. 0 < l) ls \<Longrightarrow> find_month ls m n = (m', d) \<Longrightarrow>
   m \<le> m' \<and> m' < m + int (length ls) \<and> 1 \<le> d \<and> d \<le> ls ! nat (m' - m) \<and> sum_list (take (nat (m' - m)) ls) + d = n + 1"
proof (induction ls m n rule: find_month.induct)
  case (2 l ls m n)
  show ?case
  proof (cases "n < l")
    case False
    then have IH: "m + 1 \<le> m' \<and> m' < m + 1 + int (length ls) \<and> 1 \<le> d \<and> d \<le> ls ! nat (m' - (m + 1))
        \<and> sum_list (take (nat (m' - (m + 1))) ls) + d = n - l + 1"
      using 2 by simp
    then have "nat (m' - m) = Suc (nat (m' - (m + 1)))" by linarith
    then show ?thesis using IH by simp
  qed (use 2 in auto)
qed simp

lemma month_lengths_props:
  "list_all (\<lambda>l. 0 < l) (month_lengths y)" "length (month_lengths y) = 12"
  "sum_list (month_lengths y) = (if is_leap y then 366 else 365)"
  by (simp_all add: month_lengths_def)

lemma year_day_correct:
  assumes "0 \<le> n" and "year_day n = (y, k)"
  shows "days_before_year y + k = n \<and> 0 \<le> k \<and> k < (if is_leap y then 366 else 365) \<and> 1 \<le> y"
proof -
  define a where "a = n div 146097"
  define r1 where "r1 = n mod 146097"
  define b where "b = r1 div 36524"
  define r2 where "r2 = r1 mod 36524"
  define c where "c = r2 div 1461"
  define r3 where "r3 = r2 mod 1461"
  define e where "e = r3 div 365"
  define r4 where "r4 = r3 mod 365"
  have n: "n = a * 146097 + r1" "r1 = b * 36524 + r2" "r2 = c * 1461 + r3" "r3 = e * 365 + r4"
    by (simp_all add: a_def r1_def b_def r2_def c_def r3_def e_def r4_def)
  have bounds: "0 \<le> a" "0 \<le> r1" "r1 < 146097" "0 \<le> r2" "r2 < 36524" "0 \<le> r3" "r3 < 1461" "0 \<le> r4" "r4 < 365"
    using assms(1) by (simp_all add: a_def r1_def r2_def r3_def r4_def pos_imp_zdiv_nonneg_iff)
  have nonneg: "0 \<le> b" "0 \<le> c" "0 \<le> e" using bounds by (simp_all add: b_def c_def e_def pos_imp_zdiv_nonneg_iff)
  have upper: "b \<le> 4" "c \<le> 24" "e \<le> 4" using n bounds nonneg by linarith+
  have yk: "(y, k) = (if e = 4 \<or> b = 4 then (a * 400 + b * 100 + c * 4 + e, 365) else (a * 400 + b * 100 + c * 4 + e + 1, r4))"
    using assms(2) unfolding year_day_def Let_def a_def r1_def b_def r2_def c_def r3_def e_def r4_def by (auto split: if_splits)
  show ?thesis
  proof (cases "e = 4 \<or> b = 4")
    case False
    then have y: "y = a * 400 + b * 100 + c * 4 + e + 1" "k = r4" and be: "b \<le> 3" "e \<le> 3" using yk upper by auto
    have "(y - 1) div 4 = a * 100 + b * 25 + c" "(y - 1) div 100 = a * 4 + b" "(y - 1) div 400 = a"
      using y be nonneg upper
      by (intro int_div_pos_eq [where r = e] int_div_pos_eq [where r = "c * 4 + e"] int_div_pos_eq [where r = "b * 100 + c * 4 + e"]; simp)+
    then have "days_before_year y = n - r4" using y n by (simp add: days_before_year_def)
    then show ?thesis using y bounds nonneg by auto
  next
    case True
    have full: "b = 4 \<Longrightarrow> c = 0 \<and> e = 0 \<and> r4 = 0" "e = 4 \<Longrightarrow> r4 = 0" using n bounds nonneg by linarith+
    show ?thesis
    proof (cases "b = 4")
      case b4: True
      then have y: "y = a * 400 + 400" "k = 365" using yk full by auto
      have "(y - 1) div 4 = a * 100 + 99" "(y - 1) div 100 = a * 4 + 3" "(y - 1) div 400 = a"
        using y(1) by (intro int_div_pos_eq [where r = 3] int_div_pos_eq [where r = 99] int_div_pos_eq [where r = 399]; simp)+
      then have "days_before_year y = n - 365" using y n b4 full by (simp add: days_before_year_def)
      moreover have "is_leap y" using y by (simp add: is_leap_def)
      ultimately show ?thesis using y bounds by simp
    next
      case b3: False
      then have e4: "e = 4" "r4 = 0" "b \<le> 3" using True full upper by auto
      have c: "c \<le> 23 \<or> (c = 24 \<and> b = 4)" using n bounds e4 nonneg upper by linarith
      then have c23: "c \<le> 23" using b3 by simp
      have y: "y = a * 400 + b * 100 + c * 4 + 4" "k = 365" using yk e4 by auto
      have "(y - 1) div 4 = a * 100 + b * 25 + c" "(y - 1) div 100 = a * 4 + b" "(y - 1) div 400 = a"
        using y(1) e4(3) nonneg c23
        by (intro int_div_pos_eq [where r = 3] int_div_pos_eq [where r = "c * 4 + 3"] int_div_pos_eq [where r = "b * 100 + c * 4 + 3"]; simp)+
      then have "days_before_year y = n - 365" using y n e4 by (simp add: days_before_year_def)
      moreover have "y mod 4 = 0" using y(1) by (intro int_mod_pos_eq [where q = "a * 100 + b * 25 + c + 1"]) simp_all
      moreover have "y mod 100 = c * 4 + 4" using y(1) nonneg(2) c23 by (intro int_mod_pos_eq [where q = "a * 4 + b"]) simp_all
      then have "y mod 100 \<noteq> 0" using nonneg(2) by simp
      ultimately have leap: "is_leap y" "days_before_year y = n - 365" by (simp_all add: is_leap_def)
      then show ?thesis using y bounds nonneg by simp
    qed
  qed
qed

lemma ordinal_ymd_correct:
  assumes "1 \<le> n" and "ordinal_ymd n = (y, m, d)"
  shows "ymd_ordinal y m d = n \<and> 1 \<le> y \<and> 1 \<le> m \<and> m \<le> 12 \<and> 1 \<le> d \<and> d \<le> month_lengths y ! nat (m - 1)
    \<and> n \<le> days_before_year y + (if is_leap y then 366 else 365) \<and> days_before_year y < n"
proof -
  obtain k where k: "year_day (n - 1) = (y, k)" "find_month (month_lengths y) 1 k = (m, d)"
    using assms(2) by (auto simp: ordinal_ymd_def split: prod.splits)
  have yd: "days_before_year y + k = n - 1" "0 \<le> k" "k < sum_list (month_lengths y)" "1 \<le> y"
    using year_day_correct [OF _ k(1)] assms(1) month_lengths_props(3) by simp_all
  from find_month_sum [OF yd(2,3) month_lengths_props(1) k(2)] show ?thesis
    using yd month_lengths_props(2,3) [of y] by (auto simp: ymd_ordinal_def split: if_splits)
qed

section \<open>A date is read as it was written\<close>

lemma year_range:
  assumes "days_before_year y < n" and "n \<le> days_before_year y + (if is_leap y then 366 else 365)"
    and "days_before_year 1000 < n" and "n \<le> 3652059"
  shows "1000 \<le> y \<and> y \<le> 9999"
proof (rule ccontr)
  assume "\<not> ?thesis"
  then consider "y \<le> 998" | "y = 999" | "y = 10000" | "10001 \<le> y" by linarith
  then show False
  proof cases
    case 1
    have "n \<le> days_before_year y + 366" using assms(2) by (simp split: if_splits)
    then show False using 1 assms(3) by (simp add: days_before_year_def)
  next
    case 2
    then show False using assms by (simp add: days_before_year_def is_leap_def)
  next
    case 3
    then show False using assms by (simp add: days_before_year_def)
  next
    case 4
    then show False using assms(1,4) by (simp add: days_before_year_def)
  qed
qed

lemma month_length_le: "0 \<le> i \<Longrightarrow> i < 12 \<Longrightarrow> month_lengths y ! nat i \<le> 31"
proof -
  assume "0 \<le> i" "i < 12"
  then have "month_lengths y ! nat i \<in> set (month_lengths y)" by (intro nth_mem) (simp add: month_lengths_props(2))
  then show ?thesis by (auto simp: month_lengths_def split: if_splits)
qed

lemma digits_value_zeros: "digits_value (replicate k (CHR ''0'') @ s) = digits_value s"
  by (induction k) (simp_all add: digits_value_def digit_value_def)

lemma digit_count: "length (nat_digits n) = (if n < 10 then 1 else Suc (length (nat_digits (n div 10))))"
  by (subst nat_digits.simps) simp

lemma two_digits_field:
  assumes "0 \<le> n" and "n < 100"
  shows "length (two_digits n) = 2" "list_all py_digit (two_digits n)" "digits_value (two_digits n) = nat n"
proof -
  have "length (nat_digits (nat n)) \<le> 2" using assms by (simp add: digit_count [of "nat n"] digit_count [of "nat n div 10"])
  then show "length (two_digits n) = 2" by (simp add: two_digits_def zero_pad_def Let_def)
  show "list_all py_digit (two_digits n)"
    using nat_digits_digits [of "nat n"] by (auto simp: two_digits_def zero_pad_def Let_def list_all_iff py_digit_def)
  show "digits_value (two_digits n) = nat n" by (simp add: two_digits_def zero_pad_def Let_def digits_value_zeros)
qed

lemma year_field:
  assumes "1000 \<le> y" and "y \<le> 9999"
  shows "date_field {4} 0 9999 (repr_int y) = Some y"
proof -
  define z where "z = nat y"
  have "\<not> z < 10" "\<not> z div 10 < 10" "\<not> z div 10 div 10 < 10" "z div 10 div 10 div 10 < 10"
    using assms unfolding z_def by linarith+
  then have "length (nat_digits (nat y)) = 4"
    unfolding z_def [symmetric]
    by (simp add: digit_count [of z] digit_count [of "z div 10"] digit_count [of "z div 10 div 10"]
      digit_count [of "z div 10 div 10 div 10"] del: div_mult2_eq)
  then show ?thesis using assms nat_digits_digits by (simp add: date_field_def repr_int_def)
qed

lemma day_field_two: "1 \<le> n \<Longrightarrow> n \<le> 31 \<Longrightarrow> day_field (two_digits n) = Some n"
proof -
  assume n: "1 \<le> n" "n \<le> 31"
  then have f: "length (two_digits n) = 2" "list_all py_digit (two_digits n)" "digits_value (two_digits n) = nat n"
    using two_digits_field [of n] by simp_all
  then obtain c e where ce: "two_digits n = [c, e]" by (auto simp: length_Suc_conv numeral_2_eq_2)
  then have "c \<noteq> CHR '' ''" using f(2) by (auto simp: py_digit_def)
  then show ?thesis using n f ce by (auto simp: day_field_def date_field_def nat_le_iff Suc_le_eq)
qed

lemma cut_at_digits:
  assumes "list_all py_digit u" and "c \<in> cs" and "\<And>c. c \<in> cs \<Longrightarrow> \<not> py_digit c"
  shows "cut_at cs (u @ c # v) = (u, v)"
  using assms(1) by (induction u) (use assms(2,3) in \<open>auto simp: cut_at_def\<close>)

lemma time_of_day:
  fixes r :: int
  shows "(r div 3600 * 60 + r div 60 mod 60) * 60 + r mod 60 = r"
proof -
  define q where "q = r div 60"
  have h: "r div 3600 = q div 60" using zdiv_zmult2_eq [of 60 r 60] by (simp add: q_def)
  have "q * 60 + r mod 60 = r" "q div 60 * 60 + q mod 60 = q" unfolding q_def by (rule div_mult_mod_eq)+
  then show ?thesis unfolding h q_def [symmetric] by (simp only:)
qed

lemma two_digits_read:
  assumes "0 \<le> k" and "k < 100"
  shows "date_field {1, 2} lo hi (two_digits k) = (if int lo \<le> k \<and> k \<le> int hi then Some k else None)"
  using two_digits_field [OF assms] assms by (auto simp: date_field_def nat_le_iff le_nat_iff)

lemma cut_at_two:
  assumes "0 \<le> k" and "k < 100" and "c \<in> cs" and "cs = {CHR ''-''} \<or> cs = {CHR ''T'', CHR ''t''} \<or> cs = {CHR '':''}"
  shows "cut_at cs (two_digits k @ c # v) = (two_digits k, v)"
  using two_digits_field(2) [OF assms(1,2)] assms(3,4) by (intro cut_at_digits) (auto simp: py_digit_def)

lemma strptime_fields:
  assumes "1000 \<le> y" "y \<le> 9999" "1 \<le> m" "m \<le> 12" "1 \<le> d" "d \<le> 31" "0 \<le> hh" "hh \<le> 23" "0 \<le> mm" "mm \<le> 59" "0 \<le> ss" "ss \<le> 59"
  shows "strptime (repr_int y @ ''-'' @ two_digits m @ ''-'' @ two_digits d @ ''T'' @ two_digits hh @ '':'' @ two_digits mm @ '':'' @ two_digits ss)
    = date_time y m d hh mm ss"
proof -
  have "list_all py_digit (repr_int y)" using assms(1) nat_digits_digits by (simp add: repr_int_def)
  then have y: "cut_at {CHR ''-''} (repr_int y @ CHR ''-'' # v) = (repr_int y, v)" for v
    by (intro cut_at_digits) (auto simp: py_digit_def)
  have f: "date_field {1, 2} 1 12 (two_digits m) = Some m" "date_field {1, 2} 0 23 (two_digits hh) = Some hh"
    "date_field {1, 2} 0 59 (two_digits mm) = Some mm" "date_field {1, 2} 0 61 (two_digits ss) = Some ss"
    using assms by (simp_all only: two_digits_read) simp_all
  have c: "cut_at {CHR ''-''} (two_digits m @ CHR ''-'' # v) = (two_digits m, v)"
    "cut_at {CHR ''T'', CHR ''t''} (two_digits d @ CHR ''T'' # v) = (two_digits d, v)"
    "cut_at {CHR '':''} (two_digits hh @ CHR '':'' # v) = (two_digits hh, v)"
    "cut_at {CHR '':''} (two_digits mm @ CHR '':'' # v) = (two_digits mm, v)" for v
    using assms by (simp_all add: cut_at_two)
  show ?thesis
    using f year_field [OF assms(1,2)] day_field_two [OF assms(5,6)]
    unfolding strptime_def Let_def append_Cons append_Nil y c prod.case by (simp only: option.case prod.case)
qed

text \<open>Reading a date back loses what is below the second.\<close>

lemma strptime_strftime:
  assumes "days_before_year 1000 * 86400 * second \<le> t" and "t < max_date_time"
  shows "strptime (strftime t) = Inr (t - t mod second)"
proof -
  define n where "n = t div second div 86400 + 1"
  define r where "r = t div second mod 86400"
  obtain y m d where ymd: "ordinal_ymd n = (y, m, d)" by (metis prod_cases3)
  have n: "days_before_year 1000 < n" "n \<le> 3652059" and r: "0 \<le> r" "r < 86400"
    using assms by (auto simp: n_def r_def second_def max_date_time_def days_before_year_def)
  then have "1 \<le> n" by (simp add: days_before_year_def)
  note date = ordinal_ymd_correct [OF this ymd]
  have y: "1000 \<le> y" "y \<le> 9999" using year_range [of y n] date n by simp_all
  have d: "d \<le> 31" using date month_length_le [of "m - 1" y] by simp
  have hms: "0 \<le> r div 3600" "r div 3600 \<le> 23" "0 \<le> r div 60 mod 60" "r div 60 mod 60 \<le> 59" "0 \<le> r mod 60" "r mod 60 \<le> 59"
    using r by (simp_all add: pos_imp_zdiv_nonneg_iff)
  have "strptime (strftime t) = date_time y m d (r div 3600) (r div 60 mod 60) (r mod 60)"
    using strptime_fields [OF y _ _ _ d hms, of m] date ymd by (simp add: strftime_def Let_def n_def r_def)
  moreover have "date_time y m d (r div 3600) (r div 60 mod 60) (r mod 60) =
      Inr (((n - 1) * 86400 + ((r div 3600 * 60 + r div 60 mod 60) * 60 + r mod 60)) * second)"
    using y d date hms by (simp add: date_time_def algebra_simps)
  moreover have "(n - 1) * 86400 + r = t div second" by (simp add: n_def r_def)
  ultimately show ?thesis unfolding time_of_day by (simp only: minus_mod_eq_div_mult)
qed

end
