(* ===== verification/Json.thy ===== *)
theory Json
  imports Complex_Main PyInt
begin

text \<open>
  What the leases use of Python's \<^verbatim>\<open>json\<close>: writing strings with escapes for everything beyond
  printable ASCII, and reading any document. A Python string is here its UTF-8 bytes; a lone
  surrogate, which JSON can name, is written as three bytes in the same way. Floats are
  rationals.
\<close>

section \<open>Characters\<close>

text \<open>The UTF-8 bytes of a code point, and the code point that a string begins with.\<close>

definition code_utf8 :: "nat \<Rightarrow> string" where
  "code_utf8 n =
     (if n < 0x80 then [char_of n]
      else if n < 0x800 then [char_of (0xC0 + n div 64), char_of (0x80 + n mod 64)]
      else if n < 0x10000 then [char_of (0xE0 + n div 4096), char_of (0x80 + n div 64 mod 64), char_of (0x80 + n mod 64)]
      else [char_of (0xF0 + n div 262144), char_of (0x80 + n div 4096 mod 64), char_of (0x80 + n div 64 mod 64), char_of (0x80 + n mod 64)])"

definition code_length :: "char \<Rightarrow> nat" where
  "code_length c = (let b = of_char c :: nat in if b < 0xC0 then 1 else if b < 0xE0 then 2 else if b < 0xF0 then 3 else 4)"

definition code_lead :: "char \<Rightarrow> nat" where
  "code_lead c = (let b = of_char c in if b < 0xC0 then b else if b < 0xE0 then b - 0xC0 else if b < 0xF0 then b - 0xE0 else b - 0xF0)"

definition code_point :: "string \<Rightarrow> nat" where
  "code_point s =
     (case s of [] \<Rightarrow> 0
      | c # t \<Rightarrow> foldl (\<lambda>n d. n * 64 + (of_char d - 0x80)) (code_lead c) (take (code_length c - 1) t))"

function code_points :: "string \<Rightarrow> nat list" where
  "code_points [] = []"
| "code_points (c # t) = code_point (c # t) # code_points (drop (code_length c - 1) t)"
  by pat_completeness auto
termination
  by (relation "measure length") auto

text \<open>A code point that a string may hold: no surrogate.\<close>

definition scalar :: "nat \<Rightarrow> bool" where
  "scalar n \<longleftrightarrow> n < 0xD800 \<or> 0xE000 \<le> n \<and> n < 0x110000"

definition points_string :: "nat list \<Rightarrow> string" where
  "points_string ns = concat (map code_utf8 ns)"

section \<open>Writing\<close>

definition hex_digit :: "nat \<Rightarrow> char" where
  "hex_digit d = (if d < 10 then char_of (48 + d) else char_of (87 + d))"

definition hex4 :: "nat \<Rightarrow> string" where
  "hex4 n = [hex_digit (n div 4096 mod 16), hex_digit (n div 256 mod 16), hex_digit (n div 16 mod 16), hex_digit (n mod 16)]"

definition json_char :: "nat \<Rightarrow> string" where
  "json_char n =
     (if n = 34 then [CHR 0x5C, CHR 0x22] else if n = 92 then [CHR 0x5C, CHR 0x5C]
      else if n = 10 then [CHR 0x5C, CHR ''n''] else if n = 13 then [CHR 0x5C, CHR ''r''] else if n = 9 then [CHR 0x5C, CHR ''t'']
      else if n = 12 then [CHR 0x5C, CHR ''f''] else if n = 8 then [CHR 0x5C, CHR ''b'']
      else if 32 \<le> n \<and> n \<le> 126 then [char_of n]
      else if n < 0x10000 then [CHR 0x5C, CHR ''u''] @ hex4 n
      else [CHR 0x5C, CHR ''u''] @ hex4 (0xD800 + (n - 0x10000) div 1024 mod 1024)
        @ [CHR 0x5C, CHR ''u''] @ hex4 (0xDC00 + (n - 0x10000) mod 1024))"

definition json_string :: "string \<Rightarrow> string" where
  "json_string s = [CHR 0x22] @ concat (map json_char (code_points s)) @ [CHR 0x22]"

section \<open>Reading\<close>

datatype json = JNull | JBool bool | JInt int | JFloat rat | JSpecial string | JString string
  | JArray "json list" | JObject "(string \<times> json) list"

definition hex_value :: "char \<Rightarrow> nat option" where
  "hex_value c =
     (let b = of_char c in
      if 48 \<le> b \<and> b \<le> 57 then Some (b - 48)
      else if 97 \<le> b \<and> b \<le> 102 then Some (b - 87)
      else if 65 \<le> b \<and> b \<le> 70 then Some (b - 55) else None)"

definition hex4_value :: "char \<Rightarrow> char \<Rightarrow> char \<Rightarrow> char \<Rightarrow> nat option" where
  "hex4_value a b c d =
     (case (hex_value a, hex_value b, hex_value c, hex_value d) of
        (Some x, Some y, Some z, Some w) \<Rightarrow> Some (x * 4096 + y * 256 + z * 16 + w)
      | _ \<Rightarrow> None)"

definition simple_escape :: "char \<Rightarrow> char option" where
  "simple_escape c =
     (if c = CHR 0x22 \<or> c = CHR 0x5C \<or> c = CHR ''/'' then Some c
      else if c = CHR ''b'' then Some (CHR 0x08) else if c = CHR ''f'' then Some (CHR 0x0C)
      else if c = CHR ''n'' then Some (CHR 0x0A) else if c = CHR ''r'' then Some (CHR 0x0D)
      else if c = CHR ''t'' then Some (CHR 0x09) else None)"

definition prefixed :: "string \<Rightarrow> exc + string \<times> string \<Rightarrow> exc + string \<times> string" where
  "prefixed u r = ebind r (\<lambda>(t, rest). Inr (u @ t, rest))"

text \<open>The second half of a surrogate pair.\<close>

definition low_surrogate :: "string \<Rightarrow> nat option" where
  "low_surrogate s =
     (case s of
        x # y # a # b # c # d # _ \<Rightarrow>
          if x = CHR 0x5C \<and> y = CHR ''u'' then
            (case hex4_value a b c d of Some n \<Rightarrow> if 0xDC00 \<le> n \<and> n \<le> 0xDFFF then Some n else None | None \<Rightarrow> None)
          else None
      | _ \<Rightarrow> None)"

text \<open>The rest of a string after its opening quote; every error is a \<^verbatim>\<open>JSONDecodeError\<close>.\<close>

function scan_string :: "string \<Rightarrow> exc + string \<times> string" where
  "scan_string [] = Inl PyValueError"
| "scan_string (c # s) =
     (if c = CHR 0x22 then Inr ([], s)
      else if c = CHR 0x5C then
        (case s of
           [] \<Rightarrow> Inl PyValueError
         | e # s \<Rightarrow>
             if e = CHR ''u'' then
               (case s of
                  x # y # z # w # s \<Rightarrow>
                    (case hex4_value x y z w of
                       None \<Rightarrow> Inl PyValueError
                     | Some n \<Rightarrow>
                         (case (if 0xD800 \<le> n \<and> n \<le> 0xDBFF then low_surrogate s else None) of
                            Some l \<Rightarrow> prefixed (code_utf8 (0x10000 + (n - 0xD800) * 1024 + (l - 0xDC00))) (scan_string (drop 6 s))
                          | None \<Rightarrow> prefixed (code_utf8 n) (scan_string s)))
                | _ \<Rightarrow> Inl PyValueError)
             else (case simple_escape e of None \<Rightarrow> Inl PyValueError | Some x \<Rightarrow> prefixed [x] (scan_string s)))
      else if (of_char c :: nat) < 32 then Inl PyValueError
      else prefixed [c] (scan_string s))"
  by pat_completeness auto
termination
  by (relation "measure length") auto

declare scan_string.simps [simp del]

definition json_space :: "char \<Rightarrow> bool" where
  "json_space c \<longleftrightarrow> (of_char c :: nat) \<in> {9, 10, 13, 32}"

abbreviation skip_space :: "string \<Rightarrow> string" where
  "skip_space s \<equiv> dropWhile json_space s"

text \<open>
  A number: a sign, digits without a leading zero, and for a float a fraction and an exponent.
  What follows the longest number is left over.
\<close>

definition scan_digits :: "string \<Rightarrow> string \<times> string" where
  "scan_digits s = (takeWhile py_digit s, dropWhile py_digit s)"

definition scan_int :: "string \<Rightarrow> (string \<times> string) option" where
  "scan_int s =
     (case s of
        [] \<Rightarrow> None
      | c # r \<Rightarrow> if c = CHR ''0'' then Some ([c], r) else if py_digit c then Some (scan_digits s) else None)"

definition scan_frac :: "string \<Rightarrow> string \<times> string" where
  "scan_frac s =
     (case s of
        c # r \<Rightarrow> if c = CHR ''.'' \<and> fst (scan_digits r) \<noteq> [] then scan_digits r else ([], s)
      | [] \<Rightarrow> ([], s))"

definition scan_exp :: "string \<Rightarrow> int option \<times> string" where
  "scan_exp s =
     (case s of
        c # r \<Rightarrow>
          if c = CHR ''e'' \<or> c = CHR ''E'' then
            (let (neg, t) = (case r of
                 d # t \<Rightarrow> if d = CHR ''-'' then (True, t) else if d = CHR ''+'' then (False, t) else (False, r)
               | [] \<Rightarrow> (False, r));
                 (ds, t) = scan_digits t
             in if ds = [] then (None, s) else (Some (if neg then - int (digits_value ds) else int (digits_value ds)), t))
          else (None, s)
      | [] \<Rightarrow> (None, s))"

definition ten_power :: "int \<Rightarrow> rat" where
  "ten_power k = (if 0 \<le> k then 10 ^ nat k else 1 / 10 ^ nat (- k))"

definition scan_number :: "string \<Rightarrow> (json \<times> string) option" where
  "scan_number s =
     (let (neg, s) = (case s of c # r \<Rightarrow> if c = CHR ''-'' then (True, r) else (False, s) | [] \<Rightarrow> (False, s)) in
      case scan_int s of
        None \<Rightarrow> None
      | Some (ds, s) \<Rightarrow>
          let (fs, s) = scan_frac s; (ex, s) = scan_exp s; sg = (if neg then - 1 else 1 :: int) in
          if fs = [] \<and> ex = None then Some (JInt (sg * int (digits_value ds)), s)
          else Some (JFloat (of_int (sg * int (digits_value (ds @ fs)))
                  * ten_power ((case ex of Some k \<Rightarrow> k | None \<Rightarrow> 0) - int (length fs))), s))"

definition scan_word :: "string \<Rightarrow> (json \<times> string) option" where
  "scan_word s =
     (if starts_with s ''null'' then Some (JNull, drop 4 s)
      else if starts_with s ''true'' then Some (JBool True, drop 4 s)
      else if starts_with s ''false'' then Some (JBool False, drop 5 s)
      else if starts_with s ''NaN'' then Some (JSpecial ''NaN'', drop 3 s)
      else if starts_with s ''Infinity'' then Some (JSpecial ''Infinity'', drop 8 s)
      else if starts_with s ''-Infinity'' then Some (JSpecial ''-Infinity'', drop 9 s)
      else scan_number s)"

text \<open>
  A value, the members of an object after an opening brace or a comma, and the elements of an array. The fuel bounds
  the nesting and the number of elements; twice the length of the document is enough. Running out of it
  would be \<open>PyRuntimeError\<close>, which no other branch raises.
\<close>

fun scan_value :: "nat \<Rightarrow> string \<Rightarrow> exc + json \<times> string"
  and scan_members :: "nat \<Rightarrow> string \<Rightarrow> exc + (string \<times> json) list \<times> string"
  and scan_elements :: "nat \<Rightarrow> string \<Rightarrow> exc + json list \<times> string" where
  "scan_value 0 s = Inl PyRuntimeError"
| "scan_value (Suc k) s =
     (case s of
        [] \<Rightarrow> Inl PyValueError
      | c # r \<Rightarrow>
          if c = CHR 0x22 then ebind (scan_string r) (\<lambda>(t, r). Inr (JString t, r))
          else if c = CHR 0x7B then
            (if starts_with (skip_space r) [CHR 0x7D] then Inr (JObject [], drop 1 (skip_space r))
             else ebind (scan_members k (skip_space r)) (\<lambda>(ms, r). Inr (JObject ms, r)))
          else if c = CHR 0x5B then
            (if starts_with (skip_space r) [CHR 0x5D] then Inr (JArray [], drop 1 (skip_space r))
             else ebind (scan_elements k (skip_space r)) (\<lambda>(vs, r). Inr (JArray vs, r)))
          else (case scan_word s of None \<Rightarrow> Inl PyValueError | Some vr \<Rightarrow> Inr vr))"
| "scan_members 0 s = Inl PyRuntimeError"
| "scan_members (Suc k) s =
     (if \<not> starts_with s [CHR 0x22] then Inl PyValueError
      else ebind (scan_string (drop 1 s)) (\<lambda>(key, r).
        if \<not> starts_with (skip_space r) [CHR 0x3A] then Inl PyValueError
        else ebind (scan_value k (skip_space (drop 1 (skip_space r)))) (\<lambda>(v, r).
          if starts_with (skip_space r) [CHR 0x7D] then Inr ([(key, v)], drop 1 (skip_space r))
          else if starts_with (skip_space r) [CHR 0x2C] then
            ebind (scan_members k (skip_space (drop 1 (skip_space r)))) (\<lambda>(ms, r). Inr ((key, v) # ms, r))
          else Inl PyValueError)))"
| "scan_elements 0 s = Inl PyRuntimeError"
| "scan_elements (Suc k) s =
     ebind (scan_value k s) (\<lambda>(v, r).
       if starts_with (skip_space r) [CHR 0x5D] then Inr ([v], drop 1 (skip_space r))
       else if starts_with (skip_space r) [CHR 0x2C] then
         ebind (scan_elements k (skip_space (drop 1 (skip_space r)))) (\<lambda>(vs, r). Inr (v # vs, r))
       else Inl PyValueError)"

text \<open>\<^verbatim>\<open>json.loads\<close>: a byte order mark is refused, and anything behind the value but spaces.\<close>

definition json_loads :: "string \<Rightarrow> exc + json" where
  "json_loads s =
     (if starts_with s [CHR 0xEF, CHR 0xBB, CHR 0xBF] then Inl PyValueError
      else ebind (scan_value (Suc (2 * length s)) (skip_space s)) (\<lambda>(v, r).
        if skip_space r = [] then Inr v else Inl PyValueError))"

text \<open>A dictionary keeps the last value of a key.\<close>

definition json_item :: "string \<Rightarrow> json \<Rightarrow> exc + json" where
  "json_item key j =
     (case j of
        JObject ms \<Rightarrow> (case map_of (rev ms) key of Some v \<Rightarrow> Inr v | None \<Rightarrow> Inl PyKeyError)
      | _ \<Rightarrow> Inl PyTypeError)"

text \<open>\<^verbatim>\<open>v == n\<close> for an integer: Python's booleans and floats are numbers.\<close>

definition json_is_int :: "int \<Rightarrow> json \<Rightarrow> bool" where
  "json_is_int n v =
     (case v of JInt i \<Rightarrow> i = n | JBool b \<Rightarrow> n = (if b then 1 else 0) | JFloat r \<Rightarrow> r = of_int n | _ \<Rightarrow> False)"

section \<open>A string is read as it was written\<close>

lemma of_char_small: "k < 256 \<Longrightarrow> (of_char (char_of k) :: nat) = k"
  by (simp add: of_char_of take_bit_nat_eq_self)

lemma code_points_utf8:
  assumes "n < 0x110000"
  shows "code_points (code_utf8 n @ t) = n # code_points t"
proof -
  consider "n < 0x80" | "0x80 \<le> n" "n < 0x800" | "0x800 \<le> n" "n < 0x10000" | "0x10000 \<le> n" by linarith
  then show ?thesis
  proof cases
    case 1
    then show ?thesis by (simp add: code_utf8_def code_point_def code_length_def code_lead_def of_char_small Let_def)
  next
    case 2
    then have "n div 64 < 32" by simp
    with 2 show ?thesis
      by (simp add: code_utf8_def code_point_def code_length_def code_lead_def of_char_small Let_def)
  next
    case 3
    then have b: "n div 4096 < 16" "n div 64 mod 64 < 64" "n mod 64 < 64" by simp_all
    have "(n div 4096 * 64 + n div 64 mod 64) * 64 + n mod 64 = n"
      using div_mult_mod_eq [of n 64] div_mult_mod_eq [of "n div 64" 64] by (simp add: div_mult2_eq [symmetric])
    with 3 b show ?thesis
      by (simp add: code_utf8_def code_point_def code_length_def code_lead_def of_char_small Let_def numeral_2_eq_2)
  next
    case 4
    then have b: "n div 262144 < 16" "n div 4096 mod 64 < 64" "n div 64 mod 64 < 64" "n mod 64 < 64" using assms by simp_all
    have "((n div 262144 * 64 + n div 4096 mod 64) * 64 + n div 64 mod 64) * 64 + n mod 64 = n"
      using div_mult_mod_eq [of n 64] div_mult_mod_eq [of "n div 64" 64] div_mult_mod_eq [of "n div 4096" 64]
      by (simp add: div_mult2_eq [symmetric])
    with 4 b show ?thesis
      by (simp add: code_utf8_def code_point_def code_length_def code_lead_def of_char_small Let_def numeral_3_eq_3)
  qed
qed

lemma scalar_less: "scalar n \<Longrightarrow> n < 0x110000"
  by (auto simp: scalar_def)

lemma code_points_string: "list_all scalar ns \<Longrightarrow> code_points (points_string ns) = ns"
  by (induction ns) (simp_all add: points_string_def code_points_utf8 scalar_less)

lemma hex_value_digit: "d < 16 \<Longrightarrow> hex_value (hex_digit d) = Some d"
  by (auto simp: hex_value_def hex_digit_def of_char_small Let_def)

lemma hex4_value_hex4:
  assumes "n < 0x10000"
  shows "hex4_value (hex_digit (n div 4096 mod 16)) (hex_digit (n div 256 mod 16)) (hex_digit (n div 16 mod 16)) (hex_digit (n mod 16)) = Some n"
proof -
  define m1 where "m1 = n div 16"
  define m2 where "m2 = m1 div 16"
  define m3 where "m3 = m2 div 16"
  have d: "n div 256 = m2" "n div 4096 = m3" by (simp_all add: m1_def m2_def m3_def flip: div_mult2_eq)
  have "m3 < 16" using assms d(2) by auto
  then have m3: "m3 mod 16 = m3" by simp
  obtain r0 r1 r2 where r: "r0 = n mod 16" "r1 = m1 mod 16" "r2 = m2 mod 16" by blast
  have "n = m1 * 16 + r0" "m1 = m2 * 16 + r1" "m2 = m3 * 16 + r2"
    unfolding r m1_def m2_def m3_def by (simp_all only: div_mult_mod_eq)
  then have sum: "m3 * 4096 + r2 * 256 + r1 * 16 + r0 = n" by simp
  have "r0 < 16" "r1 < 16" "r2 < 16" "m3 < 16" using r \<open>m3 < 16\<close> by simp_all
  then have "hex4_value (hex_digit m3) (hex_digit r2) (hex_digit r1) (hex_digit r0) = Some n"
    by (simp add: hex4_value_def hex_value_digit sum)
  then show ?thesis by (simp only: d m3 r m1_def [symmetric])
qed

lemma escaped_chars:
  "char_of (34 :: nat) = CHR 0x22" "char_of (92 :: nat) = CHR 0x5C" "char_of (10 :: nat) = CHR 0x0A"
  "char_of (13 :: nat) = CHR 0x0D" "char_of (9 :: nat) = CHR 0x09" "char_of (12 :: nat) = CHR 0x0C" "char_of (8 :: nat) = CHR 0x08"
  by code_simp+

lemma scan_u:
  assumes "n < 0x10000" and "\<not> (0xD800 \<le> n \<and> n \<le> 0xDBFF)"
  shows "scan_string (CHR 0x5C # CHR ''u'' # hex4 n @ rest) = prefixed (code_utf8 n) (scan_string rest)"
  using assms(2) by (subst scan_string.simps) (auto simp: hex4_def hex4_value_hex4 [OF assms(1)])

lemma scan_pair:
  assumes "h < 1024" and "l < 1024"
  shows "scan_string (CHR 0x5C # CHR ''u'' # hex4 (0xD800 + h) @ CHR 0x5C # CHR ''u'' # hex4 (0xDC00 + l) @ rest) =
    prefixed (code_utf8 (0x10000 + h * 1024 + l)) (scan_string rest)"
proof -
  have "hex4_value (hex_digit ((0xD800 + h) div 4096 mod 16)) (hex_digit ((0xD800 + h) div 256 mod 16)) (hex_digit ((0xD800 + h) div 16 mod 16))
      (hex_digit ((0xD800 + h) mod 16)) = Some (0xD800 + h)"
    using assms(1) by (intro hex4_value_hex4) simp
  moreover have "low_surrogate (CHR 0x5C # CHR ''u'' # hex4 (0xDC00 + l) @ rest) = Some (0xDC00 + l)"
    using hex4_value_hex4 [of "0xDC00 + l"] assms(2) unfolding low_surrogate_def hex4_def by simp
  ultimately show ?thesis
    using assms(1) unfolding hex4_def [of "0xD800 + h"] by (subst scan_string.simps) (simp add: hex4_def [of "0xDC00 + l"])
qed

lemma scan_json_char:
  assumes "scalar n"
  shows "scan_string (json_char n @ rest) = prefixed (code_utf8 n) (scan_string rest)"
proof -
  consider "n \<in> {34, 92, 10, 13, 9, 12, 8}" | "n \<notin> {34, 92, 10, 13, 9, 12, 8}" "32 \<le> n" "n \<le> 126"
    | "n \<notin> {34, 92, 10, 13, 9, 12, 8}" "\<not> (32 \<le> n \<and> n \<le> 126)" "n < 0x10000" | "0x10000 \<le> n" by linarith
  then show ?thesis
  proof cases
    case 1
    then show ?thesis
      by (elim insertE emptyE) (simp_all add: json_char_def scan_string.simps(2) simple_escape_def code_utf8_def escaped_chars)
  next
    case 2
    have inj: "char_of n = CHR 0x22 \<longleftrightarrow> n = 34" "char_of n = CHR 0x5C \<longleftrightarrow> n = 92"
      using 2 of_char_small [of n] by (auto dest: arg_cong [where f = "of_char :: char \<Rightarrow> nat"])
    then show ?thesis using 2 by (simp add: json_char_def scan_string.simps(2) code_utf8_def of_char_small)
  next
    case 3
    have "scan_string (CHR 0x5C # CHR ''u'' # hex4 n @ rest) = prefixed (code_utf8 n) (scan_string rest)"
      using 3(3) assms by (intro scan_u) (auto simp: scalar_def)
    then show ?thesis using 3 by (auto simp: json_char_def)
  next
    case 4
    define h where "h = (n - 0x10000) div 1024"
    have n: "n < 0x110000" using assms by (rule scalar_less)
    then have h: "h < 1024" "h mod 1024 = h" unfolding h_def by simp_all
    have "0x10000 + h * 1024 + (n - 0x10000) mod 1024 = n" using 4 unfolding h_def by (simp add: div_mult_mod_eq)
    then show ?thesis using scan_pair [OF h(1), of "(n - 0x10000) mod 1024" rest] 4 h(2) by (simp add: json_char_def flip: h_def)
  qed
qed

lemma scan_json_string:
  assumes "list_all scalar ns"
  shows "scan_string (concat (map json_char ns) @ CHR 0x22 # rest) = Inr (points_string ns, rest)"
  using assms
proof (induction ns)
  case Nil
  show ?case by (simp add: scan_string.simps points_string_def)
qed (simp add: scan_json_char prefixed_def points_string_def)

section \<open>The fuel is enough\<close>

text \<open>What a reader does with a document: it fails with \<^verbatim>\<open>JSONDecodeError\<close> or consumes some of it.\<close>

definition consumes :: "string \<Rightarrow> exc + 'a \<times> string \<Rightarrow> bool" where
  "consumes s res \<longleftrightarrow> (case res of Inl e \<Rightarrow> e = PyValueError | Inr (_, r) \<Rightarrow> length r < length s)"

lemma consumes_prefixed: "consumes s r \<Longrightarrow> length s \<le> length s' \<Longrightarrow> consumes s' (prefixed u r)"
  by (auto simp: consumes_def prefixed_def ebind_def split: sum.splits)

lemma consumes_error [simp]: "consumes s (Inl PyValueError)"
  by (simp add: consumes_def)

lemma consumes_value [simp]: "consumes s (Inr (x, r)) \<longleftrightarrow> length r < length s"
  by (simp add: consumes_def)

lemma four_chars: "4 \<le> length r \<Longrightarrow> \<exists>x y z w q. r = x # y # z # w # q"
  by (auto simp: numeral_eq_Suc Suc_le_length_iff)

lemma scan_string_consumes: "consumes s (scan_string s)"
proof (induction s rule: measure_induct_rule [of length])
  case (less s)
  have IH: "consumes s (prefixed u (scan_string r))" if "length r < length s" for u r
    using consumes_prefixed [OF less.IH [OF that]] that by simp
  show ?case
  proof (cases s)
    case (Cons c t)
    consider "c = CHR 0x22" | "c = CHR 0x5C" "t = []" | e r where "c = CHR 0x5C" "t = e # r" | "c \<noteq> CHR 0x22" "c \<noteq> CHR 0x5C"
      by (cases t) auto
    then show ?thesis
    proof cases
      case (3 e r)
      show ?thesis
      proof (cases "e = CHR ''u''")
        case True
        consider x y z w q where "r = x # y # z # w # q" | "length r < 4"
          using four_chars [of r] by (cases "length r < 4") auto
        then show ?thesis
        proof cases
          case (1 x y z w q)
          then show ?thesis using Cons 3 True IH [of q] IH [of "drop 6 q"]
            by (simp add: scan_string.simps(2) split: option.split)
        next
          case 2
          then show ?thesis using Cons 3 True by (auto simp: scan_string.simps(2) split: list.split)
        qed
      next
        case False
        then show ?thesis using Cons 3 IH [of r] by (simp add: scan_string.simps(2) split: option.split)
      qed
    qed (use Cons IH [of t] in \<open>simp_all add: scan_string.simps(2)\<close>)
  qed (simp add: scan_string.simps)
qed

lemma scan_word_consumes: "scan_word s = Some (v, r) \<Longrightarrow> length r < length s"
proof -
  have int: "length r < length s" if "scan_int s = Some (ds, r)" for s ds r
    using that length_dropWhile_le [of py_digit] by (auto simp: scan_int_def scan_digits_def less_Suc_eq_le split: list.splits if_splits)
  have frac: "length (snd (scan_frac s)) \<le> length s" for s
    using length_dropWhile_le [of py_digit] by (auto simp: scan_frac_def scan_digits_def le_SucI split: list.splits)
  have ex: "length (snd (scan_exp s)) \<le> length s" for s
    using length_dropWhile_le [of py_digit] by (auto simp: scan_exp_def scan_digits_def Let_def le_SucI split: list.splits)
  have num: "length r < length s" if n: "scan_number s = Some (v, r)" for s v r
  proof -
    define s1 where "s1 = (case s of c # r \<Rightarrow> if c = CHR ''-'' then r else s | [] \<Rightarrow> s)"
    have s1: "length s1 \<le> length s" by (simp add: s1_def split: list.split)
    obtain ds s2 where s2: "scan_int s1 = Some (ds, s2)" and r: "r = snd (scan_exp (snd (scan_frac s2)))"
      using n by (auto simp: scan_number_def s1_def Let_def split: list.splits option.splits prod.splits if_splits)
    show ?thesis unfolding r using int [OF s2] frac [of s2] ex [of "snd (scan_frac s2)"] s1 by linarith
  qed
  assume "scan_word s = Some (v, r)"
  moreover have "0 < length s" if "starts_with s (c # p)" for c p using that by (cases s) simp_all
  ultimately show ?thesis using num [of s v r] by (auto simp: scan_word_def split: if_splits)
qed

lemma skip_space_le: "length (skip_space s) \<le> length s"
  by (rule length_dropWhile_le)

lemma consumes_bind:
  assumes "consumes s m" and "\<And>x r. m = Inr (x, r) \<Longrightarrow> length r < length s \<Longrightarrow> consumes s (f (x, r))"
  shows "consumes s (ebind m f)"
  using assms by (auto simp: consumes_def [of s m] ebind_def consumes_def [of s "Inl _"] split: sum.splits)

lemma consumes_le: "consumes s m \<Longrightarrow> length s \<le> length s' \<Longrightarrow> consumes s' m"
  by (auto simp: consumes_def split: sum.splits)

lemma consumes_if: "(b \<Longrightarrow> consumes s m) \<Longrightarrow> (\<not> b \<Longrightarrow> consumes s n) \<Longrightarrow> consumes s (if b then m else n)"
  by simp

lemma scan_consumes:
  "2 * length s < k \<Longrightarrow> consumes s (scan_value k s)"
  "2 * length s + 1 < k \<Longrightarrow> consumes s (scan_members k s)"
  "2 * length s + 1 < k \<Longrightarrow> consumes s (scan_elements k s)"
proof (induction k arbitrary: s)
  case (Suc k)
  have after: "length (skip_space (drop 1 (skip_space r))) \<le> length r" "length (drop (Suc 0) (skip_space r)) \<le> length r" for r :: string
    using skip_space_le [of r] skip_space_le [of "drop 1 (skip_space r)"] by simp_all
  {
    case 1
    show ?case
    proof (cases s)
      case (Cons c r)
      then have r: "2 * length (skip_space r) + 1 < k" "length (skip_space r) < length s" "length (drop 1 (skip_space r)) < length s"
        using skip_space_le [of r] after(2) [of r] 1 by simp_all
      have m: "consumes s (scan_members k (skip_space r))" "consumes s (scan_elements k (skip_space r))" "consumes s (scan_string r)"
        using Suc.IH(2,3) [OF r(1)] scan_string_consumes [of r] r(2) Cons consumes_le by fastforce+
      have w: "consumes s (case scan_word s of None \<Rightarrow> Inl PyValueError | Some vr \<Rightarrow> Inr vr)"
        using scan_word_consumes [of s] by (simp split: option.split)
      show ?thesis
        unfolding scan_value.simps Cons list.case unfolding Cons [symmetric]
        by (intro consumes_if consumes_bind [OF m(1)] consumes_bind [OF m(2)] consumes_bind [OF m(3)] w) (use r(3) in simp_all)
    qed simp
  next
    case 2
    have v: "consumes s (scan_value k (skip_space (drop 1 (skip_space r))))"
      and ms: "consumes s (scan_members k (skip_space (drop 1 (skip_space r))))"
      if "length r < length s" for r
    proof -
      let ?r = "skip_space (drop 1 (skip_space r))"
      have "2 * length ?r < k" "2 * length ?r + 1 < k" "length ?r \<le> length s" using that 2 after(1) [of r] by linarith+
      then show "consumes s (scan_value k ?r)" "consumes s (scan_members k ?r)" using Suc.IH(1,2) consumes_le by blast+
    qed
    have key: "consumes s (scan_string (drop 1 s))" using scan_string_consumes [of "drop 1 s"] consumes_le by fastforce
    have close: "length (drop 1 (skip_space r)) < length s" if "length r < length s" for r
      using that after(2) [of r] by simp
    show ?case
      unfolding scan_members.simps
      by (intro consumes_if consumes_bind [OF key])
        (auto simp: close [unfolded One_nat_def] simp del: length_drop intro!: consumes_if consumes_bind [OF v [unfolded One_nat_def]] consumes_bind [OF ms [unfolded One_nat_def]])
  next
    case 3
    have v: "consumes s (scan_value k s)" using Suc.IH(1) 3 by simp
    have es: "consumes s (scan_elements k (skip_space (drop 1 (skip_space r))))" if "length r < length s" for r
    proof -
      let ?r = "skip_space (drop 1 (skip_space r))"
      have "2 * length ?r + 1 < k" "length ?r \<le> length s" using that 3 after(1) [of r] by linarith+
      then show ?thesis using Suc.IH(3) consumes_le by blast
    qed
    have close: "length (drop 1 (skip_space r)) < length s" if "length r < length s" for r
      using that after(2) [of r] by simp
    show ?case
      unfolding scan_elements.simps
      by (intro consumes_if consumes_bind [OF v])
        (auto simp: close [unfolded One_nat_def] simp del: length_drop intro!: consumes_if consumes_bind [OF es [unfolded One_nat_def]])
  }
qed simp_all

text \<open>Reading any document ends, with its value or with \<^verbatim>\<open>JSONDecodeError\<close>.\<close>

lemma json_loads_ends: "json_loads s = Inl e \<Longrightarrow> e = PyValueError"
proof -
  assume e: "json_loads s = Inl e"
  have "2 * length (skip_space s) < Suc (2 * length s)" using skip_space_le [of s] by simp
  from scan_consumes(1) [OF this] e show ?thesis
    by (auto simp: json_loads_def consumes_def ebind_def split: if_splits sum.splits)
qed

end
