(* ===== verification/Lease.thy ===== *)
theory Lease
  imports Election DateTime Json
begin

text \<open>
  \<^verbatim>\<open>kazoo/recipe/lease.py\<close>: \<^verbatim>\<open>NonBlockingLease\<close> and \<^verbatim>\<open>MultiNonBlockingLease\<close>. The lease is a node
  that names its holder and its end; it is read and replaced under a lock.
\<close>

section \<open>The stored lease\<close>

definition lease_text :: "string \<Rightarrow> string \<Rightarrow> string" where
  "lease_text holder end_lease =
     ''{'' @ json_string ''version'' @ '': '' @ repr_int 1 @ '', '' @ json_string ''holder'' @ '': '' @ json_string holder
     @ '', '' @ json_string ''end'' @ '': '' @ json_string end_lease @ ''}''"

definition lease_encode :: "string \<Rightarrow> string \<Rightarrow> bytes" where
  "lease_encode holder end_lease = encode_utf8 (lease_text holder end_lease)"

text \<open>A node without data has \<^verbatim>\<open>None\<close>, which has no \<^verbatim>\<open>decode\<close>.\<close>

definition lease_decode :: "bytes option \<Rightarrow> exc + json" where
  "lease_decode raw =
     (case raw of None \<Rightarrow> Inl PyAttributeError | Some bs \<Rightarrow> ebind (decode_utf8 bs) json_loads)"

text \<open>Whether the lease that is stored may be taken.\<close>

definition lease_takeable :: "string \<Rightarrow> int \<Rightarrow> json \<Rightarrow> exc + bool" where
  "lease_takeable ident now data =
     ebind (json_item ''version'' data) (\<lambda>v.
       if \<not> json_is_int 1 v then Inr False
       else ebind (json_item ''end'' data) (\<lambda>e.
         ebind (case e of JString s \<Rightarrow> strptime s | _ \<Rightarrow> Inl PyTypeError) (\<lambda>current_end.
         ebind (json_item ''holder'' data) (\<lambda>h.
           Inr (\<not> (h \<noteq> JString ident \<and> now < current_end))))))"

section \<open>One lease\<close>

definition holder_path :: "string \<Rightarrow> string" where
  "holder_path path = path @ ''/lease_holder''"

text \<open>The block under the lock: whether the lease was obtained.\<close>

definition lease_body :: "'w zk \<Rightarrow> ('w, int) io \<Rightarrow> string \<Rightarrow> int \<Rightarrow> string \<Rightarrow> ('w, bool) io" where
  "lease_body zk utcnow path duration ident =
     io_bind utcnow (\<lambda>now.
     io_bind (zk_exists zk (holder_path path)) (\<lambda>stat.
     io_bind (if stat = None then io_return True
              else io_bind (zk_get zk (holder_path path)) (\<lambda>(raw, _).
                   io_bind (io_sum (lease_decode raw)) (\<lambda>data.
                   io_bind (io_sum (lease_takeable ident now data)) (\<lambda>free.
                     if free then io_bind (zk_delete zk (holder_path path)) (\<lambda>_. io_return True)
                     else io_return False)))) (\<lambda>free.
       if \<not> free then io_return False
       else io_bind (io_sum (add_duration now duration)) (\<lambda>end_lease.
            io_bind (zk_create zk (holder_path path) (lease_encode ident (strftime end_lease)) False False False) (\<lambda>_.
              io_return True)))))"

text \<open>The object: its flag \<open>obtained\<close> and its lock.\<close>

definition lease_attempt :: "'w lock_env \<Rightarrow> retry \<Rightarrow> ('w, int) io \<Rightarrow> string \<Rightarrow> int \<Rightarrow> string \<Rightarrow> ((bool \<times> lock) \<times> 'w, unit) io" where
  "lease_attempt env command_retry utcnow path duration ident =
     io_bind (io_lift (zk_ensure_path (le_zk env) path)) (\<lambda>_.
       io_catch
         (io_bind (io_snd (lock_enter env)) (\<lambda>_.
            io_finally
              (io_bind (io_lift (lease_body (le_zk env) utcnow path duration ident)) (\<lambda>obtained.
                 if obtained then io_modify (\<lambda>(_, l). (True, l)) else io_return ()))
              (io_snd (lock_exit env command_retry))))
         (\<lambda>e. e = CancelledError) (\<lambda>_. io_return ()))"

definition lease_ident :: "string option \<Rightarrow> string \<Rightarrow> string" where
  "lease_ident identifier hostname =
     (case identifier of Some i \<Rightarrow> if i = '''' then hostname else i | None \<Rightarrow> hostname)"

text \<open>The construction, and the truth value of the object.\<close>

definition non_blocking_lease :: "'w lock_env \<Rightarrow> retry \<Rightarrow> ('w, int) io \<Rightarrow> string \<Rightarrow> string \<Rightarrow> string \<Rightarrow> int
    \<Rightarrow> string option \<Rightarrow> ('w, bool) io" where
  "non_blocking_lease env command_retry utcnow uuid hostname path duration identifier w =
     (let ident = lease_ident identifier hostname in
      map_option (\<lambda>(r, ((obtained, _), w)). (case r of Inl e \<Rightarrow> Inl e | Inr _ \<Rightarrow> Inr obtained, w))
        (lease_attempt env command_retry utcnow path duration ident ((False, lock_init [] uuid (encode_utf8 ident) path), w)))"

section \<open>Several leases\<close>

fun try_leases :: "(nat \<Rightarrow> ('w, bool) io) \<Rightarrow> nat list \<Rightarrow> ('w, bool) io" where
  "try_leases lease [] = io_return False"
| "try_leases lease (num # nums) =
     io_bind (lease num) (\<lambda>obtained. if obtained then io_return True else try_leases lease nums)"

definition multi_non_blocking_lease :: "(nat \<Rightarrow> 'w lock_env) \<Rightarrow> retry \<Rightarrow> ('w, int) io \<Rightarrow> (nat \<Rightarrow> string) \<Rightarrow> string
    \<Rightarrow> nat \<Rightarrow> string \<Rightarrow> int \<Rightarrow> string option \<Rightarrow> ('w, bool) io" where
  "multi_non_blocking_lease env command_retry utcnow uuid hostname count path duration identifier =
     try_leases (\<lambda>num. non_blocking_lease (env num) command_retry utcnow (uuid num) hostname (path @ ''/'' @ repr_int (int num)) duration identifier)
       [0..<count]"

section \<open>A lease is read as it was written\<close>

definition printable :: "string \<Rightarrow> bool" where
  "printable s \<longleftrightarrow> list_all (\<lambda>c. 32 \<le> (of_char c :: nat) \<and> (of_char c :: nat) \<le> 126 \<and> c \<noteq> CHR 0x22 \<and> c \<noteq> CHR 0x5C) s"

lemma json_char_char: "printable [c] \<Longrightarrow> json_char (of_char c) = [c]"
proof -
  assume c: "printable [c]"
  then have "(of_char c :: nat) \<noteq> 34" "(of_char c :: nat) \<noteq> 92"
    by (auto simp: printable_def dest: arg_cong [where f = "char_of :: nat \<Rightarrow> char"] simp: escaped_chars)
  then show ?thesis using c by (simp add: json_char_def printable_def)
qed

lemma code_points_ascii: "list_all (\<lambda>c. (of_char c :: nat) < 128) s \<Longrightarrow> code_points s = map of_char s"
  by (induction s) (simp_all add: code_point_def code_length_def code_lead_def Let_def)

lemma printable_ascii: "printable s \<Longrightarrow> list_all (\<lambda>c. (of_char c :: nat) < 128) s"
  unfolding printable_def by (induction s) simp_all

lemma json_string_printable: "printable s \<Longrightarrow> json_string s = CHR 0x22 # s @ [CHR 0x22]"
proof -
  assume s: "printable s"
  have "concat (map json_char (map of_char s)) = s"
    using s by (induction s) (simp_all add: printable_def json_char_char)
  then show ?thesis using s by (simp add: json_string_def code_points_ascii printable_ascii)
qed

lemma scan_printable: "printable s \<Longrightarrow> scan_string (s @ CHR 0x22 # rest) = Inr (s, rest)"
  by (induction s) (auto simp: printable_def scan_string.simps prefixed_def)

lemma hex4_ascii: "list_all (\<lambda>c. (of_char c :: nat) < 128) (hex4 n)"
proof -
  have "(of_char (hex_digit d) :: nat) < 128" if "d < 16" for d
    using that by (simp add: hex_digit_def of_char_small)
  then show ?thesis by (simp add: hex4_def)
qed

lemma json_char_ascii: "list_all (\<lambda>c. (of_char c :: nat) < 128) (json_char n)"
proof -
  have "32 \<le> n \<Longrightarrow> n \<le> 126 \<Longrightarrow> (of_char (char_of n :: char) :: nat) < 128" by (simp add: of_char_small)
  then show ?thesis
    unfolding json_char_def using hex4_ascii
    by (simp split del: if_split add: if_distrib [where f = "list_all P" for P] cong: if_cong)
qed

lemma json_string_ascii: "list_all (\<lambda>c. (of_char c :: nat) < 128) (json_string s)"
  using json_char_ascii by (auto simp: json_string_def list_all_iff)

lemma lease_text_pystr: "pystr (lease_text holder end_lease)"
proof (rule pystr_ascii)
  fix c assume "c \<in> set (lease_text holder end_lease)"
  moreover have "repr_int 1 = ''1''" by code_simp
  ultimately show "(of_char c :: nat) < 128"
    using json_string_ascii by (auto simp: lease_text_def list_all_iff)
qed

text \<open>
  The document that the code writes, read back. The holder is any string of Unicode.
\<close>

lemma json_loads_lease:
  assumes "list_all scalar ns" and "printable e"
  shows "json_loads (lease_text (points_string ns) e) =
    Inr (JObject [(''version'', JInt 1), (''holder'', JString (points_string ns)), (''end'', JString e)])"
proof -
  let ?t = "lease_text (points_string ns) e"
  have names: "json_string ''version'' = CHR 0x22 # ''version'' @ [CHR 0x22]" "json_string ''holder'' = CHR 0x22 # ''holder'' @ [CHR 0x22]"
    "json_string ''end'' = CHR 0x22 # ''end'' @ [CHR 0x22]" "repr_int 1 = ''1''"
    by code_simp+
  have holder: "json_string (points_string ns) = CHR 0x22 # concat (map json_char ns) @ [CHR 0x22]"
    using assms(1) by (simp add: json_string_def code_points_string)
  have plain: "scan_string (''version'' @ CHR 0x22 # rest) = Inr (''version'', rest)"
    "scan_string (''holder'' @ CHR 0x22 # rest) = Inr (''holder'', rest)"
    "scan_string (''end'' @ CHR 0x22 # rest) = Inr (''end'', rest)" for rest
    by (rule scan_printable, simp add: printable_def)+
  obtain k where k: "Suc (2 * length ?t) = Suc (Suc (Suc (Suc (Suc k))))"
    by (rule that [of "2 * length ?t - 4"]) (simp add: lease_text_def)
  have one: "scan_word (CHR ''1'' # CHR '','' # rest) = Some (JInt 1, CHR '','' # rest)" for rest
    by (simp add: scan_word_def scan_number_def scan_int_def scan_digits_def scan_frac_def scan_exp_def py_digit_def digits_value_def digit_value_def)
  show ?thesis
    unfolding json_loads_def k
    by (simp add: lease_text_def names holder json_string_printable [OF assms(2)] plain [simplified] one json_space_def
        scan_printable [OF assms(2)] scan_json_string [OF assms(1)])
qed

lemma strftime_printable: "printable (strftime t)"
proof -
  have d: "printable u" if "list_all py_digit u" for u
    using that unfolding printable_def by (induction u) (auto simp: py_digit_def)
  have two: "printable (two_digits n)" for n
    by (rule d) (use nat_digits_digits [of "nat n"] in \<open>auto simp: two_digits_def zero_pad_def Let_def list_all_iff py_digit_def\<close>)
  have year: "printable (repr_int y)" for y
    using d [OF nat_digits_digits] by (simp add: repr_int_def) (simp add: printable_def)
  have app: "printable (u @ v) \<longleftrightarrow> printable u \<and> printable v" for u v by (simp add: printable_def)
  have lit: "printable ''-''" "printable ''T''" "printable '':''" by (simp_all add: printable_def)
  show ?thesis
    unfolding strftime_def Let_def by (simp only: app two year lit split: prod.split) simp
qed

definition in_calendar :: "int \<Rightarrow> bool" where
  "in_calendar t \<longleftrightarrow> days_before_year 1000 * 86400 * second \<le> t \<and> t < max_date_time"

lemma stored_lease_blocks:
  assumes "list_all scalar ns" and "in_calendar end_lease"
  shows "ebind (lease_decode (Some (lease_encode (points_string ns) (strftime end_lease)))) (lease_takeable ident now)
    = Inr (ident = points_string ns \<or> end_lease - end_lease mod second \<le> now)"
proof -
  have "lease_decode (Some (lease_encode (points_string ns) (strftime end_lease))) =
      Inr (JObject [(''version'', JInt 1), (''holder'', JString (points_string ns)), (''end'', JString (strftime end_lease))])"
    using json_loads_lease [OF assms(1) strftime_printable] lease_text_pystr by (simp add: lease_decode_def lease_encode_def)
  then show ?thesis
    using assms(2) strptime_strftime [of end_lease]
    by (auto simp: lease_takeable_def json_item_def json_is_int_def in_calendar_def not_less)
qed

text \<open>
  C33. A stored lease keeps every other client out until its end and not longer, and lets its
  holder renew it: what a client wrote is read back as it was, except that the end is cut to the
  second, whatever characters the holder's name has.
\<close>

theorem lease_blocks_until_end:
  assumes "list_all scalar ns" and "in_calendar end_lease"
  shows "ebind (lease_decode (Some (lease_encode (points_string ns) (strftime end_lease)))) (lease_takeable ident now)
    = Inr (ident = points_string ns \<or> end_lease - end_lease mod second \<le> now)"
  using assms by (rule stored_lease_blocks)

text \<open>A holder whose name is a letter beyond the first plane of Unicode, and a lease that ends within a second.\<close>

theorem lease_blocks_until_end_witness:
  "ebind (lease_decode (Some (lease_encode (points_string [0x1F600]) (strftime (737425 * 86400 * second + 999999))))) (lease_takeable ''other'' (737425 * 86400 * second))
    = Inr True
   \<and> ebind (lease_decode (Some (lease_encode (points_string [0x1F600]) (strftime (737425 * 86400 * second + 999999))))) (lease_takeable ''other'' (737425 * 86400 * second - 1))
    = Inr False"
proof -
  let ?t = "737425 * 86400 * second + 999999 :: int"
  have ok: "list_all scalar [0x1F600]" "in_calendar ?t"
    by (simp_all add: scalar_def in_calendar_def second_def days_before_year_def max_date_time_def)
  have "length (points_string [0x1F600]) \<noteq> length ''other''" by (simp add: points_string_def code_utf8_def)
  then have other: "(''other'' = points_string [0x1F600]) = False" by metis
  have cut: "?t - ?t mod second = 737425 * 86400 * second" by (simp add: second_def)
  have before: "(737425 * 86400 * second \<le> 737425 * 86400 * second - (1::int)) = False" by simp
  have rule: "ebind (lease_decode (Some (lease_encode (points_string [0x1F600]) (strftime ?t)))) (lease_takeable ''other'' now)
      = Inr (737425 * 86400 * second \<le> now)" for now
    using lease_blocks_until_end [OF ok, of "''other''" now] by (simp only: other cut simp_thms)
  show ?thesis by (simp only: rule before order_refl simp_thms)
qed

section \<open>The lease is taken under the lock\<close>

text \<open>
  What is relied on: the clock does not touch the lease's node, and the server answers and creates
  as it should. An operation may raise; nothing is said about the node then.
\<close>

definition node_server :: "'w zk \<Rightarrow> ('w, int) io \<Rightarrow> string \<Rightarrow> ('w \<Rightarrow> bytes option) \<Rightarrow> bool" where
  "node_server zk utcnow p node \<longleftrightarrow>
     (\<forall>w t w'. utcnow w = Some (Inr t, w') \<longrightarrow> node w' = node w)
   \<and> (\<forall>w s w'. zk_exists zk p w = Some (Inr s, w') \<longrightarrow> node w' = node w \<and> (s = None \<longleftrightarrow> node w = None))
   \<and> (\<forall>w d st w'. zk_get zk p w = Some (Inr (d, st), w') \<longrightarrow> node w' = node w \<and> d = node w)
   \<and> (\<forall>w d q w'. zk_create zk p d False False False w = Some (Inr q, w') \<longrightarrow> node w' = Some d)"

lemma lease_body_outcome:
  assumes "node_server zk utcnow (holder_path path) node" and "lease_body zk utcnow path duration ident w = Some (Inr b, w')"
  shows "\<exists>now w1. utcnow w = Some (Inr now, w1)
    \<and> (if b then (node w = None \<or> ebind (lease_decode (node w)) (lease_takeable ident now) = Inr True)
           \<and> (\<exists>e. add_duration now duration = Inr e \<and> node w' = Some (lease_encode ident (strftime e)))
       else node w' = node w \<and> ebind (lease_decode (node w)) (lease_takeable ident now) = Inr False)"
proof -
  obtain now w1 stat w2 where now: "utcnow w = Some (Inr now, w1)" and stat: "zk_exists zk (holder_path path) w1 = Some (Inr stat, w2)"
    and rest: "io_bind (if stat = None then io_return True
              else io_bind (zk_get zk (holder_path path)) (\<lambda>(raw, _).
                   io_bind (io_sum (lease_decode raw)) (\<lambda>data.
                   io_bind (io_sum (lease_takeable ident now data)) (\<lambda>free.
                     if free then io_bind (zk_delete zk (holder_path path)) (\<lambda>_. io_return True)
                     else io_return False)))) (\<lambda>free.
       if \<not> free then io_return False
       else io_bind (io_sum (add_duration now duration)) (\<lambda>end_lease.
            io_bind (zk_create zk (holder_path path) (lease_encode ident (strftime end_lease)) False False False) (\<lambda>_.
              io_return True))) w2 = Some (Inr b, w')"
    using assms(2) unfolding lease_body_def io_bind_eq_Inr by blast
  have node: "node w2 = node w" "stat = None \<longleftrightarrow> node w = None"
    using assms(1) now stat unfolding node_server_def by metis+
  from rest obtain free w3 where free: "(if stat = None then io_return True
              else io_bind (zk_get zk (holder_path path)) (\<lambda>(raw, _).
                   io_bind (io_sum (lease_decode raw)) (\<lambda>data.
                   io_bind (io_sum (lease_takeable ident now data)) (\<lambda>free.
                     if free then io_bind (zk_delete zk (holder_path path)) (\<lambda>_. io_return True)
                     else io_return False)))) w2 = Some (Inr free, w3)"
    and create: "(if \<not> free then io_return False
       else io_bind (io_sum (add_duration now duration)) (\<lambda>end_lease.
            io_bind (zk_create zk (holder_path path) (lease_encode ident (strftime end_lease)) False False False) (\<lambda>_.
              io_return True))) w3 = Some (Inr b, w')"
    unfolding io_bind_eq_Inr by blast
  have taken: "if free then node w = None \<or> ebind (lease_decode (node w)) (lease_takeable ident now) = Inr True
      else node w3 = node w \<and> ebind (lease_decode (node w)) (lease_takeable ident now) = Inr False"
  proof (cases "stat = None")
    case True
    then show ?thesis using free node by simp
  next
    case False
    then obtain d st w4 where get: "zk_get zk (holder_path path) w2 = Some (Inr (d, st), w4)"
      and cont: "io_bind (io_sum (lease_decode d)) (\<lambda>data.
                   io_bind (io_sum (lease_takeable ident now data)) (\<lambda>free.
                     if free then io_bind (zk_delete zk (holder_path path)) (\<lambda>_. io_return True)
                     else io_return False)) w4 = Some (Inr free, w3)"
      using free by (auto simp: io_bind_eq_Inr)
    have d: "d = node w" "node w4 = node w" using assms(1) get node(1) unfolding node_server_def by metis+
    show ?thesis
      using cont d by (auto simp: io_bind_eq_Inr io_sum_def ebind_def io_return_def split: sum.splits if_splits)
  qed
  show ?thesis
  proof (cases free)
    case True
    then obtain e q where e: "add_duration now duration = Inr e" "b"
      and c: "zk_create zk (holder_path path) (lease_encode ident (strftime e)) False False False w3 = Some (Inr q, w')"
      using create by (auto simp: io_bind_eq_Inr io_sum_def io_return_def split: sum.splits)
    have "node w' = Some (lease_encode ident (strftime e))" using assms(1) c unfolding node_server_def by metis
    then show ?thesis using now e True taken by auto
  next
    case False
    then show ?thesis using create taken now by (auto simp: io_return_def)
  qed
qed

lemma io_snd_cases:
  assumes "io_snd m ((t, s), w) = Some (r, x)"
  obtains s' w' where "m (s, w) = Some (r, (s', w'))" "x = ((t, s'), w')"
  using assms by (auto simp: io_snd_def)

lemma io_lift_cases:
  assumes "io_lift m (s, w) = Some (r, x)"
  obtains w' where "m w = Some (r, w')" "x = (s, w')"
  using assms by (auto simp: io_lift_def)

lemma io_finally_cases:
  assumes "io_finally m f w = Some (r, w')"
  obtains r1 w1 r2 where "m w = Some (r1, w1)" "f w1 = Some (r2, w')"
proof -
  obtain r1 w1 where m: "m w = Some (r1, w1)" using assms by (cases "m w") (auto simp: io_finally_def)
  obtain r2 w2 where f: "f w1 = Some (r2, w2)" using assms m by (cases "f w1") (auto simp: io_finally_def)
  show ?thesis using that [OF m, of r2] f assms m by (cases r2) (auto simp: io_finally_def)
qed

text \<open>When the flag is set at the end, the lock was acquired and the block obtained the lease.\<close>

lemma lease_attempt_obtained:
  assumes "plain_env env" and "\<not> lk_is_acquired l0"
    and "lease_attempt env r utcnow path duration ident ((False, l0), w) = Some (res, ((True, l'), w'))"
  shows "\<exists>x w0 l1 w1 w2 y l2. zk_ensure_path (le_zk env) path w = Some (Inr x, w0)
    \<and> acquire env True None True (l0, w0) = Some (Inr True, (l1, w1)) \<and> lk_is_acquired l1
    \<and> lease_body (le_zk env) utcnow path duration ident w1 = Some (Inr True, w2)
    \<and> lock_exit env r (l1, w2) = Some (y, (l2, w'))"
proof -
  let ?block = "io_bind (io_lift (lease_body (le_zk env) utcnow path duration ident)) (\<lambda>obtained.
      if obtained then io_modify (\<lambda>(_, l). (True, l)) else io_return ())"
  let ?with = "io_bind (io_snd (lock_enter env)) (\<lambda>_. io_finally ?block (io_snd (lock_exit env r)))"
  obtain x w0 where ensure: "zk_ensure_path (le_zk env) path w = Some (Inr x, w0)"
    and caught: "io_catch ?with (\<lambda>e. e = CancelledError) (\<lambda>_. io_return ()) ((False, l0), w0) = Some (res, ((True, l'), w'))"
    using assms(3) unfolding lease_attempt_def by (auto elim!: io_bind_cases io_lift_cases)
  from caught obtain r1 where "?with ((False, l0), w0) = Some (r1, ((True, l'), w'))"
    by (cases rule: io_catch_cases) auto
  then obtain l1 w1 where enter: "lock_enter env (l0, w0) = Some (Inr (), (l1, w1))"
    and fin: "io_finally ?block (io_snd (lock_exit env r)) ((False, l1), w1) = Some (r1, ((True, l'), w'))"
    by (auto elim!: io_bind_cases io_snd_cases)
  obtain b where acq: "acquire env True None True (l0, w0) = Some (Inr b, (l1, w1))"
    using enter by (auto simp: lock_enter_def io_bind_eq_Inr)
  have start: "unlocked (l0, w0)" using assms(2) by (simp add: unlocked_def)
  have held: "b" "lk_is_acquired l1"
    using io_satD [OF acquire_blocking_ends [OF assms(1)] start acq] by (simp_all add: acquire_ends_def unlocked_def)
  obtain rb f l2 w2 where block: "?block ((False, l1), w1) = Some (rb, ((f, l2), w2))"
    and exit: "\<exists>x. io_snd (lock_exit env r) ((f, l2), w2) = Some (x, ((True, l'), w'))"
    using fin by (elim io_finally_cases) (metis prod.collapse)
  have f: "f" using exit by (auto elim!: io_snd_cases)
  from block have body: "lease_body (le_zk env) utcnow path duration ident w1 = Some (Inr True, w2) \<and> l2 = l1"
  proof (cases rule: io_bind_cases)
    case (raised e)
    then show ?thesis using f by (auto elim!: io_lift_cases)
  next
    case (returned x lw)
    then show ?thesis using f by (cases x) (auto elim!: io_lift_cases)
  qed
  have "\<exists>y l3. lock_exit env r (l1, w2) = Some (y, (l3, w'))"
    using exit body by (auto elim!: io_snd_cases)
  moreover have "acquire env True None True (l0, w0) = Some (Inr True, (l1, w1))" using acq held(1) by simp
  ultimately show ?thesis using ensure held(2) body by blast
qed

lemma non_blocking_lease_obtained:
  assumes "plain_env env"
    and "non_blocking_lease env r utcnow uuid hostname path duration identifier w = Some (Inr True, w')"
  shows "\<exists>x w0 l1 w1 w2 y l2. zk_ensure_path (le_zk env) path w = Some (Inr x, w0)
    \<and> acquire env True None True (lock_init [] uuid (encode_utf8 (lease_ident identifier hostname)) path, w0) = Some (Inr True, (l1, w1))
    \<and> lk_is_acquired l1
    \<and> lease_body (le_zk env) utcnow path duration (lease_ident identifier hostname) w1 = Some (Inr True, w2)
    \<and> lock_exit env r (l1, w2) = Some (y, (l2, w'))"
proof -
  let ?l0 = "lock_init [] uuid (encode_utf8 (lease_ident identifier hostname)) path"
  obtain res obtained l' w1 where run: "lease_attempt env r utcnow path duration (lease_ident identifier hostname) ((False, ?l0), w) = Some (res, ((obtained, l'), w1))"
    using assms(2) by (auto simp: non_blocking_lease_def Let_def)
  then have obtained using assms(2) by (cases res) (auto simp: non_blocking_lease_def Let_def)
  moreover have "w1 = w'" using run assms(2) by (auto simp: non_blocking_lease_def Let_def)
  ultimately show ?thesis using lease_attempt_obtained [OF assms(1)] run by (simp add: lock_init_def lock_new_def)
qed

text \<open>
  C32. A client obtains a lease only with the lock held, and only when there was no lease, when
  the stored lease was its own, or when its clock had reached the end of the stored lease; the
  stored lease is then its own, from its clock's time for the given duration, when the lock is
  released.
\<close>

theorem lease_exclusive:
  assumes "plain_env env" and "node_server (le_zk env) utcnow (holder_path path) node"
    and "non_blocking_lease env r utcnow uuid hostname path duration identifier w = Some (Inr True, w')"
  defines "ident \<equiv> lease_ident identifier hostname"
  shows "\<exists>x w0 l1 w1 now w2 end_lease w3 y l2. zk_ensure_path (le_zk env) path w = Some (Inr x, w0)
    \<and> acquire env True None True (lock_init [] uuid (encode_utf8 ident) path, w0) = Some (Inr True, (l1, w1)) \<and> lk_is_acquired l1
    \<and> utcnow w1 = Some (Inr now, w2)
    \<and> (\<forall>ns t. node w1 = Some (lease_encode (points_string ns) (strftime t)) \<and> list_all scalar ns \<and> in_calendar t
          \<longrightarrow> ident = points_string ns \<or> t - t mod second \<le> now)
    \<and> add_duration now duration = Inr end_lease \<and> node w3 = Some (lease_encode ident (strftime end_lease))
    \<and> lock_exit env r (l1, w3) = Some (y, (l2, w'))"
proof -
  obtain x w0 l1 w1 w3 y l2 where ensure: "zk_ensure_path (le_zk env) path w = Some (Inr x, w0)"
    and acq: "acquire env True None True (lock_init [] uuid (encode_utf8 ident) path, w0) = Some (Inr True, (l1, w1))" "lk_is_acquired l1"
    and body: "lease_body (le_zk env) utcnow path duration ident w1 = Some (Inr True, w3)"
    and exit: "lock_exit env r (l1, w3) = Some (y, (l2, w'))"
    using non_blocking_lease_obtained [OF assms(1,3)] unfolding ident_def by blast
  obtain now w2 e where now: "utcnow w1 = Some (Inr now, w2)"
    and free: "node w1 = None \<or> ebind (lease_decode (node w1)) (lease_takeable ident now) = Inr True"
    and e: "add_duration now duration = Inr e" "node w3 = Some (lease_encode ident (strftime e))"
    using lease_body_outcome [OF assms(2) body] by auto
  have "ident = points_string ns \<or> t - t mod second \<le> now"
    if "node w1 = Some (lease_encode (points_string ns) (strftime t))" "list_all scalar ns" "in_calendar t" for ns t
    using free stored_lease_blocks [OF that(2,3), of ident now] that(1) by simp
  then show ?thesis using ensure acq now e exit by blast
qed

text \<open>A world of the contenders' nodes below \<^verbatim>\<open>/e\<close> and of the lease's node, and a clock that stands still.\<close>

definition demo_lease_env :: "(string list \<times> bytes option) lock_env" where
  "demo_lease_env =
     \<lparr>le_zk = zk_refuse\<lparr>
        zk_create := (\<lambda>p d _ _ _ (ns, b). if p = ''/e/lease_holder'' then Some (Inr p, (ns, Some d))
          else Some (Inr (p @ ''0000000000''), (ns @ [drop 3 p @ ''0000000000''], b))),
        zk_get_children := (\<lambda>_ (ns, b). Some (Inr ns, (ns, b))),
        zk_exists := (\<lambda>_ (ns, b). Some (Inr (if b = None then None else Some blank_stat), (ns, b))),
        zk_get := (\<lambda>_ (ns, b). Some (Inr (b, blank_stat), (ns, b))),
        zk_delete := (\<lambda>p (ns, b). if p = ''/e/lease_holder'' then Some (Inr (), (ns, None)) else Some (Inr (), (removeAll (drop 3 p) ns, b)))\<rparr>,
      le_retry = forever, le_clear = (\<lambda>w. w), le_wait = (\<lambda>_. io_return True), le_cancelled = (\<lambda>_. False),
      le_uncancel = (\<lambda>w. w), le_cancel = (\<lambda>w. w), le_add_listener = (\<lambda>w. w), le_remove_listener = (\<lambda>w. w),
      le_method_lock = (\<lambda>_ _. io_return True), le_method_unlock = (\<lambda>w. w)\<rparr>"

definition demo_now :: int where "demo_now = 737425 * 86400 * second"

definition demo_bob :: bytes where
  "demo_bob = lease_encode (points_string [98, 111, 98]) (strftime (demo_now - second))"

abbreviation demo_clock :: "(string list \<times> bytes option, int) io" where
  "demo_clock \<equiv> io_return demo_now"

lemma demo_lease_simps:
  "zk_create (le_zk demo_lease_env) = (\<lambda>p d _ _ _ (ns, b). if p = ''/e/lease_holder'' then Some (Inr p, (ns, Some d))
      else Some (Inr (p @ ''0000000000''), (ns @ [drop 3 p @ ''0000000000''], b)))"
  "zk_get_children (le_zk demo_lease_env) = (\<lambda>_ (ns, b). Some (Inr ns, (ns, b)))"
  "zk_exists (le_zk demo_lease_env) = (\<lambda>_ (ns, b). Some (Inr (if b = None then None else Some blank_stat), (ns, b)))"
  "zk_get (le_zk demo_lease_env) = (\<lambda>_ (ns, b). Some (Inr (b, blank_stat), (ns, b)))"
  "zk_delete (le_zk demo_lease_env) = (\<lambda>p (ns, b). if p = ''/e/lease_holder'' then Some (Inr (), (ns, None)) else Some (Inr (), (removeAll (drop 3 p) ns, b)))"
  "zk_ensure_path (le_zk demo_lease_env) = (\<lambda>_. io_return True)" "zk_get_w (le_zk demo_lease_env) = (\<lambda>_. io_raise (ZkErr NoNodeError))"
  "zk_retry (le_zk demo_lease_env) = still_env" "le_retry demo_lease_env = forever" "le_clear demo_lease_env = (\<lambda>w. w)"
  "le_wait demo_lease_env = (\<lambda>_. io_return True)" "le_cancelled demo_lease_env = (\<lambda>_. False)" "le_uncancel demo_lease_env = (\<lambda>w. w)"
  "le_add_listener demo_lease_env = (\<lambda>w. w)" "le_remove_listener demo_lease_env = (\<lambda>w. w)"
  "le_method_lock demo_lease_env = (\<lambda>_ _. io_return True)" "le_method_unlock demo_lease_env = (\<lambda>w. w)"
  by (simp_all add: demo_lease_env_def zk_refuse_def)

lemma demo_lease_plain: "plain_env demo_lease_env"
  unfolding plain_env_def io_keeps_def io_sat_def
  by (auto simp: demo_lease_simps io_raise_def io_return_def not_given_up_def still_env_def forever_def retry_init_def split: if_splits)

lemma demo_lease_server: "node_server (le_zk demo_lease_env) demo_clock (holder_path ''/e'') snd"
  by (auto simp: node_server_def demo_lease_simps holder_path_def io_return_def split: if_splits)

abbreviation demo_alice :: bytes where
  "demo_alice \<equiv> lease_encode ''alice'' (strftime (demo_now + second))"

abbreviation demo_lease_lock :: lock where
  "demo_lease_lock \<equiv> lock_init [] ''u'' (encode_utf8 ''alice'') ''/e''"

lemma demo_lease_inner:
  "\<exists>l. inner_acquire demo_lease_env True None True (demo_lease_lock, ([], b)) =
     Some (Inr True, (l, ([''u__lock__0000000000''], b))) \<and> lk_path l = ''/e'' \<and> lk_node l = Some ''u__lock__0000000000''"
proof -
  have first: "get_predecessor [''__lock__''] ''u__lock__'' [''u__lock__0000000000''] ''u__lock__0000000000'' = Inr None"
    by code_simp
  show ?thesis
    by (simp add: inner_acquire_def lock_init_def lock_new_def lock_ensure_path_def demo_lease_simps io_bind_def)
      (subst lock_loop.simps, simp add: lock_predecessor_def demo_lease_simps first io_bind_def)
qed

lemma demo_bob_expired: "ebind (lease_decode (Some demo_bob)) (lease_takeable ''alice'' demo_now) = Inr True"
proof -
  have "list_all scalar [98, 111, 98]" "in_calendar (demo_now - second)"
    by (simp_all add: scalar_def in_calendar_def demo_now_def second_def days_before_year_def max_date_time_def)
  from stored_lease_blocks [OF this] show ?thesis by (simp add: demo_bob_def second_def demo_now_def)
qed

lemma demo_lease_body:
  "lease_body (le_zk demo_lease_env) demo_clock ''/e'' second ''alice'' (ns, Some demo_bob) = Some (Inr True, (ns, Some demo_alice))"
proof -
  obtain data where d: "lease_decode (Some demo_bob) = Inr data" "lease_takeable ''alice'' demo_now data = Inr True"
    using demo_bob_expired by (auto simp: ebind_eq_Inr)
  have e: "add_duration demo_now second = Inr (demo_now + second)"
    by (simp add: add_duration_def demo_now_def second_def max_date_time_def)
  show ?thesis
    by (simp add: lease_body_def demo_lease_simps holder_path_def io_bind_def d e)
qed

theorem lease_exclusive_witness:
  "non_blocking_lease demo_lease_env forever demo_clock ''u'' ''host'' ''/e'' second (Some ''alice'') ([], Some demo_bob)
      = Some (Inr True, ([], Some demo_alice))
    \<and> (\<exists>w0 l1 w1. acquire demo_lease_env True None True (demo_lease_lock, w0) = Some (Inr True, (l1, w1)) \<and> lk_is_acquired l1)
    \<and> (\<exists>t w3. add_duration demo_now second = Inr t \<and> snd w3 = Some (lease_encode ''alice'' (strftime t)))"
proof -
  let ?held = "[''u__lock__0000000000'']"
  obtain l where inner: "inner_acquire demo_lease_env True None True (demo_lease_lock, ([], Some demo_bob)) = Some (Inr True, (l, (?held, Some demo_bob)))"
    and l: "lk_path l = ''/e''" "lk_node l = Some ''u__lock__0000000000''"
    using demo_lease_inner by blast
  let ?l1 = "l\<lparr>lk_is_acquired := True\<rparr>" and ?l2 = "l\<lparr>lk_is_acquired := False, lk_node := None\<rparr>"
  have retry: "forever\<lparr>deadline := None\<rparr> = forever" by (simp add: forever_def retry_init_def)
  have free: "\<not> lk_is_acquired demo_lease_lock" by (simp add: lock_init_def lock_new_def)
  have "io_retry_self (le_zk demo_lease_env) forever (inner_acquire demo_lease_env True None True) (demo_lease_lock, ([], Some demo_bob)) =
      Some (Inr True, (l, (?held, Some demo_bob)))"
    by (rule io_retry_self_forever(1)) (simp_all add: demo_lease_simps inner)
  then have acq: "acquire demo_lease_env True None True (demo_lease_lock, ([], Some demo_bob)) = Some (Inr True, (?l1, (?held, Some demo_bob)))"
    by (simp add: acquire_def acquire_locked_def demo_lease_simps retry free io_bind_def io_catch_def io_finally_def)
  have "inner_release demo_lease_env (?l1, (?held, Some demo_alice)) = Some (Inr True, (?l2, ([], Some demo_alice)))"
    using l by (simp add: inner_release_def delete_node_def demo_lease_simps io_bind_def io_catch_def)
  then have "release demo_lease_env forever (?l1, (?held, Some demo_alice)) = Some (Inr True, (?l2, ([], Some demo_alice)))"
    unfolding release_def forever_simps by (rule io_retry_self_forever(1) [rotated]) (simp add: demo_lease_simps)
  then have run: "non_blocking_lease demo_lease_env forever demo_clock ''u'' ''host'' ''/e'' second (Some ''alice'') ([], Some demo_bob)
      = Some (Inr True, ([], Some demo_alice))"
    using acq demo_lease_body [of ?held]
    by (simp add: non_blocking_lease_def lease_ident_def lease_attempt_def lock_enter_def lock_exit_def demo_lease_simps
        io_lift_def io_snd_def io_bind_def io_catch_def io_finally_def)
  have "lease_ident (Some ''alice'') ''host'' = ''alice''" by (simp add: lease_ident_def)
  note holds = lease_exclusive [OF demo_lease_plain demo_lease_server run, unfolded this]
  from holds have "\<exists>w0 l1 w1. acquire demo_lease_env True None True (demo_lease_lock, w0) = Some (Inr True, (l1, w1)) \<and> lk_is_acquired l1"
    by blast
  moreover from holds have "\<exists>t w3. add_duration demo_now second = Inr t \<and> snd w3 = Some (lease_encode ''alice'' (strftime t))"
    by (fastforce simp: io_return_def)
  ultimately show ?thesis using run by blast
qed

section \<open>The leases of a multiple lease\<close>

text \<open>The first lease that can be had is taken, and none is tried after it.\<close>

lemma try_leases_first:
  assumes "try_leases lease nums w = Some (Inr b, w')"
  shows "if b then \<exists>pre num post w1. nums = pre @ num # post \<and> try_leases lease pre w = Some (Inr False, w1) \<and> lease num w1 = Some (Inr True, w')
    else \<forall>num \<in> set nums. \<exists>w1 w2. lease num w1 = Some (Inr False, w2)"
  using assms
proof (induction nums arbitrary: w)
  case (Cons num nums)
  obtain x w1 where x: "lease num w = Some (Inr x, w1)"
    and rest: "(if x then io_return True else try_leases lease nums) w1 = Some (Inr b, w')"
    using Cons.prems by (auto simp: io_bind_eq_Inr)
  show ?case
  proof (cases x)
    case True
    then have "b" "w' = w1" using rest by (simp_all add: io_return_def)
    then show ?thesis using True x by (auto intro: exI [of _ "[]"])
  next
    case False
    then have run: "try_leases lease nums w1 = Some (Inr b, w')" using rest by simp
    show ?thesis
    proof (cases b)
      case True
      then obtain pre num' post w2 where "nums = pre @ num' # post" "try_leases lease pre w1 = Some (Inr False, w2)" "lease num' w2 = Some (Inr True, w')"
        using Cons.IH [OF run] by auto
      then have "num # nums = (num # pre) @ num' # post" "try_leases lease (num # pre) w = Some (Inr False, w2)"
        using x False by (simp_all add: io_bind_def)
      with \<open>lease num' w2 = _\<close> True show ?thesis by (metis (no_types, lifting))
    next
      case nb: False
      then show ?thesis using Cons.IH [OF run] x False by auto
    qed
  qed
qed (simp add: io_return_def)

end
