(* ===== verification/Sockets.thy ===== *)
theory Sockets
  imports World
begin

unbundle bit_operations_syntax

text \<open>
  The sockets of \<^verbatim>\<open>kazoo/handlers/utils.py\<close>: \<^verbatim>\<open>create_tcp_socket\<close>, \<^verbatim>\<open>create_socket_pair\<close> and
  \<^verbatim>\<open>create_tcp_connection\<close> with its TLS context. The socket module that a handler passes (the
  standard one, or the green one of its library) is a record of computations.
\<close>

section \<open>The socket module\<close>

text \<open>
  \<open>'s\<close> is the type of sockets. A connection attempt of \<^verbatim>\<open>create_connection\<close> is \<^term>\<open>None\<close> when it
  raises \<^verbatim>\<open>InterruptedError\<close>; \<^verbatim>\<open>connect\<close> is \<^term>\<open>Some\<close> of the error's number when it raises
  \<^verbatim>\<open>module.error\<close>. What a platform may lack is an option.
\<close>

record ('w, 's) socket_module =
  sm_monotonic :: "('w, rat) io"
  sm_default_timeout :: "('w, rat option) io"
  sm_socket :: "int \<Rightarrow> int \<Rightarrow> ('w, 's) io"
  sm_socketpair :: "('w, 's \<times> 's) io option"
  sm_create_connection :: "string \<times> int \<Rightarrow> rat option \<Rightarrow> ('w, 's option) io"
  sm_connect :: "'s \<Rightarrow> string \<times> int \<Rightarrow> ('w, int option) io"
  sm_setblocking :: "'s \<Rightarrow> bool \<Rightarrow> ('w, unit) io"
  sm_settimeout :: "'s \<Rightarrow> rat option \<Rightarrow> ('w, unit) io"
  sm_bind :: "'s \<Rightarrow> string \<times> int \<Rightarrow> ('w, unit) io"
  sm_port :: "'s \<Rightarrow> ('w, int) io"
  sm_listen :: "'s \<Rightarrow> int \<Rightarrow> ('w, unit) io"
  sm_select_read :: "'s \<Rightarrow> rat \<Rightarrow> ('w, bool) io"
  sm_accept :: "'s \<Rightarrow> ('w, 's) io"
  sm_nodelay :: "'s \<Rightarrow> ('w, unit) io"
  sm_fcntl :: "(('s \<Rightarrow> ('w, int) io) \<times> ('s \<Rightarrow> int \<Rightarrow> ('w, unit) io)) option"
  sm_getaddrinfo :: "string \<times> int \<Rightarrow> ('w, int list) io"
  sm_AF_INET :: int
  sm_SOCK_STREAM :: int
  sm_SOCK_CLOEXEC :: "int option"
  sm_FD_CLOEXEC :: int
  sm_EWOULDBLOCK :: int

definition set_fd_cloexec :: "('w, 's) socket_module \<Rightarrow> 's \<Rightarrow> ('w, unit) io" where
  "set_fd_cloexec m s =
     (case sm_fcntl m of
        None \<Rightarrow> io_return ()
      | Some (getfd, setfd) \<Rightarrow> io_bind (getfd s) (\<lambda>flags. setfd s (flags OR sm_FD_CLOEXEC m)))"

definition set_default_tcpsock_options :: "('w, 's) socket_module \<Rightarrow> 's \<Rightarrow> ('w, 's) io" where
  "set_default_tcpsock_options m s =
     io_bind (sm_nodelay m s) (\<lambda>_. io_bind (set_fd_cloexec m s) (\<lambda>_. io_return s))"

definition create_tcp_socket :: "('w, 's) socket_module \<Rightarrow> ('w, 's) io" where
  "create_tcp_socket m =
     (let type = (case sm_SOCK_CLOEXEC m of None \<Rightarrow> sm_SOCK_STREAM m | Some f \<Rightarrow> sm_SOCK_STREAM m OR f)
      in io_bind (sm_socket m (sm_AF_INET m) type) (set_default_tcpsock_options m))"

section \<open>A pair of sockets\<close>

definition emulated_pair :: "('w, 's) socket_module \<Rightarrow> int \<Rightarrow> ('w, 's \<times> 's) io" where
  "emulated_pair m port =
     io_bind (sm_socket m (sm_AF_INET m) (sm_SOCK_STREAM m)) (\<lambda>temp_srv_sock.
     io_bind (sm_setblocking m temp_srv_sock False) (\<lambda>_.
     io_bind (sm_bind m temp_srv_sock ('''', port)) (\<lambda>_.
     io_bind (sm_port m temp_srv_sock) (\<lambda>port.
     io_bind (sm_listen m temp_srv_sock 1) (\<lambda>_.
     io_bind (sm_socket m (sm_AF_INET m) (sm_SOCK_STREAM m)) (\<lambda>client_sock.
     io_bind (sm_setblocking m client_sock False) (\<lambda>_.
     io_bind (sm_connect m client_sock (''localhost'', port)) (\<lambda>err.
       if (case err of Some errno \<Rightarrow> errno \<noteq> sm_EWOULDBLOCK m | None \<Rightarrow> False) then io_raise PyOSError
       else io_bind (sm_select_read m temp_srv_sock 1) (\<lambda>readable.
         if \<not> readable then io_raise PyException
         else io_bind (sm_accept m temp_srv_sock) (\<lambda>srv_sock. io_return (client_sock, srv_sock)))))))))))"

definition create_socket_pair :: "('w, 's) socket_module \<Rightarrow> int \<Rightarrow> ('w, 's \<times> 's) io" where
  "create_socket_pair m port =
     (case sm_socketpair m of Some pair \<Rightarrow> pair | None \<Rightarrow> emulated_pair m port)"

section \<open>The TLS context\<close>

text \<open>
  The context of Python's \<^verbatim>\<open>ssl\<close> that the code configures. Python keeps \<^verbatim>\<open>check_hostname\<close> and
  \<^verbatim>\<open>verify_mode\<close> consistent: checking the name turns verification on, and verification cannot
  be turned off while the name is checked. Loading certificates and setting ciphers is OpenSSL's
  part and may raise.
\<close>

record ssl_context =
  sc_options :: int
  sc_ciphers :: "string option"
  sc_check_hostname :: bool
  sc_cert_required :: bool
  sc_ca :: "string option"
  sc_chain :: "(string \<times> string \<times> string option) option"

definition set_check_hostname :: "bool \<Rightarrow> ssl_context \<Rightarrow> ssl_context" where
  "set_check_hostname check c =
     c\<lparr>sc_check_hostname := check, sc_cert_required := sc_cert_required c \<or> check\<rparr>"

definition set_verify_mode :: "bool \<Rightarrow> ssl_context \<Rightarrow> exc + ssl_context" where
  "set_verify_mode required c =
     (if \<not> required \<and> sc_check_hostname c then Inl PyValueError else Inr (c\<lparr>sc_cert_required := required\<rparr>))"

record openssl =
  os_default_options :: int
  os_NO_SSLv2 :: int
  os_NO_SSLv3 :: int
  os_set_ciphers :: "string \<Rightarrow> exc + unit"
  os_load_default_certs :: "exc + unit"
  os_load_ca :: "string \<Rightarrow> exc + unit"
  os_load_chain :: "string \<Rightarrow> string \<Rightarrow> string option \<Rightarrow> exc + unit"

record tls_settings =
  ts_hostname :: "string option"
  ts_ca :: "string option"
  ts_certfile :: "string option"
  ts_keyfile :: "string option"
  ts_keyfile_password :: "string option"
  ts_verify_certs :: bool
  ts_check_hostname :: bool
  ts_options :: "int option"
  ts_ciphers :: "string option"

text \<open>An optional string that is not empty.\<close>

definition given :: "string option \<Rightarrow> string option" where
  "given s = (if s = Some '''' then None else s)"

definition tls_context :: "openssl \<Rightarrow> tls_settings \<Rightarrow> exc + ssl_context" where
  "tls_context lib s =
     (let context = \<lparr>sc_options = os_default_options lib, sc_ciphers = None, sc_check_hostname = True,
                     sc_cert_required = True, sc_ca = None, sc_chain = None\<rparr>;
          context = context\<lparr>sc_options := (case ts_options s of Some opts \<Rightarrow> opts
                             | None \<Rightarrow> sc_options context OR os_NO_SSLv2 lib OR os_NO_SSLv3 lib)\<rparr>
      in ebind (case given (ts_ciphers s) of None \<Rightarrow> Inr context
                | Some cs \<Rightarrow> ebind (os_set_ciphers lib cs) (\<lambda>_. Inr (context\<lparr>sc_ciphers := Some cs\<rparr>))) (\<lambda>context.
         ebind (os_load_default_certs lib) (\<lambda>_.
           if ts_check_hostname s \<and> \<not> ts_verify_certs s then Inl PyValueError
           else ebind (set_verify_mode (ts_verify_certs s) (set_check_hostname (ts_check_hostname s) context)) (\<lambda>context.
             ebind (case given (ts_ca s) of None \<Rightarrow> Inr context
                    | Some ca \<Rightarrow> ebind (os_load_ca lib ca) (\<lambda>_. Inr (context\<lparr>sc_ca := Some ca\<rparr>))) (\<lambda>context.
             case (given (ts_certfile s), given (ts_keyfile s)) of
               (Some cert, Some key) \<Rightarrow>
                 ebind (os_load_chain lib cert key (ts_keyfile_password s)) (\<lambda>_.
                   Inr (context\<lparr>sc_chain := Some (cert, key, ts_keyfile_password s)\<rparr>))
             | _ \<Rightarrow> Inr context)))))"

section \<open>The connection\<close>

text \<open>TLS: the wrapper of \<^verbatim>\<open>wrap_socket\<close> and the settings, when \<^verbatim>\<open>use_ssl\<close> is set.\<close>

type_synonym ('w, 's) tls = "openssl \<times> (ssl_context \<Rightarrow> 's \<Rightarrow> string option \<Rightarrow> ('w, 's) io) \<times> tls_settings"

definition tls_connect :: "('w, 's) socket_module \<Rightarrow> ('w, 's) tls \<Rightarrow> string \<times> int \<Rightarrow> rat option \<Rightarrow> ('w, 's) io" where
  "tls_connect m tls address timeout_at =
     (case tls of (lib, wrap_socket, s) \<Rightarrow>
        io_bind (io_sum (tls_context lib s)) (\<lambda>context.
        io_bind (sm_getaddrinfo m address) (\<lambda>addrs.
          case addrs of
            [] \<Rightarrow> io_raise PyIndexError
          | family # _ \<Rightarrow>
              io_bind (sm_socket m family (sm_SOCK_STREAM m)) (\<lambda>sock.
              io_bind (wrap_socket context sock (ts_hostname s)) (\<lambda>conn.
              io_bind (sm_settimeout m conn timeout_at) (\<lambda>_.
              io_bind (sm_connect m conn address) (\<lambda>err.
                if err = None then io_return conn else io_raise PyOSError)))))))"

definition time_left :: "('w, 's) socket_module \<Rightarrow> rat option \<Rightarrow> ('w, rat option) io" where
  "time_left m end_at =
     (case end_at of None \<Rightarrow> io_return None | Some e \<Rightarrow> io_bind (sm_monotonic m) (\<lambda>now. io_return (Some (e - now))))"

text \<open>One attempt, \<^term>\<open>None\<close> when it was interrupted; that is caught without TLS only.\<close>

definition tcp_attempt :: "('w, 's) socket_module \<Rightarrow> ('w, 's) tls option \<Rightarrow> string \<times> int \<Rightarrow> rat option \<Rightarrow> ('w, 's option) io" where
  "tcp_attempt m tls address timeout_at =
     (case tls of
        Some tls \<Rightarrow> io_bind (tls_connect m tls address timeout_at) (\<lambda>conn. io_return (Some conn))
      | None \<Rightarrow> sm_create_connection m address timeout_at)"

text \<open>The loop: \<^term>\<open>None\<close> when the time is over. Without a time-out it may be interrupted for ever.\<close>

definition time_over :: "rat option \<Rightarrow> bool" where
  "time_over timeout_at \<longleftrightarrow> (case timeout_at of Some t \<Rightarrow> t \<le> 0 | None \<Rightarrow> False)"

partial_function (option) tcp_loop :: "('w, 's) socket_module \<Rightarrow> ('w, 's) tls option \<Rightarrow> string \<times> int \<Rightarrow> rat option
    \<Rightarrow> 'w \<Rightarrow> ((exc + 's option) \<times> 'w) option" where
  "tcp_loop m tls address end_at w =
     io_bind (time_left m end_at) (\<lambda>timeout_at w.
       if time_over timeout_at then Some (Inr None, w)
       else io_bind (tcp_attempt m tls address timeout_at) (\<lambda>sock w.
         if sock = None then tcp_loop m tls address end_at w else Some (Inr sock, w)) w) w"

definition create_tcp_connection :: "('w, 's) socket_module \<Rightarrow> ('w, 's) tls option \<Rightarrow> string \<times> int \<Rightarrow> rat option
    \<Rightarrow> ('w, 's) io" where
  "create_tcp_connection m tls address timeout =
     io_bind (if timeout = None then sm_default_timeout m else io_return timeout) (\<lambda>timeout.
     io_bind (case timeout of None \<Rightarrow> io_return None
              | Some t \<Rightarrow> io_bind (sm_monotonic m) (\<lambda>now. io_return (Some (now + t)))) (\<lambda>end_at.
     io_bind (tcp_loop m tls address end_at) (\<lambda>sock.
       case sock of None \<Rightarrow> io_raise PyOSError | Some s \<Rightarrow> set_default_tcpsock_options m s)))"

section \<open>The TLS context has the settings that were asked for\<close>

definition openssl_accepts :: "openssl \<Rightarrow> tls_settings \<Rightarrow> bool" where
  "openssl_accepts lib s \<longleftrightarrow> (\<forall>cs \<in> set_option (given (ts_ciphers s)). os_set_ciphers lib cs = Inr ())
     \<and> os_load_default_certs lib = Inr () \<and> (\<forall>ca \<in> set_option (given (ts_ca s)). os_load_ca lib ca = Inr ())
     \<and> (\<forall>cert \<in> set_option (given (ts_certfile s)). \<forall>key \<in> set_option (given (ts_keyfile s)).
          os_load_chain lib cert key (ts_keyfile_password s) = Inr ())"

text \<open>
  When OpenSSL accepts what it is given, the context has exactly the settings that were asked
  for, old protocols off unless the options say otherwise, and the only failure is the refusal to
  check a host name without verifying certificates: the order of the assignments never makes
  Python refuse one.
\<close>

theorem tls_context_settings:
  assumes "openssl_accepts lib s"
  shows "tls_context lib s =
    (if ts_check_hostname s \<and> \<not> ts_verify_certs s then Inl PyValueError
     else Inr \<lparr>sc_options = (case ts_options s of Some opts \<Rightarrow> opts
                   | None \<Rightarrow> os_default_options lib OR os_NO_SSLv2 lib OR os_NO_SSLv3 lib),
               sc_ciphers = given (ts_ciphers s), sc_check_hostname = ts_check_hostname s,
               sc_cert_required = ts_verify_certs s, sc_ca = given (ts_ca s),
               sc_chain = (case (given (ts_certfile s), given (ts_keyfile s)) of
                   (Some cert, Some key) \<Rightarrow> Some (cert, key, ts_keyfile_password s) | _ \<Rightarrow> None)\<rparr>)"
  using assms
  by (simp add: tls_context_def openssl_accepts_def set_verify_mode_def set_check_hostname_def Let_def split: option.split)

definition demo_openssl :: openssl where
  "demo_openssl = \<lparr>os_default_options = 0, os_NO_SSLv2 = 0, os_NO_SSLv3 = 0x2000000, os_set_ciphers = (\<lambda>_. Inr ()),
     os_load_default_certs = Inr (), os_load_ca = (\<lambda>_. Inr ()), os_load_chain = (\<lambda>_ _ _. Inr ())\<rparr>"

definition demo_tls :: tls_settings where
  "demo_tls = \<lparr>ts_hostname = None, ts_ca = Some ''ca.pem'', ts_certfile = Some ''c.pem'', ts_keyfile = None, ts_keyfile_password = None,
     ts_verify_certs = False, ts_check_hostname = False, ts_options = None, ts_ciphers = Some ''''\<rparr>"

theorem tls_context_settings_witness:
  "tls_context demo_openssl demo_tls = Inr \<lparr>sc_options = 0x2000000, sc_ciphers = None, sc_check_hostname = False,
     sc_cert_required = False, sc_ca = Some ''ca.pem'', sc_chain = None\<rparr>
   \<and> tls_context demo_openssl (demo_tls\<lparr>ts_check_hostname := True\<rparr>) = Inl PyValueError"
proof -
  have "openssl_accepts demo_openssl demo_tls" "openssl_accepts demo_openssl (demo_tls\<lparr>ts_check_hostname := True\<rparr>)"
    by (simp_all add: openssl_accepts_def demo_openssl_def)
  from this [THEN tls_context_settings] show ?thesis
    by (simp add: demo_openssl_def demo_tls_def given_def)
qed

section \<open>A connection attempt ends in time\<close>

text \<open>
  What is relied on: the clock does not go back, an attempt returns, and takes some time when it
  is interrupted; setting the options of a socket returns.
\<close>

definition clocked :: "('w, 's) socket_module \<Rightarrow> rat \<Rightarrow> ('w \<Rightarrow> rat) \<Rightarrow> bool" where
  "clocked m tick clock \<longleftrightarrow> 0 < tick
   \<and> (\<forall>w. \<exists>w'. sm_monotonic m w = Some (Inr (clock w'), w') \<and> clock w \<le> clock w')
   \<and> (\<forall>a t w. \<exists>r w'. sm_create_connection m a t w = Some (r, w') \<and> clock w + (if r = Inr None then tick else 0) \<le> clock w')
   \<and> (\<forall>s w. set_default_tcpsock_options m s w \<noteq> None)"

text \<open>The same module, except that an attempt whose time limit is not above zero and within \<open>bound\<close> raises.\<close>

definition in_time :: "('w, 's) socket_module \<Rightarrow> rat \<Rightarrow> ('w, 's) socket_module" where
  "in_time m bound = m\<lparr>sm_create_connection := (\<lambda>a t w.
     if (case t of Some t \<Rightarrow> 0 < t \<and> t \<le> bound | None \<Rightarrow> False) then sm_create_connection m a t w
     else Some (Inl PyAssertionError, w))\<rparr>"

lemma in_time_simps [simp]:
  "sm_monotonic (in_time m bound) = sm_monotonic m"
  "set_default_tcpsock_options (in_time m bound) s = set_default_tcpsock_options m s"
  "sm_create_connection (in_time m bound) a (Some t) =
     (if 0 < t \<and> t \<le> bound then sm_create_connection m a (Some t) else io_raise PyAssertionError)"
  by (auto simp: in_time_def set_default_tcpsock_options_def set_fd_cloexec_def io_raise_def fun_eq_iff split: option.split)

lemma tcp_loop_step:
  assumes "sm_monotonic m w = Some (Inr now, w1)"
  shows "tcp_loop m tls a (Some e) w =
    (if e \<le> now then Some (Inr None, w1)
     else io_bind (tcp_attempt m tls a (Some (e - now))) (\<lambda>sock w.
       if sock = None then tcp_loop m tls a (Some e) w else Some (Inr sock, w)) w1)"
  by (subst tcp_loop.simps) (simp add: time_left_def assms time_over_def io_bind_Some(1) cong: if_cong)

lemma tcp_loop_in_time:
  assumes m: "clocked m tick clock" and "e \<le> clock w + bound" and "e \<le> clock w + of_nat n * tick"
  shows "\<exists>r w'. tcp_loop m None a (Some e) w = Some (r, w') \<and> tcp_loop (in_time m bound) None a (Some e) w = Some (r, w')"
  using assms(2,3)
proof (induction n arbitrary: w)
  case 0
  obtain w1 where w1: "sm_monotonic m w = Some (Inr (clock w1), w1)" "clock w \<le> clock w1"
    using m unfolding clocked_def by blast
  then have "e \<le> clock w1" using 0 by simp
  then show ?case using tcp_loop_step [of m w, OF w1(1)] tcp_loop_step [of "in_time m bound" w "clock w1" w1] w1 by simp
next
  case (Suc n)
  obtain w1 where w1: "sm_monotonic m w = Some (Inr (clock w1), w1)" "clock w \<le> clock w1"
    using m unfolding clocked_def by blast
  note steps = tcp_loop_step [of m w, OF w1(1)] tcp_loop_step [of "in_time m bound" w "clock w1" w1, simplified, OF w1(1)]
  show ?case
  proof (cases "e \<le> clock w1")
    case True
    then show ?thesis by (simp add: steps)
  next
    case False
    then have limit: "0 < e - clock w1" "e - clock w1 \<le> bound" using Suc.prems(1) w1(2) by simp_all
    obtain r w2 where r: "sm_create_connection m a (Some (e - clock w1)) w1 = Some (r, w2)"
      and c: "clock w1 + (if r = Inr None then tick else 0) \<le> clock w2"
      using m unfolding clocked_def by blast
    show ?thesis
    proof (cases "r = Inr None")
      case True
      have "0 < tick" using m by (simp add: clocked_def)
      then have "e \<le> clock w2 + bound" "e \<le> clock w2 + of_nat n * tick"
        using True c w1(2) Suc.prems by (simp_all add: algebra_simps)
      from Suc.IH [OF this] show ?thesis using True False limit r by (simp add: steps tcp_attempt_def)
    next
      case other: False
      then show ?thesis using False limit r by (cases r) (auto simp: steps tcp_attempt_def)
    qed
  qed
qed

text \<open>
  C34. Without TLS a connection with a time-out is settled, however often it is interrupted: every
  attempt gets a time limit that is above zero and not beyond the time-out, since nothing changes
  when all other attempts are refused; and with no time at all, none is made.
\<close>

theorem tcp_connection_in_time:
  assumes "clocked m tick clock"
  shows "\<exists>r w'. create_tcp_connection m None address (Some timeout) w = Some (r, w')
    \<and> create_tcp_connection (in_time m timeout) None address (Some timeout) w = Some (r, w')
    \<and> (timeout \<le> 0 \<longrightarrow> r = Inl PyOSError)"
proof -
  obtain w1 where w1: "sm_monotonic m w = Some (Inr (clock w1), w1)"
    using assms unfolding clocked_def by blast
  let ?e = "clock w1 + timeout"
  have "0 < tick" using assms by (simp add: clocked_def)
  then obtain n where "timeout < of_nat n * tick" using ex_less_of_nat_mult by blast
  then have "?e \<le> clock w1 + of_nat n * tick" by simp
  from tcp_loop_in_time [OF assms order_refl this] obtain r w2 where
    r: "tcp_loop m None address (Some ?e) w1 = Some (r, w2)" "tcp_loop (in_time m timeout) None address (Some ?e) w1 = Some (r, w2)"
    by blast
  have none: "r = Inr None" if "timeout \<le> 0"
  proof -
    obtain w3 where "sm_monotonic m w1 = Some (Inr (clock w3), w3)" "clock w1 \<le> clock w3"
      using assms unfolding clocked_def by blast
    then show ?thesis using r(1) that by (simp add: tcp_loop_step)
  qed
  have set: "\<exists>x w'. set_default_tcpsock_options m s w2 = Some (x, w')" for s
    using assms by (auto simp: clocked_def)
  show ?thesis
  proof (cases r)
    case (Inl e)
    then show ?thesis using w1 r none by (auto simp: create_tcp_connection_def)
  next
    case (Inr sock)
    show ?thesis
    proof (cases sock)
      case None
      then show ?thesis using Inr w1 r by (simp add: create_tcp_connection_def)
    next
      case (Some s)
      then have "\<not> timeout \<le> 0" using none Inr by auto
      moreover obtain x w' where "set_default_tcpsock_options m s w2 = Some (x, w')" using set by blast
      ultimately show ?thesis using Some Inr w1 r by (simp add: create_tcp_connection_def)
    qed
  qed
qed

text \<open>A server that answers after some interruptions, each of a second; the world is the clock and the interruptions to come.\<close>

definition demo_sockets :: "(rat \<times> nat, unit) socket_module" where
  "demo_sockets = \<lparr>sm_monotonic = (\<lambda>(c, n). Some (Inr c, (c, n))), sm_default_timeout = io_return None, sm_socket = (\<lambda>_ _. io_return ()),
     sm_socketpair = None,
     sm_create_connection = (\<lambda>_ _ (c, n). if n = 0 then Some (Inr (Some ()), (c, n)) else Some (Inr None, (c + 1, n - 1))),
     sm_connect = (\<lambda>_ _. io_return None), sm_setblocking = (\<lambda>_ _. io_return ()), sm_settimeout = (\<lambda>_ _. io_return ()),
     sm_bind = (\<lambda>_ _. io_return ()), sm_port = (\<lambda>_. io_return 1), sm_listen = (\<lambda>_ _. io_return ()), sm_select_read = (\<lambda>_ _. io_return True),
     sm_accept = (\<lambda>_. io_return ()), sm_nodelay = (\<lambda>_. io_return ()), sm_fcntl = None, sm_getaddrinfo = (\<lambda>_. io_return [2]),
     sm_AF_INET = 2, sm_SOCK_STREAM = 1, sm_SOCK_CLOEXEC = None, sm_FD_CLOEXEC = 1, sm_EWOULDBLOCK = 11\<rparr>"

lemma demo_sockets_simps:
  "sm_monotonic demo_sockets (c, n) = Some (Inr c, (c, n))"
  "sm_create_connection demo_sockets a t (c, n) = (if n = 0 then Some (Inr (Some ()), (c, n)) else Some (Inr None, (c + 1, n - 1)))"
  "set_default_tcpsock_options demo_sockets s w = Some (Inr s, w)"
  by (simp_all add: demo_sockets_def io_return_def set_default_tcpsock_options_def set_fd_cloexec_def)

lemma demo_sockets_clocked: "clocked demo_sockets 1 fst"
  by (auto simp: clocked_def demo_sockets_simps io_return_def split: if_splits)

lemma demo_sockets_loop:
  "tcp_loop demo_sockets None a (Some e) (c, n) =
    (if e \<le> c then Some (Inr None, (c, n)) else if n = 0 then Some (Inr (Some ()), (c, 0))
     else tcp_loop demo_sockets None a (Some e) (c + 1, n - 1))"
  by (subst tcp_loop_step [OF demo_sockets_simps(1)]) (simp add: tcp_attempt_def io_bind_def demo_sockets_simps)

theorem tcp_connection_in_time_witness:
  "create_tcp_connection (in_time demo_sockets 3) None (''zk'', 2181) (Some 3) (0, 2) = Some (Inr (), (2, 0))
   \<and> create_tcp_connection (in_time demo_sockets 3) None (''zk'', 2181) (Some 3) (0, 7) = Some (Inl PyOSError, (3, 4))"
proof -
  note loop = demo_sockets_loop [where a = "(''zk'', 2181)" and e = 3]
  have "create_tcp_connection demo_sockets None (''zk'', 2181) (Some 3) (0, 2) = Some (Inr (), (2, 0))"
    by (simp add: create_tcp_connection_def io_bind_def io_return_def demo_sockets_simps loop [of 0] loop [of 1] loop [of 2])
  moreover have "create_tcp_connection demo_sockets None (''zk'', 2181) (Some 3) (0, 7) = Some (Inl PyOSError, (3, 4))"
    by (simp add: create_tcp_connection_def io_bind_def io_raise_def demo_sockets_simps io_return_def loop [of 0] loop [of 1] loop [of 2] loop [of 3])
  ultimately show ?thesis
    using tcp_connection_in_time [OF demo_sockets_clocked, of "(''zk'', 2181)" 3 "(0, 2)"]
      tcp_connection_in_time [OF demo_sockets_clocked, of "(''zk'', 2181)" 3 "(0, 7)"] by simp
qed

end
