(* ===== verification/Spec2Isabelle.thy ===== *)
theory Spec2Isabelle
  imports Lifecycle Transport LockProps OperationsProps Counter QueuesProps SemaphoreProps PartitionerProps WatchersProps CacheProps CacheRefine Barrier Party Election Commands GreenHandlers Lease Sockets
begin

text \<open>
  A verification development for \<^verbatim>\<open>kazoo\<close>, the Python client of ZooKeeper
  (\<^verbatim>\<open>src/kazoo\<close>).

  \<^bold>\<open>The program.\<close> A \<^verbatim>\<open>KazooClient\<close> (\<^verbatim>\<open>client.py\<close>) keeps the session: its state, the
  queue of requests that are not sent, the requests that wait for a reply, the watches, the
  listeners. A \<^verbatim>\<open>ConnectionHandler\<close> (\<^verbatim>\<open>protocol/connection.py\<close>) runs in a thread, takes
  requests from that queue, writes them to the socket in the format of
  \<^verbatim>\<open>protocol/serialization.py\<close>, matches the replies, dispatches watch events and tells the
  client through \<^verbatim>\<open>_session_callback\<close> how the session stands. The results are handed to the
  callers as asynchronous results of a handler (\<^verbatim>\<open>handlers/\<close>), which also runs the callbacks
  in order. Paths are normalised and put under a chroot by \<^verbatim>\<open>protocol/paths.py\<close>; operations
  are retried by \<^verbatim>\<open>retry.py\<close>. The recipes (\<^verbatim>\<open>recipe/\<close>) use only the client's operations.

  \<^bold>\<open>How it is modelled.\<close> Code that changes the client's state is a function on a record of that
  state; code that talks to a server is a computation \<^typ>\<open>('w, 'a) io\<close> on a world \<open>'w\<close>, which
  returns, raises (\<^term>\<open>Inl\<close> the exception) or does not return (\<^term>\<open>None\<close>). What is outside
  (servers, sockets, the clock, random numbers, other threads) is an argument of the model: the
  fields of \<^typ>\<open>'w zk\<close>, \<^typ>\<open>'w retry_env\<close>, \<^typ>\<open>'w lock_env\<close> and their like, or the
  events of a run. A theorem that relies on how a server behaves says so in a hypothesis
  (\<open>versioned_server\<close>, \<open>entry_server\<close>, \<open>party_server\<close>, \<open>node_server\<close>, \<open>plain_env\<close>,
  \<open>server_tree_ok\<close>, \<open>clocked\<close>), which its witness discharges for a concrete one. Strings are their UTF-8 bytes, \<^verbatim>\<open>bytes\<close> are lists
  of 8-bit words, integers are \<^typ>\<open>int\<close>; where the wire format bounds them, packing raises.

  \<^bold>\<open>The theories.\<close>
  \<^item> \<open>Prelude\<close>: results that may raise, Python's string operations, list lemmas. \<open>Errors\<close>:
    \<^verbatim>\<open>exceptions.py\<close>. \<open>PyInt\<close>: decimal integers. \<open>States\<close>: \<^verbatim>\<open>protocol/states.py\<close> and the
    locales of invariants, \<open>transition_invariant\<close> for step functions and \<open>relation_invariant\<close> for
    step relations, which every system below interprets.
  \<^item> \<open>Paths\<close>: \<^verbatim>\<open>protocol/paths.py\<close> and the chroot; every operation is related to the list of
    the path's components. \<open>Security\<close>: \<^verbatim>\<open>security.py\<close>.
  \<^item> \<open>Wire\<close>, \<open>Serialization\<close>, \<open>SerializationProps\<close>: \<^verbatim>\<open>protocol/serialization.py\<close>. The locale
    \<open>codec\<close> is the contract between a writer and its reader; the replies that a server writes
    are read as they were written.
  \<^item> \<open>Retry\<close>, \<open>RetryInv\<close>: \<^verbatim>\<open>retry.py\<close>. \<open>World\<close>: the computations and the client's operations
    as the recipes see them. \<open>IoLogic\<close>: triples and invariants of computations.
  \<^item> \<open>Handlers\<close>: \<^verbatim>\<open>handlers/threading.py\<close> and \<^verbatim>\<open>handlers/utils.py\<close>; start and stop are steps of
    one statement each, between which other threads dispatch callbacks and the workers run.
    \<open>GreenHandlers\<close>: \<^verbatim>\<open>handlers/eventlet.py\<close> and \<^verbatim>\<open>handlers/gevent.py\<close> in the same way, over the
    locale \<open>fifo_queue\<close> of their libraries' queues; which callbacks each handler runs, and which a
    stop drops. \<open>Sockets\<close>: sockets, TLS
    contexts and connections of \<^verbatim>\<open>handlers/utils.py\<close>, over a socket module.
  \<^item> \<open>Session\<close>: the session state of \<^verbatim>\<open>client.py\<close>. \<open>Connection\<close>, \<open>ConnectionProps\<close>, \<open>Xids\<close>,
    \<open>Lifecycle\<close>: the connection thread, one turn of its loop a function of what \<^verbatim>\<open>select\<close> reports;
    no caller is lost, replies meet their requests, watches fire once, a dead peer is noticed.
    \<open>Transport\<close>: its loops on the socket. \<open>Hosts\<close>: \<^verbatim>\<open>hosts.py\<close>. \<open>Sasl\<close>: the resolution of the
    hosts, the thread's start, stop and close, and the SASL exchange over an optional library.
    \<open>ClientSetup\<close>: \<^verbatim>\<open>KazooClient.__init__\<close>, \<^verbatim>\<open>add_auth\<close> and \<^verbatim>\<open>restart\<close>. \<open>Commands\<close>: the
    four-letter-word commands and \<^verbatim>\<open>server_version\<close>.
  \<^item> \<open>Operations\<close>, \<open>OperationsProps\<close>: the client's operations on znodes, recursive deletion,
    \<^verbatim>\<open>ensure_path\<close>, transactions.
  \<^item> \<open>Lock\<close>, \<open>LockProps\<close>: \<^verbatim>\<open>recipe/lock.py\<close>, its contenders as one system with a server;
    \<open>Semaphore\<close>, \<open>SemaphoreProps\<close>: the same over the lock's system; \<open>Election\<close>: the lock as a
    context manager and \<^verbatim>\<open>recipe/election.py\<close>.
  \<^item> \<open>Counter\<close>, \<open>Queues\<close>, \<open>QueuesProps\<close>, \<open>Party\<close>, \<open>Barrier\<close>: \<^verbatim>\<open>recipe/counter.py\<close>,
    \<^verbatim>\<open>recipe/queue.py\<close>, \<^verbatim>\<open>recipe/party.py\<close>, \<^verbatim>\<open>recipe/barrier.py\<close>.
  \<^item> \<open>Lease\<close>: \<^verbatim>\<open>recipe/lease.py\<close>, over the lock. \<open>DateTime\<close> and \<open>Json\<close> are what it uses of
    Python's \<^verbatim>\<open>datetime\<close> (instants are microseconds since the first day of year 1) and \<^verbatim>\<open>json\<close>.
  \<^item> \<open>Partitioner\<close>, \<open>PartitionerProps\<close>: \<^verbatim>\<open>recipe/partitioner.py\<close>; \<open>Watchers\<close>,
    \<open>WatchersProps\<close>: \<^verbatim>\<open>recipe/watchers.py\<close>.
  \<^item> \<open>Cache\<close>, \<open>CacheProps\<close>, \<open>CacheRefine\<close>: \<^verbatim>\<open>recipe/cache.py\<close>; the counter of outstanding
    operations, and the refinement: a settled cache is a copy of the server's subtree.

  \<^bold>\<open>Bounds and termination.\<close> Loops that may run for ever are \<^theory_text>\<open>partial_function\<close>s, so that
  not returning is a value; \<open>retry_call_returns\<close> shows that a bounded retry returns. The
  recursions of the tree cache take a depth, and the number of nodes is enough, because a
  child is created after its parent. The offset loops of the readers terminate because the
  offset grows. The JSON reader's fuel, twice the length of the document, is enough, because
  each of its calls consumes some of it (\<open>json_loads_ends\<close>). A TCP connection with a time-out
  returns (\<open>tcp_connection_in_time\<close>).

  \<^bold>\<open>Where the model is coarser than the code.\<close> A call of the client is two steps, the test of the
  state and the entry in the queue; \<^verbatim>\<open>_session_callback\<close> is one. A turn of the connection thread
  is one step after the steps of the other threads since the turn before. When the client itself
  starts or stops its handler this is one step (\<open>handler_start_alone\<close> and \<open>handler_stop_alone\<close> show
  that it is what the single statements come to when nobody interferes). \<^verbatim>\<open>connect\<close> gets the
  credentials as an argument of its environment, next to the server's replies; \<open>added_auth_resent\<close>
  states that they are those of \<^verbatim>\<open>auth_data\<close>. In the cache a
  watch and a background task are one step each, so the code's worker thread running one while
  the handler's thread runs the other is not covered. In the systems of several contenders
  (\<open>LockProps\<close>, \<open>SemaphoreProps\<close>, \<open>Barrier\<close>, \<open>PartitionerProps\<close>) a step is one request of a
  member with the code up to its next request, or a failure; the double barrier is that of its
  first use.

  \<^bold>\<open>Where the code fails.\<close> Some theorems state behaviour that the code hardly intends, among
  them a stale \<^verbatim>\<open>ready\<close> node of a double barrier (\<open>double_barrier_stale_ready\<close>), a semaphore's
  lease created after the lock was lost (\<open>semaphore_late_lease\<close>), callbacks that a stopping handler
  drops (\<open>handler_runs_in_order\<close>), a queue that serves an old listing before a new entry of higher
  priority (\<open>queue_serves_listings\<close>), an acquired partition whose lock is not held
  (\<open>partition_not_locked\<close>), a counter changed twice
  (\<open>counter_change_twice\<close>), a request that cannot be encoded and closes the client
  (\<open>unencodable_request_closes_client\<close>), a deleted child that a cache of the root keeps
  (\<open>cache_root_keeps_deleted\<close>).

  \<^bold>\<open>Not modelled.\<close> The abstract interfaces (\<^verbatim>\<open>interfaces.py\<close>), the test harness (server processes
  and files), logging, the handlers' methods that only hand out a library's locks, events and
  threads, type annotations and overloads. The counter is that of integers: a counter whose
  default is a float reads and writes what Python's \<^verbatim>\<open>float\<close> and \<^verbatim>\<open>repr\<close> compute, which is not
  modelled. Numbers with a fraction in JSON are rationals, unrounded.
\<close>

end
